(* ===== verification/Prelude.thy ===== *)
theory Prelude
  imports Main "HOL-Library.Word"
begin

section \<open>Shared types, results and byte-order lemmas\<close>

text \<open>
  What every component of the development shares: the machine integers of the Ice
  runtime (\<open>Ice::Byte\<close>, \<open>Ice::Short\<close>, \<open>Ice::Int\<close>, \<open>Ice::Long\<close> of
  include/Ice/Config.h) as words of the same width, the exceptions the code throws as
  values, sequencing of fallible operations, and the little-endian byte order in which
  the streams lay integers out.  The collections \<open>res_simps\<close> and \<open>bytes_simps\<close>
  carry the rewrite rules that the component proofs use.
\<close>

named_theorems res_simps
named_theorems bytes_simps

unbundle bit_operations_syntax

type_synonym byte = "8 word"
type_synonym ice_short = "16 word"
type_synonym ice_int = "32 word"
type_synonym ice_long = "64 word"

subsection \<open>Exceptions and sequencing\<close>

text \<open>
  \<open>AssertFailed\<close> is a violated \<open>assert\<close> of the code, \<open>MemoryError\<close> an access
  outside an allocated block (undefined behaviour in C++), the others are the exceptions of
  slice/Ice/LocalException.ice that the modelled code throws, and the parser's own \<open>WebSocketException\<close>.
\<close>

datatype ice_error =
    UnmarshalOutOfBounds
  | EncapsulationError
  | UnsupportedEncoding
  | UnsupportedProtocol
  | MarshalError string
  | StringConversion
  | BadAlloc
  | IllegalArgument string
  | IdentityParseException string
  | InitializationException string
  | FileException string
  | AlreadyRegistered string string
  | NotRegistered string string
  | ObjectNotExist
  | CloseConnection
  | ConnectionManuallyClosed bool
  | ConnectionTimeout
  | ConnectTimeout
  | ReadWriteTimeout
  | CloseTimeout
  | ConnectionLost
  | SocketError nat
  | CommunicatorDestroyed
  | ObjectAdapterDeactivated
  | BadMagic "8 word list"
  | UnknownMessage
  | ConnectionNotValidated
  | IllegalMessageSize
  | MemoryLimit
  | DatagramLimit
  | CompressionError
  | InvocationCanceled
  | InvocationTimeout
  | RetryRequest
  | ProtocolException string
  | WebSocketException string
  | AssertFailed
  | MemoryError

type_synonym 'a result = "ice_error + 'a"

definition and_then :: "'e + 'a \<Rightarrow> ('a \<Rightarrow> 'e + 'b) \<Rightarrow> 'e + 'b" where
  "and_then m f = (case m of Inl e \<Rightarrow> Inl e | Inr x \<Rightarrow> f x)"

lemma and_then_simps [simp, res_simps]:
  "and_then (Inl e) f = Inl e"
  "and_then (Inr x) f = f x"
  by (simp_all add: and_then_def)

lemma and_then_Inr [res_simps]:
  "(and_then m f = Inr y) = (\<exists>x. m = Inr x \<and> f x = Inr y)"
  by (cases m) (auto simp: and_then_def)

lemma and_then_Inl [res_simps]:
  "(and_then m f = Inl e) = (m = Inl e \<or> (\<exists>x. m = Inr x \<and> f x = Inl e))"
  by (cases m) (auto simp: and_then_def)

lemma and_then_assoc: "and_then (and_then m f) g = and_then m (\<lambda>x. and_then (f x) g)"
  by (cases m) (auto simp: and_then_def)

lemma and_then_cong [fundef_cong]:
  "m = m' \<Longrightarrow> (\<And>x. m' = Inr x \<Longrightarrow> f x = f' x) \<Longrightarrow> and_then m f = and_then m' f'"
  by (cases m') (auto simp: and_then_def)

subsection \<open>Little-endian layout\<close>

text \<open>
  The stream functions copy an integer byte by byte, least significant byte first.
  \<open>le_bytes n w\<close> is the \<open>n\<close> bytes of \<open>w\<close> in that order, \<open>le_word\<close> reads them back.
\<close>

fun le_bytes :: "nat \<Rightarrow> 'a::len word \<Rightarrow> byte list" where
  "le_bytes 0 w = []"
| "le_bytes (Suc n) w = ucast w # le_bytes n (drop_bit 8 w)"

fun le_word :: "byte list \<Rightarrow> 'a::len word" where
  "le_word [] = 0"
| "le_word (b # bs) = ucast b OR push_bit 8 (le_word bs)"

lemma length_le_bytes [simp, bytes_simps]: "length (le_bytes n w) = n"
  by (induction n arbitrary: w) simp_all

lemma bit_le_word_le_bytes:
  fixes w :: "'a::len word"
  assumes "k < LENGTH('a)"
  shows "bit (le_word (le_bytes n w) :: 'a word) k \<longleftrightarrow> k < 8 * n \<and> bit w k"
  using assms
proof (induction n arbitrary: w k)
  case 0
  then show ?case by simp
next
  case (Suc n)
  show ?case
  proof (cases "k < 8")
    case True
    then show ?thesis
      using Suc.prems by (auto simp: bit_or_iff bit_push_bit_iff bit_ucast_iff)
  next
    case False
    then have "bit (le_word (le_bytes n (drop_bit 8 w)) :: 'a word) (k - 8)
        \<longleftrightarrow> k - 8 < 8 * n \<and> bit (drop_bit 8 w) (k - 8)"
      using Suc.prems by (intro Suc.IH) simp
    with False Suc.prems show ?thesis
      by (auto simp: bit_or_iff bit_push_bit_iff bit_ucast_iff bit_drop_bit_eq
          dest: bit_imp_le_length)
  qed
qed

lemma le_word_le_bytes [simp, bytes_simps]:
  fixes w :: "'a::len word"
  assumes "LENGTH('a) \<le> 8 * n"
  shows "(le_word (le_bytes n w) :: 'a word) = w"
proof (rule bit_word_eqI)
  fix k assume "k < LENGTH('a)"
  with assms show "bit (le_word (le_bytes n w) :: 'a word) k = bit w k"
    using bit_le_word_le_bytes [of k n w] by auto
qed

subsection \<open>Bytes as numbers\<close>

lemma unat_byte_less: "unat (b :: byte) < 256"
proof -
  have "unat b < 2 ^ LENGTH(8)" by (rule unsigned_less)
  then show ?thesis by simp
qed

lemma byte_le_1: "x \<le> 1 \<longleftrightarrow> x = 0 \<or> x = 1" for x :: byte
proof -
  have "unat x \<le> 1 \<longleftrightarrow> unat x = 0 \<or> unat x = 1" by auto
  then show ?thesis
    by (simp add: word_le_nat_alt word_unat_eq_iff)
qed

subsection \<open>Signed 32-bit integers\<close>

text \<open>\<open>sint\<close> of an \<open>Ice::Int\<close> through its unsigned value.\<close>

lemma wrap32:
  fixes u :: int
  assumes "0 \<le> u" "u < 4294967296"
  shows "(u + 2147483648) mod 4294967296 - 2147483648 = (if u < 2147483648 then u else u - 4294967296)"
proof (cases "u < 2147483648")
  case True
  with assms have "(u + 2147483648) mod 4294967296 = u + 2147483648"
    by (intro mod_pos_pos_trivial) auto
  with True show ?thesis by simp
next
  case False
  have "(u + 2147483648) mod 4294967296 = (u + 2147483648 - 4294967296) mod 4294967296"
    by (rule minus_mod_self2 [symmetric])
  also have "\<dots> = u + 2147483648 - 4294967296"
    using assms False by (intro mod_pos_pos_trivial) auto
  finally show ?thesis using False by simp
qed

lemma sint32_wrap: "sint (v :: ice_int) = (uint v + 2147483648) mod 4294967296 - 2147483648"
proof -
  have "sint v = take_bit (Suc (LENGTH(32) - Suc 0)) (uint v + 2 ^ (LENGTH(32) - Suc 0)) - 2 ^ (LENGTH(32) - Suc 0)"
    unfolding sint_uint by (rule signed_take_bit_eq_take_bit_shift)
  then show ?thesis unfolding take_bit_eq_mod by simp
qed

lemma sint32: "sint (v :: ice_int) = (if unat v < 2147483648 then int (unat v) else int (unat v) - 4294967296)"
proof -
  have "0 \<le> uint v" "uint v < 4294967296" using uint_lt2p [of v] by simp_all
  from wrap32 [OF this] have "sint v = (if uint v < 2147483648 then uint v else uint v - 4294967296)"
    unfolding sint32_wrap .
  moreover have u: "uint v = int (unat v)" by simp
  ultimately show ?thesis unfolding u by (metis of_nat_less_iff of_nat_numeral)
qed

lemma sint32_nonneg: "0 \<le> sint (v :: ice_int) \<longleftrightarrow> unat v < 2147483648"
  using uint_lt2p [of v] by (auto simp: sint32)

lemma sint32_unat: "0 \<le> sint (v :: ice_int) \<Longrightarrow> sint v = int (unat v)"
  using sint32_nonneg [of v] unfolding sint32 [of v] by (simp split: if_splits)

lemma sint32_inject: "sint (v :: ice_int) = sint w \<longleftrightarrow> v = w"
  by (rule word_eq_iff_signed [symmetric])

lemma unat_le_of_sint: "0 \<le> sint (v :: ice_int) \<Longrightarrow> sint v \<le> int n \<Longrightarrow> unat v \<le> n"
  unfolding sint32_unat by (rule of_nat_le_iff [THEN iffD1])

lemma sint32_of_nat: "n < 2147483648 \<Longrightarrow> sint (word_of_nat n :: ice_int) = int n"
  by (simp add: sint32 unat_of_nat)

lemma ucast_byte_int: "unat (v :: ice_int) < 256 \<Longrightarrow> unat (ucast v :: byte) = unat v"
  by (simp add: unsigned_ucast_eq take_bit_nat_eq_self)
lemma ucast_int_byte: "unat (ucast (b :: byte) :: ice_int) = unat b"
proof -
  have "unat b < 256" by (rule unat_byte_less)
  then show ?thesis by (simp add: unsigned_ucast_eq take_bit_nat_eq_self)
qed
lemma ucast_ucast_small: "unat (v :: ice_int) < 256 \<Longrightarrow> ucast (ucast v :: byte) = v"
  by (simp add: word_unat_eq_iff ucast_int_byte ucast_byte_int)

subsection \<open>Strings as bytes\<close>

text \<open>A C++ \<open>std::string\<close> is a sequence of bytes; \<open>char\<close>s and bytes are converted one to one.\<close>

definition byte_of_char :: "char \<Rightarrow> byte" where
  "byte_of_char c = word_of_nat (of_char c)"

definition char_of_byte :: "byte \<Rightarrow> char" where
  "char_of_byte b = char_of (unat b)"

lemma char_of_byte_of_char [simp]: "char_of_byte (byte_of_char c) = c"
  by (simp add: char_of_byte_def byte_of_char_def unat_of_nat)

definition bytes_of_string :: "string \<Rightarrow> byte list" where
  "bytes_of_string s = map byte_of_char s"

definition string_of_bytes :: "byte list \<Rightarrow> string" where
  "string_of_bytes bs = map char_of_byte bs"

lemma string_of_bytes_of_string [simp]: "string_of_bytes (bytes_of_string s) = s"
  by (simp add: string_of_bytes_def bytes_of_string_def map_idI)

lemma length_bytes_of_string [simp]: "length (bytes_of_string s) = length s"
  by (simp add: bytes_of_string_def)

subsection \<open>Overwriting a run of bytes\<close>

text \<open>\<open>poke bs pos xs\<close> overwrites \<open>bs\<close> from index \<open>pos\<close> on with \<open>xs\<close> (memcpy into a buffer).\<close>

definition poke :: "'a list \<Rightarrow> nat \<Rightarrow> 'a list \<Rightarrow> 'a list" where
  "poke bs pos xs = take pos bs @ xs @ drop (pos + length xs) bs"

lemma length_poke [simp, bytes_simps]:
  "pos + length xs \<le> length bs \<Longrightarrow> length (poke bs pos xs) = length bs"
  by (simp add: poke_def)

lemma poke_append [bytes_simps]:
  "pos = length as \<Longrightarrow> length xs = length ys \<Longrightarrow> poke (as @ ys @ cs) pos xs = as @ xs @ cs"
  by (simp add: poke_def)

lemma poke_append_end [bytes_simps]:
  "pos = length as \<Longrightarrow> length xs = length ys \<Longrightarrow> poke (as @ ys) pos xs = as @ xs"
  by (simp add: poke_def)

lemma take_poke: "pos + length xs \<le> n \<Longrightarrow> n \<le> length bs \<Longrightarrow>
    take n (poke bs pos xs) = poke (take n bs) pos xs"
  by (cases "n = pos") (auto simp: poke_def take_drop min_def)

lemma take_poke_before: "n \<le> pos \<Longrightarrow> pos \<le> length bs \<Longrightarrow> take n (poke bs pos xs) = take n bs"
  by (simp add: poke_def min_def)

subsection \<open>Decimal digits\<close>

definition is_digit :: "char \<Rightarrow> bool" where
  "is_digit c \<longleftrightarrow> 48 \<le> (of_char c :: nat) \<and> (of_char c :: nat) \<le> 57"

definition digit_value :: "char \<Rightarrow> nat" where
  "digit_value c = of_char c - 48"

definition digit_char :: "nat \<Rightarrow> char" where
  "digit_char d = char_of (48 + d)"

lemma of_char_digit_char: "d < 10 \<Longrightarrow> (of_char (digit_char d) :: nat) = 48 + d"
  by (simp add: digit_char_def)

lemma digit_char_simps [simp]:
  "d < 10 \<Longrightarrow> is_digit (digit_char d)"
  "d < 10 \<Longrightarrow> digit_value (digit_char d) = d"
  by (simp_all add: is_digit_def digit_value_def of_char_digit_char)

fun nat_of_digits :: "nat \<Rightarrow> string \<Rightarrow> nat" where
  "nat_of_digits acc [] = acc"
| "nat_of_digits acc (c # cs) = nat_of_digits (10 * acc + digit_value c) cs"

fun string_of_nat :: "nat \<Rightarrow> string" where
  "string_of_nat n =
     (if n < 10 then [digit_char n] else string_of_nat (n div 10) @ [digit_char (n mod 10)])"

declare string_of_nat.simps [simp del]

lemma nat_of_digits_append:
  "nat_of_digits acc (xs @ ys) = nat_of_digits (nat_of_digits acc xs) ys"
  by (induction xs arbitrary: acc) auto

lemma string_of_nat_digits: "string_of_nat n \<noteq> [] \<and> (\<forall>c \<in> set (string_of_nat n). is_digit c)"
proof (induction n rule: string_of_nat.induct)
  case (1 n)
  then show ?case by (subst (1 2) string_of_nat.simps) auto
qed

lemma nat_of_digits_string_of_nat [simp]: "nat_of_digits 0 (string_of_nat n) = n"
proof (induction n rule: string_of_nat.induct)
  case (1 n)
  then show ?case by (subst string_of_nat.simps) (auto simp: nat_of_digits_append)
qed

end
