(* ===== verification/Container.thy ===== *)
theory Container
  imports Prelude
begin

section \<open>IceInternal::Buffer::Container\<close>

text \<open>
  The byte buffer under both streams (include/Ice/Buffer.h, src/Ice/Buffer.cpp).  \<open>cmem\<close> is the
  memory block \<open>_buf\<close>, all \<open>_capacity\<close> bytes of it, \<open>csize\<close> is \<open>_size\<close>; a null
  \<open>_buf\<close> is the empty block.  The allocator is the environment: \<open>fill\<close> gives the
  indeterminate contents of fresh memory and \<open>ok\<close> says whether \<open>malloc\<close> or
  \<open>realloc\<close> succeeds.  Sizes are natural numbers; that they stay below the range of
  \<open>size_t\<close> is the address space's business and is not modelled.
\<close>

record container =
  cmem :: "byte list"
  csize :: nat
  cshrink :: nat
  cowned :: bool

definition capacity :: "container \<Rightarrow> nat" where
  "capacity c = length (cmem c)"

definition content :: "container \<Rightarrow> byte list" where
  "content c = take (csize c) (cmem c)"

definition container_wf :: "container \<Rightarrow> bool" where
  "container_wf c \<longleftrightarrow> csize c \<le> capacity c \<and> cshrink c \<le> 2"

subsection \<open>Operations\<close>

definition container_new :: container where
  "container_new = \<lparr>cmem = [], csize = 0, cshrink = 0, cowned = True\<rparr>"

definition container_wrap :: "byte list \<Rightarrow> container" where
  "container_wrap v =
     (if v = [] then \<lparr>cmem = [], csize = 0, cshrink = 0, cowned = True\<rparr>
      else \<lparr>cmem = v, csize = length v, cshrink = 0, cowned = False\<rparr>)"

text \<open>The constructor from another container: the new container, and the other one afterwards.\<close>

definition container_adopt :: "container \<Rightarrow> bool \<Rightarrow> container \<times> container" where
  "container_adopt other adopt =
     (if adopt
      then (other, \<lparr>cmem = [], csize = 0, cshrink = 0, cowned = True\<rparr>)
      else (other\<lparr>cshrink := 0, cowned := False\<rparr>, other))"

definition clear :: "container \<Rightarrow> container" where
  "clear c = c\<lparr>cmem := [], csize := 0, cshrink := 0, cowned := True\<rparr>"

definition new_capacity :: "nat \<Rightarrow> container \<Rightarrow> nat" where
  "new_capacity n c =
     (if n > capacity c then max 240 (max n (2 * capacity c)) else n)"

text \<open>
  \<open>realloc\<close> keeps the common prefix of the two blocks.  For a buffer the container does
  not own, \<open>memcpy\<close> copies \<open>_size\<close> bytes into the fresh block, out of bounds if that
  block is smaller.
\<close>

definition reserve :: "bool \<Rightarrow> (nat \<Rightarrow> byte) \<Rightarrow> nat \<Rightarrow> container \<Rightarrow> container result" where
  "reserve ok fill n c =
     (let cap = new_capacity n c in
      if n = capacity c then Inr c
      else if \<not> ok then Inl BadAlloc
      else if cowned c
        then Inr (c\<lparr>cmem := take cap (cmem c) @ map fill [capacity c..<cap]\<rparr>)
      else if cap < csize c then Inl MemoryError
      else Inr (c\<lparr>cmem := take (csize c) (cmem c) @ map fill [csize c..<cap], cowned := True\<rparr>))"

definition resize :: "bool \<Rightarrow> (nat \<Rightarrow> byte) \<Rightarrow> nat \<Rightarrow> container \<Rightarrow> container result" where
  "resize ok fill n c =
     and_then (if n = 0 then Inr (clear c)
               else if n > capacity c then reserve ok fill n c
               else Inr c)
       (\<lambda>c'. Inr (c'\<lparr>csize := n\<rparr>))"

definition reset :: "bool \<Rightarrow> (nat \<Rightarrow> byte) \<Rightarrow> container \<Rightarrow> container result" where
  "reset ok fill c =
     and_then
       (if csize c > 0 \<and> csize c * 2 < capacity c
        then (if cshrink c + 1 > 2
              then and_then (reserve ok fill (csize c) (c\<lparr>cshrink := cshrink c + 1\<rparr>))
                     (\<lambda>c'. Inr (c'\<lparr>cshrink := 0\<rparr>))
              else Inr (c\<lparr>cshrink := cshrink c + 1\<rparr>))
        else Inr (c\<lparr>cshrink := 0\<rparr>))
       (\<lambda>c'. Inr (c'\<lparr>csize := 0\<rparr>))"

definition push_back :: "bool \<Rightarrow> (nat \<Rightarrow> byte) \<Rightarrow> byte \<Rightarrow> container \<Rightarrow> container result" where
  "push_back ok fill v c =
     and_then (resize ok fill (csize c + 1) c)
       (\<lambda>c'. Inr (c'\<lparr>cmem := (cmem c')[csize c' - 1 := v]\<rparr>))"

definition elem_at :: "container \<Rightarrow> nat \<Rightarrow> byte result" where
  "elem_at c n = (if n < csize c then Inr (cmem c ! n) else Inl AssertFailed)"

definition swap :: "container \<Rightarrow> container \<Rightarrow> container \<times> container" where
  "swap a b = (b, a)"

text \<open>\<open>memcpy(&b[pos], xs, n)\<close>, as the streams use it after \<open>resize\<close>.\<close>

definition store :: "nat \<Rightarrow> byte list \<Rightarrow> container \<Rightarrow> container" where
  "store pos xs c = c\<lparr>cmem := poke (cmem c) pos xs\<rparr>"

subsection \<open>Well-formedness and contents\<close>

lemma length_content: "container_wf c \<Longrightarrow> length (content c) = csize c"
  by (simp add: container_wf_def content_def capacity_def)

lemma new_capacity_ge: "n \<le> new_capacity n c"
  by (auto simp: new_capacity_def)

lemma reserve_wf:
  assumes "reserve ok fill n c = Inr c'" "container_wf c" "csize c \<le> n"
  shows "container_wf c' \<and> content c' = content c \<and> csize c' = csize c \<and> n \<le> capacity c'
    \<and> cshrink c' = cshrink c"
  using assms
  by (auto simp: reserve_def Let_def container_wf_def content_def capacity_def new_capacity_def
      split: if_splits)

lemma reserve_total:
  "csize c \<le> n \<Longrightarrow> \<exists>c'. reserve True fill n c = Inr c'"
  by (auto simp: reserve_def Let_def new_capacity_def)

lemma resize_ok:
  assumes "container_wf c"
  shows "\<exists>c'. resize True fill n c = Inr c'"
  using assms reserve_total [of c n fill]
  by (auto simp: resize_def container_wf_def capacity_def)

lemma resize_wf:
  assumes "resize ok fill n c = Inr c'" "container_wf c"
  shows "container_wf c' \<and> csize c' = n"
proof (cases "n > capacity c")
  case True
  with assms obtain c1 where c1: "reserve ok fill n c = Inr c1" "c' = c1\<lparr>csize := n\<rparr>"
    by (auto simp: resize_def res_simps split: if_splits)
  with assms True reserve_wf [OF c1(1)] show ?thesis
    by (auto simp: container_wf_def capacity_def)
next
  case False
  with assms show ?thesis
    by (auto simp: resize_def res_simps container_wf_def clear_def capacity_def split: if_splits)
qed

lemma resize_grow_content:
  assumes r: "resize ok fill n c = Inr c'" and wf: "container_wf c" and n: "csize c \<le> n"
  shows "take (csize c) (content c') = content c"
proof (cases "n > capacity c")
  case True
  with r obtain c1 where c1: "reserve ok fill n c = Inr c1" "c' = c1\<lparr>csize := n\<rparr>"
    by (auto simp: resize_def res_simps split: if_splits)
  with reserve_wf [OF c1(1) wf n] n show ?thesis
    by (auto simp: content_def min_def)
next
  case False
  with r n show ?thesis
    by (auto simp: resize_def res_simps content_def clear_def min_def split: if_splits)
qed

lemma store_wf: "container_wf c \<Longrightarrow> pos + length xs \<le> csize c \<Longrightarrow> container_wf (store pos xs c)"
  by (simp add: store_def container_wf_def capacity_def)

lemma store_content:
  "container_wf c \<Longrightarrow> pos + length xs \<le> csize c \<Longrightarrow> content (store pos xs c) = poke (content c) pos xs"
  by (simp add: store_def container_wf_def capacity_def content_def take_poke)

lemma store_csize [simp]: "csize (store pos xs c) = csize c"
  by (simp add: store_def)

subsection \<open>The interface the streams rely on\<close>

text \<open>
  A growable byte buffer, seen through its contents: growing keeps what is there, storing
  overwrites in place.  The stream writers only ever grow the buffer and store behind the old
  end, or store over bytes already written (sizes known only later).
\<close>

locale growable_bytes =
  fixes view :: "'s \<Rightarrow> byte list"
    and inv :: "'s \<Rightarrow> bool"
    and grow :: "nat \<Rightarrow> 's \<Rightarrow> 's result"
    and put :: "nat \<Rightarrow> byte list \<Rightarrow> 's \<Rightarrow> 's"
  assumes grow_total: "inv s \<Longrightarrow> length (view s) \<le> n \<Longrightarrow> \<exists>s'. grow n s = Inr s'"
    and grow_inv: "inv s \<Longrightarrow> length (view s) \<le> n \<Longrightarrow> grow n s = Inr s' \<Longrightarrow> inv s'"
    and grow_length: "inv s \<Longrightarrow> length (view s) \<le> n \<Longrightarrow> grow n s = Inr s' \<Longrightarrow> length (view s') = n"
    and grow_prefix: "inv s \<Longrightarrow> length (view s) \<le> n \<Longrightarrow> grow n s = Inr s' \<Longrightarrow>
      take (length (view s)) (view s') = view s"
    and put_inv: "inv s \<Longrightarrow> pos + length xs \<le> length (view s) \<Longrightarrow> inv (put pos xs s)"
    and put_view: "inv s \<Longrightarrow> pos + length xs \<le> length (view s) \<Longrightarrow>
      view (put pos xs s) = poke (view s) pos xs"
begin

lemma append_view:
  assumes "inv s" "grow (length (view s) + length xs) s = Inr s'"
  shows "inv (put (length (view s)) xs s')" "view (put (length (view s)) xs s') = view s @ xs"
proof -
  have le: "length (view s) \<le> length (view s) + length xs" by simp
  note g = grow_inv [OF assms(1) le assms(2)] grow_length [OF assms(1) le assms(2)]
    grow_prefix [OF assms(1) le assms(2)]
  show "inv (put (length (view s)) xs s')"
    using g by (intro put_inv) auto
  have "view (put (length (view s)) xs s') = poke (view s') (length (view s)) xs"
    using g by (intro put_view) auto
  also have "\<dots> = view s @ xs"
    using g by (simp add: poke_def)
  finally show "view (put (length (view s)) xs s') = view s @ xs" .
qed

lemma append_total:
  "inv s \<Longrightarrow> \<exists>s'. grow (length (view s) + length xs) s = Inr s'"
  by (rule grow_total) auto

end

interpretation cb: growable_bytes content container_wf "resize True fill" store for fill
proof unfold_locales
  fix s :: container and n :: nat assume "container_wf s"
  then show "\<exists>s'. resize True fill n s = Inr s'" by (rule resize_ok)
next
  fix s s' and n :: nat assume "container_wf s" "resize True fill n s = Inr s'"
  then show "container_wf s'" using resize_wf by blast
next
  fix s s' and n :: nat assume "container_wf s" "resize True fill n s = Inr s'"
  then show "length (content s') = n" using resize_wf length_content by blast
next
  fix s s' and n :: nat
  assume "container_wf s" "length (content s) \<le> n" "resize True fill n s = Inr s'"
  then show "take (length (content s)) (content s') = content s"
    using resize_grow_content [of True fill n s s'] by (simp add: length_content)
qed (simp_all add: store_wf store_content length_content)

text \<open>
  \<open>OutputStream::writeBlob\<close> on the container: nothing for no bytes, otherwise resize and copy.
\<close>

definition container_append :: "(nat \<Rightarrow> byte) \<Rightarrow> byte list \<Rightarrow> container \<Rightarrow> container result" where
  "container_append fill xs c =
     (if xs \<noteq> []
      then and_then (resize True fill (csize c + length xs) c) (\<lambda>c'. Inr (store (csize c) xs c'))
      else Inr c)"

fun container_appends :: "(nat \<Rightarrow> byte) \<Rightarrow> byte list list \<Rightarrow> container \<Rightarrow> container result" where
  "container_appends fill [] c = Inr c"
| "container_appends fill (xs # xss) c =
     and_then (container_append fill xs c) (container_appends fill xss)"

lemma container_append_content:
  assumes "container_wf c"
  shows "\<exists>c'. container_append fill xs c = Inr c' \<and> container_wf c' \<and> content c' = content c @ xs"
proof (cases "xs = []")
  case True
  with assms show ?thesis by (simp add: container_append_def)
next
  case False
  from cb.append_total [OF assms, where xs = xs and fill = fill] obtain c1 where
    c1: "resize True fill (length (content c) + length xs) c = Inr c1" ..
  from cb.append_view [OF assms c1] False c1 assms show ?thesis
    by (simp add: container_append_def length_content)
qed

lemma container_appends_content:
  "container_wf c \<Longrightarrow> \<exists>c'. container_appends fill xss c = Inr c' \<and> container_wf c'
      \<and> content c' = content c @ concat xss"
proof (induction xss arbitrary: c)
  case Nil
  then show ?case by simp
next
  case (Cons xs xss)
  from container_append_content [OF Cons.prems] obtain c1 where
    "container_append fill xs c = Inr c1" "container_wf c1" "content c1 = content c @ xs" by blast
  with Cons.IH [of c1] show ?case by auto
qed

lemma push_back_append: "push_back True fill v c = container_append fill [v] c" if "container_wf c"
proof -
  have "poke xs (length ys) [v] = xs[length ys := v]" if "length ys < length xs" for xs ys :: "byte list"
    using that by (simp add: poke_def upd_conv_take_nth_drop)
  moreover have "poke xs n [v] = xs[n := v]" if "n < length xs" for xs :: "byte list" and n
    using that by (simp add: poke_def upd_conv_take_nth_drop)
  ultimately show ?thesis
    using resize_ok [OF that, of fill "csize c + 1"] resize_wf [OF _ that, of True fill "csize c + 1"]
    by (auto simp: push_back_def container_append_def store_def container_wf_def capacity_def)
qed

lemma reset_wf:
  assumes "reset ok fill c = Inr c'" "container_wf c"
  shows "container_wf c' \<and> content c' = []"
proof -
  have r: "container_wf d \<and> csize d = csize c" if "reserve ok fill (csize c) (c\<lparr>cshrink := n\<rparr>) = Inr d"
    "n \<le> 2" for d n
    using reserve_wf [OF that(1)] that(2) assms(2)
    by (auto simp: container_wf_def capacity_def)
  show ?thesis
  proof (cases "csize c > 0 \<and> csize c * 2 < capacity c \<and> cshrink c + 1 > 2")
    case True
    with assms obtain d where d: "reserve ok fill (csize c) (c\<lparr>cshrink := cshrink c + 1\<rparr>) = Inr d"
      "c' = d\<lparr>cshrink := 0, csize := 0\<rparr>"
      by (auto simp: reset_def res_simps split: if_splits)
    then show ?thesis by (simp add: container_wf_def content_def capacity_def)
  next
    case False
    with assms show ?thesis
      by (auto simp: reset_def res_simps container_wf_def content_def capacity_def split: if_splits)
  qed
qed

text \<open>
  The point of the shrink counter: the third reset in a row of a buffer that is less than half
  full gives the unused memory back.
\<close>

lemma reset_shrinks:
  assumes "0 < csize c" "csize c * 2 < capacity c" "cshrink c = 2" "cowned c"
  shows "\<exists>c'. reset True fill c = Inr c' \<and> capacity c' = csize c \<and> cshrink c' = 0"
  using assms
  by (auto simp: reset_def reserve_def Let_def new_capacity_def capacity_def)

lemma reset_keeps_capacity:
  assumes "cshrink c < 2 \<or> capacity c \<le> csize c * 2"
  shows "\<exists>c'. reset True fill c = Inr c' \<and> capacity c' = capacity c"
  using assms by (auto simp: reset_def capacity_def)

end
