(* ===== verification/Protocol.thy ===== *)
theory Protocol
  imports Prelude
begin

section \<open>Protocol constants and versions\<close>

text \<open>
  include/Ice/Protocol.h and src/Ice/Protocol.cpp: the message header layout, the version numbers,
  which versions are supported, and the textual form of a version.
\<close>

record version =
  major :: byte
  minor :: byte

definition mk_version :: "byte \<Rightarrow> byte \<Rightarrow> version" where
  "mk_version a b = \<lparr>major = a, minor = b\<rparr>"

lemma mk_version_sel [simp]: "major (mk_version a b) = a" "minor (mk_version a b) = b"
  by (simp_all add: mk_version_def)

lemma mk_version_eq [simp]: "mk_version (major v) (minor v) = v"
  by (simp add: mk_version_def)

definition headerSize :: nat where "headerSize = 14"

definition magic :: "byte list" where "magic = [0x49, 0x63, 0x65, 0x50]"

definition protocolMajor :: byte where "protocolMajor = 1"
definition protocolMinor :: byte where "protocolMinor = 0"
definition protocolEncodingMajor :: byte where "protocolEncodingMajor = 1"
definition protocolEncodingMinor :: byte where "protocolEncodingMinor = 0"
definition encodingMajor :: byte where "encodingMajor = 1"
definition encodingMinor :: byte where "encodingMinor = 1"

definition requestMsg :: byte where "requestMsg = 0"
definition requestBatchMsg :: byte where "requestBatchMsg = 1"
definition replyMsg :: byte where "replyMsg = 2"
definition validateConnectionMsg :: byte where "validateConnectionMsg = 3"
definition closeConnectionMsg :: byte where "closeConnectionMsg = 4"

definition requestHdr :: "byte list" where
  "requestHdr = magic @ [protocolMajor, protocolMinor, protocolEncodingMajor, protocolEncodingMinor,
     requestMsg, 0, 0, 0, 0, 0, 0, 0, 0, 0]"

definition requestBatchHdr :: "byte list" where
  "requestBatchHdr = magic @ [protocolMajor, protocolMinor, protocolEncodingMajor,
     protocolEncodingMinor, requestBatchMsg, 0, 0, 0, 0, 0, 0, 0, 0, 0]"

definition replyHdr :: "byte list" where
  "replyHdr = magic @ [protocolMajor, protocolMinor, protocolEncodingMajor, protocolEncodingMinor,
     replyMsg, 0, 0, 0, 0, 0]"

definition OPTIONAL_END_MARKER :: byte where "OPTIONAL_END_MARKER = 0xFF"
definition FLAG_HAS_TYPE_ID_STRING :: byte where "FLAG_HAS_TYPE_ID_STRING = 1"
definition FLAG_HAS_TYPE_ID_INDEX :: byte where "FLAG_HAS_TYPE_ID_INDEX = 2"
definition FLAG_HAS_TYPE_ID_COMPACT :: byte where "FLAG_HAS_TYPE_ID_COMPACT = 3"
definition FLAG_HAS_OPTIONAL_MEMBERS :: byte where "FLAG_HAS_OPTIONAL_MEMBERS = 4"
definition FLAG_HAS_INDIRECTION_TABLE :: byte where "FLAG_HAS_INDIRECTION_TABLE = 8"
definition FLAG_HAS_SLICE_SIZE :: byte where "FLAG_HAS_SLICE_SIZE = 16"
definition FLAG_IS_LAST_SLICE :: byte where "FLAG_IS_LAST_SLICE = 32"

definition currentProtocol :: version where
  "currentProtocol = mk_version protocolMajor protocolMinor"
definition currentEncoding :: version where
  "currentEncoding = mk_version encodingMajor encodingMinor"
definition currentProtocolEncoding :: version where
  "currentProtocolEncoding = mk_version protocolEncodingMajor protocolEncodingMinor"
definition Encoding_1_0 :: version where "Encoding_1_0 = mk_version 1 0"
definition Encoding_1_1 :: version where "Encoding_1_1 = mk_version 1 1"

lemmas version_consts = currentProtocol_def currentEncoding_def currentProtocolEncoding_def
  Encoding_1_0_def Encoding_1_1_def protocolMajor_def protocolMinor_def protocolEncodingMajor_def
  protocolEncodingMinor_def encodingMajor_def encodingMinor_def

subsection \<open>Supported and compatible versions\<close>

definition isSupported :: "version \<Rightarrow> version \<Rightarrow> bool" where
  "isSupported v supported \<longleftrightarrow> major v = major supported \<and> minor v \<le> minor supported"

definition checkSupportedProtocol :: "version \<Rightarrow> unit result" where
  "checkSupportedProtocol v = (if \<not> isSupported v currentProtocol then Inl UnsupportedProtocol else Inr ())"

definition checkSupportedProtocolEncoding :: "version \<Rightarrow> unit result" where
  "checkSupportedProtocolEncoding v =
     (if \<not> isSupported v currentProtocolEncoding then Inl UnsupportedEncoding else Inr ())"

definition checkSupportedEncoding :: "version \<Rightarrow> unit result" where
  "checkSupportedEncoding v = (if \<not> isSupported v currentEncoding then Inl UnsupportedEncoding else Inr ())"

definition getCompatibleProtocol :: "version \<Rightarrow> version" where
  "getCompatibleProtocol v =
     (if major v \<noteq> major currentProtocol then v
      else if minor v < minor currentProtocol then v
      else currentProtocol)"

definition getCompatibleEncoding :: "version \<Rightarrow> version" where
  "getCompatibleEncoding v =
     (if major v \<noteq> major currentEncoding then v
      else if minor v < minor currentEncoding then v
      else currentEncoding)"

text \<open>
  The version negotiation: same major number gives a supported version, and it is the smaller of
  the two; a different major number is left alone and stays unsupported.
\<close>

lemma getCompatibleEncoding_cases:
  "isSupported (getCompatibleEncoding v) currentEncoding \<longleftrightarrow> major v = major currentEncoding"
  "isSupported v currentEncoding \<Longrightarrow> getCompatibleEncoding v = v"
  "minor (getCompatibleEncoding v) \<le> minor v \<or> major v \<noteq> major currentEncoding"
proof -
  show "isSupported (getCompatibleEncoding v) currentEncoding \<longleftrightarrow> major v = major currentEncoding"
    by (auto simp: isSupported_def getCompatibleEncoding_def)
  show "getCompatibleEncoding v = v" if "isSupported v currentEncoding"
    using that by (cases v)
      (auto simp: isSupported_def getCompatibleEncoding_def version_consts mk_version_def byte_le_1)
  show "minor (getCompatibleEncoding v) \<le> minor v \<or> major v \<noteq> major currentEncoding"
    by (auto simp: getCompatibleEncoding_def not_less)
qed

lemma supported_encodings:
  "isSupported v currentEncoding \<longleftrightarrow> v = Encoding_1_0 \<or> v = Encoding_1_1"
  by (cases v) (auto simp: isSupported_def version_consts mk_version_def byte_le_1)

subsection \<open>Versions as text\<close>

datatype version_error = MalformedVersion | InvalidMajor | InvalidMinor | VersionRange

text \<open>
  \<open>istringstream >> int\<close> followed by the \<open>eof()\<close> test: white space in front is skipped, then an
  optional sign and at least one digit, and the text must end there; a number outside the
  range of \<open>int\<close> sets the fail bit.
\<close>

definition is_space :: "char \<Rightarrow> bool" where
  "is_space c \<longleftrightarrow> (of_char c :: nat) \<in> {32, 9, 10, 11, 12, 13}"

definition parse_digits :: "string \<Rightarrow> int option" where
  "parse_digits s = (if s \<noteq> [] \<and> list_all is_digit s then Some (int (nat_of_digits 0 s)) else None)"

definition in_int_range :: "int \<Rightarrow> int option" where
  "in_int_range n = (if - (2 ^ 31) \<le> n \<and> n < 2 ^ 31 then Some n else None)"

definition istream_int :: "string \<Rightarrow> int option" where
  "istream_int s =
     (case dropWhile is_space s of
        [] \<Rightarrow> None
      | c # cs \<Rightarrow>
          if c = CHR ''-'' then Option.bind (parse_digits cs) (\<lambda>n. in_int_range (- n))
          else if c = CHR ''+'' then Option.bind (parse_digits cs) in_int_range
          else Option.bind (parse_digits (c # cs)) in_int_range)"

definition stringToMajorMinor :: "string \<Rightarrow> version_error + (byte \<times> byte)" where
  "stringToMajorMinor str =
     (if CHR ''.'' \<notin> set str then Inl MalformedVersion
      else
        (let majStr = takeWhile (\<lambda>c. c \<noteq> CHR ''.'') str;
             minStr = drop (length majStr + 1) str in
         case istream_int majStr of
           None \<Rightarrow> Inl InvalidMajor
         | Some majVersion \<Rightarrow>
             (case istream_int minStr of
                None \<Rightarrow> Inl InvalidMinor
              | Some minVersion \<Rightarrow>
                  if majVersion < 1 \<or> majVersion > 255 \<or> minVersion < 0 \<or> minVersion > 255
                  then Inl VersionRange
                  else Inr (word_of_int majVersion, word_of_int minVersion))))"

definition stringToVersion :: "string \<Rightarrow> version_error + version" where
  "stringToVersion s = and_then (stringToMajorMinor s) (\<lambda>(a, b). Inr (mk_version a b))"

definition versionToString :: "version \<Rightarrow> string" where
  "versionToString v = string_of_nat (unat (major v)) @ ''.'' @ string_of_nat (unat (minor v))"

lemma is_digit_not_special:
  "is_digit c \<Longrightarrow> c \<noteq> CHR ''.'' \<and> c \<noteq> CHR ''-'' \<and> c \<noteq> CHR ''+'' \<and> \<not> is_space c"
  by (auto simp: is_digit_def is_space_def)

lemma istream_int_digits:
  assumes "s \<noteq> []" "\<forall>c \<in> set s. is_digit c" "nat_of_digits 0 s < 2 ^ 31"
  shows "istream_int s = Some (int (nat_of_digits 0 s))"
proof -
  obtain c cs where s: "s = c # cs" using assms(1) by (cases s) auto
  with assms(2) have "\<not> is_space c" "c \<noteq> CHR ''-''" "c \<noteq> CHR ''+''"
    using is_digit_not_special by auto
  with s assms show ?thesis
    by (simp add: istream_int_def parse_digits_def in_int_range_def list_all_iff)
qed

lemma istream_int_byte: "istream_int (string_of_nat (unat (b :: byte))) = Some (uint b)"
proof -
  have "unat b < 256" by (rule unat_byte_less)
  then show ?thesis
    using istream_int_digits [of "string_of_nat (unat b)"] string_of_nat_digits [of "unat b"] by simp
qed

lemma version_split:
  "takeWhile (\<lambda>c. c \<noteq> CHR ''.'') (string_of_nat n @ CHR ''.'' # s) = string_of_nat n"
proof -
  have "c \<noteq> CHR ''.''" if "c \<in> set (string_of_nat n)" for c
    using that string_of_nat_digits [of n] is_digit_not_special by blast
  then show ?thesis by (subst takeWhile_append2) auto
qed

lemma stringToVersion_versionToString:
  assumes "0 < major v"
  shows "stringToVersion (versionToString v) = Inr v"
proof -
  have "uint (major v) \<ge> 1"
    using assms by (simp add: word_less_def)
  moreover have "uint (major v) \<le> 255" "uint (minor v) \<le> 255" "0 \<le> uint (minor v)"
    using uint_lt2p [of "major v"] uint_lt2p [of "minor v"] by simp_all
  ultimately show ?thesis
    by (simp add: stringToVersion_def stringToMajorMinor_def versionToString_def version_split
        istream_int_byte Let_def)
qed

end
