(* ===== verification/OrderedMap.thy ===== *)
theory OrderedMap
  imports Prelude "HOL-Library.List_Lexorder" "HOL-Library.Char_ord"
begin

section \<open>std::map as an ordered association list\<close>

text \<open>
  The code iterates over \<open>std::map\<close> in key order and inserts with the library's rules:
  \<open>insert\<close> does nothing when the key is there, \<open>operator[]\<close> overwrites.  A map is the list of
  its entries in strictly increasing key order; lookup is \<open>map_of\<close>.  Strings are ordered
  lexicographically, as \<open>std::string\<close> is.
\<close>

named_theorems omap_simps

definition om_wf :: "('k::linorder \<times> 'v) list \<Rightarrow> bool" where
  "om_wf m \<longleftrightarrow> sorted_wrt (<) (map fst m)"

fun om_insert :: "'k::linorder \<Rightarrow> 'v \<Rightarrow> ('k \<times> 'v) list \<Rightarrow> ('k \<times> 'v) list" where
  "om_insert k v [] = [(k, v)]"
| "om_insert k v ((k', v') # m) =
     (if k < k' then (k, v) # (k', v') # m
      else if k = k' then (k', v') # m
      else (k', v') # om_insert k v m)"

fun om_put :: "'k::linorder \<Rightarrow> 'v \<Rightarrow> ('k \<times> 'v) list \<Rightarrow> ('k \<times> 'v) list" where
  "om_put k v [] = [(k, v)]"
| "om_put k v ((k', v') # m) =
     (if k < k' then (k, v) # (k', v') # m
      else if k = k' then (k, v) # m
      else (k', v') # om_put k v m)"

definition om_erase :: "'k::linorder \<Rightarrow> ('k \<times> 'v) list \<Rightarrow> ('k \<times> 'v) list" where
  "om_erase k m = filter (\<lambda>e. fst e \<noteq> k) m"

lemma om_wf_Nil [simp, omap_simps]: "om_wf []"
  by (simp add: om_wf_def)

lemma om_wf_Cons [omap_simps]: "om_wf ((k, v) # m) \<longleftrightarrow> (\<forall>e \<in> set m. k < fst e) \<and> om_wf m"
  by (auto simp: om_wf_def)

lemma om_wf_distinct: "om_wf m \<Longrightarrow> distinct (map fst m)"
  by (simp add: om_wf_def strict_sorted_iff)

lemma set_om_insert: "set (om_insert k v m) \<subseteq> insert (k, v) (set m)"
  by (induction k v m rule: om_insert.induct) auto

lemma set_om_put: "set (om_put k v m) \<subseteq> insert (k, v) (set m)"
  by (induction k v m rule: om_put.induct) auto

lemma om_insert_wf [simp, omap_simps]: "om_wf m \<Longrightarrow> om_wf (om_insert k v m)"
  using set_om_insert by (induction k v m rule: om_insert.induct) (fastforce simp: om_wf_Cons)+

lemma om_put_wf [simp, omap_simps]: "om_wf m \<Longrightarrow> om_wf (om_put k v m)"
  using set_om_put by (induction k v m rule: om_put.induct) (fastforce simp: om_wf_Cons)+

lemma om_erase_wf [simp, omap_simps]: "om_wf m \<Longrightarrow> om_wf (om_erase k m)"
  by (induction m) (auto simp: om_erase_def om_wf_Cons)

lemma map_of_greater: "(\<forall>e \<in> set m. k < fst e) \<Longrightarrow> map_of m (k :: 'k::linorder) = None"
  by (induction m) auto

lemma map_of_om_insert [omap_simps]:
  "om_wf m \<Longrightarrow> map_of (om_insert k v m) =
     (map_of m)(k := Some (case map_of m k of None \<Rightarrow> v | Some x \<Rightarrow> x))"
proof (induction k v m rule: om_insert.induct)
  case (2 k v k' v' m)
  show ?case
  proof (cases "k < k'")
    case True
    with 2(2) have "map_of ((k', v') # m) k = None"
      by (intro map_of_greater) (auto simp: om_wf_Cons)
    with True show ?thesis by (simp add: fun_eq_iff)
  next
    case False
    with 2 show ?thesis by (auto simp: om_wf_Cons fun_eq_iff)
  qed
qed auto

lemma map_of_om_put [omap_simps]: "om_wf m \<Longrightarrow> map_of (om_put k v m) = (map_of m)(k \<mapsto> v)"
  by (induction k v m rule: om_put.induct) (auto simp: om_wf_Cons fun_eq_iff)

lemma map_of_om_erase [omap_simps]: "map_of (om_erase k m) = (map_of m)(k := None)"
  by (induction m) (auto simp: om_erase_def fun_eq_iff)

lemma om_insert_Nil [simp]: "om_insert k v m \<noteq> []"
  by (cases m) (auto split: if_splits)

lemma om_put_Nil [simp]: "om_put k v m \<noteq> []"
  by (cases m) (auto split: if_splits)

subsection \<open>The map interface\<close>

text \<open>
  What the tables of the runtime (properties, servants, routing tables, type ids) rely on: what a
  lookup returns after each operation, and that every operation keeps the representation.
\<close>

locale table =
  fixes lookup :: "'m \<Rightarrow> 'k \<Rightarrow> 'v option"
    and wf :: "'m \<Rightarrow> bool"
    and add :: "'k \<Rightarrow> 'v \<Rightarrow> 'm \<Rightarrow> 'm"
    and assign :: "'k \<Rightarrow> 'v \<Rightarrow> 'm \<Rightarrow> 'm"
    and erase :: "'k \<Rightarrow> 'm \<Rightarrow> 'm"
  assumes wf_add: "wf m \<Longrightarrow> wf (add k v m)"
    and wf_assign: "wf m \<Longrightarrow> wf (assign k v m)"
    and wf_erase: "wf m \<Longrightarrow> wf (erase k m)"
    and lookup_add: "wf m \<Longrightarrow> lookup (add k v m) k' =
      (if k' = k then Some (case lookup m k of None \<Rightarrow> v | Some x \<Rightarrow> x) else lookup m k')"
    and lookup_assign: "wf m \<Longrightarrow> lookup (assign k v m) k' = (if k' = k then Some v else lookup m k')"
    and lookup_erase: "wf m \<Longrightarrow> lookup (erase k m) k' = (if k' = k then None else lookup m k')"
begin

lemma assign_then_erase: "wf m \<Longrightarrow> lookup (erase k (assign k v m)) = lookup (erase k m)"
  by (rule ext) (simp add: lookup_erase lookup_assign wf_assign)

lemma add_keeps: "wf m \<Longrightarrow> lookup m k' = Some x \<Longrightarrow> lookup (add k v m) k' = Some x"
  by (auto simp: lookup_add)

lemma add_found: "wf m \<Longrightarrow> \<exists>x. lookup (add k v m) k = Some x"
  by (simp add: lookup_add)

lemma assign_assign: "wf m \<Longrightarrow> lookup (assign k v (assign k u m)) = lookup (assign k v m)"
  by (rule ext) (simp add: lookup_assign wf_assign)

end

interpretation om: table map_of om_wf om_insert om_put om_erase
  by unfold_locales (simp_all add: omap_simps)

end
