(* ===== verification/OStream.thy ===== *)
theory OStream
  imports Container Protocol OrderedMap
begin

section \<open>Ice::OutputStream: state and primitive writers\<close>

text \<open>
  include/Ice/OutputStream.h and src/Ice/OutputStream.cpp.  The stream's buffer is the list of the
  bytes written (Container.thy shows that the buffer implements appending and overwriting);
  encapsulations nest, the innermost first in \<open>ostack\<close>.  The outermost encapsulation always uses
  the embedded \<open>_preAllocatedEncaps\<close> (\<open>opre\<close>), so \<open>ostack\<close> is \<open>None\<close> when
  \<open>_currentEncaps\<close> is null and \<open>Some []\<close> when it points to the embedded object.
  A value (\<open>ValuePtr\<close>) is its address, the null pointer \<open>None\<close>.  A floating-point number is
  the word with its representation.
\<close>

datatype format_type = DefaultFormat | CompactFormat | SlicedFormat

datatype slice_type = NoSlice | ValueSlice | ExceptionSlice

type_synonym vid = nat

record instance_data =
  sliceType :: slice_type
  firstSlice :: bool
  sliceFlags :: byte
  writeSlice :: nat
  sliceFlagsPos :: nat
  indirectionMap :: "(vid \<times> ice_int) list"
  indirectionTable :: "vid list"

text \<open>
  The constructor leaves the scalar members of \<open>InstanceData\<close> uninitialised; \<open>startInstance\<close>
  and \<open>startSlice\<close> assign every one of them before it is read.
\<close>

definition fresh_instance :: instance_data where
  "fresh_instance = \<lparr>sliceType = NoSlice, firstSlice = False, sliceFlags = 0, writeSlice = 0,
     sliceFlagsPos = 0, indirectionMap = [], indirectionTable = []\<rparr>"

record type_ids =
  typeIdMap :: "(string \<times> ice_int) list"
  typeIdIndex :: ice_int

record encoder10 =
  marshaled10 :: "(vid \<times> ice_int) list"
  types10 :: type_ids
  sliceType10 :: slice_type
  writeSlice10 :: nat
  valueIdIndex10 :: ice_int
  toBeMarshaled :: "(vid \<times> ice_int) list"

text \<open>
  The doubly linked list of instance data: \<open>current11\<close> is \<open>_current\<close> and its predecessors,
  \<open>spare11\<close> the nodes behind it that a later \<open>startInstance\<close> reuses, the embedded
  \<open>_preAllocatedInstanceData\<close> being the first of all.
\<close>

record encoder11 =
  marshaled11 :: "(vid \<times> ice_int) list"
  types11 :: type_ids
  current11 :: "instance_data list"
  spare11 :: "instance_data list"
  valueIdIndex11 :: ice_int

datatype encoder = Enc10 encoder10 | Enc11 encoder11

record encaps =
  enStart :: nat
  enEncoding :: version
  enFormat :: format_type
  enEncoder :: "encoder option"

record ostream =
  obytes :: "byte list"
  oencoding :: version
  oformat :: format_type
  opre :: encaps
  ostack :: "encaps list option"

definition encaps_reset :: "encaps \<Rightarrow> encaps" where
  "encaps_reset e = e\<lparr>enEncoder := None\<rparr>"

definition ostream_init :: "version \<Rightarrow> format_type \<Rightarrow> ostream" where
  "ostream_init enc fmt =
     \<lparr>obytes = [], oencoding = enc, oformat = fmt,
      opre = \<lparr>enStart = 0, enEncoding = mk_version 0 0, enFormat = DefaultFormat, enEncoder = None\<rparr>,
      ostack = None\<rparr>"

definition cur_encaps :: "ostream \<Rightarrow> encaps option" where
  "cur_encaps s = (case ostack s of None \<Rightarrow> None | Some [] \<Rightarrow> Some (opre s) | Some (e # es) \<Rightarrow> Some e)"

definition set_encaps :: "encaps \<Rightarrow> ostream \<Rightarrow> ostream" where
  "set_encaps e s =
     (case ostack s of
        None \<Rightarrow> s
      | Some [] \<Rightarrow> s\<lparr>opre := e\<rparr>
      | Some (_ # es) \<Rightarrow> s\<lparr>ostack := Some (e # es)\<rparr>)"

text \<open>The loop stops at the embedded encapsulation without clearing \<open>_currentEncaps\<close>.\<close>

definition resetEncapsulation :: "ostream \<Rightarrow> ostream" where
  "resetEncapsulation s =
     s\<lparr>ostack := (case ostack s of None \<Rightarrow> None | Some _ \<Rightarrow> Some []),
       opre := encaps_reset (opre s)\<rparr>"

definition getEncoding :: "ostream \<Rightarrow> version" where
  "getEncoding s = (case cur_encaps s of Some e \<Rightarrow> enEncoding e | None \<Rightarrow> oencoding s)"

definition setFormat :: "format_type \<Rightarrow> ostream \<Rightarrow> ostream" where
  "setFormat fmt s = s\<lparr>oformat := fmt\<rparr>"

text \<open>\<open>swap\<close> exchanges the buffers, encodings and formats and resets both streams' encapsulations.\<close>

definition swap_streams :: "ostream \<Rightarrow> ostream \<Rightarrow> ostream \<times> ostream" where
  "swap_streams a b =
     (resetEncapsulation (a\<lparr>obytes := obytes b, oencoding := oencoding b, oformat := oformat b\<rparr>),
      resetEncapsulation (b\<lparr>obytes := obytes a, oencoding := oencoding a, oformat := oformat a\<rparr>))"

subsection \<open>Bytes and integers\<close>

definition writeBlob :: "byte list \<Rightarrow> ostream \<Rightarrow> ostream" where
  "writeBlob bs s = s\<lparr>obytes := obytes s @ bs\<rparr>"

definition write_byte :: "byte \<Rightarrow> ostream \<Rightarrow> ostream" where
  "write_byte v s = s\<lparr>obytes := obytes s @ [v]\<rparr>"

definition write_bool :: "bool \<Rightarrow> ostream \<Rightarrow> ostream" where
  "write_bool v s = write_byte (if v then 1 else 0) s"

definition write_short :: "ice_short \<Rightarrow> ostream \<Rightarrow> ostream" where
  "write_short v s = s\<lparr>obytes := obytes s @ le_bytes 2 v\<rparr>"

definition write_int :: "ice_int \<Rightarrow> ostream \<Rightarrow> ostream" where
  "write_int v s = s\<lparr>obytes := obytes s @ le_bytes 4 v\<rparr>"

definition write_long :: "ice_long \<Rightarrow> ostream \<Rightarrow> ostream" where
  "write_long v s = s\<lparr>obytes := obytes s @ le_bytes 8 v\<rparr>"

definition write_float :: "32 word \<Rightarrow> ostream \<Rightarrow> ostream" where
  "write_float v s = s\<lparr>obytes := obytes s @ le_bytes 4 v\<rparr>"

definition write_double :: "64 word \<Rightarrow> ostream \<Rightarrow> ostream" where
  "write_double v s = s\<lparr>obytes := obytes s @ le_bytes 8 v\<rparr>"

text \<open>\<open>write(Int, iterator)\<close> stores four bytes at a position of the buffer.\<close>

definition write_int_at :: "ice_int \<Rightarrow> nat \<Rightarrow> ostream \<Rightarrow> ostream result" where
  "write_int_at v pos s =
     (if pos + 4 \<le> length (obytes s) then Inr (s\<lparr>obytes := poke (obytes s) pos (le_bytes 4 v)\<rparr>)
      else Inl MemoryError)"

definition rewrite_int :: "ice_int \<Rightarrow> nat \<Rightarrow> ostream \<Rightarrow> ostream result" where
  "rewrite_int v pos s = write_int_at v pos s"

definition writeSize :: "ice_int \<Rightarrow> ostream \<Rightarrow> ostream result" where
  "writeSize v s =
     (if sint v < 0 then Inl AssertFailed
      else if sint v > 254 then Inr (write_int v (write_byte 255 s))
      else Inr (write_byte (ucast v) s))"

definition rewriteSize :: "ice_int \<Rightarrow> nat \<Rightarrow> ostream \<Rightarrow> ostream result" where
  "rewriteSize v dest s =
     (if sint v < 0 then Inl AssertFailed
      else if dest \<ge> length (obytes s) then Inl MemoryError
      else if sint v > 254
        then write_int_at v (dest + 1) (s\<lparr>obytes := (obytes s)[dest := 255]\<rparr>)
      else Inr (s\<lparr>obytes := (obytes s)[dest := ucast v]\<rparr>))"

definition startSize :: "ostream \<Rightarrow> nat \<times> ostream" where
  "startSize s = (length (obytes s), write_int 0 s)"

definition endSize :: "nat \<Rightarrow> ostream \<Rightarrow> ostream result" where
  "endSize position s = rewrite_int (word_of_nat (length (obytes s) - position) - 4) position s"

definition write_version :: "version \<Rightarrow> ostream \<Rightarrow> ostream" where
  "write_version v s = write_byte (minor v) (write_byte (major v) s)"

subsection \<open>Sequences\<close>

text \<open>
  A sequence is its size followed by the elements; the element count is cast to \<open>Int\<close> first and
  nothing is copied unless it is positive.
\<close>

definition write_seq :: "('a \<Rightarrow> byte list) \<Rightarrow> 'a list \<Rightarrow> ostream \<Rightarrow> ostream result" where
  "write_seq lay xs s =
     (let sz = word_of_nat (length xs) :: ice_int in
      and_then (writeSize sz s)
        (\<lambda>s'. if sint sz > 0 then Inr (writeBlob (concat (map lay xs)) s') else Inr s'))"

definition write_byte_seq :: "byte list \<Rightarrow> ostream \<Rightarrow> ostream result" where
  "write_byte_seq = write_seq (\<lambda>b. [b])"

definition write_bool_seq :: "bool list \<Rightarrow> ostream \<Rightarrow> ostream result" where
  "write_bool_seq = write_seq (\<lambda>b. [if b then 1 else 0])"

definition write_short_seq :: "ice_short list \<Rightarrow> ostream \<Rightarrow> ostream result" where
  "write_short_seq = write_seq (le_bytes 2)"

definition write_int_seq :: "ice_int list \<Rightarrow> ostream \<Rightarrow> ostream result" where
  "write_int_seq = write_seq (le_bytes 4)"

definition write_long_seq :: "ice_long list \<Rightarrow> ostream \<Rightarrow> ostream result" where
  "write_long_seq = write_seq (le_bytes 8)"

definition write_float_seq :: "32 word list \<Rightarrow> ostream \<Rightarrow> ostream result" where
  "write_float_seq = write_seq (le_bytes 4)"

definition write_double_seq :: "64 word list \<Rightarrow> ostream \<Rightarrow> ostream result" where
  "write_double_seq = write_seq (le_bytes 8)"

subsection \<open>Strings\<close>

text \<open>
  The string converter is a plug-in: \<open>toUTF8\<close> appends to the stream through
  \<open>StreamUTF8BufferI\<close> and returns the end of what it wrote, possibly leaving unused bytes behind
  it.  The parameter gives the UTF-8 bytes and the unused ones, \<open>None\<close> when it throws
  \<open>IllegalConversionException\<close>; no converter at all is the outer \<open>None\<close>.
\<close>

type_synonym to_utf8 = "byte list \<Rightarrow> (byte list \<times> byte list) option"

definition writeConverted :: "to_utf8 option \<Rightarrow> byte list \<Rightarrow> ostream \<Rightarrow> ostream result" where
  "writeConverted conv v s =
     (let guessedSize = word_of_nat (length v) :: ice_int in
      and_then (writeSize guessedSize s) (\<lambda>s1.
        let firstIndex = length (obytes s1) in
        case conv of
          None \<Rightarrow> Inr (writeBlob v s1)
        | Some toUTF8 \<Rightarrow>
            (case toUTF8 v of
               None \<Rightarrow> Inl StringConversion
             | Some (utf8, unused) \<Rightarrow>
                 let b = take (firstIndex + length utf8) (obytes s1 @ utf8 @ unused);
                     actualSize = word_of_nat (length b - firstIndex) :: ice_int
                 in
                 if guessedSize = actualSize then Inr (s1\<lparr>obytes := b\<rparr>)
                 else
                   (let moved =
                      (if sint guessedSize \<le> 254 \<and> sint actualSize > 254
                         then poke (b @ [0, 0, 0, 0]) (firstIndex + 4)
                                (take (unat actualSize) (drop firstIndex b))
                       else if sint guessedSize > 254 \<and> sint actualSize \<le> 254
                         then take (length b - 4)
                                (poke b (firstIndex - 4) (take (unat actualSize) (drop firstIndex b)))
                       else b)
                    in rewriteSize actualSize
                         (if sint guessedSize \<le> 254 then firstIndex - 1 else firstIndex - 1 - 4)
                         (s1\<lparr>obytes := moved\<rparr>)))))"

definition write_string :: "to_utf8 option \<Rightarrow> bool \<Rightarrow> byte list \<Rightarrow> ostream \<Rightarrow> ostream result" where
  "write_string conv convert v s =
     (let sz = word_of_nat (length v) :: ice_int in
      if convert \<and> sint sz > 0 then writeConverted conv v s
      else and_then (writeSize sz s)
             (\<lambda>s'. if sint sz > 0 then Inr (writeBlob v s') else Inr s'))"

fun write_strings :: "to_utf8 option \<Rightarrow> bool \<Rightarrow> byte list list \<Rightarrow> ostream \<Rightarrow> ostream result" where
  "write_strings conv convert [] s = Inr s"
| "write_strings conv convert (x # xs) s =
     and_then (write_string conv convert x s) (write_strings conv convert xs)"

definition write_string_seq :: "to_utf8 option \<Rightarrow> bool \<Rightarrow> byte list list \<Rightarrow> ostream \<Rightarrow> ostream result" where
  "write_string_seq conv convert xs s =
     (let sz = word_of_nat (length xs) :: ice_int in
      and_then (writeSize sz s)
        (\<lambda>s'. if sint sz > 0 then write_strings conv convert xs s' else Inr s'))"

definition writeEnum :: "ice_int \<Rightarrow> ice_int \<Rightarrow> ostream \<Rightarrow> ostream result" where
  "writeEnum v maxValue s =
     (if getEncoding s = Encoding_1_0
      then (if sint maxValue < 127 then Inr (write_byte (ucast v) s)
            else if sint maxValue < 32767 then Inr (write_short (ucast v) s)
            else Inr (write_int v s))
      else writeSize v s)"

end
