(* ===== verification/OEncoder.thy ===== *)
theory OEncoder
  imports OStream
begin

section \<open>Ice::OutputStream: encapsulations, optionals and value encoders\<close>

text \<open>
  The second half of OutputStream.h and OutputStream.cpp.  The generated code of a value
  (\<open>_iceWrite\<close>) and of an exception (\<open>_write\<close>) is not part of the repository: it is the
  parameter \<open>iw\<close> (\<open>ew\<close>) of the operations that call it, a stream transformer.
  \<open>ice_preMarshal\<close> is a user hook without access to the stream whose exceptions are only logged;
  it has no counterpart here.
\<close>

datatype optional_format = OF1 | OF2 | OF4 | OF8 | OSize | OVSize | OFSize | OClass

definition format_code :: "optional_format \<Rightarrow> byte" where
  "format_code f = (case f of OF1 \<Rightarrow> 0 | OF2 \<Rightarrow> 1 | OF4 \<Rightarrow> 2 | OF8 \<Rightarrow> 3 | OSize \<Rightarrow> 4
     | OVSize \<Rightarrow> 5 | OFSize \<Rightarrow> 6 | OClass \<Rightarrow> 7)"

subsection \<open>Encapsulations\<close>

definition new_encaps :: "nat \<Rightarrow> version \<Rightarrow> format_type \<Rightarrow> encaps" where
  "new_encaps start enc fmt = \<lparr>enStart = start, enEncoding = enc, enFormat = fmt, enEncoder = None\<rparr>"

definition startEncapsulation_as :: "version \<Rightarrow> format_type \<Rightarrow> ostream \<Rightarrow> ostream result" where
  "startEncapsulation_as enc fmt s =
     and_then (checkSupportedEncoding enc) (\<lambda>_.
       let pos = length (obytes s);
           s1 = (case ostack s of
                   None \<Rightarrow> s\<lparr>ostack := Some [],
                     opre := (opre s)\<lparr>enStart := pos, enEncoding := enc, enFormat := fmt\<rparr>\<rparr>
                 | Some es \<Rightarrow> s\<lparr>ostack := Some (new_encaps pos enc fmt # es)\<rparr>)
       in Inr (write_version enc (write_int 0 s1)))"

definition startEncapsulation :: "ostream \<Rightarrow> ostream result" where
  "startEncapsulation s =
     (case cur_encaps s of
        Some e \<Rightarrow> startEncapsulation_as (enEncoding e) (enFormat e) s
      | None \<Rightarrow> startEncapsulation_as (oencoding s) DefaultFormat s)"

definition pop_encaps :: "ostream \<Rightarrow> ostream" where
  "pop_encaps s =
     (case ostack s of
        None \<Rightarrow> s
      | Some [] \<Rightarrow> s\<lparr>ostack := None, opre := encaps_reset (opre s)\<rparr>
      | Some (_ # es) \<Rightarrow> s\<lparr>ostack := Some es\<rparr>)"

definition endEncapsulation :: "ostream \<Rightarrow> ostream result" where
  "endEncapsulation s =
     (case cur_encaps s of
        None \<Rightarrow> Inl AssertFailed
      | Some e \<Rightarrow>
          and_then (write_int_at (word_of_nat (length (obytes s) - enStart e)) (enStart e) s)
            (\<lambda>s1. Inr (pop_encaps s1)))"

definition writeEmptyEncapsulation :: "version \<Rightarrow> ostream \<Rightarrow> ostream result" where
  "writeEmptyEncapsulation enc s =
     and_then (checkSupportedEncoding enc) (\<lambda>_. Inr (write_version enc (write_int 6 s)))"

text \<open>\<open>v\<close> points to \<open>sz\<close> bytes: reading past the end of \<open>v\<close> is the caller's memory error.\<close>

definition writeEncapsulation :: "byte list \<Rightarrow> ice_int \<Rightarrow> ostream \<Rightarrow> ostream result" where
  "writeEncapsulation v sz s =
     (if sint sz < 6 then Inl EncapsulationError
      else if length v < unat sz then Inl MemoryError
      else Inr (writeBlob (take (unat sz) v) s))"

definition fresh_types :: type_ids where
  "fresh_types = \<lparr>typeIdMap = [], typeIdIndex = 0\<rparr>"

definition fresh10 :: encoder10 where
  "fresh10 = \<lparr>marshaled10 = [], types10 = fresh_types, sliceType10 = NoSlice, writeSlice10 = 0,
     valueIdIndex10 = 0, toBeMarshaled = []\<rparr>"

definition fresh11 :: encoder11 where
  "fresh11 = \<lparr>marshaled11 = [], types11 = fresh_types, current11 = [], spare11 = [fresh_instance],
     valueIdIndex11 = 1\<rparr>"

definition initEncaps :: "ostream \<Rightarrow> ostream" where
  "initEncaps s =
     (let s1 = (case ostack s of
                  None \<Rightarrow> s\<lparr>ostack := Some [],
                    opre := (opre s)\<lparr>enStart := length (obytes s), enEncoding := oencoding s\<rparr>\<rparr>
                | Some _ \<Rightarrow> s);
          e = the (cur_encaps s1);
          e1 = (if enFormat e = DefaultFormat then e\<lparr>enFormat := oformat s\<rparr> else e);
          e2 = (case enEncoder e1 of
                  Some _ \<Rightarrow> e1
                | None \<Rightarrow>
                    if enEncoding e1 = Encoding_1_0 then e1\<lparr>enEncoder := Some (Enc10 fresh10)\<rparr>
                    else e1\<lparr>enEncoder := Some (Enc11 fresh11)\<rparr>)
      in set_encaps e2 s1)"

subsection \<open>Access to the encoder of the current encapsulation\<close>

definition enc10_of :: "ostream \<Rightarrow> encoder10 result" where
  "enc10_of s = (case cur_encaps s of
       Some e \<Rightarrow> (case enEncoder e of Some (Enc10 c) \<Rightarrow> Inr c | _ \<Rightarrow> Inl AssertFailed)
     | None \<Rightarrow> Inl AssertFailed)"

definition enc11_of :: "ostream \<Rightarrow> encoder11 result" where
  "enc11_of s = (case cur_encaps s of
       Some e \<Rightarrow> (case enEncoder e of Some (Enc11 c) \<Rightarrow> Inr c | _ \<Rightarrow> Inl AssertFailed)
     | None \<Rightarrow> Inl AssertFailed)"

definition put_encoder :: "encoder \<Rightarrow> ostream \<Rightarrow> ostream" where
  "put_encoder c s = (case cur_encaps s of
       None \<Rightarrow> s | Some e \<Rightarrow> set_encaps (e\<lparr>enEncoder := Some c\<rparr>) s)"

definition cur_format :: "ostream \<Rightarrow> format_type" where
  "cur_format s = (case cur_encaps s of None \<Rightarrow> DefaultFormat | Some e \<Rightarrow> enFormat e)"

text \<open>The \<open>InstanceData\<close> that \<open>_current\<close> points to; a null pointer is a failed access.\<close>

definition cur_instance :: "encoder11 \<Rightarrow> instance_data result" where
  "cur_instance c = (case current11 c of [] \<Rightarrow> Inl MemoryError | d # _ \<Rightarrow> Inr d)"

definition set_instance :: "instance_data \<Rightarrow> encoder11 \<Rightarrow> encoder11" where
  "set_instance d c = c\<lparr>current11 := d # tl (current11 c)\<rparr>"

definition upd_instance :: "(instance_data \<Rightarrow> instance_data) \<Rightarrow> ostream \<Rightarrow> ostream result" where
  "upd_instance f s =
     and_then (enc11_of s) (\<lambda>c. and_then (cur_instance c)
       (\<lambda>d. Inr (put_encoder (Enc11 (set_instance (f d) c)) s)))"

definition instance_of :: "ostream \<Rightarrow> instance_data result" where
  "instance_of s = and_then (enc11_of s) cur_instance"

subsection \<open>Optionals\<close>

definition writeOptImpl :: "ice_int \<Rightarrow> optional_format \<Rightarrow> ostream \<Rightarrow> (bool \<times> ostream) result" where
  "writeOptImpl tag fmt s =
     (if getEncoding s = Encoding_1_0 then Inr (False, s)
      else if sint tag < 30
        then Inr (True, write_byte (format_code fmt OR ucast (push_bit 3 tag)) s)
      else and_then (writeSize tag (write_byte (format_code fmt OR 0xF0) s))
             (\<lambda>s1. Inr (True, s1)))"

definition writeOptional11 :: "ice_int \<Rightarrow> optional_format \<Rightarrow> ostream \<Rightarrow> (bool \<times> ostream) result" where
  "writeOptional11 tag fmt s =
     and_then (enc11_of s) (\<lambda>c.
       if current11 c = [] then writeOptImpl tag fmt s
       else and_then (writeOptImpl tag fmt s) (\<lambda>(w, s1).
         if w then and_then
             (upd_instance (\<lambda>d. d\<lparr>sliceFlags := sliceFlags d OR FLAG_HAS_OPTIONAL_MEMBERS\<rparr>) s1)
             (\<lambda>s2. Inr (True, s2))
         else Inr (False, s1)))"

text \<open>The 1.0 encoder inherits \<open>writeOptional\<close> of the base class, which returns false.\<close>

definition writeOptional :: "ice_int \<Rightarrow> optional_format \<Rightarrow> ostream \<Rightarrow> (bool \<times> ostream) result" where
  "writeOptional tag fmt s =
     (case cur_encaps s of
        None \<Rightarrow> Inl AssertFailed
      | Some e \<Rightarrow>
          (case enEncoder e of
             None \<Rightarrow> writeOptImpl tag fmt s
           | Some (Enc10 _) \<Rightarrow> Inr (False, s)
           | Some (Enc11 _) \<Rightarrow> writeOptional11 tag fmt s))"

subsection \<open>Type ids and value ids\<close>

definition registerTypeId :: "string \<Rightarrow> type_ids \<Rightarrow> ice_int \<times> type_ids" where
  "registerTypeId typeId t =
     (case map_of (typeIdMap t) typeId of
        Some i \<Rightarrow> (i, t)
      | None \<Rightarrow> (-1, t\<lparr>typeIdMap := om_insert typeId (typeIdIndex t + 1) (typeIdMap t),
                      typeIdIndex := typeIdIndex t + 1\<rparr>))"

definition registerValue :: "vid \<Rightarrow> encoder10 \<Rightarrow> ice_int \<times> encoder10" where
  "registerValue v c =
     (case map_of (toBeMarshaled c) v of
        Some i \<Rightarrow> (i, c)
      | None \<Rightarrow>
          (case map_of (marshaled10 c) v of
             Some i \<Rightarrow> (i, c)
           | None \<Rightarrow>
               let idx = valueIdIndex10 c + 1
               in (idx, c\<lparr>toBeMarshaled := om_insert v idx (toBeMarshaled c), valueIdIndex10 := idx\<rparr>)))"

subsection \<open>EncapsEncoder10\<close>

definition write_value10 :: "vid option \<Rightarrow> ostream \<Rightarrow> ostream result" where
  "write_value10 v s =
     (case v of
        None \<Rightarrow> Inr (write_int 0 s)
      | Some x \<Rightarrow> and_then (enc10_of s) (\<lambda>c.
          let (i, c') = registerValue x c in Inr (write_int (- i) (put_encoder (Enc10 c') s))))"

definition startInstance10 :: "slice_type \<Rightarrow> ostream \<Rightarrow> ostream result" where
  "startInstance10 t s =
     and_then (enc10_of s) (\<lambda>c. Inr (put_encoder (Enc10 (c\<lparr>sliceType10 := t\<rparr>)) s))"

definition startSlice10 :: "string \<Rightarrow> ostream \<Rightarrow> ostream result" where
  "startSlice10 typeId s =
     and_then (enc10_of s) (\<lambda>c.
       and_then
         (if sliceType10 c = ValueSlice
          then (let (index, t) = registerTypeId typeId (types10 c);
                    s1 = put_encoder (Enc10 (c\<lparr>types10 := t\<rparr>)) s
                in if sint index < 0
                   then write_string None False (bytes_of_string typeId) (write_bool False s1)
                   else writeSize index (write_bool True s1))
          else write_string None False (bytes_of_string typeId) s)
         (\<lambda>s2.
           let s3 = write_int 0 s2
           in and_then (enc10_of s3) (\<lambda>c3.
                Inr (put_encoder (Enc10 (c3\<lparr>writeSlice10 := length (obytes s3)\<rparr>)) s3))))"

definition endSlice10 :: "ostream \<Rightarrow> ostream result" where
  "endSlice10 s =
     and_then (enc10_of s) (\<lambda>c.
       write_int_at (word_of_nat (length (obytes s) - writeSlice10 c + 4)) (writeSlice10 c - 4) s)"

definition object_static_id :: string where "object_static_id = ''::Ice::Object''"

definition endInstance10 :: "ostream \<Rightarrow> ostream result" where
  "endInstance10 s =
     and_then (enc10_of s) (\<lambda>c.
       and_then
         (if sliceType10 c = ValueSlice
          then and_then (startSlice10 object_static_id s)
                 (\<lambda>s1. and_then (writeSize 0 s1) endSlice10)
          else Inr s)
         (\<lambda>s2. and_then (enc10_of s2)
           (\<lambda>c2. Inr (put_encoder (Enc10 (c2\<lparr>sliceType10 := NoSlice\<rparr>)) s2))))"

fun write_batch10 :: "(vid \<Rightarrow> ostream \<Rightarrow> ostream result) \<Rightarrow> (vid \<times> ice_int) list \<Rightarrow> ostream \<Rightarrow> ostream result" where
  "write_batch10 iw [] s = Inr s"
| "write_batch10 iw ((v, i) # m) s = and_then (iw v (write_int i s)) (write_batch10 iw m)"

text \<open>\<open>std::map::insert\<close> of a range: entries whose key is there already are left alone.\<close>

definition insert_range :: "(vid \<times> ice_int) list \<Rightarrow> (vid \<times> ice_int) list \<Rightarrow> (vid \<times> ice_int) list" where
  "insert_range m new = fold (\<lambda>(v, i). om_insert v i) new m"

text \<open>
  The \<open>while\<close> loop writes batches until no value is left to be marshaled; each round may register
  new ones.  One unit of fuel is one test of the loop condition, \<open>None\<close> is "still running".
\<close>

fun writePendingValues10 :: "(vid \<Rightarrow> ostream \<Rightarrow> ostream result) \<Rightarrow> nat \<Rightarrow> ostream \<Rightarrow> ostream result option" where
  "writePendingValues10 iw 0 s = None"
| "writePendingValues10 iw (Suc fuel) s =
     (case enc10_of s of
        Inl e \<Rightarrow> Some (Inl e)
      | Inr c \<Rightarrow>
          if toBeMarshaled c = [] then Some (writeSize 0 s)
          else
            (let savedMap = toBeMarshaled c;
                 c1 = c\<lparr>marshaled10 := insert_range (marshaled10 c) savedMap, toBeMarshaled := []\<rparr>
             in case and_then (writeSize (word_of_nat (length savedMap)) (put_encoder (Enc10 c1) s))
                       (write_batch10 iw savedMap) of
                  Inl e \<Rightarrow> Some (Inl e)
                | Inr s1 \<Rightarrow> writePendingValues10 iw fuel s1))"

definition write_exception10 ::
    "(vid \<Rightarrow> ostream \<Rightarrow> ostream result) \<Rightarrow> nat \<Rightarrow> bool \<Rightarrow> (ostream \<Rightarrow> ostream result) \<Rightarrow> ostream
      \<Rightarrow> ostream result option" where
  "write_exception10 iw fuel usesClasses ew s =
     (case ew (write_bool usesClasses s) of
        Inl e \<Rightarrow> Some (Inl e)
      | Inr s1 \<Rightarrow> if usesClasses then writePendingValues10 iw fuel s1 else Some (Inr s1))"

subsection \<open>EncapsEncoder11\<close>

definition writeInstance :: "(vid \<Rightarrow> ostream \<Rightarrow> ostream result) \<Rightarrow> vid \<Rightarrow> ostream \<Rightarrow> ostream result" where
  "writeInstance iw v s =
     and_then (enc11_of s) (\<lambda>c.
       case map_of (marshaled11 c) v of
         Some i \<Rightarrow> writeSize i s
       | None \<Rightarrow>
           let idx = valueIdIndex11 c + 1;
               c1 = c\<lparr>marshaled11 := om_insert v idx (marshaled11 c), valueIdIndex11 := idx\<rparr>
           in and_then (writeSize 1 (put_encoder (Enc11 c1) s)) (iw v))"

definition write_value11 :: "(vid \<Rightarrow> ostream \<Rightarrow> ostream result) \<Rightarrow> vid option \<Rightarrow> ostream \<Rightarrow> ostream result" where
  "write_value11 iw v s =
     (case v of
        None \<Rightarrow> writeSize 0 s
      | Some x \<Rightarrow>
          and_then (enc11_of s) (\<lambda>c.
            case current11 c of
              d # _ \<Rightarrow>
                if cur_format s = SlicedFormat
                then (case map_of (indirectionMap d) x of
                        None \<Rightarrow>
                          let idx = word_of_nat (length (indirectionTable d) + 1) :: ice_int;
                              d' = d\<lparr>indirectionTable := indirectionTable d @ [x],
                                     indirectionMap := om_insert x idx (indirectionMap d)\<rparr>
                          in writeSize idx (put_encoder (Enc11 (set_instance d' c)) s)
                      | Some i \<Rightarrow> writeSize i s)
                else writeInstance iw x s
            | [] \<Rightarrow> writeInstance iw x s))"

definition startSlice11 :: "string \<Rightarrow> ice_int \<Rightarrow> bool \<Rightarrow> ostream \<Rightarrow> ostream result" where
  "startSlice11 typeId compactId isLast s =
     and_then (enc11_of s) (\<lambda>c. and_then (cur_instance c) (\<lambda>d.
       if \<not> (indirectionTable d = [] \<and> indirectionMap d = []) then Inl AssertFailed
       else
         (let sliced = (cur_format s = SlicedFormat);
              flags0 = (if sliced then FLAG_HAS_SLICE_SIZE else 0) OR (if isLast then FLAG_IS_LAST_SLICE else 0);
              pos = length (obytes s);
              s1 = write_byte 0 s
          in and_then
               (if sliceType d = ValueSlice
                then (if sliced \<or> firstSlice d
                      then (if sint compactId \<ge> 0
                            then and_then (writeSize compactId s1)
                                   (\<lambda>s2. Inr (flags0 OR FLAG_HAS_TYPE_ID_COMPACT, s2))
                            else
                              (let (index, t) = registerTypeId typeId (types11 c);
                                   s2 = put_encoder (Enc11 (c\<lparr>types11 := t\<rparr>)) s1
                               in if sint index < 0
                                  then and_then (write_string None False (bytes_of_string typeId) s2)
                                         (\<lambda>s3. Inr (flags0 OR FLAG_HAS_TYPE_ID_STRING, s3))
                                  else and_then (writeSize index s2)
                                         (\<lambda>s3. Inr (flags0 OR FLAG_HAS_TYPE_ID_INDEX, s3))))
                      else Inr (flags0, s1))
                else and_then (write_string None False (bytes_of_string typeId) s1)
                       (\<lambda>s2. Inr (flags0, s2)))
               (\<lambda>(flags, s4).
                 let s5 = (if flags AND FLAG_HAS_SLICE_SIZE \<noteq> 0 then write_int 0 s4 else s4)
                 in upd_instance (\<lambda>d. d\<lparr>sliceFlagsPos := pos, sliceFlags := flags,
                       writeSlice := length (obytes s5), firstSlice := False\<rparr>) s5))))"

fun write_instances :: "(vid \<Rightarrow> ostream \<Rightarrow> ostream result) \<Rightarrow> vid list \<Rightarrow> ostream \<Rightarrow> ostream result" where
  "write_instances iw [] s = Inr s"
| "write_instances iw (v # vs) s = and_then (writeInstance iw v s) (write_instances iw vs)"

definition endSlice11 :: "(vid \<Rightarrow> ostream \<Rightarrow> ostream result) \<Rightarrow> ostream \<Rightarrow> ostream result" where
  "endSlice11 iw s =
     and_then (instance_of s) (\<lambda>d.
       let s1 = (if sliceFlags d AND FLAG_HAS_OPTIONAL_MEMBERS \<noteq> 0
                 then write_byte OPTIONAL_END_MARKER s else s)
       in and_then
            (if sliceFlags d AND FLAG_HAS_SLICE_SIZE \<noteq> 0
             then write_int_at (word_of_nat (length (obytes s1) - writeSlice d + 4)) (writeSlice d - 4) s1
             else Inr s1)
            (\<lambda>s2. and_then
               (if indirectionTable d \<noteq> []
                then (if cur_format s2 \<noteq> SlicedFormat then Inl AssertFailed
                      else and_then
                        (upd_instance (\<lambda>d. d\<lparr>sliceFlags := sliceFlags d OR FLAG_HAS_INDIRECTION_TABLE\<rparr>) s2)
                        (\<lambda>s3. and_then (writeSize (word_of_nat (length (indirectionTable d))) s3)
                          (\<lambda>s4. and_then (write_instances iw (indirectionTable d) s4)
                            (upd_instance (\<lambda>d. d\<lparr>indirectionTable := [], indirectionMap := []\<rparr>)))))
                else Inr s2)
               (\<lambda>s5. and_then (instance_of s5) (\<lambda>d5.
                 if sliceFlagsPos d5 < length (obytes s5)
                 then Inr (s5\<lparr>obytes := (obytes s5)[sliceFlagsPos d5 := sliceFlags d5]\<rparr>)
                 else Inl MemoryError))))"

text \<open>Preserved slices of an unknown derived type (\<open>SlicedData\<close>).\<close>

record slice_info =
  siTypeId :: string
  siCompactId :: ice_int
  siBytes :: "byte list"
  siInstances :: "vid list"
  siHasOptionalMembers :: bool
  siIsLastSlice :: bool

fun write_slices :: "(vid \<Rightarrow> ostream \<Rightarrow> ostream result) \<Rightarrow> slice_info list \<Rightarrow> ostream \<Rightarrow> ostream result" where
  "write_slices iw [] s = Inr s"
| "write_slices iw (p # ps) s =
     and_then (startSlice11 (siTypeId p) (siCompactId p) (siIsLastSlice p) s) (\<lambda>s1.
       and_then
         (upd_instance (\<lambda>d. d\<lparr>sliceFlags :=
              (if siHasOptionalMembers p then sliceFlags d OR FLAG_HAS_OPTIONAL_MEMBERS else sliceFlags d),
            indirectionTable := siInstances p\<rparr>) (writeBlob (siBytes p) s1))
         (\<lambda>s2. and_then (endSlice11 iw s2) (write_slices iw ps)))"

definition writeSlicedData :: "(vid \<Rightarrow> ostream \<Rightarrow> ostream result) \<Rightarrow> slice_info list \<Rightarrow> ostream \<Rightarrow> ostream result" where
  "writeSlicedData iw slices s =
     (if cur_format s \<noteq> SlicedFormat then Inr s else write_slices iw slices s)"

definition startInstance11 ::
    "(vid \<Rightarrow> ostream \<Rightarrow> ostream result) \<Rightarrow> slice_type \<Rightarrow> slice_info list option \<Rightarrow> ostream \<Rightarrow> ostream result" where
  "startInstance11 iw t data s =
     and_then (enc11_of s) (\<lambda>c.
       let d = (case spare11 c of [] \<Rightarrow> fresh_instance | n # _ \<Rightarrow> n);
           c1 = c\<lparr>current11 := d\<lparr>sliceType := t, firstSlice := True\<rparr> # current11 c,
                  spare11 := tl (spare11 c)\<rparr>;
           s1 = put_encoder (Enc11 c1) s
       in case data of None \<Rightarrow> Inr s1 | Some slices \<Rightarrow> writeSlicedData iw slices s1)"

definition endInstance11 :: "ostream \<Rightarrow> ostream result" where
  "endInstance11 s =
     and_then (enc11_of s) (\<lambda>c.
       case current11 c of
         [] \<Rightarrow> Inl MemoryError
       | d # ds \<Rightarrow> Inr (put_encoder (Enc11 (c\<lparr>current11 := ds, spare11 := d # spare11 c\<rparr>)) s))"

subsection \<open>The public entry points\<close>

definition write_value :: "(vid \<Rightarrow> ostream \<Rightarrow> ostream result) \<Rightarrow> vid option \<Rightarrow> ostream \<Rightarrow> ostream result" where
  "write_value iw v s =
     (let s1 = initEncaps s in
      case cur_encaps s1 of
        Some e \<Rightarrow> (case enEncoder e of
            Some (Enc10 _) \<Rightarrow> write_value10 v s1
          | Some (Enc11 _) \<Rightarrow> write_value11 iw v s1
          | None \<Rightarrow> Inl AssertFailed)
      | None \<Rightarrow> Inl AssertFailed)"

definition startInstance ::
    "(vid \<Rightarrow> ostream \<Rightarrow> ostream result) \<Rightarrow> slice_type \<Rightarrow> slice_info list option \<Rightarrow> ostream \<Rightarrow> ostream result" where
  "startInstance iw t data s =
     (case cur_encaps s of
        Some e \<Rightarrow> (case enEncoder e of
            Some (Enc10 _) \<Rightarrow> startInstance10 t s
          | Some (Enc11 _) \<Rightarrow> startInstance11 iw t data s
          | None \<Rightarrow> Inl AssertFailed)
      | None \<Rightarrow> Inl AssertFailed)"

definition startValue :: "(vid \<Rightarrow> ostream \<Rightarrow> ostream result) \<Rightarrow> slice_info list option \<Rightarrow> ostream \<Rightarrow> ostream result" where
  "startValue iw data s = startInstance iw ValueSlice data s"

definition startException :: "(vid \<Rightarrow> ostream \<Rightarrow> ostream result) \<Rightarrow> slice_info list option \<Rightarrow> ostream \<Rightarrow> ostream result" where
  "startException iw data s = startInstance iw ExceptionSlice data s"

text \<open>\<open>endValue\<close> and \<open>endException\<close> are the same function.\<close>

definition endValue :: "ostream \<Rightarrow> ostream result" where
  "endValue s =
     (case cur_encaps s of
        Some e \<Rightarrow> (case enEncoder e of
            Some (Enc10 _) \<Rightarrow> endInstance10 s
          | Some (Enc11 _) \<Rightarrow> endInstance11 s
          | None \<Rightarrow> Inl AssertFailed)
      | None \<Rightarrow> Inl AssertFailed)"

definition startSlice :: "string \<Rightarrow> ice_int \<Rightarrow> bool \<Rightarrow> ostream \<Rightarrow> ostream result" where
  "startSlice typeId compactId isLast s =
     (case cur_encaps s of
        Some e \<Rightarrow> (case enEncoder e of
            Some (Enc10 _) \<Rightarrow> startSlice10 typeId s
          | Some (Enc11 _) \<Rightarrow> startSlice11 typeId compactId isLast s
          | None \<Rightarrow> Inl AssertFailed)
      | None \<Rightarrow> Inl AssertFailed)"

definition endSlice :: "(vid \<Rightarrow> ostream \<Rightarrow> ostream result) \<Rightarrow> ostream \<Rightarrow> ostream result" where
  "endSlice iw s =
     (case cur_encaps s of
        Some e \<Rightarrow> (case enEncoder e of
            Some (Enc10 _) \<Rightarrow> endSlice10 s
          | Some (Enc11 _) \<Rightarrow> endSlice11 iw s
          | None \<Rightarrow> Inl AssertFailed)
      | None \<Rightarrow> Inl AssertFailed)"

definition writePendingValues :: "(vid \<Rightarrow> ostream \<Rightarrow> ostream result) \<Rightarrow> nat \<Rightarrow> ostream \<Rightarrow> ostream result option" where
  "writePendingValues iw fuel s =
     (case Option.bind (cur_encaps s) enEncoder of
        Some (Enc10 _) \<Rightarrow> writePendingValues10 iw fuel s
      | Some (Enc11 _) \<Rightarrow> Some (Inr s)
      | None \<Rightarrow> if getEncoding s = Encoding_1_0 then Some (writeSize 0 s) else Some (Inr s))"

definition writeException ::
    "(vid \<Rightarrow> ostream \<Rightarrow> ostream result) \<Rightarrow> nat \<Rightarrow> bool \<Rightarrow> (ostream \<Rightarrow> ostream result) \<Rightarrow> ostream
      \<Rightarrow> ostream result option" where
  "writeException iw fuel usesClasses ew s =
     (let s1 = initEncaps s in
      case Option.bind (cur_encaps s1) enEncoder of
        Some (Enc10 _) \<Rightarrow> write_exception10 iw fuel usesClasses ew s1
      | Some (Enc11 _) \<Rightarrow> Some (ew s1)
      | None \<Rightarrow> Some (Inl AssertFailed))"

end
