(* ===== verification/IStream.thy ===== *)
theory IStream
  imports OEncoder
begin

section \<open>Ice::InputStream: primitive readers, sequences, encapsulations, optionals\<close>

text \<open>
  include/Ice/InputStream.h and src/Ice/InputStream.cpp.  The stream is the received bytes and the
  read position \<open>i\<close> (an index).  Encapsulations nest as in the output stream.  \<open>_startSeq\<close> and
  \<open>_minSeqSize\<close> are 32-bit integers and their sums and products wrap around, as the hardware
  computes them (signed overflow is undefined in C++).  An access outside the buffer that the code does
  not check is \<open>MemoryError\<close>; a throwing operation loses the stream, as the code abandons it.
  Reading a class instance (\<open>read(PatchFunc, void*)\<close>) is the parameter \<open>rc\<close> of the functions that
  skip optionals.
\<close>

record iencaps =
  ieStart :: nat
  ieSz :: ice_int
  ieEncoding :: version

record istream =
  ibytes :: "byte list"
  ipos :: nat
  iencoding :: version
  ipre :: iencaps
  istack :: "iencaps list option"
  startSeq :: ice_int
  minSeqSize :: ice_int

definition istream_init :: "version \<Rightarrow> byte list \<Rightarrow> istream" where
  "istream_init enc bs =
     \<lparr>ibytes = bs, ipos = 0, iencoding = enc,
      ipre = \<lparr>ieStart = 0, ieSz = 0, ieEncoding = mk_version 0 0\<rparr>,
      istack = None, startSeq = -1, minSeqSize = 0\<rparr>"

definition icur_encaps :: "istream \<Rightarrow> iencaps option" where
  "icur_encaps s = (case istack s of None \<Rightarrow> None | Some [] \<Rightarrow> Some (ipre s) | Some (e # es) \<Rightarrow> Some e)"

definition igetEncoding :: "istream \<Rightarrow> version" where
  "igetEncoding s = (case icur_encaps s of Some e \<Rightarrow> ieEncoding e | None \<Rightarrow> iencoding s)"

definition iresetEncapsulation :: "istream \<Rightarrow> istream" where
  "iresetEncapsulation s = s\<lparr>istack := (case istack s of None \<Rightarrow> None | Some _ \<Rightarrow> Some [])\<rparr>"

text \<open>\<open>clear\<close> pops the allocated encapsulations only and leaves \<open>_minSeqSize\<close> alone.\<close>

definition iclear :: "istream \<Rightarrow> istream" where
  "iclear s = s\<lparr>istack := (case istack s of None \<Rightarrow> None | Some _ \<Rightarrow> Some []), startSeq := -1\<rparr>"

definition iresize :: "istream \<Rightarrow> byte list \<Rightarrow> istream" where
  "iresize s bs = s\<lparr>ibytes := bs, ipos := length bs\<rparr>"

subsection \<open>Fixed-size reads\<close>

definition read_byte :: "istream \<Rightarrow> (byte \<times> istream) result" where
  "read_byte s =
     (if ipos s \<ge> length (ibytes s) then Inl UnmarshalOutOfBounds
      else Inr (ibytes s ! ipos s, s\<lparr>ipos := ipos s + 1\<rparr>))"

definition read_bool :: "istream \<Rightarrow> (bool \<times> istream) result" where
  "read_bool s = and_then (read_byte s) (\<lambda>(b, s1). Inr (b \<noteq> 0, s1))"

text \<open>\<open>b.end() - i < n\<close> is a signed difference; then \<open>n\<close> bytes are copied.\<close>

definition read_raw :: "nat \<Rightarrow> istream \<Rightarrow> (byte list \<times> istream) result" where
  "read_raw n s =
     (if int (length (ibytes s)) - int (ipos s) < int n then Inl UnmarshalOutOfBounds
      else Inr (take n (drop (ipos s) (ibytes s)), s\<lparr>ipos := ipos s + n\<rparr>))"

definition read_short :: "istream \<Rightarrow> (ice_short \<times> istream) result" where
  "read_short s = and_then (read_raw 2 s) (\<lambda>(bs, s1). Inr (le_word bs, s1))"

definition read_int :: "istream \<Rightarrow> (ice_int \<times> istream) result" where
  "read_int s = and_then (read_raw 4 s) (\<lambda>(bs, s1). Inr (le_word bs, s1))"

definition read_long :: "istream \<Rightarrow> (ice_long \<times> istream) result" where
  "read_long s = and_then (read_raw 8 s) (\<lambda>(bs, s1). Inr (le_word bs, s1))"

definition read_float :: "istream \<Rightarrow> (32 word \<times> istream) result" where
  "read_float s = and_then (read_raw 4 s) (\<lambda>(bs, s1). Inr (le_word bs, s1))"

definition read_double :: "istream \<Rightarrow> (64 word \<times> istream) result" where
  "read_double s = and_then (read_raw 8 s) (\<lambda>(bs, s1). Inr (le_word bs, s1))"

definition read_version :: "istream \<Rightarrow> (version \<times> istream) result" where
  "read_version s =
     and_then (read_byte s) (\<lambda>(a, s1). and_then (read_byte s1) (\<lambda>(b, s2). Inr (mk_version a b, s2)))"

definition readSize :: "istream \<Rightarrow> (ice_int \<times> istream) result" where
  "readSize s =
     and_then (read_byte s) (\<lambda>(b, s1).
       if b = 255
       then and_then (read_int s1) (\<lambda>(v, s2).
              if sint v < 0 then Inl UnmarshalOutOfBounds else Inr (v, s2))
       else Inr (ucast b, s1))"

definition skip_bytes :: "nat \<Rightarrow> istream \<Rightarrow> istream result" where
  "skip_bytes n s =
     (if ipos s + n > length (ibytes s) then Inl UnmarshalOutOfBounds
      else Inr (s\<lparr>ipos := ipos s + n\<rparr>))"

definition skipSize :: "istream \<Rightarrow> istream result" where
  "skipSize s = and_then (read_byte s) (\<lambda>(b, s1). if b = 255 then skip_bytes 4 s1 else Inr s1)"

definition readBlob :: "ice_int \<Rightarrow> istream \<Rightarrow> (byte list \<times> istream) result" where
  "readBlob sz s =
     (if sint sz > 0
      then (if int (length (ibytes s)) - int (ipos s) < sint sz then Inl UnmarshalOutOfBounds
            else Inr (take (unat sz) (drop (ipos s) (ibytes s)), s\<lparr>ipos := ipos s + unat sz\<rparr>))
      else Inr ([], s))"

subsection \<open>Sequences\<close>

definition readAndCheckSeqSize :: "nat \<Rightarrow> istream \<Rightarrow> (ice_int \<times> istream) result" where
  "readAndCheckSeqSize minSize s =
     and_then (readSize s) (\<lambda>(sz, s1).
       if sz = 0 then Inr (sz, s1)
       else
         (let need = sz * word_of_nat minSize;
              s2 = (if startSeq s1 = -1
                       \<or> int (ipos s1) > sint (startSeq s1) + sint (minSeqSize s1)
                    then s1\<lparr>startSeq := word_of_nat (ipos s1), minSeqSize := need\<rparr>
                    else s1\<lparr>minSeqSize := minSeqSize s1 + need\<rparr>)
          in if sint (startSeq s2 + minSeqSize s2) > sint (word_of_nat (length (ibytes s2)) :: ice_int)
             then Inl UnmarshalOutOfBounds
             else Inr (sz, s2)))"

fun decode_elems :: "nat \<Rightarrow> (byte list \<Rightarrow> 'a) \<Rightarrow> nat \<Rightarrow> byte list \<Rightarrow> 'a list" where
  "decode_elems w dec 0 bs = []"
| "decode_elems w dec (Suc n) bs = dec (take w bs) # decode_elems w dec n (drop w bs)"

text \<open>
  \<open>i += sz * sizeof(T)\<close> is a 32-bit product; the vector gets \<open>sz\<close> elements, zero where
  nothing was copied, and \<open>copy\<close> reads from the old to the new position without a check.
\<close>

definition read_seq :: "nat \<Rightarrow> (byte list \<Rightarrow> 'a) \<Rightarrow> 'a \<Rightarrow> istream \<Rightarrow> ('a list \<times> istream) result" where
  "read_seq w dec zero s =
     and_then (readAndCheckSeqSize w s) (\<lambda>(sz, s1).
       if sint sz > 0
       then (let n = sint (sz * word_of_nat w) in
             if n < 0 \<or> int (ipos s1) + n > int (length (ibytes s1)) then Inl MemoryError
             else
               (let raw = take (nat n) (drop (ipos s1) (ibytes s1));
                    vals = decode_elems w dec (nat n div w) raw
                in Inr (vals @ replicate (unat sz - length vals) zero, s1\<lparr>ipos := ipos s1 + nat n\<rparr>)))
       else Inr ([], s1))"

definition read_byte_seq :: "istream \<Rightarrow> (byte list \<times> istream) result" where
  "read_byte_seq = read_seq 1 hd 0"

definition read_bool_seq :: "istream \<Rightarrow> (bool list \<times> istream) result" where
  "read_bool_seq = read_seq 1 (\<lambda>bs. hd bs \<noteq> 0) False"

definition read_short_seq :: "istream \<Rightarrow> (ice_short list \<times> istream) result" where
  "read_short_seq = read_seq 2 le_word 0"

definition read_int_seq :: "istream \<Rightarrow> (ice_int list \<times> istream) result" where
  "read_int_seq = read_seq 4 le_word 0"

definition read_long_seq :: "istream \<Rightarrow> (ice_long list \<times> istream) result" where
  "read_long_seq = read_seq 8 le_word 0"

definition read_float_seq :: "istream \<Rightarrow> (32 word list \<times> istream) result" where
  "read_float_seq = read_seq 4 le_word 0"

definition read_double_seq :: "istream \<Rightarrow> (64 word list \<times> istream) result" where
  "read_double_seq = read_seq 8 le_word 0"

subsection \<open>Strings and enumerators\<close>

type_synonym from_utf8 = "byte list \<Rightarrow> byte list option"

definition readConverted :: "from_utf8 option \<Rightarrow> byte list \<Rightarrow> byte list option result" where
  "readConverted conv bs =
     (case conv of
        None \<Rightarrow> Inr None
      | Some fromUTF8 \<Rightarrow> (case fromUTF8 bs of None \<Rightarrow> Inl StringConversion | Some v \<Rightarrow> Inr (Some v)))"

definition read_string :: "from_utf8 option \<Rightarrow> bool \<Rightarrow> istream \<Rightarrow> (byte list \<times> istream) result" where
  "read_string conv convert s =
     and_then (readSize s) (\<lambda>(sz, s1).
       if sint sz > 0
       then (if int (length (ibytes s1)) - int (ipos s1) < sint sz then Inl UnmarshalOutOfBounds
             else
               (let bs = take (unat sz) (drop (ipos s1) (ibytes s1));
                    s2 = s1\<lparr>ipos := ipos s1 + unat sz\<rparr>
                in if \<not> convert then Inr (bs, s2)
                   else and_then (readConverted conv bs)
                          (\<lambda>r. Inr (case r of None \<Rightarrow> bs | Some v \<Rightarrow> v, s2))))
       else Inr ([], s1))"

fun read_strings :: "from_utf8 option \<Rightarrow> bool \<Rightarrow> nat \<Rightarrow> istream \<Rightarrow> (byte list list \<times> istream) result" where
  "read_strings conv convert 0 s = Inr ([], s)"
| "read_strings conv convert (Suc n) s =
     and_then (read_string conv convert s) (\<lambda>(x, s1).
       and_then (read_strings conv convert n s1) (\<lambda>(xs, s2). Inr (x # xs, s2)))"

definition read_string_seq :: "from_utf8 option \<Rightarrow> bool \<Rightarrow> istream \<Rightarrow> (byte list list \<times> istream) result" where
  "read_string_seq conv convert s =
     and_then (readAndCheckSeqSize 1 s) (\<lambda>(sz, s1).
       if sint sz > 0 then read_strings conv convert (unat sz) s1 else Inr ([], s1))"

text \<open>The byte of a small enumerator is converted without sign, the short with sign.\<close>

definition readEnum :: "ice_int \<Rightarrow> istream \<Rightarrow> (ice_int \<times> istream) result" where
  "readEnum maxValue s =
     (if igetEncoding s = Encoding_1_0
      then (if sint maxValue < 127 then and_then (read_byte s) (\<lambda>(b, s1). Inr (ucast b, s1))
            else if sint maxValue < 32767 then and_then (read_short s) (\<lambda>(v, s1). Inr (scast v, s1))
            else read_int s)
      else readSize s)"

subsection \<open>Encapsulations\<close>

definition ipush_encaps :: "istream \<Rightarrow> istream" where
  "ipush_encaps s =
     (case istack s of
        None \<Rightarrow> s\<lparr>istack := Some [], ipre := (ipre s)\<lparr>ieStart := ipos s\<rparr>\<rparr>
      | Some es \<Rightarrow> s\<lparr>istack := Some (\<lparr>ieStart = ipos s, ieSz = 0, ieEncoding = mk_version 0 0\<rparr> # es)\<rparr>)"

definition iset_encaps :: "(iencaps \<Rightarrow> iencaps) \<Rightarrow> istream \<Rightarrow> istream" where
  "iset_encaps f s =
     (case istack s of
        None \<Rightarrow> s
      | Some [] \<Rightarrow> s\<lparr>ipre := f (ipre s)\<rparr>
      | Some (e # es) \<Rightarrow> s\<lparr>istack := Some (f e # es)\<rparr>)"

definition ipop_encaps :: "istream \<Rightarrow> istream" where
  "ipop_encaps s =
     (case istack s of
        None \<Rightarrow> s
      | Some [] \<Rightarrow> s\<lparr>istack := None\<rparr>
      | Some (_ # es) \<Rightarrow> s\<lparr>istack := Some es\<rparr>)"

definition istartEncapsulation :: "istream \<Rightarrow> (version \<times> istream) result" where
  "istartEncapsulation s =
     and_then (read_int (ipush_encaps s)) (\<lambda>(sz, s1).
       if sint sz < 6 then Inl UnmarshalOutOfBounds
       else if ipos s1 - 4 + unat sz > length (ibytes s1) then Inl UnmarshalOutOfBounds
       else and_then (read_version (iset_encaps (\<lambda>e. e\<lparr>ieSz := sz\<rparr>) s1)) (\<lambda>(v, s2).
              and_then (checkSupportedEncoding v)
                (\<lambda>_. Inr (v, iset_encaps (\<lambda>e. e\<lparr>ieEncoding := v\<rparr>) s2))))"

definition skipEncapsulation :: "istream \<Rightarrow> (version \<times> istream) result" where
  "skipEncapsulation s =
     and_then (read_int s) (\<lambda>(sz, s1).
       if sint sz < 6 then Inl UnmarshalOutOfBounds
       else if ipos s1 - 4 + unat sz > length (ibytes s1) then Inl UnmarshalOutOfBounds
       else and_then (read_version s1) (\<lambda>(v, s2). Inr (v, s2\<lparr>ipos := ipos s2 + (unat sz - 6)\<rparr>)))"

definition skipEmptyEncapsulation :: "istream \<Rightarrow> (version \<times> istream) result" where
  "skipEmptyEncapsulation s =
     and_then (read_int s) (\<lambda>(sz, s1).
       if sint sz < 6 then Inl EncapsulationError
       else if ipos s1 - 4 + unat sz > length (ibytes s1) then Inl UnmarshalOutOfBounds
       else and_then (read_version s1) (\<lambda>(v, s2).
              and_then (checkSupportedEncoding v) (\<lambda>_.
                if v = Encoding_1_0
                then (if sz \<noteq> 6 then Inl EncapsulationError else Inr (v, s2))
                else Inr (v, s2\<lparr>ipos := ipos s2 + (unat sz - 6)\<rparr>))))"

text \<open>The result is the start and the size of the encapsulation in the buffer, and its encoding.\<close>

definition readEncapsulation :: "istream \<Rightarrow> (nat \<times> ice_int \<times> version \<times> istream) result" where
  "readEncapsulation s =
     and_then (read_int s) (\<lambda>(sz, s1).
       if sint sz < 6 then Inl EncapsulationError
       else if ipos s1 - 4 + unat sz > length (ibytes s1) then Inl UnmarshalOutOfBounds
       else and_then (read_version s1)
              (\<lambda>(v, s2). Inr (ipos s, sz, v, s2\<lparr>ipos := ipos s2 + (unat sz - 6)\<rparr>)))"

definition getEncapsulationSize :: "istream \<Rightarrow> ice_int result" where
  "getEncapsulationSize s =
     (case icur_encaps s of None \<Rightarrow> Inl AssertFailed | Some e \<Rightarrow> Inr (ieSz e - 4 - 2))"

definition encaps_end :: "iencaps \<Rightarrow> int" where
  "encaps_end e = int (ieStart e) + sint (ieSz e)"

subsection \<open>Optionals\<close>

definition format_of_code :: "byte \<Rightarrow> optional_format" where
  "format_of_code b =
     (if b = 0 then OF1 else if b = 1 then OF2 else if b = 2 then OF4 else if b = 3 then OF8
      else if b = 4 then OSize else if b = 5 then OVSize else if b = 6 then OFSize else OClass)"

definition skipOptional :: "(istream \<Rightarrow> istream result) \<Rightarrow> optional_format \<Rightarrow> istream \<Rightarrow> istream result" where
  "skipOptional rc fmt s =
     (case fmt of
        OF1 \<Rightarrow> skip_bytes 1 s
      | OF2 \<Rightarrow> skip_bytes 2 s
      | OF4 \<Rightarrow> skip_bytes 4 s
      | OF8 \<Rightarrow> skip_bytes 8 s
      | OSize \<Rightarrow> skipSize s
      | OVSize \<Rightarrow> and_then (readSize s) (\<lambda>(n, s1). skip_bytes (unat n) s1)
      | OFSize \<Rightarrow> and_then (read_int s) (\<lambda>(n, s1).
            if sint n < 0 then Inl UnmarshalOutOfBounds else skip_bytes (unat n) s1)
      | OClass \<Rightarrow> rc s)"

definition unexpected_format :: string where
  "unexpected_format = ''unexpected format''"

text \<open>
  The search for a tag; one unit of fuel is one turn of the \<open>while(true)\<close> loop and \<open>None\<close> says
  that the loop is still running.
\<close>

fun readOptImpl :: "(istream \<Rightarrow> istream result) \<Rightarrow> nat \<Rightarrow> ice_int \<Rightarrow> optional_format \<Rightarrow> istream
    \<Rightarrow> (bool \<times> istream) result option" where
  "readOptImpl rc 0 readTag expectedFormat s = None"
| "readOptImpl rc (Suc fuel) readTag expectedFormat s =
     (if igetEncoding s = Encoding_1_0 then Some (Inr (False, s))
      else case icur_encaps s of
        None \<Rightarrow> Some (Inl MemoryError)
      | Some e \<Rightarrow>
          if int (ipos s) \<ge> encaps_end e then Some (Inr (False, s))
          else case read_byte s of
            Inl x \<Rightarrow> Some (Inl x)
          | Inr (v, s1) \<Rightarrow>
              if v = OPTIONAL_END_MARKER then Some (Inr (False, s1\<lparr>ipos := ipos s1 - 1\<rparr>))
              else
                (let fmt = format_of_code (v AND 7); t = drop_bit 3 v in
                 case (if t = 30 then readSize s1 else Inr (ucast t, s1)) of
                   Inl x \<Rightarrow> Some (Inl x)
                 | Inr (tag, s2) \<Rightarrow>
                     if sint tag > sint readTag
                     then Some (Inr (False, s2\<lparr>ipos := ipos s2 -
                            (if sint tag < 30 then 1 else if sint tag < 255 then 2 else 6)\<rparr>))
                     else if sint tag < sint readTag
                     then (case skipOptional rc fmt s2 of
                             Inl x \<Rightarrow> Some (Inl x)
                           | Inr s3 \<Rightarrow> readOptImpl rc fuel readTag expectedFormat s3)
                     else if fmt \<noteq> expectedFormat then Some (Inl (MarshalError unexpected_format))
                     else Some (Inr (True, s2))))"

fun skipOptionals :: "(istream \<Rightarrow> istream result) \<Rightarrow> nat \<Rightarrow> istream \<Rightarrow> istream result option" where
  "skipOptionals rc 0 s = None"
| "skipOptionals rc (Suc fuel) s =
     (case icur_encaps s of
        None \<Rightarrow> Some (Inl MemoryError)
      | Some e \<Rightarrow>
          if int (ipos s) \<ge> encaps_end e then Some (Inr s)
          else case read_byte s of
            Inl x \<Rightarrow> Some (Inl x)
          | Inr (v, s1) \<Rightarrow>
              if v = OPTIONAL_END_MARKER then Some (Inr s1)
              else case (if drop_bit 3 v = 30 then skipSize s1 else Inr s1) of
                  Inl x \<Rightarrow> Some (Inl x)
                | Inr s2 \<Rightarrow>
                    (case skipOptional rc (format_of_code (v AND 7)) s2 of
                       Inl x \<Rightarrow> Some (Inl x)
                     | Inr s3 \<Rightarrow> skipOptionals rc fuel s3))"

definition iendEncapsulation :: "(istream \<Rightarrow> istream result) \<Rightarrow> nat \<Rightarrow> istream \<Rightarrow> istream result option" where
  "iendEncapsulation rc fuel s =
     (case icur_encaps s of
        None \<Rightarrow> Some (Inl AssertFailed)
      | Some e \<Rightarrow>
          if ieEncoding e \<noteq> Encoding_1_0
          then (case skipOptionals rc fuel s of
                  None \<Rightarrow> None
                | Some (Inl x) \<Rightarrow> Some (Inl x)
                | Some (Inr s1) \<Rightarrow>
                    if int (ipos s1) \<noteq> encaps_end e then Some (Inl EncapsulationError)
                    else Some (Inr (ipop_encaps s1)))
          else if int (ipos s) \<noteq> encaps_end e
          then (if int (ipos s) + 1 \<noteq> encaps_end e then Some (Inl EncapsulationError)
                else Some (Inr (ipop_encaps (s\<lparr>ipos := ipos s + 1\<rparr>))))
          else Some (Inr (ipop_encaps s)))"

end
