(* ===== verification/Codec.thy ===== *)
theory Codec
  imports IStream
begin

section \<open>Marshalling laws: what is written is what is read\<close>

text \<open>
  \<open>codec\<close> is the contract between a writer and a reader of a type: the writer appends the layout of
  the value, the reader, standing in front of that layout, returns the value and moves behind it.  The
  round trips of whole message bodies are proved once from the contract and interpreted for every
  primitive type, for sizes, strings and sequences.
\<close>

named_theorems codec_simps

text \<open>
  \<open>ready s\<close>: the read position has passed the data that \<open>readAndCheckSeqSize\<close> accounts for, so
  the next sequence starts a new account.
\<close>

definition ready :: "istream \<Rightarrow> bool" where
  "ready s \<longleftrightarrow> length (ibytes s) < 2 ^ 31 \<and>
     (startSeq s = -1 \<or> int (ipos s) \<ge> sint (startSeq s) + sint (minSeqSize s))"

definition stepped :: "istream \<Rightarrow> nat \<Rightarrow> istream \<Rightarrow> bool" where
  "stepped s n s' \<longleftrightarrow> ibytes s' = ibytes s \<and> ipos s' = ipos s + n \<and> iencoding s' = iencoding s
     \<and> ipre s' = ipre s \<and> istack s' = istack s \<and> ready s'"

lemma stepped_trans: "stepped s m s1 \<Longrightarrow> stepped s1 n s2 \<Longrightarrow> stepped s (m + n) s2"
  by (simp add: stepped_def)

lemma stepped_refl: "ready s \<Longrightarrow> stepped s 0 s"
  by (simp add: stepped_def)

lemma stepped_ready: "stepped s n s' \<Longrightarrow> ready s'"
  by (simp add: stepped_def)

lemma stepped_pos: "ready s \<Longrightarrow> stepped s n (s\<lparr>ipos := ipos s + n\<rparr>)"
  by (auto simp: stepped_def ready_def)

lemma stepped_drop:
  "stepped s n s' \<Longrightarrow> drop (ipos s) (ibytes s) = xs @ rest \<Longrightarrow> n = length xs \<Longrightarrow>
    drop (ipos s') (ibytes s') = rest"
  by (simp add: stepped_def add.commute [of "ipos s"] drop_drop [symmetric] del: drop_drop)

lemma ahead_length:
  assumes "drop (ipos s) (ibytes s) = xs @ rest" "xs \<noteq> []"
  shows "ipos s + length xs \<le> length (ibytes s)"
proof -
  have "length (ibytes s) - ipos s = length xs + length rest"
    using arg_cong [OF assms(1), of length] by simp
  moreover have "0 < length xs" using assms(2) by simp
  ultimately show ?thesis by arith
qed

locale codec =
  fixes lay :: "'a \<Rightarrow> byte list"
    and wr :: "'a \<Rightarrow> ostream \<Rightarrow> ostream result"
    and rd :: "istream \<Rightarrow> ('a \<times> istream) result"
    and ok :: "'a \<Rightarrow> bool"
  assumes wr_lay: "ok x \<Longrightarrow> wr x s = Inr (s\<lparr>obytes := obytes s @ lay x\<rparr>)"
    and rd_lay: "ok x \<Longrightarrow> ready r \<Longrightarrow> drop (ipos r) (ibytes r) = lay x @ rest \<Longrightarrow>
      \<exists>r'. rd r = Inr (x, r') \<and> stepped r (length (lay x)) r'"
begin

lemma roundtrip:
  assumes "ok x" "wr x s = Inr s'" "ibytes r = obytes s' @ rest" "ipos r = length (obytes s)" "ready r"
  shows "\<exists>r'. rd r = Inr (x, r') \<and> stepped r (length (obytes s') - length (obytes s)) r'"
proof -
  have "obytes s' = obytes s @ lay x"
    using wr_lay [OF assms(1), of s] assms(2) by auto
  with assms(3,4) have "drop (ipos r) (ibytes r) = lay x @ rest" by simp
  from rd_lay [OF assms(1,5) this] \<open>obytes s' = _\<close> show ?thesis by simp
qed

end

subsection \<open>Fixed-size types\<close>

lemma stepped_ipos: "ready s \<Longrightarrow> m = ipos s + n \<Longrightarrow> stepped s n (s\<lparr>ipos := m\<rparr>)"
  using stepped_pos by simp

lemma read_raw_ahead:
  assumes "drop (ipos r) (ibytes r) = xs @ rest" "xs \<noteq> []" "n = length xs"
  shows "read_raw n r = Inr (xs, r\<lparr>ipos := ipos r + n\<rparr>)"
  using ahead_length [OF assms(1,2)] assms by (simp add: read_raw_def)

lemma read_byte_ahead:
  assumes "drop (ipos r) (ibytes r) = b # rest"
  shows "read_byte r = Inr (b, r\<lparr>ipos := ipos r + 1\<rparr>)"
proof -
  have "ipos r < length (ibytes r)"
    using assms by (metis drop_all list.distinct(1) not_le)
  with assms show ?thesis
    by (simp add: read_byte_def) (metis hd_drop_conv_nth list.sel(1))
qed

lemma le_bytes_nonempty: "n > 0 \<Longrightarrow> le_bytes n w \<noteq> []"
  by (cases n) auto

lemma le_word_bytes [simp]:
  "le_word (le_bytes 2 (v :: ice_short)) = v"
  "le_word (le_bytes 4 (u :: ice_int)) = u"
  "le_word (le_bytes 8 (w :: ice_long)) = w"
  by simp_all

interpretation byte_codec: codec "\<lambda>b. [b]" "\<lambda>b s. Inr (write_byte b s)" read_byte "\<lambda>_. True"
  by unfold_locales
    (simp_all add: write_byte_def read_byte_ahead stepped_ipos)

interpretation bool_codec: codec "\<lambda>b. [if b then 1 else 0]" "\<lambda>b s. Inr (write_bool b s)" read_bool
  "\<lambda>_. True"
  by unfold_locales
    (auto simp: write_bool_def write_byte_def read_bool_def read_byte_ahead
      stepped_ipos split: if_splits)

interpretation short_codec: codec "le_bytes 2" "\<lambda>v s. Inr (write_short v s)" read_short "\<lambda>_. True"
  by unfold_locales
    (simp_all add: write_short_def read_short_def read_raw_ahead le_bytes_nonempty stepped_ipos)

interpretation int_codec: codec "le_bytes 4" "\<lambda>v s. Inr (write_int v s)" read_int "\<lambda>_. True"
  by unfold_locales
    (simp_all add: write_int_def read_int_def read_raw_ahead le_bytes_nonempty stepped_ipos)

interpretation long_codec: codec "le_bytes 8" "\<lambda>v s. Inr (write_long v s)" read_long "\<lambda>_. True"
  by unfold_locales
    (simp_all add: write_long_def read_long_def read_raw_ahead le_bytes_nonempty stepped_ipos)

interpretation float_codec: codec "le_bytes 4" "\<lambda>v s. Inr (write_float v s)" read_float "\<lambda>_. True"
  by unfold_locales
    (simp_all add: write_float_def read_float_def read_raw_ahead le_bytes_nonempty stepped_ipos)

interpretation double_codec: codec "le_bytes 8" "\<lambda>v s. Inr (write_double v s)" read_double "\<lambda>_. True"
  by unfold_locales
    (simp_all add: write_double_def read_double_def read_raw_ahead le_bytes_nonempty stepped_ipos)

subsection \<open>Sizes\<close>

definition lay_size :: "ice_int \<Rightarrow> byte list" where
  "lay_size v = (if sint v > 254 then 255 # le_bytes 4 v else [ucast v])"

lemma small_size:
  assumes "0 \<le> sint v" "\<not> sint v > 254"
  shows "ucast (ucast v :: byte) = (v :: ice_int)" "(ucast v :: byte) \<noteq> 255"
proof -
  have u: "unat v \<le> 254"
    using assms by (intro unat_le_of_sint) auto
  show "ucast (ucast v :: byte) = v" using u by (simp add: ucast_ucast_small)
  have "unat (ucast v :: byte) \<noteq> 255" using u by (simp add: ucast_byte_int)
  then show "(ucast v :: byte) \<noteq> 255" by auto
qed

lemma size_of_byte: "0 \<le> sint (ucast (b :: byte) :: ice_int)"
  using unat_byte_less [of b] by (simp add: sint32 ucast_int_byte)

interpretation size_codec: codec lay_size writeSize readSize "\<lambda>v. 0 \<le> sint v"
proof unfold_locales
  fix v :: ice_int and s
  assume "0 \<le> sint v"
  then show "writeSize v s = Inr (s\<lparr>obytes := obytes s @ lay_size v\<rparr>)"
    by (simp add: writeSize_def lay_size_def write_int_def write_byte_def)
next
  fix v :: ice_int and r rest
  assume v: "0 \<le> sint v" and r: "ready r" and d: "drop (ipos r) (ibytes r) = lay_size v @ rest"
  show "\<exists>r'. readSize r = Inr (v, r') \<and> stepped r (length (lay_size v)) r'"
  proof (cases "sint v > 254")
    case True
    with d have d': "drop (ipos r) (ibytes r) = 255 # le_bytes 4 v @ rest" by (simp add: lay_size_def)
    let ?r1 = "r\<lparr>ipos := ipos r + 1\<rparr>"
    have "drop (ipos ?r1) (ibytes ?r1) = le_bytes 4 v @ rest"
      using d' by (metis Suc_eq_plus1 drop_Suc istream.select_convs(1,2) istream.update_convs(2)
          istream.surjective list.sel(3) tl_drop)
    then have "read_int ?r1 = Inr (v, ?r1\<lparr>ipos := ipos ?r1 + 4\<rparr>)"
      by (simp add: read_int_def read_raw_ahead le_bytes_nonempty)
    with True v d' r show ?thesis
      by (simp add: readSize_def read_byte_ahead lay_size_def stepped_ipos)
  next
    case False
    with v d r small_size [OF v False] show ?thesis
      by (simp add: readSize_def read_byte_ahead lay_size_def stepped_ipos)
  qed
qed

subsection \<open>Strings\<close>

lemma lay_size_cases:
  "sint v \<le> 254 \<Longrightarrow> lay_size v = [ucast v]"
  "sint v > 254 \<Longrightarrow> lay_size v = 255 # le_bytes 4 v"
  by (simp_all add: lay_size_def)

lemma writeSize_lay: "0 \<le> sint v \<Longrightarrow> writeSize v s = Inr (s\<lparr>obytes := obytes s @ lay_size v\<rparr>)"
  by (rule size_codec.wr_lay)

lemma update_at: "n = length B \<Longrightarrow> (B @ x # ys)[n := y] = B @ y # ys"
  by (simp add: list_update_append)

lemma rewriteSize_small:
  assumes "0 \<le> sint a" "sint a \<le> 254" "obytes s = B @ x # u" "n = length B"
  shows "rewriteSize a n s = Inr (s\<lparr>obytes := B @ lay_size a @ u\<rparr>)"
  using assms by (simp add: rewriteSize_def lay_size_cases update_at)

lemma rewriteSize_big:
  assumes "sint a > 254" "obytes s = B @ x # w @ u" "length w = 4" "n = length B"
  shows "rewriteSize a n s = Inr (s\<lparr>obytes := B @ lay_size a @ u\<rparr>)"
proof -
  have "poke (B @ 255 # w @ u) (Suc (length B)) (le_bytes 4 a) = B @ 255 # le_bytes 4 a @ u"
    using poke_append [of "Suc (length B)" "B @ [255]" "le_bytes 4 a" w u] assms(3) by simp
  with assms show ?thesis
    by (simp add: rewriteSize_def lay_size_cases update_at write_int_at_def)
qed

lemma writeConverted_lay:
  assumes conv: "toUTF8 v = Some (u, unused)"
    and lv: "length v < 2147483648" and lu: "length u < 2147483648"
  shows "writeConverted (Some toUTF8) v s
    = Inr (s\<lparr>obytes := obytes s @ lay_size (word_of_nat (length u)) @ u\<rparr>)"
proof -
  define g a B where "g = (word_of_nat (length v) :: ice_int)"
    and "a = (word_of_nat (length u) :: ice_int)" and "B = obytes s"
  have g: "sint g = int (length v)" and a: "sint a = int (length u)" "unat a = length u"
    using lv lu by (simp_all add: g_def a_def sint32_of_nat unat_of_nat)
  have ws: "writeSize g s = Inr (s\<lparr>obytes := B @ lay_size g\<rparr>)"
    using g by (simp add: writeSize_lay B_def)
  consider (eq) "g = a" | (ss) "g \<noteq> a" "sint g \<le> 254" "sint a \<le> 254"
    | (sb) "g \<noteq> a" "sint g \<le> 254" "sint a > 254" | (bs) "g \<noteq> a" "sint g > 254" "sint a \<le> 254"
    | (bb) "g \<noteq> a" "sint g > 254" "sint a > 254" by linarith
  then have "writeConverted (Some toUTF8) v s = Inr (s\<lparr>obytes := B @ lay_size a @ u\<rparr>)"
  proof cases
    case eq
    with ws conv show ?thesis
      by (simp add: writeConverted_def Let_def g_def [symmetric] a_def [symmetric])
  next
    case ss
    have "rewriteSize a (length B) (s\<lparr>obytes := B @ ucast g # u\<rparr>) = Inr (s\<lparr>obytes := B @ lay_size a @ u\<rparr>)"
      using ss a by (subst rewriteSize_small) auto
    with ws conv ss show ?thesis
      by (simp add: writeConverted_def Let_def g_def [symmetric] a_def [symmetric] lay_size_cases)
  next
    case sb
    have p: "poke (B @ ucast g # u @ [0, 0, 0, 0]) (5 + length B) u
        = B @ ucast g # take 4 (u @ [0, 0, 0, 0]) @ u"
      by (simp add: poke_def)
    have "rewriteSize a (length B) (s\<lparr>obytes := B @ ucast g # take 4 (u @ [0, 0, 0, 0]) @ u\<rparr>)
        = Inr (s\<lparr>obytes := B @ lay_size a @ u\<rparr>)"
      using sb by (subst rewriteSize_big) auto
    with ws conv sb p a show ?thesis
      by (simp add: writeConverted_def Let_def g_def [symmetric] a_def [symmetric] lay_size_cases)
  next
    case bs
    have p: "take (Suc (length B + length u)) (poke (B @ 255 # le_bytes 4 g @ u) (Suc (length B)) u)
        = B @ 255 # u"
      by (simp add: poke_def)
    have "rewriteSize a (length B) (s\<lparr>obytes := B @ 255 # u\<rparr>) = Inr (s\<lparr>obytes := B @ lay_size a @ u\<rparr>)"
      using bs a by (subst rewriteSize_small) auto
    with ws conv bs p a show ?thesis
      by (simp add: writeConverted_def Let_def g_def [symmetric] a_def [symmetric] lay_size_cases)
  next
    case bb
    have "rewriteSize a (length B) (s\<lparr>obytes := B @ 255 # le_bytes 4 g @ u\<rparr>)
        = Inr (s\<lparr>obytes := B @ lay_size a @ u\<rparr>)"
      using bb by (subst rewriteSize_big) auto
    with ws conv bb show ?thesis
      by (simp add: writeConverted_def Let_def g_def [symmetric] a_def [symmetric] lay_size_cases)
  qed
  then show ?thesis by (simp add: a_def B_def)
qed

definition lay_string :: "byte list \<Rightarrow> byte list" where
  "lay_string u = lay_size (word_of_nat (length u)) @ u"

lemma lay_size_nonempty: "lay_size v \<noteq> []"
  by (simp add: lay_size_def)

lemma read_string_ahead:
  assumes "length u < 2147483648" "ready r" "drop (ipos r) (ibytes r) = lay_string u @ rest"
  shows "\<exists>r'. read_string conv False r = Inr (u, r') \<and> stepped r (length (lay_string u)) r'"
    "u \<noteq> [] \<Longrightarrow> \<exists>r'. read_string conv True r =
       and_then (readConverted conv u) (\<lambda>x. Inr (case x of None \<Rightarrow> u | Some v \<Rightarrow> v, r'))
       \<and> stepped r (length (lay_string u)) r'"
proof -
  define n where "n = (word_of_nat (length u) :: ice_int)"
  have n: "sint n = int (length u)" "unat n = length u"
    using assms(1) by (simp_all add: n_def sint32_of_nat unat_of_nat)
  have d: "drop (ipos r) (ibytes r) = lay_size n @ u @ rest"
    using assms(3) by (simp add: lay_string_def n_def)
  with assms(2) n obtain r1 where r1: "readSize r = Inr (n, r1)" "stepped r (length (lay_size n)) r1"
    using size_codec.rd_lay [of n r "u @ rest"] by auto
  have d1: "drop (ipos r1) (ibytes r1) = u @ rest"
    using stepped_drop [OF r1(2) d] by simp
  have s1: "stepped r1 (length u) (r1\<lparr>ipos := ipos r1 + length u\<rparr>)"
    using stepped_ready [OF r1(2)] by (rule stepped_pos)
  have s2: "stepped r (length (lay_string u)) (r1\<lparr>ipos := ipos r1 + length u\<rparr>)"
    using stepped_trans [OF r1(2) s1] by (simp add: lay_string_def n_def)
  have len: "u \<noteq> [] \<Longrightarrow> ipos r1 + length u \<le> length (ibytes r1)"
    using ahead_length [OF d1] by simp
  show "\<exists>r'. read_string conv False r = Inr (u, r') \<and> stepped r (length (lay_string u)) r'"
  proof (cases "u = []")
    case True
    with r1 n s2 show ?thesis by (auto simp: read_string_def)
  next
    case False
    with r1 n s2 d1 len show ?thesis by (auto simp: read_string_def)
  qed
  show "\<exists>r'. read_string conv True r =
       and_then (readConverted conv u) (\<lambda>x. Inr (case x of None \<Rightarrow> u | Some v \<Rightarrow> v, r'))
       \<and> stepped r (length (lay_string u)) r'" if "u \<noteq> []"
    using r1 n s2 d1 len that by (auto simp: read_string_def)
qed

lemma write_string_lay:
  "length u < 2147483648 \<Longrightarrow> write_string conv False u s = Inr (s\<lparr>obytes := obytes s @ lay_string u\<rparr>)"
  by (auto simp: write_string_def Let_def sint32_of_nat writeSize_lay writeBlob_def lay_string_def)

lemma write_string_converted:
  assumes "length v < 2147483648" "length u < 2147483648" "v \<noteq> []" "toUTF8 v = Some (u, unused)"
  shows "write_string (Some toUTF8) True v s = Inr (s\<lparr>obytes := obytes s @ lay_string u\<rparr>)"
  using assms writeConverted_lay [of toUTF8 v u unused s]
  by (simp add: write_string_def Let_def sint32_of_nat lay_string_def)

interpretation string_codec: codec lay_string "write_string conv False" "read_string conv' False"
    "\<lambda>u. length u < 2147483648" for conv conv'
  by unfold_locales (simp_all add: write_string_lay read_string_ahead)

subsection \<open>Sequences of fixed-size elements\<close>

definition lay_seq :: "('a \<Rightarrow> byte list) \<Rightarrow> 'a list \<Rightarrow> byte list" where
  "lay_seq lay xs = lay_size (word_of_nat (length xs)) @ concat (map lay xs)"

lemma write_seq_lay:
  "length xs < 2147483648 \<Longrightarrow> write_seq lay xs s = Inr (s\<lparr>obytes := obytes s @ lay_seq lay xs\<rparr>)"
  by (auto simp: write_seq_def Let_def sint32_of_nat writeSize_lay writeBlob_def lay_seq_def)

lemma decode_elems_lay:
  assumes "\<And>x. length (lay x) = w" "\<And>x. dec (lay x) = x"
  shows "decode_elems w dec (length xs) (concat (map lay xs)) = xs"
  by (induction xs) (simp_all add: assms)

lemma length_concat_lay: "(\<And>x. length (lay x) = w) \<Longrightarrow> length (concat (map lay xs)) = w * length xs"
  by (induction xs) simp_all

text \<open>
  The check of \<open>readAndCheckSeqSize\<close> on well-formed data: with a fresh account it accepts
  every sequence whose elements really are in the buffer, and the account covers exactly them.
\<close>

lemma readAndCheckSeqSize_ahead:
  assumes r: "ready r" and d: "drop (ipos r) (ibytes r) = lay_size n @ rest"
    and n: "0 \<le> sint n" and fit: "unat n * w \<le> length rest"
  shows "\<exists>r'. readAndCheckSeqSize w r = Inr (n, r') \<and> drop (ipos r') (ibytes r') = rest
      \<and> ibytes r' = ibytes r \<and> ipos r' = ipos r + length (lay_size n)
      \<and> iencoding r' = iencoding r \<and> ipre r' = ipre r \<and> istack r' = istack r
      \<and> (n = 0 \<longrightarrow> ready r')
      \<and> (n \<noteq> 0 \<longrightarrow> sint (startSeq r') + sint (minSeqSize r') = int (ipos r' + unat n * w)
            \<and> sint (n * word_of_nat w) = int (unat n * w))"
proof -
  obtain r1 where r1: "readSize r = Inr (n, r1)" "stepped r (length (lay_size n)) r1"
      "startSeq r1 = startSeq r" "minSeqSize r1 = minSeqSize r"
  proof -
    from size_codec.rd_lay [OF n r d] obtain r1 where
      "readSize r = Inr (n, r1)" "stepped r (length (lay_size n)) r1" by blast
    moreover from this(1) have "startSeq r1 = startSeq r \<and> minSeqSize r1 = minSeqSize r"
      by (auto simp: readSize_def read_int_def read_byte_def read_raw_def res_simps split: if_splits)
    ultimately show ?thesis using that by blast
  qed
  have d1: "drop (ipos r1) (ibytes r1) = rest"
    using stepped_drop [OF r1(2) d] by simp
  have len: "length (ibytes r1) < 2147483648"
    using stepped_ready [OF r1(2)] by (simp add: ready_def)
  have bound: "ipos r1 + unat n * w \<le> length (ibytes r1)"
  proof -
    have "ipos r + length (lay_size n @ rest) \<le> length (ibytes r)"
      using ahead_length [of r "lay_size n @ rest" "[]"] d lay_size_nonempty by simp
    then show ?thesis using r1(2) fit by (simp add: stepped_def)
  qed
  show ?thesis
  proof (cases "n = 0")
    case True
    with r1 d1 show ?thesis by (auto simp: readAndCheckSeqSize_def stepped_def)
  next
    case False
    have fresh: "startSeq r1 = -1 \<or> int (ipos r1) > sint (startSeq r1) + sint (minSeqSize r1)"
    proof -
      obtain k where "length (lay_size n) = Suc k"
        using lay_size_nonempty [of n] by (cases "lay_size n") auto
      then show ?thesis using r r1(2,3,4) by (auto simp: ready_def stepped_def)
    qed
    define need where "need = n * word_of_nat w"
    have need: "unat need = unat n * w" if "w < 4294967296"
      using that bound len by (simp add: need_def unat_mult_lem [THEN iffD1] unat_of_nat unat_word_ariths)
    have w: "w < 4294967296"
    proof -
      have "0 < unat n" using False by (simp add: unat_gt_0)
      then have "1 * w \<le> unat n * w" by (intro mult_le_mono1) simp
      then show ?thesis using bound len by linarith
    qed
    have sum: "startpos + need = word_of_nat (ipos r1 + unat n * w)"
      if "startpos = word_of_nat (ipos r1)" for startpos :: ice_int
      by (simp add: that need_def)
    have small: "ipos r1 < 2147483648" "ipos r1 + unat n * w < 2147483648" "unat need < 2147483648"
      using need [OF w] bound len by linarith+
    note sn = sint32_of_nat [OF small(1)] sint32_of_nat [OF small(2)] sint32_of_nat [OF len]
    have sneed: "sint need = int (unat n * w)"
      using small(3) need [OF w] unfolding sint32 [of need] by simp
    have ib: "int (ipos r1) + uint n * int w \<le> int (length (ibytes r1))"
    proof -
      have "int (ipos r1 + unat n * w) \<le> int (length (ibytes r1))"
        using bound by (simp only: of_nat_le_iff)
      then show ?thesis by simp
    qed
    show ?thesis
      using r1 False fresh d1 ib sn sneed sum [OF refl]
      by (auto simp: readAndCheckSeqSize_def Let_def need_def [symmetric] stepped_def)
  qed
qed

locale fixed_width =
  fixes lay :: "'a \<Rightarrow> byte list"
    and width :: nat
    and dec :: "byte list \<Rightarrow> 'a"
    and zero :: 'a
  assumes lay_width: "length (lay x) = width"
    and dec_lay: "dec (lay x) = x"
    and width_pos: "0 < width"
begin

lemma read_seq_ahead:
  assumes xs: "length xs < 2147483648" and r: "ready r"
    and d: "drop (ipos r) (ibytes r) = lay_seq lay xs @ rest"
  shows "\<exists>r'. read_seq width dec zero r = Inr (xs, r') \<and> stepped r (length (lay_seq lay xs)) r'"
proof -
  define n where "n = (word_of_nat (length xs) :: ice_int)"
  have n: "sint n = int (length xs)" "unat n = length xs"
    using xs by (simp_all add: n_def sint32_of_nat unat_of_nat)
  have len: "length (concat (map lay xs)) = length xs * width"
    using length_concat_lay [of lay width xs] lay_width by (simp add: mult.commute)
  have d': "drop (ipos r) (ibytes r) = lay_size n @ concat (map lay xs) @ rest"
    using d by (simp add: lay_seq_def n_def)
  obtain r1 where r1: "readAndCheckSeqSize width r = Inr (n, r1)"
      "drop (ipos r1) (ibytes r1) = concat (map lay xs) @ rest" "ibytes r1 = ibytes r"
      "ipos r1 = ipos r + length (lay_size n)" "iencoding r1 = iencoding r" "ipre r1 = ipre r"
      "istack r1 = istack r" "n = 0 \<longrightarrow> ready r1"
      "n \<noteq> 0 \<longrightarrow> sint (startSeq r1) + sint (minSeqSize r1) = int (ipos r1 + unat n * width)
         \<and> sint (n * word_of_nat width) = int (unat n * width)"
    using readAndCheckSeqSize_ahead [OF r d', where w = width] n len by auto
  show ?thesis
  proof (cases "xs = []")
    case True
    with r1 n show ?thesis by (auto simp: read_seq_def stepped_def lay_seq_def n_def)
  next
    case False
    with n have n0: "n \<noteq> 0" by auto
    have fits: "ipos r1 + length xs * width \<le> length (ibytes r1)"
    proof -
      have "concat (map lay xs) \<noteq> []"
        using len False width_pos by (metis length_0_conv mult_is_0 not_gr_zero)
      from ahead_length [OF r1(2) this] show ?thesis unfolding len .
    qed
    have s: "sint (n * word_of_nat width) = int (length xs * width)"
      using r1(9) n0 n by simp
    have dec: "decode_elems width dec (length xs) (take (length xs * width) (drop (ipos r1) (ibytes r1))) = xs"
      using decode_elems_lay [of lay width dec] lay_width dec_lay r1(2) len by simp
    have fits': "\<not> int (ipos r1) + int (length xs * width) > int (length (ibytes r1))"
      using fits by (simp only: of_nat_add [symmetric] of_nat_less_iff not_less)
    have "read_seq width dec zero r = Inr (xs, r1\<lparr>ipos := ipos r1 + length xs * width\<rparr>)"
    proof -
      define k where "k = length xs * width"
      have k: "k div width = length xs" "\<not> int k < 0" using width_pos
        by (simp_all add: k_def del: of_nat_mult)
      have f: "\<not> int (ipos r1) + int k > int (length (ibytes r1))"
        "decode_elems width dec (length xs) (take k (drop (ipos r1) (ibytes r1))) = xs"
        "sint (n * word_of_nat width) = int k"
        using fits' dec s by (simp_all add: k_def)
      have "sint n > 0" using n False by simp
      with f k n show ?thesis
        unfolding read_seq_def r1(1) k_def [symmetric] by (simp add: Let_def)
    qed
    moreover have "stepped r (length (lay_seq lay xs)) (r1\<lparr>ipos := ipos r1 + length xs * width\<rparr>)"
    proof -
      have "sint (startSeq r1) + sint (minSeqSize r1) = int (ipos r1 + length xs * width)"
        using r1(9) n0 n(2) by metis
      with r show ?thesis
        by (simp add: stepped_def ready_def lay_seq_def n_def [symmetric] r1(3-7) len del: of_nat_add)
    qed
    ultimately show ?thesis by blast
  qed
qed

end

sublocale fixed_width \<subseteq> seq: codec "lay_seq lay" "write_seq lay" "read_seq width dec zero"
    "\<lambda>xs. length xs < 2147483648"
  by unfold_locales (simp_all add: write_seq_lay read_seq_ahead)

interpretation byte_seq: fixed_width "\<lambda>b. [b]" 1 hd "0 :: byte"
  by unfold_locales simp_all

interpretation bool_seq: fixed_width "\<lambda>b. [if b then 1 else 0]" 1 "\<lambda>bs. hd bs \<noteq> (0 :: byte)" False
  by unfold_locales simp_all

interpretation short_seq: fixed_width "le_bytes 2" 2 le_word "0 :: ice_short"
  by unfold_locales simp_all

interpretation int_seq: fixed_width "le_bytes 4" 4 le_word "0 :: ice_int"
  by unfold_locales simp_all

interpretation long_seq: fixed_width "le_bytes 8" 8 le_word "0 :: ice_long"
  by unfold_locales simp_all

end
