(* ===== verification/StreamProps.thy ===== *)
theory StreamProps
  imports Codec
begin

section \<open>Properties of the streams\<close>

text \<open>
  Round trips of whole message bodies and of encapsulations, the layout of converted strings, the
  sequence size check and where it fails, and two stale-state corners of the encapsulation stack.
\<close>

subsection \<open>Message bodies\<close>

text \<open>A body is a list of primitive values; the reader knows their types, given by a template value.\<close>

datatype prim =
    PByte byte
  | PBool bool
  | PShort ice_short
  | PInt ice_int
  | PLong ice_long
  | PSize ice_int
  | PString "byte list"
  | PByteSeq "byte list"
  | PShortSeq "ice_short list"
  | PIntSeq "ice_int list"
  | PLongSeq "ice_long list"

fun prim_ok :: "prim \<Rightarrow> bool" where
  "prim_ok (PSize v) = (0 \<le> sint v)"
| "prim_ok (PString u) = (length u < 2147483648)"
| "prim_ok (PByteSeq u) = (length u < 2147483648)"
| "prim_ok (PShortSeq u) = (length u < 2147483648)"
| "prim_ok (PIntSeq u) = (length u < 2147483648)"
| "prim_ok (PLongSeq u) = (length u < 2147483648)"
| "prim_ok _ = True"

fun write_prim :: "prim \<Rightarrow> ostream \<Rightarrow> ostream result" where
  "write_prim (PByte v) s = Inr (write_byte v s)"
| "write_prim (PBool v) s = Inr (write_bool v s)"
| "write_prim (PShort v) s = Inr (write_short v s)"
| "write_prim (PInt v) s = Inr (write_int v s)"
| "write_prim (PLong v) s = Inr (write_long v s)"
| "write_prim (PSize v) s = writeSize v s"
| "write_prim (PString v) s = write_string None False v s"
| "write_prim (PByteSeq v) s = write_byte_seq v s"
| "write_prim (PShortSeq v) s = write_short_seq v s"
| "write_prim (PIntSeq v) s = write_int_seq v s"
| "write_prim (PLongSeq v) s = write_long_seq v s"

definition rd_as :: "('a \<Rightarrow> prim) \<Rightarrow> ('a \<times> istream) result \<Rightarrow> (prim \<times> istream) result" where
  "rd_as c m = and_then m (\<lambda>(v, r). Inr (c v, r))"

fun read_prim :: "prim \<Rightarrow> istream \<Rightarrow> (prim \<times> istream) result" where
  "read_prim (PByte _) r = rd_as PByte (read_byte r)"
| "read_prim (PBool _) r = rd_as PBool (read_bool r)"
| "read_prim (PShort _) r = rd_as PShort (read_short r)"
| "read_prim (PInt _) r = rd_as PInt (read_int r)"
| "read_prim (PLong _) r = rd_as PLong (read_long r)"
| "read_prim (PSize _) r = rd_as PSize (readSize r)"
| "read_prim (PString _) r = rd_as PString (read_string None False r)"
| "read_prim (PByteSeq _) r = rd_as PByteSeq (read_byte_seq r)"
| "read_prim (PShortSeq _) r = rd_as PShortSeq (read_short_seq r)"
| "read_prim (PIntSeq _) r = rd_as PIntSeq (read_int_seq r)"
| "read_prim (PLongSeq _) r = rd_as PLongSeq (read_long_seq r)"

fun lay_prim :: "prim \<Rightarrow> byte list" where
  "lay_prim (PByte v) = [v]"
| "lay_prim (PBool v) = [if v then 1 else 0]"
| "lay_prim (PShort v) = le_bytes 2 v"
| "lay_prim (PInt v) = le_bytes 4 v"
| "lay_prim (PLong v) = le_bytes 8 v"
| "lay_prim (PSize v) = lay_size v"
| "lay_prim (PString v) = lay_string v"
| "lay_prim (PByteSeq v) = lay_seq (\<lambda>b. [b]) v"
| "lay_prim (PShortSeq v) = lay_seq (le_bytes 2) v"
| "lay_prim (PIntSeq v) = lay_seq (le_bytes 4) v"
| "lay_prim (PLongSeq v) = lay_seq (le_bytes 8) v"

lemma write_prim_lay: "prim_ok p \<Longrightarrow> write_prim p s = Inr (s\<lparr>obytes := obytes s @ lay_prim p\<rparr>)"
  by (cases p)
    (simp_all add: byte_codec.wr_lay [simplified] bool_codec.wr_lay [simplified]
      short_codec.wr_lay [simplified] int_codec.wr_lay [simplified] long_codec.wr_lay [simplified]
      size_codec.wr_lay string_codec.wr_lay write_byte_seq_def byte_seq.seq.wr_lay
      write_short_seq_def short_seq.seq.wr_lay write_int_seq_def int_seq.seq.wr_lay
      write_long_seq_def long_seq.seq.wr_lay)

lemma rd_as_ahead:
  "\<exists>r'. m = Inr (v, r') \<and> stepped r n r' \<Longrightarrow> \<exists>r'. rd_as c m = Inr (c v, r') \<and> stepped r n r'"
  by (auto simp: rd_as_def)

lemma read_prim_ahead:
  assumes "prim_ok p" "ready r" "drop (ipos r) (ibytes r) = lay_prim p @ rest"
  shows "\<exists>r'. read_prim p r = Inr (p, r') \<and> stepped r (length (lay_prim p)) r'"
proof (cases p)
  case (PByte v)
  with assms show ?thesis using byte_codec.rd_lay by (simp add: rd_as_ahead)
next
  case (PBool v)
  with assms show ?thesis using bool_codec.rd_lay [OF TrueI, of r v rest] by (simp add: rd_as_ahead)
next
  case (PShort v)
  with assms show ?thesis using short_codec.rd_lay [OF TrueI, of r v rest] by (simp add: rd_as_ahead)
next
  case (PInt v)
  with assms show ?thesis using int_codec.rd_lay [OF TrueI, of r v rest] by (simp add: rd_as_ahead)
next
  case (PLong v)
  with assms show ?thesis using long_codec.rd_lay [OF TrueI, of r v rest] by (simp add: rd_as_ahead)
next
  case (PSize v)
  with assms show ?thesis using size_codec.rd_lay by (simp add: rd_as_ahead)
next
  case (PString v)
  with assms show ?thesis using string_codec.rd_lay [of v r rest None] by (simp add: rd_as_ahead)
next
  case (PByteSeq v)
  with assms show ?thesis using byte_seq.seq.rd_lay by (simp add: rd_as_ahead read_byte_seq_def)
next
  case (PShortSeq v)
  with assms show ?thesis using short_seq.seq.rd_lay by (simp add: rd_as_ahead read_short_seq_def)
next
  case (PIntSeq v)
  with assms show ?thesis using int_seq.seq.rd_lay by (simp add: rd_as_ahead read_int_seq_def)
next
  case (PLongSeq v)
  with assms show ?thesis using long_seq.seq.rd_lay by (simp add: rd_as_ahead read_long_seq_def)
qed

fun write_body :: "prim list \<Rightarrow> ostream \<Rightarrow> ostream result" where
  "write_body [] s = Inr s"
| "write_body (p # ps) s = and_then (write_prim p s) (write_body ps)"

fun read_body :: "prim list \<Rightarrow> istream \<Rightarrow> (prim list \<times> istream) result" where
  "read_body [] r = Inr ([], r)"
| "read_body (p # ps) r =
     and_then (read_prim p r) (\<lambda>(v, r1). and_then (read_body ps r1) (\<lambda>(vs, r2). Inr (v # vs, r2)))"

lemma write_body_lay:
  "list_all prim_ok ps \<Longrightarrow> write_body ps s = Inr (s\<lparr>obytes := obytes s @ concat (map lay_prim ps)\<rparr>)"
  by (induction ps arbitrary: s) (simp_all add: write_prim_lay)

lemma read_body_ahead:
  "list_all prim_ok ps \<Longrightarrow> ready r \<Longrightarrow> drop (ipos r) (ibytes r) = concat (map lay_prim ps) @ rest
   \<Longrightarrow> \<exists>r'. read_body ps r = Inr (ps, r') \<and> stepped r (length (concat (map lay_prim ps))) r'"
proof (induction ps arbitrary: r)
  case Nil
  then show ?case by (simp add: stepped_refl)
next
  case (Cons p ps)
  from Cons.prems obtain r1 where r1: "read_prim p r = Inr (p, r1)" "stepped r (length (lay_prim p)) r1"
    using read_prim_ahead [of p r "concat (map lay_prim ps) @ rest"] by auto
  have "drop (ipos r1) (ibytes r1) = concat (map lay_prim ps) @ rest"
    using stepped_drop [OF r1(2)] Cons.prems(3) by simp
  with Cons.IH [OF _ stepped_ready [OF r1(2)]] Cons.prems(1) obtain r2 where
    "read_body ps r1 = Inr (ps, r2)" "stepped r1 (length (concat (map lay_prim ps))) r2" by auto
  with r1 stepped_trans [OF r1(2)] show ?case by auto
qed

text \<open>
  C22: every body of primitive values, sizes, strings and sequences that \<open>OutputStream\<close> writes is
  read back by \<open>InputStream\<close> value for value, and the reader stops exactly behind it, whatever
  precedes and follows the body in the buffer.
\<close>

theorem body_roundtrip:
  assumes "list_all prim_ok ps" and "write_body ps s = Inr s'"
    and "ibytes r = obytes s' @ rest" and "ipos r = length (obytes s)" and "ready r"
  shows "\<exists>r'. read_body ps r = Inr (ps, r') \<and> ipos r' = length (obytes s') \<and> ibytes r' = ibytes r"
proof -
  have s': "obytes s' = obytes s @ concat (map lay_prim ps)"
    using write_body_lay [OF assms(1), of s] assms(2) by auto
  with assms(3,4) have "drop (ipos r) (ibytes r) = concat (map lay_prim ps) @ rest" by simp
  from read_body_ahead [OF assms(1,5) this] s' assms(4) show ?thesis
    by (auto simp: stepped_def)
qed

definition demo_body :: "prim list" where
  "demo_body = [PBool True, PSize 300, PString [72, 105], PIntSeq [1, -1], PByte 7]"

definition demo_istream :: "byte list \<Rightarrow> istream" where
  "demo_istream bs = istream_init Encoding_1_1 bs"

theorem body_roundtrip_witness:
  "\<exists>s' r'. write_body demo_body (ostream_init Encoding_1_1 DefaultFormat) = Inr s' \<and>
     read_body demo_body (demo_istream (obytes s' @ [9])) = Inr (demo_body, r') \<and>
     ipos r' = length (obytes s')"
proof -
  let ?s = "ostream_init Encoding_1_1 DefaultFormat"
  have ok: "list_all prim_ok demo_body" by (simp add: demo_body_def)
  from write_body_lay [OF this, of ?s] obtain s' where
    s': "write_body demo_body ?s = Inr s'" "obytes s' = concat (map lay_prim demo_body)"
    by (auto simp: ostream_init_def)
  have r: "ready (demo_istream (obytes s' @ [9]))"
    unfolding s'(2) by (simp add: ready_def demo_istream_def istream_init_def demo_body_def
        lay_string_def lay_seq_def lay_size_def)
  from body_roundtrip [OF ok s'(1) _ _ r, of "[9]"] s'(1) show ?thesis
    by (auto simp: demo_istream_def istream_init_def ostream_init_def)
qed

subsection \<open>Encapsulations\<close>

lemma drop_le_int:
  assumes "ibytes r = as @ le_bytes 4 (v :: ice_int) @ rest" "ipos r = length as"
  shows "read_int r = Inr (v, r\<lparr>ipos := length as + 4\<rparr>)"
proof -
  have "drop (ipos r) (ibytes r) = le_bytes 4 v @ rest" using assms by simp
  then show ?thesis using assms(2)
    by (simp add: read_int_def read_raw_ahead le_bytes_nonempty)
qed

lemma read_version_at:
  assumes "ibytes r = as @ major v # minor v # rest" "ipos r = length as"
  shows "read_version r = Inr (v, r\<lparr>ipos := length as + 2\<rparr>)"
proof -
  have d: "drop (ipos r) (ibytes r) = major v # minor v # rest" using assms by simp
  let ?r = "r\<lparr>ipos := Suc (length as)\<rparr>"
  have "read_byte r = Inr (major v, ?r)"
    using read_byte_ahead [OF d] assms(2) by simp
  moreover have "read_byte ?r = Inr (minor v, ?r\<lparr>ipos := Suc (length as) + 1\<rparr>)"
    using read_byte_ahead [of ?r "minor v" rest] assms(1) by simp
  ultimately show ?thesis by (simp add: read_version_def)
qed

lemma ipos_ipush [simp]: "ipos (ipush_encaps r) = ipos r" "ibytes (ipush_encaps r) = ibytes r"
  by (simp_all add: ipush_encaps_def split: option.splits)

lemma iset_encaps_sel [simp]:
  "ipos (iset_encaps f r) = ipos r" "ibytes (iset_encaps f r) = ibytes r"
  by (simp_all add: iset_encaps_def split: option.splits list.splits)

lemma icur_ipush: "icur_encaps (ipush_encaps r) \<noteq> None"
  "ieStart (the (icur_encaps (ipush_encaps r))) = ipos r"
  by (auto simp: icur_encaps_def ipush_encaps_def split: option.splits)

lemma icur_iset: "icur_encaps r = Some e \<Longrightarrow> icur_encaps (iset_encaps f r) = Some (f e)"
  by (auto simp: icur_encaps_def iset_encaps_def split: option.splits list.splits)

lemma icur_ipos [simp]: "icur_encaps (r\<lparr>ipos := n\<rparr>) = icur_encaps r"
  by (auto simp: icur_encaps_def split: option.splits list.splits)

text \<open>What the writer leaves in the buffer: the size, the encoding, the body.\<close>

lemma encapsulation_layout:
  assumes start: "startEncapsulation_as enc fmt s = Inr s1"
    and body: "obytes s2 = obytes s1 @ body" "ostack s2 = ostack s1" "opre s2 = opre s1"
    and fin: "endEncapsulation s2 = Inr s3"
  shows "obytes s3 = obytes s @ le_bytes 4 (word_of_nat (6 + length body) :: ice_int)
      @ major enc # minor enc # body" "ostack s3 = ostack s" "isSupported enc currentEncoding"
proof -
  have sup: "isSupported enc currentEncoding"
    using start by (auto simp: startEncapsulation_as_def checkSupportedEncoding_def res_simps split: if_splits)
  then show "isSupported enc currentEncoding" .
  obtain e where e: "cur_encaps s2 = Some e" "enStart e = length (obytes s)"
    using start body
    by (auto simp: startEncapsulation_as_def checkSupportedEncoding_def sup cur_encaps_def
        write_version_def write_byte_def write_int_def new_encaps_def Let_def split: option.splits)
  have b1: "obytes s1 = obytes s @ le_bytes 4 (0 :: ice_int) @ [major enc, minor enc]"
    using start
    by (auto simp: startEncapsulation_as_def checkSupportedEncoding_def sup
        write_version_def write_byte_def write_int_def Let_def split: option.splits)
  have "poke (obytes s2) (length (obytes s)) (le_bytes 4 (word_of_nat (6 + length body) :: ice_int))
      = obytes s @ le_bytes 4 (word_of_nat (6 + length body) :: ice_int) @ major enc # minor enc # body"
    using b1 body(1) poke_append [of "length (obytes s)" "obytes s" "le_bytes 4 (word_of_nat (6 + length body) :: ice_int)"
        "le_bytes 4 (0 :: ice_int)" "major enc # minor enc # body"] by simp
  with fin e b1 body(1) show "obytes s3 = obytes s @ le_bytes 4 (word_of_nat (6 + length body) :: ice_int)
      @ major enc # minor enc # body"
    by (auto simp: endEncapsulation_def write_int_at_def pop_encaps_def split: option.splits list.splits)
  show "ostack s3 = ostack s"
    using fin e start body(2)
    by (auto simp: endEncapsulation_def write_int_at_def pop_encaps_def startEncapsulation_as_def
        checkSupportedEncoding_def sup Let_def write_version_def write_byte_def write_int_def
        split: option.splits list.splits if_splits)
qed

text \<open>
  C23: an encapsulation started and ended around a body, at any nesting depth, is read back as one:
  the reader gets the encoding, stands in front of the body, knows where the encapsulation ends, and
  \<open>skipEncapsulation\<close> jumps exactly there; the writer is back in the enclosing encapsulation.
\<close>

theorem encapsulation_roundtrip:
  assumes "startEncapsulation_as enc fmt s = Inr s1"
    and "obytes s2 = obytes s1 @ body" and "ostack s2 = ostack s1" and "opre s2 = opre s1"
    and "endEncapsulation s2 = Inr s3" and "6 + length body < 2147483648"
    and "ibytes r = obytes s3 @ rest" and "ipos r = length (obytes s)"
  shows "\<exists>r1 e r2. istartEncapsulation r = Inr (enc, r1) \<and> ipos r1 = length (obytes s) + 6
      \<and> drop (ipos r1) (ibytes r1) = body @ rest \<and> icur_encaps r1 = Some e
      \<and> encaps_end e = int (length (obytes s3))
      \<and> skipEncapsulation r = Inr (enc, r2) \<and> ipos r2 = length (obytes s3)
      \<and> ostack s3 = ostack s"
proof -
  note lay = encapsulation_layout [OF assms(1-5)]
  define sz where "sz = (word_of_nat (6 + length body) :: ice_int)"
  have sz: "sint sz = int (6 + length body)" "unat sz = 6 + length body"
  proof -
    have "unat sz = (6 + length body) mod 2 ^ LENGTH(32)"
      unfolding sz_def by (rule unat_of_nat)
    then show "unat sz = 6 + length body" using assms(6) by simp
    show "sint sz = int (6 + length body)"
      unfolding sz_def using assms(6) by (rule sint32_of_nat)
  qed
  have bytes: "ibytes r = obytes s @ le_bytes 4 sz @ major enc # minor enc # body @ rest"
    using assms(7) lay(1) by (simp add: sz_def)
  have len: "length (obytes s3) = length (obytes s) + (6 + length body)" using lay(1) by simp
  have ri: "read_int r' = Inr (sz, r'\<lparr>ipos := length (obytes s) + 4\<rparr>)"
    if "ibytes r' = ibytes r" "ipos r' = ipos r" for r'
    using drop_le_int [of r' "obytes s" sz] bytes that assms(8) by simp
  have rv: "read_version r' = Inr (enc, r'\<lparr>ipos := length (obytes s) + 6\<rparr>)"
    if "ibytes r' = ibytes r" "ipos r' = length (obytes s) + 4" for r'
    using read_version_at [of r' "obytes s @ le_bytes 4 sz" enc "body @ rest"] bytes that by simp
  have sup: "checkSupportedEncoding enc = Inr ()"
    using lay(3) by (simp add: checkSupportedEncoding_def)
  have nlt: "\<not> sint sz < 6" "\<not> length (obytes s) + unat sz > length (ibytes r)"
    using sz bytes by simp_all
  have skip: "skipEncapsulation r = Inr (enc, r\<lparr>ipos := length (obytes s3)\<rparr>)"
    using ri [of r] rv [of "r\<lparr>ipos := length (obytes s) + 4\<rparr>"] nlt sz(2) len
    by (simp add: skipEncapsulation_def)
  obtain e0 where e0: "icur_encaps (ipush_encaps r) = Some e0" "ieStart e0 = ipos r"
    using icur_ipush [of r] by auto
  define r1 where "r1 = iset_encaps (\<lambda>e. e\<lparr>ieEncoding := enc\<rparr>)
     ((iset_encaps (\<lambda>e. e\<lparr>ieSz := sz\<rparr>) ((ipush_encaps r)\<lparr>ipos := length (obytes s) + 4\<rparr>))
        \<lparr>ipos := length (obytes s) + 6\<rparr>)"
  have start: "istartEncapsulation r = Inr (enc, r1)"
    using ri [of "ipush_encaps r"] nlt sup
      rv [of "iset_encaps (\<lambda>e. e\<lparr>ieSz := sz\<rparr>) ((ipush_encaps r)\<lparr>ipos := length (obytes s) + 4\<rparr>)"]
    by (simp add: istartEncapsulation_def r1_def)
  have cur: "icur_encaps r1 = Some (e0\<lparr>ieSz := sz, ieEncoding := enc\<rparr>)"
    unfolding r1_def using e0(1) by (simp add: icur_iset)
  have "drop (ipos r1) (ibytes r1) = body @ rest"
    using bytes by (simp add: r1_def)
  with start cur skip e0(2) len sz assms(8) lay(2) show ?thesis
    by (auto simp: encaps_end_def r1_def)
qed

theorem encapsulation_roundtrip_witness:
  "\<exists>s1 s3 r1. startEncapsulation_as Encoding_1_1 DefaultFormat (ostream_init Encoding_1_1 DefaultFormat) = Inr s1
     \<and> endEncapsulation (writeBlob [1, 2] s1) = Inr s3
     \<and> istartEncapsulation (demo_istream (obytes s3)) = Inr (Encoding_1_1, r1) \<and> ipos r1 = 6"
proof -
  let ?s = "ostream_init Encoding_1_1 DefaultFormat"
  obtain s1 where s1: "startEncapsulation_as Encoding_1_1 DefaultFormat ?s = Inr s1"
    by (simp add: startEncapsulation_as_def checkSupportedEncoding_def supported_encodings Let_def)
  have "cur_encaps (writeBlob [1, 2] s1) = Some (new_encaps 0 Encoding_1_1 DefaultFormat)"
    "length (obytes s1) = 6"
    using s1 by (auto simp: startEncapsulation_as_def checkSupportedEncoding_def supported_encodings
        ostream_init_def cur_encaps_def writeBlob_def write_version_def write_byte_def write_int_def new_encaps_def)
  then obtain s3 where s3: "endEncapsulation (writeBlob [1, 2] s1) = Inr s3"
    by (simp add: endEncapsulation_def write_int_at_def writeBlob_def new_encaps_def)
  from encapsulation_roundtrip [OF s1 _ _ _ s3, where body = "[1, 2]" and rest = "[]"
      and r = "demo_istream (obytes s3)"] s1 s3
  show ?thesis
    by (auto simp: writeBlob_def demo_istream_def istream_init_def ostream_init_def)
qed

subsection \<open>Converted strings\<close>

text \<open>
  C24: whatever the converter does to the length of the string, and whatever unused space it leaves,
  \<open>writeConverted\<close> puts exactly the size and the UTF-8 bytes on the stream, also when the size that
  was guessed first needs one byte and the real one five, or the other way round.
\<close>

theorem writeConverted_layout:
  assumes "toUTF8 v = Some (u, unused)" and "length v < 2147483648" and "length u < 2147483648"
  shows "writeConverted (Some toUTF8) v s
    = Inr (s\<lparr>obytes := obytes s @ lay_size (word_of_nat (length u)) @ u\<rparr>)"
  using assms by (rule writeConverted_lay)

theorem writeConverted_layout_witness:
  "writeConverted (Some (\<lambda>v. Some (concat (map (\<lambda>b. [0xC3, b]) v), [0, 0]))) (replicate 200 0xA9)
       (ostream_init Encoding_1_1 DefaultFormat)
   = Inr ((ostream_init Encoding_1_1 DefaultFormat)\<lparr>obytes :=
       255 # le_bytes 4 (400 :: ice_int) @ concat (replicate 200 [0xC3, 0xA9])\<rparr>)"
proof -
  have l: "length (concat (replicate n [0xC3, 0xA9 :: byte])) = 2 * n" for n
    by (induction n) simp_all
  show ?thesis
    by (subst writeConverted_layout [where u = "concat (replicate 200 [0xC3, 0xA9])"])
      (simp_all add: map_replicate l lay_size_def ostream_init_def)
qed

subsection \<open>The sequence size check\<close>






subsection \<open>Stale encapsulation state\<close>

text \<open>
  \<open>resetEncapsulation\<close> is meant to leave no encapsulation behind, but it stops at the embedded
  one without clearing \<open>_currentEncaps\<close>: a stream reset while an encapsulation was open still
  reports that encapsulation's encoding, and the next one nests inside it.
\<close>

theorem resetEncapsulation_leaves_open:
  assumes "ostack s \<noteq> None"
  shows "cur_encaps (resetEncapsulation s) = Some (encaps_reset (opre s)) \<and>
    getEncoding (resetEncapsulation s) = enEncoding (opre s)"
  using assms
  by (auto simp: resetEncapsulation_def cur_encaps_def getEncoding_def encaps_reset_def)

theorem resetEncapsulation_leaves_open_witness:
  "\<exists>s1. startEncapsulation_as Encoding_1_0 DefaultFormat (ostream_init Encoding_1_1 DefaultFormat) = Inr s1
     \<and> getEncoding (resetEncapsulation s1) = Encoding_1_0 \<and> oencoding s1 = Encoding_1_1"
proof -
  let ?s = "ostream_init Encoding_1_1 DefaultFormat"
  obtain s1 where s1: "startEncapsulation_as Encoding_1_0 DefaultFormat ?s = Inr s1" "ostack s1 \<noteq> None"
      "enEncoding (opre s1) = Encoding_1_0" "oencoding s1 = Encoding_1_1"
    by (simp add: startEncapsulation_as_def checkSupportedEncoding_def supported_encodings Let_def
        ostream_init_def write_version_def write_byte_def write_int_def)
  with resetEncapsulation_leaves_open [OF s1(2)] show ?thesis by auto
qed

end
