(* ===== verification/OptionalProps.thy ===== *)
theory OptionalProps
  imports StreamProps
begin

section \<open>Optional members: writer and reader agree, unknown tags are skipped\<close>

text \<open>
  The wire layout of an optional member and what \<open>readOptImpl\<close> finds in a run of them: the heart of
  Ice's forward compatibility, where a reader skips the members it does not know.
\<close>

definition lay_tag :: "ice_int \<Rightarrow> optional_format \<Rightarrow> byte list" where
  "lay_tag tag fmt =
     (if sint tag < 30 then [format_code fmt OR ucast (push_bit 3 tag)]
      else (format_code fmt OR 0xF0) # lay_size tag)"

lemma writeOptImpl_lay:
  assumes "getEncoding s \<noteq> Encoding_1_0" "0 \<le> sint tag"
  shows "writeOptImpl tag fmt s = Inr (True, s\<lparr>obytes := obytes s @ lay_tag tag fmt\<rparr>)"
  using assms by (simp add: writeOptImpl_def lay_tag_def write_byte_def writeSize_lay)

text \<open>A payload of the given format; class instances (\<open>OClass\<close>) are left to the decoders.\<close>

definition payload_ok :: "optional_format \<Rightarrow> byte list \<Rightarrow> bool" where
  "payload_ok fmt p =
     (case fmt of
        OF1 \<Rightarrow> length p = 1 | OF2 \<Rightarrow> length p = 2 | OF4 \<Rightarrow> length p = 4 | OF8 \<Rightarrow> length p = 8
      | OSize \<Rightarrow> \<exists>v. 0 \<le> sint v \<and> p = lay_size v
      | OVSize \<Rightarrow> \<exists>u. length u < 2147483648 \<and> p = lay_string u
      | OFSize \<Rightarrow> \<exists>u. length u < 2147483648 \<and> p = le_bytes 4 (word_of_nat (length u) :: ice_int) @ u
      | OClass \<Rightarrow> False)"

lemma skip_bytes_ahead:
  "drop (ipos r) (ibytes r) = xs @ rest \<Longrightarrow> xs \<noteq> [] \<Longrightarrow> n = length xs \<Longrightarrow>
     skip_bytes n r = Inr (r\<lparr>ipos := ipos r + n\<rparr>)"
  using ahead_length [of r xs rest] by (simp add: skip_bytes_def)

lemma skip_bytes_ahead0:
  "drop (ipos r) (ibytes r) = xs @ rest \<Longrightarrow> ipos r \<le> length (ibytes r) \<Longrightarrow> n = length xs \<Longrightarrow>
     skip_bytes n r = Inr (r\<lparr>ipos := ipos r + n\<rparr>)"
  using skip_bytes_ahead [of r xs rest n] by (cases "xs = []") (auto simp: skip_bytes_def)

lemma drop_step:
  assumes "drop (ipos r) (ibytes r) = x # xs"
  shows "drop (ipos (r\<lparr>ipos := Suc (ipos r)\<rparr>)) (ibytes (r\<lparr>ipos := Suc (ipos r)\<rparr>)) = xs"
proof -
  have "drop (Suc (ipos r)) (ibytes r) = tl (drop (ipos r) (ibytes r))"
    by (simp add: drop_Suc tl_drop)
  with assms show ?thesis by simp
qed

lemma readSize_ahead:
  assumes "drop (ipos r) (ibytes r) = lay_size v @ rest" "0 \<le> sint v"
  shows "readSize r = Inr (v, r\<lparr>ipos := ipos r + length (lay_size v)\<rparr>)"
proof (cases "sint v > 254")
  case True
  with assms(1) have d: "drop (ipos r) (ibytes r) = 255 # le_bytes 4 v @ rest" by (simp add: lay_size_def)
  have "read_int (r\<lparr>ipos := Suc (ipos r)\<rparr>) = Inr (v, r\<lparr>ipos := Suc (ipos r) + 4\<rparr>)"
    using drop_step [OF d] by (simp add: read_int_def read_raw_ahead le_bytes_nonempty)
  with True assms(2) d show ?thesis
    by (simp add: readSize_def read_byte_ahead lay_size_def)
next
  case False
  with assms small_size [OF assms(2) False] show ?thesis
    by (simp add: readSize_def read_byte_ahead lay_size_def)
qed

lemma skipSize_ahead:
  assumes "drop (ipos r) (ibytes r) = lay_size v @ rest" "0 \<le> sint v"
  shows "skipSize r = Inr (r\<lparr>ipos := ipos r + length (lay_size v)\<rparr>)"
proof (cases "sint v > 254")
  case True
  with assms(1) have d: "drop (ipos r) (ibytes r) = 255 # le_bytes 4 v @ rest" by (simp add: lay_size_def)
  have "skip_bytes 4 (r\<lparr>ipos := Suc (ipos r)\<rparr>) = Inr (r\<lparr>ipos := Suc (ipos r) + 4\<rparr>)"
    using skip_bytes_ahead [OF drop_step [OF d], of 4] by (simp add: le_bytes_nonempty)
  with True d show ?thesis
    by (simp add: skipSize_def read_byte_ahead lay_size_def)
next
  case False
  with assms small_size [OF assms(2) False] show ?thesis
    by (simp add: skipSize_def read_byte_ahead lay_size_def)
qed

lemma ipos_after: "drop (ipos r) (ibytes r) = xs @ rest \<Longrightarrow> xs \<noteq> [] \<Longrightarrow>
    ipos r + length xs \<le> length (ibytes r)"
  by (rule ahead_length)

lemma drop_after: "drop (ipos r) (ibytes r) = xs @ rest \<Longrightarrow>
    drop (ipos (r\<lparr>ipos := ipos r + length xs\<rparr>)) (ibytes (r\<lparr>ipos := ipos r + length xs\<rparr>)) = rest"
  by (simp add: add.commute [of "ipos r"] drop_drop [symmetric] del: drop_drop)

lemma skipOptional_ahead:
  assumes p: "payload_ok fmt p" and d: "drop (ipos r) (ibytes r) = p @ rest"
  shows "skipOptional rc fmt r = Inr (r\<lparr>ipos := ipos r + length p\<rparr>)"
proof -
  consider (fixed) "fmt \<in> {OF1, OF2, OF4, OF8}" | (sz) v where "fmt = OSize" "0 \<le> sint v" "p = lay_size v"
    | (vs) u where "fmt = OVSize" "length u < 2147483648" "p = lay_string u"
    | (fs) u where "fmt = OFSize" "length u < 2147483648" "p = le_bytes 4 (word_of_nat (length u) :: ice_int) @ u"
    using p by (cases fmt) (auto simp: payload_ok_def)
  then show ?thesis
  proof cases
    case fixed
    then have "p \<noteq> []" using p by (auto simp: payload_ok_def)
    with fixed p show ?thesis
      by (auto simp: skipOptional_def payload_ok_def skip_bytes_ahead [OF d])
  next
    case sz
    with d show ?thesis by (simp add: skipOptional_def skipSize_ahead)
  next
    case vs
    define n where "n = (word_of_nat (length u) :: ice_int)"
    have n: "0 \<le> sint n" "unat n = length u"
      using vs(2) by (simp_all add: n_def sint32_of_nat unat_of_nat)
    have d1: "drop (ipos r) (ibytes r) = lay_size n @ u @ rest"
      using d vs(3) by (simp add: lay_string_def n_def)
    let ?r1 = "r\<lparr>ipos := ipos r + length (lay_size n)\<rparr>"
    have "skip_bytes (length u) ?r1 = Inr (?r1\<lparr>ipos := ipos ?r1 + length u\<rparr>)"
      using drop_after [OF d1] ipos_after [OF d1 lay_size_nonempty]
      by (intro skip_bytes_ahead0) auto
    with vs n d1 show ?thesis
      by (simp add: skipOptional_def readSize_ahead lay_string_def n_def add.assoc)
  next
    case fs
    define n where "n = (word_of_nat (length u) :: ice_int)"
    have n: "\<not> sint n < 0" "unat n = length u"
      using fs(2) by (simp_all add: n_def sint32_of_nat unat_of_nat)
    have d1: "drop (ipos r) (ibytes r) = le_bytes 4 n @ u @ rest"
      using d fs(3) by (simp add: n_def)
    let ?r1 = "r\<lparr>ipos := ipos r + length (le_bytes 4 n)\<rparr>"
    have "skip_bytes (length u) ?r1 = Inr (?r1\<lparr>ipos := ipos ?r1 + length u\<rparr>)"
      using drop_after [OF d1] ipos_after [OF d1] le_bytes_nonempty [of 4 n]
      by (intro skip_bytes_ahead0) auto
    with fs n d1 show ?thesis
      by (simp add: skipOptional_def read_int_def read_raw_ahead le_bytes_nonempty add.assoc)
  qed
qed

subsection \<open>The tag byte\<close>

lemma format_roundtrip [simp]: "format_of_code (format_code f) = f"
  by (cases f) (simp_all add: format_of_code_def format_code_def)

lemma small_tag_bits:
  "\<forall>t \<in> set (map word_of_nat [0..<30]). \<forall>f \<in> {OF1, OF2, OF4, OF8, OSize, OVSize, OFSize, OClass}.
     let v = (format_code f OR ucast (push_bit 3 (t :: ice_int)) :: byte) in
     v AND 7 = format_code f \<and> ucast (drop_bit 3 v) = t \<and> drop_bit 3 v \<noteq> 30 \<and> v \<noteq> 255"
  by code_simp

lemma big_tag_bits:
  "\<forall>f \<in> {OF1, OF2, OF4, OF8, OSize, OVSize, OFSize, OClass}.
     let v = (format_code f OR 0xF0 :: byte) in v AND 7 = format_code f \<and> drop_bit 3 v = 30 \<and> v \<noteq> 255"
  by code_simp

lemma all_formats: "f \<in> {OF1, OF2, OF4, OF8, OSize, OVSize, OFSize, OClass}"
  by (cases f) simp_all

lemma small_tag_mem:
  assumes "0 \<le> sint (t :: ice_int)" "sint t < 30"
  shows "t \<in> set (map word_of_nat [0..<30])"
proof -
  have "unat t \<le> 29" using assms unat_le_of_sint [of t 29] by simp
  moreover have "t = word_of_nat (unat t)" by simp
  ultimately show ?thesis unfolding set_map by (intro image_eqI [of _ _ "unat t"]) auto
qed

lemma read_tag:
  assumes d: "drop (ipos r) (ibytes r) = lay_tag t f @ rest" and t: "0 \<le> sint t"
  obtains v s1 where "read_byte r = Inr (v, s1)" "v \<noteq> OPTIONAL_END_MARKER" "v AND 7 = format_code f"
    "(if drop_bit 3 v = 30 then readSize s1 else Inr (ucast (drop_bit 3 v), s1))
       = Inr (t, r\<lparr>ipos := ipos r + length (lay_tag t f)\<rparr>)"
    "length (lay_tag t f) = (if sint t < 30 then 1 else if sint t < 255 then 2 else 6)"
proof (cases "sint t < 30")
  case True
  define v where "v = (format_code f OR ucast (push_bit 3 t) :: byte)"
  have bits: "v AND 7 = format_code f" "ucast (drop_bit 3 v) = t" "drop_bit 3 v \<noteq> 30" "v \<noteq> 255"
    using bspec [OF bspec [OF small_tag_bits small_tag_mem [OF t True]] all_formats [of f]]
    by (simp_all add: v_def Let_def)
  have "drop (ipos r) (ibytes r) = v # rest" using d True by (simp add: lay_tag_def v_def)
  from read_byte_ahead [OF this] bits True show ?thesis
    by (intro that [of v "r\<lparr>ipos := ipos r + 1\<rparr>"]) (simp_all add: OPTIONAL_END_MARKER_def lay_tag_def)
next
  case False
  define v where "v = (format_code f OR 0xF0 :: byte)"
  have bits: "v AND 7 = format_code f" "drop_bit 3 v = 30" "v \<noteq> 255"
    using bspec [OF big_tag_bits all_formats [of f]] by (simp_all add: v_def Let_def)
  have d': "drop (ipos r) (ibytes r) = v # lay_size t @ rest" using d False by (simp add: lay_tag_def v_def)
  have "readSize (r\<lparr>ipos := Suc (ipos r)\<rparr>) = Inr (t, r\<lparr>ipos := Suc (ipos r) + length (lay_size t)\<rparr>)"
    using readSize_ahead [OF drop_step [OF d'] t] by simp
  with read_byte_ahead [OF d'] bits False show ?thesis
    by (intro that [of v "r\<lparr>ipos := ipos r + 1\<rparr>"])
      (simp_all add: OPTIONAL_END_MARKER_def lay_tag_def lay_size_def)
qed

subsection \<open>Searching a run of members\<close>

record opt_member =
  omTag :: ice_int
  omFormat :: optional_format
  omPayload :: "byte list"

definition lay_opt :: "opt_member \<Rightarrow> byte list" where
  "lay_opt m = lay_tag (omTag m) (omFormat m) @ omPayload m"

definition opt_ok :: "opt_member \<Rightarrow> bool" where
  "opt_ok m \<longleftrightarrow> 0 \<le> sint (omTag m) \<and> payload_ok (omFormat m) (omPayload m)"

definition lay_opts :: "opt_member list \<Rightarrow> byte list" where
  "lay_opts ms = concat (map lay_opt ms)"

text \<open>
  The members start at the read position of an encapsulation of encoding 1.1 and are followed by
  the end of the encapsulation or by the end marker.
\<close>

definition opts_ahead :: "opt_member list \<Rightarrow> istream \<Rightarrow> bool" where
  "opts_ahead ms r \<longleftrightarrow>
     (\<exists>e tail. icur_encaps r = Some e \<and> ieEncoding e \<noteq> Encoding_1_0
        \<and> drop (ipos r) (ibytes r) = lay_opts ms @ tail
        \<and> (encaps_end e = int (ipos r) + int (length (lay_opts ms))
           \<or> encaps_end e > int (ipos r) + int (length (lay_opts ms)) \<and> tail \<noteq> [] \<and> hd tail = OPTIONAL_END_MARKER))"

definition moved :: "istream \<Rightarrow> nat \<Rightarrow> istream" where
  "moved r n = r\<lparr>ipos := ipos r + n\<rparr>"

lemma lay_tag_nonempty: "lay_tag t f \<noteq> []"
  by (simp add: lay_tag_def)

lemma igetEncoding_encaps: "icur_encaps r = Some e \<Longrightarrow> igetEncoding r = ieEncoding e"
  by (simp add: igetEncoding_def)

lemma opts_ahead_step:
  assumes "opts_ahead (m # ms) r"
  shows "opts_ahead ms (moved r (length (lay_opt m)))"
proof -
  from assms obtain e tail where e: "icur_encaps r = Some e" "ieEncoding e \<noteq> Encoding_1_0"
    and d: "drop (ipos r) (ibytes r) = lay_opt m @ lay_opts ms @ tail"
    and fin: "encaps_end e = int (ipos r) + int (length (lay_opt m @ lay_opts ms))
       \<or> encaps_end e > int (ipos r) + int (length (lay_opt m @ lay_opts ms)) \<and> tail \<noteq> [] \<and> hd tail = OPTIONAL_END_MARKER"
    by (auto simp: opts_ahead_def lay_opts_def)
  have "drop (ipos (moved r (length (lay_opt m)))) (ibytes (moved r (length (lay_opt m)))) = lay_opts ms @ tail"
    using drop_after [OF d] by (simp add: moved_def)
  with e fin show ?thesis
    by (intro opts_ahead_def [THEN iffD2] exI [of _ e] exI [of _ tail])
      (auto simp: moved_def)
qed

fun opt_search :: "opt_member list \<Rightarrow> ice_int \<Rightarrow> optional_format \<Rightarrow> istream \<Rightarrow> (bool \<times> istream) result" where
  "opt_search [] t f r = Inr (False, r)"
| "opt_search (m # ms) t f r =
     (if sint (omTag m) < sint t then opt_search ms t f (moved r (length (lay_opt m)))
      else if omTag m \<noteq> t then Inr (False, r)
      else if omFormat m \<noteq> f then Inl (MarshalError unexpected_format)
      else Inr (True, moved r (length (lay_tag (omTag m) (omFormat m)))))"

lemma readOptImpl_opts:
  "opts_ahead ms r \<Longrightarrow> list_all opt_ok ms \<Longrightarrow> length ms < fuel \<Longrightarrow>
     readOptImpl rc fuel t f r = Some (opt_search ms t f r)"
proof (induction ms arbitrary: r fuel)
  case Nil
  then obtain k where fuel: "fuel = Suc k" by (cases fuel) auto
  from Nil.prems(1) obtain e tail where e: "icur_encaps r = Some e" "ieEncoding e \<noteq> Encoding_1_0"
    and d: "drop (ipos r) (ibytes r) = tail"
    and fin: "encaps_end e = int (ipos r) \<or>
       encaps_end e > int (ipos r) \<and> tail \<noteq> [] \<and> hd tail = OPTIONAL_END_MARKER"
    by (auto simp: opts_ahead_def lay_opts_def)
  show ?case
  proof (cases "encaps_end e = int (ipos r)")
    case True
    with e fuel show ?thesis by (simp add: igetEncoding_encaps)
  next
    case False
    with fin obtain tl' where "drop (ipos r) (ibytes r) = OPTIONAL_END_MARKER # tl'" "encaps_end e > int (ipos r)"
      using d by (cases tail) auto
    with e fuel show ?thesis by (simp add: igetEncoding_encaps read_byte_ahead)
  qed
next
  case (Cons m ms)
  then obtain k where fuel: "fuel = Suc k" "length ms < k" by (cases fuel) auto
  from Cons.prems(1) obtain e tail where e: "icur_encaps r = Some e" "ieEncoding e \<noteq> Encoding_1_0"
    and d: "drop (ipos r) (ibytes r) = lay_tag (omTag m) (omFormat m) @ omPayload m @ lay_opts ms @ tail"
    and fin: "encaps_end e \<ge> int (ipos r) + int (length (lay_opt m))"
    by (auto simp: opts_ahead_def lay_opts_def lay_opt_def)
  have ok: "0 \<le> sint (omTag m)" "payload_ok (omFormat m) (omPayload m)"
    using Cons.prems(2) by (simp_all add: opt_ok_def)
  have inside: "\<not> encaps_end e \<le> int (ipos r)"
  proof -
    obtain b bs where "lay_opt m = b # bs"
      using lay_tag_nonempty [of "omTag m" "omFormat m"] by (cases "lay_opt m") (auto simp: lay_opt_def)
    with fin show ?thesis by simp
  qed
  let ?L = "length (lay_tag (omTag m) (omFormat m))"
  from read_tag [OF d ok(1)] obtain v s1 where v: "read_byte r = Inr (v, s1)" "v \<noteq> OPTIONAL_END_MARKER"
      "v AND 7 = format_code (omFormat m)"
      "(if drop_bit 3 v = 30 then readSize s1 else Inr (ucast (drop_bit 3 v), s1))
         = Inr (omTag m, r\<lparr>ipos := ipos r + ?L\<rparr>)"
      "?L = (if sint (omTag m) < 30 then 1 else if sint (omTag m) < 255 then 2 else 6)" .
  have skip: "skipOptional rc (omFormat m) (r\<lparr>ipos := ipos r + ?L\<rparr>) = Inr (moved r (length (lay_opt m)))"
    using skipOptional_ahead [OF ok(2) drop_after [OF d], of rc]
    by (simp add: moved_def lay_opt_def add.assoc)
  have rewound: "ipos r + ?L - (if sint (omTag m) < 30 then 1 else if sint (omTag m) < 255 then 2 else 6) = ipos r"
    by (simp add: v(5))
  have step: "readOptImpl rc fuel t f r =
      (if sint (omTag m) > sint t then Some (Inr (False, r))
       else if sint (omTag m) < sint t then readOptImpl rc k t f (moved r (length (lay_opt m)))
       else if omFormat m \<noteq> f then Some (Inl (MarshalError unexpected_format))
       else Some (Inr (True, moved r ?L)))"
    using e inside v(1,2,3) skip rewound unfolding fuel(1)
    by (simp add: igetEncoding_encaps Let_def v(4) moved_def)
  have inj: "sint (omTag m) = sint t \<longleftrightarrow> omTag m = t" by (rule sint32_inject)
  show ?case
    unfolding step using Cons.IH [OF opts_ahead_step [OF Cons.prems(1)] _ fuel(2)] Cons.prems(2) inj
    by auto
qed

subsection \<open>What a lookup finds\<close>

definition member_at :: "opt_member \<Rightarrow> istream \<Rightarrow> bool" where
  "member_at m r \<longleftrightarrow> take (length (omPayload m)) (drop (ipos r) (ibytes r)) = omPayload m"

definition tags_sorted :: "opt_member list \<Rightarrow> bool" where
  "tags_sorted ms \<longleftrightarrow> sorted_wrt (\<lambda>m n. sint (omTag m) < sint (omTag n)) ms"

lemma opts_ahead_bytes: "opts_ahead ms r \<Longrightarrow> \<exists>tail. drop (ipos r) (ibytes r) = lay_opts ms @ tail"
  by (auto simp: opts_ahead_def)

lemma opt_search_present:
  "opts_ahead ms r \<Longrightarrow> tags_sorted ms \<Longrightarrow> m \<in> set ms \<Longrightarrow>
     \<exists>r'. opt_search ms (omTag m) (omFormat m) r = Inr (True, r')
        \<and> ibytes r' = ibytes r \<and> icur_encaps r' = icur_encaps r \<and> member_at m r'"
proof (induction ms arbitrary: r)
  case (Cons x xs)
  show ?case
  proof (cases "x = m")
    case True
    from opts_ahead_bytes [OF Cons.prems(1)] obtain tail where
      d: "drop (ipos r) (ibytes r) = lay_tag (omTag m) (omFormat m) @ omPayload m @ lay_opts xs @ tail"
      by (auto simp: lay_opts_def lay_opt_def True)
    have "member_at m (moved r (length (lay_tag (omTag m) (omFormat m))))"
      using drop_after [OF d] by (simp add: member_at_def moved_def)
    with True show ?thesis by (simp add: moved_def)
  next
    case False
    with Cons.prems have "m \<in> set xs" "sint (omTag x) < sint (omTag m)" "tags_sorted xs"
      by (auto simp: tags_sorted_def)
    with Cons.IH [OF opts_ahead_step [OF Cons.prems(1)]] show ?thesis
      by (simp add: moved_def)
  qed
qed simp

lemma opt_search_absent:
  "opts_ahead ms r \<Longrightarrow> tags_sorted ms \<Longrightarrow> \<forall>m \<in> set ms. omTag m \<noteq> t \<Longrightarrow>
     \<exists>r'. opt_search ms t f r = Inr (False, r')
        \<and> ibytes r' = ibytes r \<and> opts_ahead (filter (\<lambda>m. sint t < sint (omTag m)) ms) r'"
proof (induction ms arbitrary: r)
  case (Cons x xs)
  then have sorted: "tags_sorted xs" "\<forall>m \<in> set xs. sint (omTag x) < sint (omTag m)"
    by (auto simp: tags_sorted_def)
  show ?case
  proof (cases "sint (omTag x) < sint t")
    case True
    with Cons.IH [OF opts_ahead_step [OF Cons.prems(1)] sorted(1)] Cons.prems(3) show ?thesis
      by (simp add: moved_def)
  next
    case False
    have "omTag x \<noteq> t" using Cons.prems(3) by simp
    with False have "sint t < sint (omTag x)" using sint32_inject [of "omTag x" t] by linarith
    moreover from this sorted(2) have "filter (\<lambda>m. sint t < sint (omTag m)) xs = xs"
      by (auto intro!: filter_True)
    ultimately show ?thesis using False \<open>omTag x \<noteq> t\<close> Cons.prems(1) by simp
  qed
qed (simp add: opts_ahead_def)

text \<open>
  C27: Optional members, reader against writer. When the encapsulation holds a run of well formed
  optional members in increasing tag order, \<open>readOptImpl\<close> terminates and: a member that was
  written with the requested tag and format is found and the stream is left exactly on its payload,
  whatever unknown members precede it; a tag that was not written is reported absent, no member
  with a larger tag is consumed, so the later ones can still be read.
\<close>
theorem readOptional_finds:
  assumes "opts_ahead ms r" "list_all opt_ok ms" "tags_sorted ms" "length ms < fuel"
  shows "(m \<in> set ms \<longrightarrow>
            (\<exists>r'. readOptImpl rc fuel (omTag m) (omFormat m) r = Some (Inr (True, r'))
               \<and> ibytes r' = ibytes r \<and> icur_encaps r' = icur_encaps r \<and> member_at m r'))
       \<and> ((\<forall>n \<in> set ms. omTag n \<noteq> t) \<longrightarrow>
            (\<exists>r'. readOptImpl rc fuel t f r = Some (Inr (False, r'))
               \<and> ibytes r' = ibytes r \<and> opts_ahead (filter (\<lambda>n. sint t < sint (omTag n)) ms) r'))"
  unfolding readOptImpl_opts [OF assms(1,2,4)]
  using opt_search_present [OF assms(1,3)] opt_search_absent [OF assms(1,3)] by simp

definition demo_opts :: "opt_member list" where
  "demo_opts = [\<lparr>omTag = 1, omFormat = OF1, omPayload = [5]\<rparr>, \<lparr>omTag = 40, omFormat = OVSize, omPayload = [2, 72, 105]\<rparr>]"

definition demo_opt_stream :: istream where
  "demo_opt_stream = (istream_init Encoding_1_1 (lay_opts demo_opts @ [255]))
     \<lparr>istack := Some [], ipre := \<lparr>ieStart = 0, ieSz = 8, ieEncoding = Encoding_1_1\<rparr>\<rparr>"

theorem readOptional_finds_witness:
  "(\<exists>r'. readOptImpl Inr 3 40 OVSize demo_opt_stream = Some (Inr (True, r')) \<and> take 3 (drop (ipos r') (ibytes r')) = [2, 72, 105])
   \<and> (\<exists>r'. readOptImpl Inr 3 7 OF4 demo_opt_stream = Some (Inr (False, r')) \<and> opts_ahead [demo_opts ! 1] r')"
proof -
  have ah: "opts_ahead demo_opts demo_opt_stream"
    by (simp add: opts_ahead_def demo_opt_stream_def demo_opts_def istream_init_def icur_encaps_def
        encaps_end_def lay_opts_def lay_opt_def lay_tag_def lay_size_def format_code_def
        Encoding_1_0_def Encoding_1_1_def mk_version_def OPTIONAL_END_MARKER_def)
  have ok: "list_all opt_ok demo_opts"
  proof -
    have "[2, 72, 105] = lay_string [72, 105 :: byte]" by (simp add: lay_string_def lay_size_def)
    then have "\<exists>u. length u < 2147483648 \<and> [2, 72, 105] = lay_string u" by (intro exI [of _ "[72, 105]"]) simp
    then show ?thesis by (simp add: demo_opts_def opt_ok_def payload_ok_def)
  qed
  have srt: "tags_sorted demo_opts" by (simp add: tags_sorted_def demo_opts_def)
  have len: "length demo_opts < 3" by (simp add: demo_opts_def)
  note find = readOptional_finds [OF ah ok srt len, where rc = Inr]
  have "demo_opts ! 1 \<in> set demo_opts" by (simp add: demo_opts_def)
  with find [of "demo_opts ! 1", THEN conjunct1] have "\<exists>r'. readOptImpl Inr 3 40 OVSize demo_opt_stream = Some (Inr (True, r'))
      \<and> take 3 (drop (ipos r') (ibytes r')) = [2, 72, 105]"
    by (auto simp: demo_opts_def member_at_def numeral_3_eq_3)
  moreover have "\<exists>r'. readOptImpl Inr 3 7 OF4 demo_opt_stream = Some (Inr (False, r')) \<and> opts_ahead [demo_opts ! 1] r'"
    using find [of "demo_opts ! 0" 7 OF4, THEN conjunct2] by (auto simp: demo_opts_def)
  ultimately show ?thesis by blast
qed

end
