(* ===== verification/CoreProps.thy ===== *)
theory CoreProps
  imports Container Protocol
begin

section \<open>Buffers and versions\<close>

text \<open>
  Properties of the byte buffer (Container) and of the protocol and encoding versions (Protocol), drawn
  from the lemmas of those theories and from the interpretation of the buffer interface.
\<close>

text \<open>
  C37: the buffer under the streams refines a plain byte list: any sequence of appends to a well-formed
  container succeeds (memory permitting), whatever reallocations its growth policy makes, keeps it
  well formed and leaves exactly the old contents followed by the appended bytes.
\<close>

theorem buffer_appends:
  assumes "container_wf c"
  shows "\<exists>c'. container_appends fill xss c = Inr c' \<and> container_wf c' \<and> content c' = content c @ concat xss
    \<and> csize c' = csize c + length (concat xss)"
proof -
  from container_appends_content [OF assms, of fill xss] obtain c' where
    c': "container_appends fill xss c = Inr c'" "container_wf c'" "content c' = content c @ concat xss" by blast
  with length_content [OF c'(2)] length_content [OF assms] show ?thesis by simp
qed

theorem buffer_appends_witness:
  "\<exists>c'. container_appends (\<lambda>_. 0) [[1, 2], [], [3]] container_new = Inr c' \<and> content c' = [1, 2, 3]"
proof -
  have wf: "container_wf container_new" by (simp add: container_new_def container_wf_def capacity_def)
  have "content container_new = []" by (simp add: container_new_def content_def)
  with buffer_appends [OF wf, of "\<lambda>_. 0" "[[1, 2], [], [3]]"] show ?thesis by auto
qed

text \<open>
  \<open>reset\<close> empties the buffer and keeps its memory, except on the third reset in a row of a buffer
  that was less than half full, which gives the unused memory back; a buffer that was at least half full
  starts the count again.
\<close>

theorem buffer_reset_policy:
  assumes "container_wf c" "cowned c" "0 < csize c" "cshrink c \<le> 2"
  shows "\<exists>c'. reset True fill c = Inr c' \<and> container_wf c' \<and> content c' = [] \<and>
    (if csize c * 2 < capacity c
     then (if cshrink c = 2 then capacity c' = csize c \<and> cshrink c' = 0
           else capacity c' = capacity c \<and> cshrink c' = cshrink c + 1)
     else capacity c' = capacity c \<and> cshrink c' = 0)"
proof (cases "csize c * 2 < capacity c \<and> cshrink c = 2")
  case True
  with reset_shrinks [OF assms(3) _ _ assms(2), of fill] obtain c' where
    c': "reset True fill c = Inr c'" "capacity c' = csize c" "cshrink c' = 0" by blast
  with reset_wf [OF c'(1) assms(1)] True show ?thesis by auto
next
  case False
  then have "\<not> 2 < cshrink c + 1 \<or> \<not> csize c * 2 < capacity c" using assms(4) by auto
  then have "reset True fill c =
      Inr (c\<lparr>cshrink := (if csize c * 2 < capacity c then cshrink c + 1 else 0), csize := 0\<rparr>)"
    using assms(3) by (auto simp: reset_def)
  then obtain c' where c': "reset True fill c = Inr c'" "capacity c' = capacity c"
      "cshrink c' = (if csize c * 2 < capacity c then cshrink c + 1 else 0)"
    by (simp add: capacity_def)
  with reset_wf [OF c'(1) assms(1)] False show ?thesis by auto
qed

theorem buffer_reset_policy_witness:
  "\<exists>c'. reset True (\<lambda>_. 0) \<lparr>cmem = replicate 240 0, csize = 10, cshrink = 2, cowned = True\<rparr> = Inr c' \<and> capacity c' = 10"
  using buffer_reset_policy [of "\<lparr>cmem = replicate 240 0, csize = 10, cshrink = 2, cowned = True\<rparr>" "\<lambda>_. 0"]
  by (auto simp: container_wf_def capacity_def)

text \<open>
  Every version with a positive major number survives the trip through its text form.
\<close>

theorem version_text_roundtrip:
  assumes "0 < major v"
  shows "stringToVersion (versionToString v) = Inr v"
  using assms by (rule stringToVersion_versionToString)

theorem version_text_roundtrip_witness: "stringToVersion (versionToString Encoding_1_1) = Inr Encoding_1_1"
  by (rule version_text_roundtrip) (simp add: Encoding_1_1_def)

text \<open>
  Version negotiation.  For a peer's encoding, \<open>getCompatibleEncoding\<close> gives an encoding that this
  runtime supports exactly when the major numbers agree; it is then the largest supported one that is not
  newer than the peer's, it is stable under repetition, and a foreign major number is left as it is, to
  be refused by \<open>checkSupportedEncoding\<close>.
\<close>

theorem encoding_negotiation:
  "(checkSupportedEncoding (getCompatibleEncoding v) = Inr () \<longleftrightarrow> major v = major currentEncoding) \<and>
   getCompatibleEncoding (getCompatibleEncoding v) = getCompatibleEncoding v \<and>
   (if major v = major currentEncoding
    then minor (getCompatibleEncoding v) = min (minor v) (minor currentEncoding)
    else getCompatibleEncoding v = v \<and> checkSupportedEncoding v = Inl UnsupportedEncoding)"
  using getCompatibleEncoding_cases(1) [of v]
  by (auto simp: checkSupportedEncoding_def getCompatibleEncoding_def isSupported_def min_def)

end
