(* ===== verification/StringUtil.thy ===== *)
theory StringUtil
  imports Prelude
begin

section \<open>String utilities\<close>

text \<open>
  The functions of cpp/src/IceUtil/StringUtil.cpp: escaping and unescaping, splitting with quotes,
  trimming, quote checking and wild card matching.  A \<open>std::string\<close> is a \<open>string\<close> (one \<open>char\<close> per
  byte), a position is a \<open>nat\<close>, \<open>string::npos\<close> is \<open>None\<close>.  The process string converter
  (\<open>getProcessStringConverter\<close>) is a parameter: \<open>None\<close> when none is installed, otherwise its two
  directions.
\<close>

datatype to_string_mode = Unicode | ASCII | Compat

abbreviation bslash :: char where "bslash \<equiv> CHR 0x5C"
abbreviation squote :: char where "squote \<equiv> CHR 0x27"
abbreviation dquote :: char where "dquote \<equiv> CHR 0x22"

abbreviation ord :: "char \<Rightarrow> nat" where "ord \<equiv> of_char"

type_synonym string_converter = "(string \<Rightarrow> string result) \<times> (string \<Rightarrow> string result)"

definition nativeToUTF8 :: "string_converter option \<Rightarrow> string \<Rightarrow> string result" where
  "nativeToUTF8 conv s = (case conv of None \<Rightarrow> Inr s | Some c \<Rightarrow> if s = [] then Inr s else fst c s)"

definition UTF8ToNative :: "string_converter option \<Rightarrow> string \<Rightarrow> string result" where
  "UTF8ToNative conv s = (case conv of None \<Rightarrow> Inr s | Some c \<Rightarrow> if s = [] then Inr s else snd c s)"

subsection \<open>Searching\<close>

text \<open>\<open>std::string::find\<close> of a character from a position on; the result is an index of the whole string.\<close>

definition find_char_if :: "(char \<Rightarrow> bool) \<Rightarrow> string \<Rightarrow> nat \<Rightarrow> nat option" where
  "find_char_if P s start =
     (let k = length (takeWhile (\<lambda>c. \<not> P c) (drop start s))
      in if start + k < length s then Some (start + k) else None)"

definition find_char :: "char \<Rightarrow> string \<Rightarrow> nat \<Rightarrow> nat option" where
  "find_char c = find_char_if (\<lambda>d. d = c)"

definition find_last_if :: "(char \<Rightarrow> bool) \<Rightarrow> string \<Rightarrow> nat option" where
  "find_last_if P s = (case find_char_if P (rev s) 0 of None \<Rightarrow> None | Some k \<Rightarrow> Some (length s - 1 - k))"

lemma find_char_if_Some:
  "find_char_if P s start = Some k \<longleftrightarrow>
     start \<le> k \<and> k < length s \<and> P (s ! k) \<and> (\<forall>j. start \<le> j \<and> j < k \<longrightarrow> \<not> P (s ! j))"
proof -
  let ?d = "drop start s"
  let ?n = "length (takeWhile (\<lambda>c. \<not> P c) ?d)"
  have n: "?n \<le> length ?d" by (rule length_takeWhile_le)
  have before: "\<not> P (s ! (start + j))" if "j < ?n" for j
  proof -
    have "takeWhile (\<lambda>c. \<not> P c) ?d ! j \<in> set (takeWhile (\<lambda>c. \<not> P c) ?d)" using that by (rule nth_mem)
    then have "\<not> P (takeWhile (\<lambda>c. \<not> P c) ?d ! j)" by (auto dest: set_takeWhileD)
    moreover have "takeWhile (\<lambda>c. \<not> P c) ?d ! j = ?d ! j" by (rule takeWhile_nth [OF that])
    ultimately show ?thesis using that n by simp
  qed
  have at: "P (s ! (start + ?n))" if "?n < length ?d"
    using nth_length_takeWhile [OF that] that by simp
  show ?thesis
  proof
    assume "find_char_if P s start = Some k"
    then have k: "k = start + ?n" "k < length s" by (auto simp: find_char_if_def Let_def split: if_splits)
    moreover from k have "P (s ! k)" using at by simp
    moreover have "\<not> P (s ! j)" if "start \<le> j" "j < k" for j
      using before [of "j - start"] that k(1) by simp
    ultimately show "start \<le> k \<and> k < length s \<and> P (s ! k) \<and> (\<forall>j. start \<le> j \<and> j < k \<longrightarrow> \<not> P (s ! j))" by simp
  next
    assume r: "start \<le> k \<and> k < length s \<and> P (s ! k) \<and> (\<forall>j. start \<le> j \<and> j < k \<longrightarrow> \<not> P (s ! j))"
    have "\<not> k < start + ?n"
    proof
      assume "k < start + ?n"
      with r have "k - start < ?n" by linarith
      from before [OF this] r show False by simp
    qed
    moreover have "\<not> start + ?n < k"
    proof
      assume lt: "start + ?n < k"
      with r have "?n < length ?d" by (simp add: less_diff_conv)
      from at [OF this] r lt show False by (metis le_add1)
    qed
    ultimately have "k = start + ?n" by simp
    with r show "find_char_if P s start = Some k" by (simp add: find_char_if_def Let_def)
  qed
qed

lemma find_char_if_None:
  "find_char_if P s start = None \<longleftrightarrow> (\<forall>j. start \<le> j \<and> j < length s \<longrightarrow> \<not> P (s ! j))"
proof
  assume none: "find_char_if P s start = None"
  show "\<forall>j. start \<le> j \<and> j < length s \<longrightarrow> \<not> P (s ! j)"
  proof (rule ccontr)
    let ?Q = "\<lambda>j. start \<le> j \<and> j < length s \<and> P (s ! j)"
    assume "\<not> ?thesis"
    then obtain j where "?Q j" by auto
    then have "?Q (LEAST j. ?Q j)" by (rule LeastI)
    moreover have "\<not> P (s ! i)" if "start \<le> i" "i < (LEAST j. ?Q j)" for i
      using not_less_Least [OF that(2)] that calculation by auto
    ultimately have "find_char_if P s start = Some (LEAST j. ?Q j)"
      by (subst find_char_if_Some) simp
    with none show False by simp
  qed
next
  assume "\<forall>j. start \<le> j \<and> j < length s \<longrightarrow> \<not> P (s ! j)"
  then show "find_char_if P s start = None"
    using find_char_if_Some [of P s start] by (cases "find_char_if P s start") auto
qed

subsection \<open>Escaping\<close>

definition toHexDigit :: "byte \<Rightarrow> char" where
  "toHexDigit b = (if unat b < 10 then char_of (48 + unat b) else char_of (97 - 10 + unat b))"

fun hex_of_nat :: "nat \<Rightarrow> string" where
  "hex_of_nat n =
     (if n < 16 then [toHexDigit (word_of_nat n)] else hex_of_nat (n div 16) @ [toHexDigit (word_of_nat (n mod 16))])"

declare hex_of_nat.simps [simp del]

text \<open>\<open>oct << setfill('0') << setw(3)\<close> of a byte.\<close>

definition octal3 :: "nat \<Rightarrow> string" where
  "octal3 i = [digit_char (i div 64), digit_char (i div 8 mod 8), digit_char (i mod 8)]"

text \<open>The iterator \<open>p\<close> of the source is the list of the characters that are left.\<close>

definition addContinuationByte :: "string \<Rightarrow> 32 word \<Rightarrow> (32 word \<times> string) result" where
  "addContinuationByte p codePoint =
     (case p of
        [] \<Rightarrow> Inl (IllegalArgument ''UTF-8 sequence too short'')
      | c # p' \<Rightarrow>
          let b = byte_of_char c in
          if drop_bit 6 b \<noteq> 2 then Inl (IllegalArgument ''Invalid UTF-8 sequence'')
          else Inr (push_bit 6 codePoint + ucast (b AND 0x3F), p'))"

definition hex_nibbles :: "nat \<Rightarrow> 32 word \<Rightarrow> string" where
  "hex_nibbles n codePoint = map (\<lambda>j. toHexDigit (ucast (drop_bit (j * 4) codePoint AND 0x0F))) (rev [0..<n])"

definition appendUniversalName :: "char \<Rightarrow> string \<Rightarrow> (string \<times> string) result" where
  "appendUniversalName c p =
     (let b = byte_of_char c in
      and_then
        (if drop_bit 5 b = 0x06 then addContinuationByte p (ucast (b AND 0x1F))
         else if drop_bit 4 b = 0x0E then
           and_then (addContinuationByte p (ucast (b AND 0x0F))) (\<lambda>(cp, p). addContinuationByte p cp)
         else if drop_bit 3 b = 0x1E then
           and_then (addContinuationByte p (ucast (b AND 0x07))) (\<lambda>(cp, p).
           and_then (addContinuationByte p cp) (\<lambda>(cp, p). addContinuationByte p cp))
         else Inl (IllegalArgument
           (''Invalid first byte 0x'' @ hex_of_nat (unat b) @ '' in UTF-8 sequence'' @ [CHR 0x0A])))
        (\<lambda>(cp, p). Inr (if unat cp > 0xFFFF then bslash # ''U'' @ hex_nibbles 8 cp
                        else bslash # ''u'' @ hex_nibbles 4 cp, p)))"

text \<open>The \<open>switch\<close> of \<open>escapeString\<close>; \<open>None\<close> where the code goes on reading the UTF-8 sequence.\<close>

definition escape_one :: "string \<Rightarrow> to_string_mode \<Rightarrow> char \<Rightarrow> string option" where
  "escape_one special mode c =
     (let i = ord c in
      if c = bslash then Some [bslash, bslash]
      else if c = squote then Some [bslash, squote]
      else if c = dquote then Some [bslash, dquote]
      else if i = 7 then Some (if mode = Compat then bslash # ''007'' else bslash # ''a'')
      else if i = 8 then Some (bslash # ''b'')
      else if i = 12 then Some (bslash # ''f'')
      else if i = 10 then Some (bslash # ''n'')
      else if i = 13 then Some (bslash # ''r'')
      else if i = 9 then Some (bslash # ''t'')
      else if i = 11 then Some (if mode = Compat then bslash # ''013'' else bslash # ''v'')
      else if c \<in> set special then Some [bslash, c]
      else if i < 32 \<or> i > 126 then
        if mode = Compat then Some (bslash # octal3 i)
        else if i < 32 \<or> i = 127 then
          Some (bslash # ''u00'' @ [toHexDigit (word_of_nat (i div 16)), toHexDigit (word_of_nat (i mod 16))])
        else if mode = ASCII then None
        else Some [c]
      else Some [c])"

lemma addContinuationByte_length:
  "addContinuationByte p cp = Inr (cp', p') \<Longrightarrow> length p' < length p"
  by (cases p) (auto simp: addContinuationByte_def Let_def split: if_splits)

lemma appendUniversalName_length:
  "appendUniversalName c p = Inr (u, p') \<Longrightarrow> length p' < Suc (length p)"
  by (auto simp: appendUniversalName_def Let_def and_then_Inr split: if_splits prod.splits
      dest!: addContinuationByte_length)

function escape_loop :: "string \<Rightarrow> to_string_mode \<Rightarrow> string \<Rightarrow> string result" where
  "escape_loop special mode [] = Inr []"
| "escape_loop special mode (c # p) =
     (case escape_one special mode c of
        Some e \<Rightarrow> and_then (escape_loop special mode p) (\<lambda>r. Inr (e @ r))
      | None \<Rightarrow> (case appendUniversalName c p of
            Inl x \<Rightarrow> Inl x
          | Inr (u, p') \<Rightarrow> and_then (escape_loop special mode p') (\<lambda>r. Inr (u @ r))))"
  by pat_completeness auto
termination
  by (relation "measure (\<lambda>(_, _, p). length p)") (auto dest: appendUniversalName_length)

definition check_special :: "string \<Rightarrow> unit result" where
  "check_special special =
     (if list_all (\<lambda>c. 32 \<le> ord c \<and> ord c \<le> 126) special then Inr ()
      else Inl (IllegalArgument ''Special characters must be in ASCII range 32-126''))"

definition escapeString :: "string_converter option \<Rightarrow> string \<Rightarrow> string \<Rightarrow> to_string_mode \<Rightarrow> string result" where
  "escapeString conv s special mode =
     and_then (check_special special) (\<lambda>_.
     and_then (nativeToUTF8 conv s) (\<lambda>u8s.
     and_then (escape_loop special mode u8s) (\<lambda>r.
       if mode = Unicode then UTF8ToNative conv r else Inr r)))"

subsection \<open>Unescaping\<close>

definition checkChar :: "string \<Rightarrow> nat \<Rightarrow> char result" where
  "checkChar s pos =
     (let c = ord (s ! pos) in
      if c < 32 \<or> c = 127 then
        Inl (IllegalArgument
          ((if pos > 0 then ''character after `'' @ take pos s @ [squote] else ''first character'')
             @ '' has invalid ordinal value '' @ string_of_nat c))
      else Inr (s ! pos))"

definition appendUTF8 :: "32 word \<Rightarrow> string result" where
  "appendUTF8 codePoint =
     (let cp = unat codePoint; chr = (\<lambda>w :: 32 word. char_of_byte (ucast w)) in
      if 0xD800 \<le> cp \<and> cp \<le> 0xDFFF then
        Inl (IllegalArgument ''A universal character name cannot designate a surrogate'')
      else if cp \<le> 0x7F then Inr [chr codePoint]
      else if cp \<le> 0x7FF then
        Inr [chr (drop_bit 6 codePoint OR 0xC0), chr ((codePoint AND 0x3F) OR 0x80)]
      else if cp \<le> 0xFFFF then
        Inr [chr (drop_bit 12 codePoint OR 0xE0), chr ((drop_bit 6 codePoint AND 0x3F) OR 0x80),
             chr ((codePoint AND 0x3F) OR 0x80)]
      else if cp \<le> 0x10FFFF then
        Inr [chr (drop_bit 18 codePoint OR 0xF0), chr ((drop_bit 12 codePoint AND 0x3F) OR 0x80),
             chr ((drop_bit 6 codePoint AND 0x3F) OR 0x80), chr ((codePoint AND 0x3F) OR 0x80)]
      else Inl (IllegalArgument ''Invalid universal character name''))"

definition hex_value :: "char \<Rightarrow> nat option" where
  "hex_value c =
     (let n = ord c in
      if 48 \<le> n \<and> n \<le> 57 then Some (n - 48)
      else if 97 \<le> n \<and> n \<le> 102 then Some (10 + (n - 97))
      else if 65 \<le> n \<and> n \<le> 70 then Some (10 + (n - 65))
      else None)"

text \<open>The three digit loops of \<open>decodeChar\<close>; the first argument counts the digits still wanted.\<close>

fun scan_universal :: "nat \<Rightarrow> string \<Rightarrow> nat \<Rightarrow> nat \<Rightarrow> 32 word \<Rightarrow> nat \<times> nat \<times> 32 word" where
  "scan_universal 0 s fin start codePoint = (0, start, codePoint)"
| "scan_universal (Suc sz) s fin start codePoint =
     (if start < fin then
        (case hex_value (s ! start) of
           None \<Rightarrow> (Suc sz, start + 1, codePoint)
         | Some v \<Rightarrow> scan_universal sz s fin (start + 1) (codePoint * 16 + word_of_nat v))
      else (Suc sz, start, codePoint))"

fun scan_hex :: "nat \<Rightarrow> string \<Rightarrow> nat \<Rightarrow> nat \<Rightarrow> nat \<Rightarrow> nat \<times> nat \<times> nat" where
  "scan_hex 0 s fin start val = (0, start, val)"
| "scan_hex (Suc sz) s fin start val =
     (if start < fin then
        (case hex_value (s ! start) of
           None \<Rightarrow> (Suc sz, start, val)
         | Some v \<Rightarrow> scan_hex sz s fin (start + 1) (val * 16 + v))
      else (Suc sz, start, val))"

fun scan_octal :: "nat \<Rightarrow> string \<Rightarrow> nat \<Rightarrow> nat \<Rightarrow> nat \<Rightarrow> nat \<times> nat" where
  "scan_octal 0 s fin start val = (start, val)"
| "scan_octal (Suc j) s fin start val =
     (if start < fin then
        (let n = ord (s ! start) in
         if n < 48 \<or> 55 < n then (start, val) else scan_octal j s fin (start + 1) (val * 8 + (n - 48)))
      else (start, val))"

fun octal_of_nat :: "nat \<Rightarrow> string" where
  "octal_of_nat n = (if n < 8 then [digit_char n] else octal_of_nat (n div 8) @ [digit_char (n mod 8)])"

declare octal_of_nat.simps [simp del]

text \<open>
  \<open>decodeChar\<close> returns the position after the character, what it appends to the result and whether
  that is pure ASCII.
\<close>

definition decodeChar :: "string \<Rightarrow> nat \<Rightarrow> nat \<Rightarrow> string \<Rightarrow> (bool \<times> nat \<times> string) result" where
  "decodeChar s start fin special =
     (if \<not> (start < fin \<and> fin \<le> length s) then Inl AssertFailed
      else if s ! start \<noteq> bslash then and_then (checkChar s start) (\<lambda>c. Inr (True, start + 1, [c]))
      else if start + 1 = fin then Inr (True, start + 1, [bslash])
      else
        (let c = s ! (start + 1); n = ord c; nxt = start + 2 in
         if c = bslash \<or> c = squote \<or> c = dquote \<or> c = CHR ''?'' then Inr (True, nxt, [c])
         else if c = CHR ''a'' then Inr (True, nxt, [CHR 0x07])
         else if c = CHR ''b'' then Inr (True, nxt, [CHR 0x08])
         else if c = CHR ''f'' then Inr (True, nxt, [CHR 0x0C])
         else if c = CHR ''n'' then Inr (True, nxt, [CHR 0x0A])
         else if c = CHR ''r'' then Inr (True, nxt, [CHR 0x0D])
         else if c = CHR ''t'' then Inr (True, nxt, [CHR 0x09])
         else if c = CHR ''v'' then Inr (True, nxt, [CHR 0x0B])
         else if c = CHR ''u'' \<or> c = CHR ''U'' then
           (case scan_universal (if c = CHR ''u'' then 4 else 8) s fin nxt 0 of
              (sz, pos, codePoint) \<Rightarrow>
                if sz > 0 then Inl (IllegalArgument ''Invalid universal character name: too few hex digits'')
                else and_then (appendUTF8 codePoint) (\<lambda>r. Inr (unat codePoint \<le> 127, pos, r)))
         else if 48 \<le> n \<and> n \<le> 55 then
           (case scan_octal 3 s fin (start + 1) 0 of
              (pos, val) \<Rightarrow>
                if val > 255 then
                  Inl (IllegalArgument (''octal value '' @ bslash # octal_of_nat val @ '' ('' @ string_of_nat val
                         @ '') is out of range''))
                else Inr (val \<le> 127, pos, [char_of val]))
         else if c = CHR ''x'' then
           (case scan_hex 2 s fin nxt 0 of
              (sz, pos, val) \<Rightarrow>
                if sz = 2 then
                  Inl (IllegalArgument (''Invalid '' @ bslash # ''x escape sequence: no hex digit''))
                else Inr (val \<le> 127, pos, [char_of val]))
         else and_then (checkChar s (start + 1)) (\<lambda>c.
                Inr (n \<le> 127, nxt, (if special = [] \<or> c \<notin> set special then [bslash] else []) @ [c]))))"

lemma scan_universal_mono: "scan_universal k s e start cp = (k', p, cp') \<Longrightarrow> start \<le> p"
  by (induction k s e start cp rule: scan_universal.induct) (auto split: if_splits option.splits)

lemma scan_hex_mono: "scan_hex k s e start v = (k', p, v') \<Longrightarrow> start \<le> p"
  by (induction k s e start v rule: scan_hex.induct) (auto split: if_splits option.splits)

lemma scan_octal_mono: "scan_octal k s e start v = (p, v') \<Longrightarrow> start \<le> p"
  by (induction k s e start v rule: scan_octal.induct) (auto simp: Let_def split: if_splits)

lemma decodeChar_progress: "decodeChar s start e special = Inr (pure, nxt, r) \<Longrightarrow> start < nxt \<and> start < e"
  by (auto simp: decodeChar_def Let_def and_then_Inr split: if_splits prod.splits
      dest!: scan_universal_mono scan_hex_mono scan_octal_mono)

text \<open>
  The decoding loop of \<open>unescapeString\<close>.  The flag is the code's \<open>resultIsPureASCII\<close>, which the loop
  clears when \<open>decodeChar\<close> answers true.
\<close>

function decode_loop :: "string \<Rightarrow> nat \<Rightarrow> string \<Rightarrow> nat \<Rightarrow> bool \<Rightarrow> (bool \<times> string) result" where
  "decode_loop s fin special start resultIsPureASCII =
     (if start < fin then
        (case decodeChar s start fin special of
           Inl x \<Rightarrow> Inl x
         | Inr (pure, nxt, r) \<Rightarrow>
             and_then (decode_loop s fin special nxt (if pure then False else resultIsPureASCII))
               (\<lambda>(flag, rest). Inr (flag, r @ rest)))
      else Inr (resultIsPureASCII, []))"
  by pat_completeness auto
termination
  by (relation "measure (\<lambda>(_, fin, _, start, _). fin - start)") (auto dest: decodeChar_progress)

declare decode_loop.simps [simp del]

primrec check_chars :: "string \<Rightarrow> nat list \<Rightarrow> unit result" where
  "check_chars s [] = Inr ()"
| "check_chars s (p # ps) = and_then (checkChar s p) (\<lambda>_. check_chars s ps)"

definition unescapeString :: "string_converter option \<Rightarrow> string \<Rightarrow> nat \<Rightarrow> nat \<Rightarrow> string \<Rightarrow> string result" where
  "unescapeString conv s start fin special =
     (if \<not> (start \<le> fin \<and> fin \<le> length s) then Inl AssertFailed
      else and_then (check_special special) (\<lambda>_.
        if (case find_char bslash s start of None \<Rightarrow> True | Some p \<Rightarrow> p \<ge> fin) then
          and_then (check_chars s [start..<fin]) (\<lambda>_. Inr (take fin (drop start s)))
        else
          and_then
            (if conv \<noteq> None \<and> \<not> list_all (\<lambda>c. ord c \<le> 127) (take (fin - start) (drop start s)) then
               and_then (nativeToUTF8 conv (take fin (drop start s))) (\<lambda>u8s. Inr (u8s, 0, length u8s))
             else Inr (s, start, fin))
            (\<lambda>(input, start, fin).
              and_then (decode_loop input fin special start True) (\<lambda>(resultIsPureASCII, r).
                if conv \<noteq> None \<and> \<not> resultIsPureASCII then UTF8ToNative conv r else Inr r))))"

subsection \<open>Splitting, joining, trimming\<close>

text \<open>
  The state of \<open>splitString\<close>'s loop: the quote that is open (\<open>quoteChar\<close>, \<open>None\<close> for the null
  character), the element under construction and the elements found.
\<close>

fun split_loop :: "string \<Rightarrow> string \<Rightarrow> char option \<Rightarrow> string \<Rightarrow> string list \<Rightarrow> bool \<times> string list" where
  "split_loop delim [] quoteChar elt result = (quoteChar = None, if elt \<noteq> [] then result @ [elt] else result)"
| "split_loop delim (c # cs) quoteChar elt result =
     (if quoteChar = None \<and> (c = dquote \<or> c = squote) then split_loop delim cs (Some c) elt result
      else if c = bslash \<and> cs \<noteq> [] \<and>
              (if quoteChar = None then hd cs = squote \<or> hd cs = dquote else quoteChar = Some (hd cs))
      then split_loop delim (tl cs) quoteChar (elt @ [hd cs]) result
      else if quoteChar = Some c then split_loop delim cs None elt result
      else if c \<in> set delim \<and> quoteChar = None then
        split_loop delim cs quoteChar [] (if elt \<noteq> [] then result @ [elt] else result)
      else split_loop delim cs quoteChar (elt @ [c]) result)"

definition splitString :: "string \<Rightarrow> string \<Rightarrow> bool \<times> string list" where
  "splitString str delim = split_loop delim str None [] []"

fun joinString :: "string list \<Rightarrow> string \<Rightarrow> string" where
  "joinString [] delimiter = []"
| "joinString [v] delimiter = v"
| "joinString (v # vs) delimiter = v @ delimiter @ joinString vs delimiter"

definition is_blank :: "char \<Rightarrow> bool" where
  "is_blank c \<longleftrightarrow> c \<in> {CHR 0x20, CHR 0x09, CHR 0x0D, CHR 0x0A}"

definition trim :: "string \<Rightarrow> string" where
  "trim s =
     (case find_char_if (\<lambda>c. \<not> is_blank c) s 0 of
        None \<Rightarrow> []
      | Some beg \<Rightarrow>
          (case find_last_if (\<lambda>c. \<not> is_blank c) s of
             None \<Rightarrow> drop beg s
           | Some e \<Rightarrow> take (e - beg + 1) (drop beg s)))"

definition toLower :: "string \<Rightarrow> string" where
  "toLower s = map (\<lambda>c. if 65 \<le> ord c \<and> ord c \<le> 90 then char_of (ord c + 32) else c) s"

definition toUpper :: "string \<Rightarrow> string" where
  "toUpper s = map (\<lambda>c. if 97 \<le> ord c \<and> ord c \<le> 122 then char_of (ord c - 32) else c) s"

definition isAlpha :: "char \<Rightarrow> bool" where
  "isAlpha c \<longleftrightarrow> 97 \<le> ord c \<and> ord c \<le> 122 \<or> 65 \<le> ord c \<and> ord c \<le> 90"

definition isDigit :: "char \<Rightarrow> bool" where
  "isDigit c \<longleftrightarrow> 48 \<le> ord c \<and> ord c \<le> 57"

text \<open>\<open>isspace\<close> of the C locale.\<close>

definition isspace :: "char \<Rightarrow> bool" where
  "isspace c \<longleftrightarrow> 9 \<le> ord c \<and> ord c \<le> 13 \<or> ord c = 32"

definition removeWhitespace :: "string \<Rightarrow> string" where
  "removeWhitespace s = filter (\<lambda>c. \<not> isspace c) s"

subsection \<open>Quotes and wild cards\<close>

text \<open>\<open>None\<close> is \<open>string::npos\<close>; the position 0 says that \<open>s\<close> is not quoted at \<open>start\<close>.\<close>

function check_quote_loop :: "char \<Rightarrow> string \<Rightarrow> nat \<Rightarrow> nat option" where
  "check_quote_loop quoteChar s start =
     (if start < length s then
        (case find_char quoteChar s start of
           None \<Rightarrow> None
         | Some pos \<Rightarrow> if s ! (pos - 1) \<noteq> bslash then Some pos else check_quote_loop quoteChar s (pos + 1))
      else None)"
  by pat_completeness auto
termination
  by (relation "measure (\<lambda>(_, s, start). length s - start)") (auto simp: find_char_def find_char_if_Some)

declare check_quote_loop.simps [simp del]

text \<open>Reading \<open>s[s.size()]\<close> of a \<open>std::string\<close> gives the null character.\<close>

definition checkQuote :: "string \<Rightarrow> nat \<Rightarrow> nat option" where
  "checkQuote s start =
     (let quoteChar = (if start < length s then s ! start else CHR 0x00) in
      if quoteChar = dquote \<or> quoteChar = squote then check_quote_loop quoteChar s (start + 1) else Some 0)"

definition match :: "string \<Rightarrow> string \<Rightarrow> bool \<Rightarrow> bool result" where
  "match s pat emptyMatch =
     (if s = [] \<or> pat = [] then Inl AssertFailed
      else case find_char CHR ''*'' pat 0 of
        None \<Rightarrow> Inr (s = pat)
      | Some beginIndex \<Rightarrow>
          if beginIndex > length s \<or> take beginIndex s \<noteq> take beginIndex pat then Inr False
          else
            (let endLength = length pat - beginIndex - 1 in
             if endLength > length s then Inr False
             else
               (let endIndex = length s - endLength in
                if endIndex < beginIndex \<or> \<not> emptyMatch \<and> endIndex = beginIndex then Inr False
                else Inr (drop endIndex s = drop (beginIndex + 1) pat))))"

end
