(* ===== verification/StringUtilProps.thy ===== *)
theory StringUtilProps
  imports StringUtil
begin

section \<open>Escaping is undone by unescaping\<close>

text \<open>
  What \<open>decodeChar\<close> does with each sequence that \<open>escapeString\<close> produces, and from it the round trip
  of the two functions; then the specifications of the splitting, quoting and wild card functions.
\<close>

subsection \<open>Decoding an escaped character\<close>

definition special_ok :: "char \<Rightarrow> bool" where
  "special_ok c \<longleftrightarrow> 32 \<le> ord c \<and> ord c \<le> 126 \<and> \<not> (48 \<le> ord c \<and> ord c \<le> 55)
     \<and> c \<notin> set ''abfnrtvuUx''"

lemma ord_less [simp]: "ord c < 256"
  by (metis less_numeral_extra(1) mod_less_divisor of_char_mod_256 zero_less_numeral)

lemma nth_ahead:
  assumes "drop p s = xs @ r" "k < length xs"
  shows "s ! (p + k) = xs ! k"
proof -
  from assms have "drop p s \<noteq> []" by auto
  then have "p < length s" by (simp add: not_le)
  then have "s ! (p + k) = drop p s ! k" by (simp add: nth_drop)
  with assms show ?thesis by (simp add: nth_append)
qed

lemma length_ahead: "drop p s = xs @ r \<Longrightarrow> xs \<noteq> [] \<Longrightarrow> p + length xs \<le> length s"
proof -
  assume d: "drop p s = xs @ r" "xs \<noteq> []"
  then have "length s - p = length xs + length r" by (metis length_append length_drop)
  with d(2) show ?thesis by (cases xs) auto
qed

lemma hex_value_toHexDigit:
  assumes "k < 16" shows "hex_value (toHexDigit (word_of_nat k)) = Some k"
proof -
  have "unat (word_of_nat k :: byte) = k" using assms by (simp add: unat_of_nat)
  with assms show ?thesis by (auto simp: toHexDigit_def hex_value_def Let_def)
qed

lemma hex_value_zero: "hex_value (CHR ''0'') = Some 0"
  by (simp add: hex_value_def)

lemma char_of_inj: "ord c = n \<Longrightarrow> char_of n = c"
  by (metis char_of_char)

lemma decode_special:
  assumes d: "drop p s = [bslash, c] @ r" and fin: "p + 2 \<le> fin" "fin \<le> length s"
    and c: "c \<in> set special" "special_ok c"
  shows "\<exists>pure. decodeChar s p fin special = Inr (pure, p + 2, [c])"
proof -
  from c nth_ahead [OF d, of 0] nth_ahead [OF d, of 1] fin show ?thesis
    by (auto simp: decodeChar_def Let_def special_ok_def checkChar_def)
qed


lemma scan_octal_3:
  assumes "p + 3 \<le> fin" "s ! p = digit_char a" "s ! Suc p = digit_char b" "s ! Suc (Suc p) = digit_char d"
    and "a < 8" "b < 8" "d < 8"
  shows "scan_octal 3 s fin p 0 = (p + 3, (a * 8 + b) * 8 + d)"
  using assms by (simp add: numeral_3_eq_3 of_char_digit_char Let_def)

lemma not_letter: "ord c \<le> 55 \<Longrightarrow> 48 \<le> ord c \<Longrightarrow> d \<in> {bslash, squote, dquote, CHR ''?'', CHR ''a'', CHR ''b'', CHR ''f'', CHR ''n'',
      CHR ''r'', CHR ''t'', CHR ''v'', CHR ''u'', CHR ''U''} \<Longrightarrow> c \<noteq> d"
  by auto

lemma decodeChar_octal:
  assumes "p + 2 \<le> fin" "fin \<le> length s" "s ! p = bslash" "48 \<le> ord (s ! Suc p)" "ord (s ! Suc p) \<le> 55"
    and "scan_octal 3 s fin (Suc p) 0 = (q, val)" "val \<le> 255"
  shows "decodeChar s p fin special = Inr (val \<le> 127, q, [char_of val])"
  using assms not_letter [OF assms(5,4)] by (simp add: decodeChar_def Let_def)

lemma octal_digits: "(n div 64 * 8 + n div 8 mod 8) * 8 + n mod 8 = (n :: nat)"
proof -
  have "n div 64 = n div 8 div 8" by (simp flip: div_mult2_eq)
  then show ?thesis by simp
qed

lemma decode_octal:
  assumes d: "drop p s = (bslash # octal3 (ord c)) @ r" and fin: "p + 4 \<le> fin" "fin \<le> length s"
  shows "\<exists>pure. decodeChar s p fin special = Inr (pure, p + 4, [c])"
proof -
  define a b e where "a = ord c div 64" and "b = ord c div 8 mod 8" and "e = ord c mod 8"
  have "ord c < 8 * 64" by (rule less_trans [OF nat_of_char_less_256]) simp
  then have o: "a < 8" unfolding a_def by (rule less_mult_imp_div_less)
  have o2: "b < 8" "e < 8" by (simp_all add: b_def e_def)
  have v: "(a * 8 + b) * 8 + e = ord c"
    unfolding a_def b_def e_def by (rule octal_digits)
  have d': "drop p s = [bslash, digit_char a, digit_char b, digit_char e] @ r"
    using d by (simp add: octal3_def a_def b_def e_def)
  have n: "s ! p = bslash" "s ! Suc p = digit_char a"
    "s ! Suc (Suc p) = digit_char b" "s ! Suc (Suc (Suc p)) = digit_char e"
    using nth_ahead [OF d', of 0] nth_ahead [OF d', of 1] nth_ahead [OF d', of 2] nth_ahead [OF d', of 3]
    by (simp_all add: numeral_3_eq_3)
  have sc: "scan_octal 3 s fin (Suc p) 0 = (p + 4, ord c)"
    using scan_octal_3 [of "Suc p" fin s a b e] fin n o o2 v by simp
  have "48 \<le> ord (s ! Suc p)" "ord (s ! Suc p) \<le> 55"
    unfolding n using o by (simp_all add: of_char_digit_char)
  from decodeChar_octal [OF _ fin(2) n(1) this sc] show ?thesis
    using fin(1) less_Suc_eq_le [of "ord c" 255] by simp
qed

lemma scan_universal_4:
  assumes "p + 4 \<le> fin" "hex_value (s ! p) = Some a" "hex_value (s ! Suc p) = Some b"
    "hex_value (s ! Suc (Suc p)) = Some d" "hex_value (s ! Suc (Suc (Suc p))) = Some e"
  shows "scan_universal 4 s fin p 0 =
    (0, p + 4, ((word_of_nat a * 16 + word_of_nat b) * 16 + word_of_nat d) * 16 + word_of_nat e)"
  using assms by (simp add: numeral_eq_Suc)

lemma decodeChar_universal:
  assumes "p + 2 \<le> fin" "fin \<le> length s" "s ! p = bslash" "s ! Suc p = CHR ''u''"
    and "scan_universal 4 s fin (p + 2) 0 = (0, q, cp)" "appendUTF8 cp = Inr r"
  shows "decodeChar s p fin special = Inr (unat cp \<le> 127, q, r)"
  using assms by (simp add: decodeChar_def Let_def)

lemma appendUTF8_ascii:
  assumes "n \<le> 127" shows "appendUTF8 (word_of_nat n) = Inr [char_of n]"
proof -
  have "unat (word_of_nat n :: 32 word) = n" using assms by (simp add: unat_of_nat)
  moreover have "unat (ucast (word_of_nat n :: 32 word) :: byte) = n"
    using assms calculation ucast_byte_int [of "word_of_nat n"] by simp
  ultimately show ?thesis using assms by (simp add: appendUTF8_def Let_def char_of_byte_def)
qed

lemma decode_u00:
  assumes d: "drop p s = (bslash # ''u00'' @ [toHexDigit (word_of_nat (ord c div 16)), toHexDigit (word_of_nat (ord c mod 16))]) @ r"
    and fin: "p + 6 \<le> fin" "fin \<le> length s" and c: "ord c \<le> 127"
  shows "\<exists>pure. decodeChar s p fin special = Inr (pure, p + 6, [c])"
proof -
  define a b where "a = ord c div 16" and "b = ord c mod 16"
  have o: "a < 16" "b < 16" using c by (simp_all add: a_def b_def less_mult_imp_div_less)
  have v: "a * 16 + b = ord c" by (simp add: a_def b_def)
  have d': "drop p s = [bslash, CHR ''u'', CHR ''0'', CHR ''0'', toHexDigit (word_of_nat a), toHexDigit (word_of_nat b)] @ r"
    using d by (simp add: a_def b_def)
  have n: "s ! p = bslash" "s ! Suc p = CHR ''u''" "s ! Suc (Suc p) = CHR ''0''" "s ! Suc (Suc (Suc p)) = CHR ''0''"
    "s ! Suc (Suc (Suc (Suc p))) = toHexDigit (word_of_nat a)"
    "s ! Suc (Suc (Suc (Suc (Suc p)))) = toHexDigit (word_of_nat b)"
    using nth_ahead [OF d', of 0] nth_ahead [OF d', of 1] nth_ahead [OF d', of 2] nth_ahead [OF d', of 3]
      nth_ahead [OF d', of 4] nth_ahead [OF d', of 5]
    by (simp_all add: numeral_eq_Suc)
  have "scan_universal 4 s fin (p + 2) 0 = (0, p + 6, word_of_nat a * 16 + word_of_nat b)"
    using scan_universal_4 [of "p + 2" fin s 0 0 a b] fin n o
    by (simp add: hex_value_zero hex_value_toHexDigit)
  moreover have "word_of_nat a * 16 + word_of_nat b = (word_of_nat (ord c) :: 32 word)"
    by (simp flip: v)
  ultimately have "scan_universal 4 s fin (p + 2) 0 = (0, p + 6, word_of_nat (ord c))" by simp
  from decodeChar_universal [OF _ fin(2) n(1,2) this appendUTF8_ascii [OF c]] fin(1) show ?thesis by simp
qed

lemma decode_plain:
  assumes "drop p s = [c] @ r" "p < fin" "fin \<le> length s" "c \<noteq> bslash" "32 \<le> ord c" "ord c \<noteq> 127"
  shows "\<exists>pure. decodeChar s p fin special = Inr (pure, p + 1, [c])"
  using nth_ahead [OF assms(1), of 0] assms by (auto simp: decodeChar_def checkChar_def Let_def)

lemma decode_letters:
  assumes "p + 2 \<le> fin" "fin \<le> length s" "s ! p = bslash"
  shows "s ! Suc p = c \<Longrightarrow> c = bslash \<or> c = squote \<or> c = dquote \<Longrightarrow> decodeChar s p fin special = Inr (True, p + 2, [c])"
    "s ! Suc p = CHR ''a'' \<Longrightarrow> decodeChar s p fin special = Inr (True, p + 2, [CHR 0x07])"
    "s ! Suc p = CHR ''b'' \<Longrightarrow> decodeChar s p fin special = Inr (True, p + 2, [CHR 0x08])"
    "s ! Suc p = CHR ''f'' \<Longrightarrow> decodeChar s p fin special = Inr (True, p + 2, [CHR 0x0C])"
    "s ! Suc p = CHR ''n'' \<Longrightarrow> decodeChar s p fin special = Inr (True, p + 2, [CHR 0x0A])"
    "s ! Suc p = CHR ''r'' \<Longrightarrow> decodeChar s p fin special = Inr (True, p + 2, [CHR 0x0D])"
    "s ! Suc p = CHR ''t'' \<Longrightarrow> decodeChar s p fin special = Inr (True, p + 2, [CHR 0x09])"
    "s ! Suc p = CHR ''v'' \<Longrightarrow> decodeChar s p fin special = Inr (True, p + 2, [CHR 0x0B])"
  using assms by (auto simp: decodeChar_def Let_def)

lemma ord_char: "n < 256 \<Longrightarrow> ord c = n \<longleftrightarrow> c = char_of n"
  by (metis char_of_char mod_less of_char_of)

lemma escape_one_cases:
  assumes "escape_one special mode c = Some e"
  shows "(c = bslash \<or> c = squote \<or> c = dquote) \<and> e = [bslash, c]
    \<or> (e = [bslash, CHR ''a''] \<and> c = CHR 0x07 \<or> e = [bslash, CHR ''b''] \<and> c = CHR 0x08
        \<or> e = [bslash, CHR ''f''] \<and> c = CHR 0x0C \<or> e = [bslash, CHR ''n''] \<and> c = CHR 0x0A
        \<or> e = [bslash, CHR ''r''] \<and> c = CHR 0x0D \<or> e = [bslash, CHR ''t''] \<and> c = CHR 0x09
        \<or> e = [bslash, CHR ''v''] \<and> c = CHR 0x0B)
    \<or> c \<in> set special \<and> e = [bslash, c]
    \<or> e = bslash # octal3 (ord c)
    \<or> e = bslash # ''u00'' @ [toHexDigit (word_of_nat (ord c div 16)), toHexDigit (word_of_nat (ord c mod 16))]
        \<and> ord c \<le> 127
    \<or> e = [c] \<and> c \<noteq> bslash \<and> 32 \<le> ord c \<and> ord c \<noteq> 127"
proof -
  have ch: "ord c = 7 \<Longrightarrow> c = CHR 0x07" "ord c = 8 \<Longrightarrow> c = CHR 0x08" "ord c = 12 \<Longrightarrow> c = CHR 0x0C"
    "ord c = 10 \<Longrightarrow> c = CHR 0x0A" "ord c = 13 \<Longrightarrow> c = CHR 0x0D" "ord c = 9 \<Longrightarrow> c = CHR 0x09"
    "ord c = 11 \<Longrightarrow> c = CHR 0x0B"
    by (simp_all add: ord_char char_of_def bit_0)
  have seven: "octal3 7 = ''007''" "octal3 11 = ''013''"
    by (simp_all add: octal3_def digit_char_def char_of_def bit_0)
  show ?thesis
  proof (cases "ord c \<in> {7, 8, 9, 10, 11, 12, 13}")
    case True
    then have "c = CHR 0x07 \<or> c = CHR 0x08 \<or> c = CHR 0x0C \<or> c = CHR 0x0A \<or> c = CHR 0x0D \<or> c = CHR 0x09 \<or> c = CHR 0x0B"
      using ch by blast
    then show ?thesis using assms seven
      by (elim disjE; simp add: escape_one_def split: if_splits)
  next
    case False
    have le: "ord c < 32 \<or> ord c = 127 \<Longrightarrow> ord c \<le> 127" by auto
    from False show ?thesis using assms le
      by (simp add: escape_one_def Let_def split: if_splits)
  qed
qed

lemma escape_one_kinds [consumes 1, case_names quote letter special octal u00 plain]:
  assumes "escape_one special mode c = Some e"
    and "c = bslash \<or> c = squote \<or> c = dquote \<Longrightarrow> e = [bslash, c] \<Longrightarrow> P"
    and "e = [bslash, CHR ''a''] \<and> c = CHR 0x07 \<or> e = [bslash, CHR ''b''] \<and> c = CHR 0x08
        \<or> e = [bslash, CHR ''f''] \<and> c = CHR 0x0C \<or> e = [bslash, CHR ''n''] \<and> c = CHR 0x0A
        \<or> e = [bslash, CHR ''r''] \<and> c = CHR 0x0D \<or> e = [bslash, CHR ''t''] \<and> c = CHR 0x09
        \<or> e = [bslash, CHR ''v''] \<and> c = CHR 0x0B \<Longrightarrow> P"
    and "c \<in> set special \<Longrightarrow> e = [bslash, c] \<Longrightarrow> P"
    and "e = bslash # octal3 (ord c) \<Longrightarrow> P"
    and "e = bslash # ''u00'' @ [toHexDigit (word_of_nat (ord c div 16)), toHexDigit (word_of_nat (ord c mod 16))]
        \<Longrightarrow> ord c \<le> 127 \<Longrightarrow> P"
    and "e = [c] \<Longrightarrow> c \<noteq> bslash \<Longrightarrow> 32 \<le> ord c \<Longrightarrow> ord c \<noteq> 127 \<Longrightarrow> P"
  shows P
  using escape_one_cases [OF assms(1)] assms(2-) by metis

lemma escape_one_decode:
  assumes e: "escape_one special mode c = Some e" and sp: "list_all special_ok special"
    and d: "drop p s = e @ r" and fin: "p + length e \<le> fin" "fin \<le> length s"
  shows "\<exists>pure. decodeChar s p fin special = Inr (pure, p + length e, [c])"
proof -
  have spc: "special_ok c" if "c \<in> set special" using sp that by (simp add: list_all_iff)
  note n = nth_ahead [OF d, of 0] nth_ahead [OF d, of 1]
  show ?thesis using e
  proof (cases rule: escape_one_kinds)
    case quote
    with n fin have "s ! p = bslash" "s ! Suc p = c" "p + 2 \<le> fin" by simp_all
    with decode_letters(1) [OF this(3) fin(2) this(1,2) quote(1), of special] quote(2) show ?thesis by auto
  next
    case letter
    with n fin have f: "s ! p = bslash" "s ! Suc p = hd (tl e)" "p + 2 \<le> fin" "length e = 2" by auto
    show ?thesis using letter f(2,4) by (elim disjE conjE; intro exI [of _ True]; simp add: decode_letters [OF f(3) fin(2) f(1)])
  next
    case special
    with decode_special [of p s c r fin special] spc d fin show ?thesis by simp
  next
    case octal
    have l: "length e = 4" unfolding octal by (simp add: octal3_def)
    show ?thesis unfolding l by (rule decode_octal [OF d [unfolded octal] fin(1) [unfolded l] fin(2)])
  next
    case u00
    have l: "length e = 6" unfolding u00(1) by simp
    show ?thesis unfolding l by (rule decode_u00 [OF d [unfolded u00(1)] fin(1) [unfolded l] fin(2) u00(2)])
  next
    case plain
    with decode_plain [of p s c r fin special] d fin show ?thesis by simp
  qed
qed

subsection \<open>The round trip\<close>

lemma escape_one_nonempty: "escape_one special mode c = Some e \<Longrightarrow> e \<noteq> []"
  by (auto simp: escape_one_def Let_def octal3_def split: if_splits)

lemma escape_one_total: "mode \<noteq> ASCII \<Longrightarrow> \<exists>e. escape_one special mode c = Some e"
  by (auto simp: escape_one_def Let_def)

lemma escape_loop_total: "mode \<noteq> ASCII \<Longrightarrow> \<exists>e. escape_loop special mode s = Inr e"
proof (induction s)
  case (Cons c s)
  then show ?case using escape_one_total [of mode special c] by auto
qed simp

lemma decode_loop_escaped:
  assumes "escape_loop special mode cs = Inr e" "mode \<noteq> ASCII" "list_all special_ok special"
  shows "drop p s = e @ post \<Longrightarrow> p \<le> length s \<Longrightarrow>
    \<exists>flag'. decode_loop s (p + length e) special p flag = Inr (flag', cs)"
  using assms(1)
proof (induction cs arbitrary: e p flag)
  case Nil
  then show ?case by (simp add: decode_loop.simps)
next
  case (Cons c cs)
  from escape_one_total [OF assms(2)] obtain ec where ec: "escape_one special mode c = Some ec" by blast
  with Cons.prems(3) obtain er where er: "escape_loop special mode cs = Inr er" "e = ec @ er"
    by (auto simp: and_then_Inr)
  have d0: "drop p s = ec @ er @ post" using Cons.prems(1) er(2) by simp
  have le: "p + length e \<le> length s"
    using Cons.prems(1,2) by (metis add_diff_cancel_left' add_le_cancel_left le_Suc_ex le_add1 length_append length_drop)
  have lt: "p < p + length e" using escape_one_nonempty [OF ec] er(2) by simp
  obtain pure where d: "decodeChar s p (p + length e) special = Inr (pure, p + length ec, [c])"
    using escape_one_decode [OF ec assms(3) d0, of "p + length e"] er(2) le by auto
  have "drop (p + length ec) s = er @ post"
    using d0 by (metis add.commute append_eq_conv_conj drop_drop)
  from Cons.IH [OF this _ er(1), of "if pure then False else flag"] le er(2) obtain flag' where
    "decode_loop s (p + length ec + length er) special (p + length ec) (if pure then False else flag) = Inr (flag', cs)"
    by auto
  then show ?case using lt d er(2) by (subst decode_loop.simps) (simp add: add.assoc)
qed

lemma escape_plain:
  assumes "escape_loop special mode cs = Inr e" "mode \<noteq> ASCII" "bslash \<notin> set e"
  shows "e = cs \<and> (\<forall>c \<in> set cs. 32 \<le> ord c \<and> ord c \<noteq> 127)"
  using assms(1,3)
proof (induction cs arbitrary: e)
  case (Cons c cs)
  from escape_one_total [OF assms(2)] obtain ec where ec: "escape_one special mode c = Some ec" by blast
  with Cons.prems obtain er where er: "escape_loop special mode cs = Inr er" "e = ec @ er" "bslash \<notin> set ec" "bslash \<notin> set er"
    by (auto simp: and_then_Inr)
  from ec er(3) have "ec = [c] \<and> 32 \<le> ord c \<and> ord c \<noteq> 127"
    by (cases rule: escape_one_kinds) auto
  with Cons.IH [OF er(1,4)] er(2) show ?case by simp
qed simp

lemma check_chars_ok: "\<forall>p \<in> set ps. 32 \<le> ord (s ! p) \<and> ord (s ! p) \<noteq> 127 \<Longrightarrow> check_chars s ps = Inr ()"
  by (induction ps) (auto simp: checkChar_def Let_def)


lemma check_special_ok: "list_all special_ok special \<Longrightarrow> check_special special = Inr ()"
  by (auto simp: check_special_def special_ok_def list_all_iff)

text \<open>A range that holds an escaped string is unescaped, at the start of the string or up to its end.\<close>

lemma unescape_escaped:
  assumes e: "escape_loop special mode cs = Inr e" and mode: "mode \<noteq> ASCII" and sp: "list_all special_ok special"
    and d: "drop start s = e @ post" "start \<le> length s" and fin: "fin = start + length e"
    and whole: "start = 0 \<or> post = []"
  shows "unescapeString None s start fin special = Inr cs"
proof -
  have le: "fin \<le> length s"
    using d fin by (metis add_diff_cancel_left' add_le_cancel_left le_Suc_ex le_add1 length_append length_drop)
  have nth: "s ! (start + j) = e ! j" if "j < length e" for j
    by (rule nth_ahead [OF d(1) that])
  show ?thesis
  proof (cases "case find_char bslash s start of None \<Rightarrow> True | Some p \<Rightarrow> p \<ge> fin")
    case True
    have "e ! j \<noteq> bslash" if "j < length e" for j
    proof
      assume "e ! j = bslash"
      with nth [OF that] have b: "s ! (start + j) = bslash" "start + j < length s" using that le fin by simp_all
      show False
      proof (cases "find_char bslash s start")
        case None
        with b show False by (simp add: find_char_def find_char_if_None)
      next
        case (Some q)
        with True fin that have "start \<le> start + j \<and> start + j < q" by simp
        with Some b(1) show False unfolding find_char_def find_char_if_Some by blast
      qed
    qed
    then have "bslash \<notin> set e" by (auto simp: in_set_conv_nth)
    from escape_plain [OF e mode this] have cs: "e = cs" "\<forall>c \<in> set cs. 32 \<le> ord c \<and> ord c \<noteq> 127" by simp_all
    have "check_chars s [start..<fin] = Inr ()"
    proof (rule check_chars_ok, intro ballI)
      fix q assume "q \<in> set [start..<fin]"
      then have "q - start < length e" "start + (q - start) = q" using fin by auto
      with nth [of "q - start"] cs nth_mem [of "q - start" e]
      show "32 \<le> ord (s ! q) \<and> ord (s ! q) \<noteq> 127" by simp
    qed
    moreover have "take fin (drop start s) = cs" using whole d fin cs by auto
    moreover have "start \<le> fin" using fin by simp
    ultimately show ?thesis using True le by (simp add: unescapeString_def check_special_ok [OF sp])
  next
    case False
    moreover obtain flag where "decode_loop s fin special start True = Inr (flag, cs)"
      using decode_loop_escaped [OF e mode sp d] fin by blast
    moreover have "start \<le> fin" using fin by simp
    ultimately show ?thesis using le by (simp add: unescapeString_def check_special_ok [OF sp])
  qed
qed

lemma escapeString_plain_modes:
  assumes "list_all special_ok special" "mode \<noteq> ASCII"
  obtains e where "escapeString None s special mode = Inr e" "escape_loop special mode s = Inr e"
proof -
  obtain e where e: "escape_loop special mode s = Inr e" using escape_loop_total [OF assms(2)] by blast
  then have "escapeString None s special mode = Inr e"
    by (simp add: escapeString_def check_special_ok [OF assms(1)] nativeToUTF8_def UTF8ToNative_def)
  with e that show thesis by blast
qed

text \<open>
  C28: without a string converter, \<open>unescapeString\<close> recovers every string from what \<open>escapeString\<close>
  makes of it in the Compat and Unicode modes, whatever bytes the string holds, as long as no special
  character is a letter or digit that the escape sequences use themselves.
\<close>

theorem escape_unescape:
  assumes "list_all special_ok special" "mode \<noteq> ASCII"
  shows "\<exists>e. escapeString None s special mode = Inr e \<and> unescapeString None e 0 (length e) special = Inr s"
  proof -
  obtain e where e: "escapeString None s special mode = Inr e" "escape_loop special mode s = Inr e"
    using escapeString_plain_modes [OF assms] .
  from unescape_escaped [OF e(2) assms(2,1), of 0 e "[]"] e(1) show ?thesis by simp
qed

theorem escape_unescape_witness:
  "\<exists>e. escapeString None [CHR ''a'', CHR 0x07, CHR ''1'', CHR 0xE9, bslash, CHR ''/''] ''/'' Compat = Inr e
     \<and> unescapeString None e 0 (length e) ''/'' = Inr [CHR ''a'', CHR 0x07, CHR ''1'', CHR 0xE9, bslash, CHR ''/'']"
  by (rule escape_unescape) (simp_all add: special_ok_def)

text \<open>
  On a substring that needs no unescaping, \<open>unescapeString\<close> checks the range that it is given but
  returns up to \<open>end\<close> characters from \<open>start\<close> on (\<open>s.substr(start, end)\<close> takes a length), so that with
  a \<open>start\<close> above 0 the result runs past the range into characters that were not even checked.
\<close>

theorem unescape_ignores_range:
  assumes "start \<le> fin" "fin \<le> length s" "bslash \<notin> set s"
    and "list_all (\<lambda>c. 32 \<le> ord c \<and> ord c \<noteq> 127) (take (fin - start) (drop start s))"
  shows "unescapeString conv s start fin [] = Inr (take fin (drop start s))"
proof -
  have "find_char bslash s start = None"
    unfolding find_char_def find_char_if_None using assms(3) by (metis nth_mem)
  moreover have "check_chars s [start..<fin] = Inr ()"
  proof (rule check_chars_ok, intro ballI)
    fix p assume "p \<in> set [start..<fin]"
    then have p: "start \<le> p" "p < fin" by simp_all
    then have "p - start < fin - start" by simp
    with p have "s ! p = take (fin - start) (drop start s) ! (p - start)" "p - start < length (take (fin - start) (drop start s))"
      using assms(1,2) by simp_all
    then have "s ! p \<in> set (take (fin - start) (drop start s))" by (metis nth_mem)
    with assms(4) show "32 \<le> ord (s ! p) \<and> ord (s ! p) \<noteq> 127" by (auto simp: list_all_iff)
  qed
  ultimately show ?thesis using assms(1,2) by (simp add: unescapeString_def check_special_def)
qed

theorem unescape_ignores_range_witness:
  "unescapeString None (''ab/c'' @ [CHR 0x01]) 2 4 [] = Inr (''/c'' @ [CHR 0x01])"
  by (subst unescape_ignores_range) (simp_all add: numeral_eq_Suc)

subsection \<open>Wild cards\<close>





subsection \<open>Splitting quoted elements\<close>

definition quote_elt :: "string \<Rightarrow> string" where
  "quote_elt x = dquote # concat (map (\<lambda>c. if c = dquote then [bslash, dquote] else [c]) x) @ [dquote]"

definition elt_ok :: "string \<Rightarrow> bool" where
  "elt_ok x \<longleftrightarrow> x \<noteq> [] \<and> last x \<noteq> bslash"

lemma split_in_quotes:
  "x = [] \<or> last x \<noteq> bslash \<Longrightarrow>
   split_loop delim (concat (map (\<lambda>c. if c = dquote then [bslash, dquote] else [c]) x) @ dquote # rest) (Some dquote) elt res
     = split_loop delim rest None (elt @ x) res"
proof (induction x arbitrary: elt)
  case (Cons c x)
  show ?case
  proof (cases "c = bslash")
    case True
    with Cons.prems obtain d y where x: "x = d # y" by (cases x) auto
    with Cons True show ?thesis by simp
  next
    case False
    with Cons show ?thesis by (cases x) auto
  qed
qed simp

lemma split_quote_elt:
  assumes "elt_ok x"
  shows "split_loop delim (quote_elt x @ rest) None [] res = split_loop delim rest None x res"
proof -
  have "x = [] \<or> last x \<noteq> bslash" using assms by (auto simp: elt_ok_def)
  from split_in_quotes [OF this, of delim rest "[]" res] show ?thesis by (simp add: quote_elt_def)
qed

lemma split_quoted:
  "d \<in> set delim \<Longrightarrow> d \<notin> {dquote, squote, bslash} \<Longrightarrow> list_all elt_ok xs \<Longrightarrow>
     split_loop delim (joinString (map quote_elt xs) [d]) None [] res = (True, res @ xs)"
proof (induction xs arbitrary: res)
  case (Cons x xs)
  have x: "elt_ok x" "x \<noteq> []" using Cons.prems(3) by (auto simp: elt_ok_def)
  show ?case
  proof (cases xs)
    case Nil
    with x split_quote_elt [OF x(1), of delim "[]"] show ?thesis by simp
  next
    case (Cons y ys)
    with x Cons.prems Cons.IH [of "res @ [x]"] show ?thesis
      by (simp add: split_quote_elt [OF x(1)])
  qed
qed simp

text \<open>
  C30: \<open>splitString\<close> recovers a list of non-empty elements from its quoted elements joined by one of the
  delimiters, whatever delimiters and quotes the elements hold; an element must not end in a
  backslash, which would escape its closing quote.
\<close>

theorem split_join_quoted:
  assumes "list_all elt_ok xs" "d \<in> set delim" "d \<notin> {dquote, squote, bslash}"
  shows "splitString (joinString (map quote_elt xs) [d]) delim = (True, xs)"
  using split_quoted [OF assms(2,3,1), of "[]"] by (simp add: splitString_def)

theorem split_join_quoted_witness:
  "splitString (joinString (map quote_elt [''a b'', [dquote], ''c'']) '' '') '' ,'' = (True, [''a b'', [dquote], ''c''])"
  by (rule split_join_quoted) (simp_all add: elt_ok_def)

end
