(* ===== verification/Identity.thy ===== *)
theory Identity
  imports StringUtilProps
begin

section \<open>Object identities and their string form\<close>

text \<open>
  \<open>stringToIdentity\<close> and \<open>identityToString\<close> of cpp/src/Ice/Initialize.cpp over the escaping functions of
  StringUtil, the separator search written out, and their round trip.
\<close>

record identity =
  idName :: string
  idCategory :: string

text \<open>
  The inner loop counts the backslashes before position \<open>pos\<close>; the difference is cast to a 32-bit
  \<open>int\<close> before it is compared.
\<close>

function count_escapes :: "string \<Rightarrow> nat \<Rightarrow> nat \<Rightarrow> nat" where
  "count_escapes s pos escapes =
     (if sint (word_of_nat (pos - escapes) :: ice_int) > 0 \<and> s ! (pos - escapes - 1) = bslash
      then count_escapes s pos (escapes + 1) else escapes)"
  by pat_completeness auto
termination
proof (relation "measure (\<lambda>(_, pos, escapes). pos - escapes)", goal_cases)
  case (2 s pos escapes)
  then have "pos - escapes \<noteq> 0" by (cases "pos - escapes") auto
  then show ?case by simp
qed simp

declare count_escapes.simps [simp del]

function find_slash :: "string \<Rightarrow> nat \<Rightarrow> nat option \<Rightarrow> nat option result" where
  "find_slash s pos slash =
     (case find_char CHR ''/'' s pos of
        None \<Rightarrow> Inr slash
      | Some p \<Rightarrow>
          if even (count_escapes s p 0) then
            (case slash of
               None \<Rightarrow> find_slash s (p + 1) (Some p)
             | Some _ \<Rightarrow> Inl (IdentityParseException (''unescaped '' @ squote # ''/'' @ squote # '' in identity `'' @ s @ [squote])))
          else find_slash s (p + 1) slash)"
  by pat_completeness auto
termination
  by (relation "measure (\<lambda>(s, pos, _). length s - pos)") (auto simp: find_char_def find_char_if_Some)

declare find_slash.simps [simp del]

text \<open>Only \<open>IllegalArgumentException\<close> is caught and turned into a parse exception.\<close>

definition parse_part :: "string \<Rightarrow> string \<Rightarrow> string result \<Rightarrow> string result" where
  "parse_part what s m =
     (case m of
        Inl (IllegalArgument reason) \<Rightarrow>
          Inl (IdentityParseException (''invalid '' @ what @ '' `'' @ s @ squote # '': '' @ reason))
      | _ \<Rightarrow> m)"

definition stringToIdentity :: "string_converter option \<Rightarrow> string \<Rightarrow> identity result" where
  "stringToIdentity conv s =
     and_then (find_slash s 0 None) (\<lambda>slash.
       case slash of
         None \<Rightarrow>
           and_then (parse_part ''identity name'' s (unescapeString conv s 0 (length s) ''/''))
             (\<lambda>name. Inr \<lparr>idName = name, idCategory = []\<rparr>)
       | Some k \<Rightarrow>
           and_then (parse_part ''category in identity'' s (unescapeString conv s 0 k ''/'')) (\<lambda>category.
             if k + 1 < length s then
               and_then (parse_part ''name in identity'' s (unescapeString conv s (k + 1) (length s) ''/''))
                 (\<lambda>name. Inr \<lparr>idName = name, idCategory = category\<rparr>)
             else Inr \<lparr>idName = [], idCategory = category\<rparr>))"

definition identityToString :: "string_converter option \<Rightarrow> identity \<Rightarrow> to_string_mode \<Rightarrow> string result" where
  "identityToString conv ident mode =
     (if idCategory ident = [] then escapeString conv (idName ident) ''/'' mode
      else and_then (escapeString conv (idCategory ident) ''/'' mode) (\<lambda>c.
           and_then (escapeString conv (idName ident) ''/'' mode) (\<lambda>n. Inr (c @ ''/'' @ n))))"

subsection \<open>Unescaped slashes\<close>

text \<open>\<open>odd_run xs\<close>: the run of backslashes at the end of \<open>xs\<close> has odd length.\<close>

definition odd_run :: "string \<Rightarrow> bool" where
  "odd_run xs = foldl (\<lambda>b c. c = bslash \<and> \<not> b) False xs"

lemma odd_run_simps [simp]:
  "\<not> odd_run []"
  "odd_run (xs @ [c]) \<longleftrightarrow> c = bslash \<and> \<not> odd_run xs"
  by (simp_all add: odd_run_def)

lemma count_escapes_parity:
  assumes "pos \<le> length s" "length s < 2147483648" "k \<le> pos"
  shows "even (count_escapes s pos k) \<longleftrightarrow> (even k \<longleftrightarrow> \<not> odd_run (take (pos - k) s))"
  using assms(3)
proof (induction "pos - k" arbitrary: k)
  case 0
  then show ?case by (subst count_escapes.simps) simp
next
  case (Suc n)
  have k: "pos - Suc k = n" "Suc k \<le> pos" using Suc.hyps(2) by simp_all
  have "sint (word_of_nat (pos - k) :: ice_int) = int (pos - k)"
    using assms(1,2) by (intro sint32_of_nat) simp
  then have pos: "sint (word_of_nat (pos - k) :: ice_int) > 0" using k(2) by simp
  have "n < length s" using k assms(1) by linarith
  then have last: "take (pos - k) s = take n s @ [s ! n]"
    by (simp add: take_Suc_conv_app_nth flip: Suc.hyps(2))
  show ?case
  proof (cases "s ! n = bslash")
    case True
    with pos k(1) have "count_escapes s pos k = count_escapes s pos (Suc k)"
      by (subst count_escapes.simps) simp
    with Suc.hyps(1) [of "Suc k"] k last True show ?thesis by simp
  next
    case False
    with pos k(1) last show ?thesis by (subst count_escapes.simps) simp
  qed
qed

text \<open>The separators that \<open>find_slash\<close> accepts.\<close>

definition separator_at :: "string \<Rightarrow> nat \<Rightarrow> bool" where
  "separator_at s p \<longleftrightarrow> p < length s \<and> s ! p = CHR ''/'' \<and> \<not> odd_run (take p s)"

lemma find_slash_step:
  assumes "length s < 2147483648" "find_char CHR ''/'' s pos = Some p"
  shows "even (count_escapes s p 0) \<longleftrightarrow> separator_at s p"
  using assms count_escapes_parity [of p s 0]
  by (auto simp: separator_at_def find_char_def find_char_if_Some)

lemma find_slash_none:
  "length s < 2147483648 \<Longrightarrow> \<forall>p \<ge> pos. \<not> separator_at s p \<Longrightarrow> find_slash s pos sl = Inr sl"
proof (induction "length s - pos" arbitrary: pos rule: less_induct)
  case less
  show ?case
  proof (cases "find_char CHR ''/'' s pos")
    case None
    then show ?thesis by (simp add: find_slash.simps [of s pos])
  next
    case (Some p)
    then have p: "pos \<le> p" "p < length s" by (simp_all add: find_char_def find_char_if_Some)
    with less.prems find_slash_step [OF less.prems(1) Some] have "odd (count_escapes s p 0)" by simp
    moreover have "find_slash s (p + 1) sl = Inr sl"
      using less.hyps [of "p + 1"] less.prems p by auto
    ultimately show ?thesis using Some by (simp add: find_slash.simps [of s pos])
  qed
qed

lemma find_slash_one:
  "length s < 2147483648 \<Longrightarrow> separator_at s q \<Longrightarrow> pos \<le> q \<Longrightarrow> \<forall>p \<ge> pos. separator_at s p \<longrightarrow> p = q \<Longrightarrow>
     find_slash s pos None = Inr (Some q)"
proof (induction "length s - pos" arbitrary: pos rule: less_induct)
  case less
  from less.prems(2) have q: "q < length s" "s ! q = CHR ''/''" by (simp_all add: separator_at_def)
  show ?case
  proof (cases "find_char CHR ''/'' s pos")
    case None
    with q less.prems(3) show ?thesis by (simp add: find_char_def find_char_if_None)
  next
    case (Some p)
    then have f: "pos \<le> p" "p < length s" "\<forall>j. pos \<le> j \<and> j < p \<longrightarrow> s ! j \<noteq> CHR ''/''"
      unfolding find_char_def find_char_if_Some by blast+
    with q(2) less.prems(3) have "\<not> q < p" by blast
    with f have p: "pos \<le> p" "p \<le> q" by simp_all
    show ?thesis
    proof (cases "p = q")
      case True
      have "\<not> separator_at s j" if "p + 1 \<le> j" for j
      proof
        assume "separator_at s j"
        with less.prems(4) p that have "j = q" by (meson add_leD1 order_trans)
        with that True show False by simp
      qed
      then have "\<forall>j \<ge> p + 1. \<not> separator_at s j" by blast
      from find_slash_none [OF less.prems(1) this] find_slash_step [OF less.prems(1) Some] True less.prems(2) Some
      show ?thesis by (simp add: find_slash.simps [of s pos])
    next
      case False
      with less.prems(4) p have "\<not> separator_at s p" by blast
      with find_slash_step [OF less.prems(1) Some] have "odd (count_escapes s p 0)" by simp
      moreover have "find_slash s (p + 1) None = Inr (Some q)"
      proof (rule less.hyps)
        show "length s - (p + 1) < length s - pos" using p q by linarith
        show "p + 1 \<le> q" using p False by linarith
        show "\<forall>j \<ge> p + 1. separator_at s j \<longrightarrow> j = q" using less.prems(4) p by (meson add_leD1 order_trans)
      qed (rule less.prems)+
      ultimately show ?thesis using Some by (simp add: find_slash.simps [of s pos])
    qed
  qed
qed

subsection \<open>Escaped parts hold no separator\<close>

lemma octal3_chars: "x < 256 \<Longrightarrow> c \<in> set (octal3 x) \<Longrightarrow> c \<noteq> CHR ''/'' \<and> c \<noteq> bslash"
proof -
  assume x: "x < 256" "c \<in> set (octal3 x)"
  then have "x div 64 < 8" using less_mult_imp_div_less [of x 8 64] by simp
  with x(2) obtain d where "c = digit_char d" "d < 8" by (auto simp: octal3_def)
  then have "ord c = 48 + d" "d < 8" by (simp_all add: of_char_digit_char)
  then show ?thesis by auto
qed

lemma hex_chars: "k < 16 \<Longrightarrow> toHexDigit (word_of_nat k) \<noteq> CHR ''/'' \<and> toHexDigit (word_of_nat k) \<noteq> bslash"
proof -
  assume k: "k < 16"
  have "hex_value (CHR ''/'') = None" "hex_value bslash = None" by (simp_all add: hex_value_def)
  with hex_value_toHexDigit [OF k] show ?thesis by auto
qed

text \<open>What an escaped character does to the run of backslashes, and where it holds slashes.\<close>

lemma escape_one_slash:
  assumes "escape_one special mode c = Some e" "CHR ''/'' \<in> set special" "\<not> odd_run xs"
  shows "\<not> odd_run (xs @ e) \<and>
    (\<forall>k < length e. e ! k = CHR ''/'' \<longrightarrow> odd_run (xs @ take k e))"
proof -
  have slash: "escape_one special mode (CHR ''/'') = Some [bslash, CHR ''/'']"
    using assms(2) by (simp add: escape_one_def)
  have two: ?thesis if "e = [bslash, d]" for d
    using that assms(3) odd_run_simps(2) [of "xs @ [bslash]" d] odd_run_simps(2) [of xs bslash]
    by (auto simp: less_Suc_eq numeral_2_eq_2)
  have none: ?thesis if "e = es @ [d]" "d \<noteq> bslash" "CHR ''/'' \<notin> set e" for es d
  proof -
    have "\<not> odd_run (xs @ e)" using that odd_run_simps(2) [of "xs @ es" d] by simp
    with that(3) show ?thesis by (metis nth_mem)
  qed
  show ?thesis using assms(1)
  proof (cases rule: escape_one_kinds)
    case quote then show ?thesis using two by blast
  next
    case letter then show ?thesis using two by blast
  next
    case special then show ?thesis using two by blast
  next
    case octal
    have c: "ord c < 256" by (rule nat_of_char_less_256)
    have "CHR ''/'' \<notin> set e" unfolding octal using octal3_chars [OF c] by auto
    moreover have "digit_char (ord c mod 8) \<noteq> bslash" using octal3_chars [OF c] by (auto simp: octal3_def)
    ultimately show ?thesis using octal by (intro none [of "butlast e" "last e"]) (simp_all add: octal3_def)
  next
    case u00
    then have "ord c div 16 < 16" using less_mult_imp_div_less [of "ord c" 16 16] by simp
    with u00 hex_chars [of "ord c div 16"] hex_chars [of "ord c mod 16"] show ?thesis
      by (intro none [of "butlast e" "last e"]) auto
  next
    case plain
    with slash assms(1) show ?thesis by (intro none [of "[]" c]) auto
  qed
qed

lemma escape_loop_slash:
  assumes "CHR ''/'' \<in> set special" "mode \<noteq> ASCII"
  shows "escape_loop special mode cs = Inr e \<Longrightarrow> \<not> odd_run xs \<Longrightarrow>
    \<not> odd_run (xs @ e) \<and> (\<forall>k < length e. e ! k = CHR ''/'' \<longrightarrow> odd_run (xs @ take k e))"
proof (induction cs arbitrary: e xs)
  case (Cons c cs)
  from escape_one_total [OF assms(2)] obtain ec where ec: "escape_one special mode c = Some ec" by blast
  with Cons.prems(1) obtain er where er: "escape_loop special mode cs = Inr er" "e = ec @ er"
    by (auto simp: and_then_Inr)
  from escape_one_slash [OF ec assms(1) Cons.prems(2)]
  have one: "\<not> odd_run (xs @ ec)" "\<And>k. k < length ec \<Longrightarrow> ec ! k = CHR ''/'' \<Longrightarrow> odd_run (xs @ take k ec)" by auto
  from Cons.IH [OF er(1) one(1)]
  have rest: "\<not> odd_run (xs @ ec @ er)" "\<And>k. k < length er \<Longrightarrow> er ! k = CHR ''/'' \<Longrightarrow> odd_run (xs @ ec @ take k er)"
    by auto
  have "odd_run (xs @ take k e)" if "k < length e" "e ! k = CHR ''/''" for k
  proof (cases "k < length ec")
    case True
    with one(2) that er(2) show ?thesis by (simp add: nth_append)
  next
    case False
    with rest(2) [of "k - length ec"] that er(2) show ?thesis by (auto simp: nth_append)
  qed
  with rest(1) er(2) show ?case by simp
qed simp

lemma special_slash: "list_all special_ok ''/''"
  by (simp add: special_ok_def)

lemma separators_escaped:
  assumes "escape_loop ''/'' mode n = Inr e" "mode \<noteq> ASCII"
  shows "\<not> separator_at e p"
  using escape_loop_slash [OF _ assms(2,1), of "[]"] by (auto simp: separator_at_def)

lemma separators_joined:
  assumes c: "escape_loop ''/'' mode c = Inr ec" and n: "escape_loop ''/'' mode n = Inr en" and mode: "mode \<noteq> ASCII"
  shows "separator_at (ec @ ''/'' @ en) p \<longleftrightarrow> p = length ec"
proof -
  let ?s = "ec @ ''/'' @ en"
  from escape_loop_slash [OF _ mode c, of "[]"] have
    ec: "\<not> odd_run ec" "\<And>k. k < length ec \<Longrightarrow> ec ! k = CHR ''/'' \<Longrightarrow> odd_run (take k ec)" by auto
  from escape_loop_slash [OF _ mode n, of "ec @ ''/''"] have
    en: "\<And>k. k < length en \<Longrightarrow> en ! k = CHR ''/'' \<Longrightarrow> odd_run ((ec @ ''/'') @ take k en)" by auto
  consider "p < length ec" | "p = length ec" | k where "p = length ec + Suc k" 
    using less_imp_Suc_add [of "length ec" p] by (metis add_Suc_right linorder_less_linear)
  then show ?thesis
  proof cases
    case 1
    with ec(2) [of p] have "\<not> separator_at ?s p" by (simp add: separator_at_def nth_append)
    with 1 show ?thesis by simp
  next
    case 2 then show ?thesis using ec(1) by (simp add: separator_at_def)
  next
    case 3
    with en [of k] have "\<not> separator_at ?s p" by (simp add: separator_at_def nth_append)
    with 3 show ?thesis by simp
  qed
qed

lemma unescape_empty: "unescapeString None [] 0 0 ''/'' = Inr []"
  by (simp add: unescapeString_def find_char_def find_char_if_def check_special_def)

lemma parse_without_category:
  assumes "escape_loop ''/'' mode n = Inr s" "mode \<noteq> ASCII" "length s < 2147483648"
  shows "stringToIdentity None s = Inr \<lparr>idName = n, idCategory = []\<rparr>"
proof -
  have "find_slash s 0 None = Inr None"
    using find_slash_none [OF assms(3)] separators_escaped [OF assms(1,2)] by simp
  moreover have "unescapeString None s 0 (length s) ''/'' = Inr n"
    using unescape_escaped [OF assms(1,2) special_slash, of 0 s "[]"] by simp
  ultimately show ?thesis by (simp add: stringToIdentity_def parse_part_def)
qed

lemma parse_with_category:
  assumes c: "escape_loop ''/'' mode c = Inr ec" and n: "escape_loop ''/'' mode n = Inr en" and mode: "mode \<noteq> ASCII"
    and len: "length (ec @ ''/'' @ en) < 2147483648"
  shows "stringToIdentity None (ec @ ''/'' @ en) = Inr \<lparr>idName = n, idCategory = c\<rparr>"
proof -
  define s where "s = ec @ ''/'' @ en"
  note unesc = unescape_escaped [OF _ mode special_slash]
  have "find_slash s 0 None = Inr (Some (length ec))"
    using find_slash_one [of s "length ec" 0] len separators_joined [OF c n mode] unfolding s_def by blast
  moreover have "unescapeString None s 0 (length ec) ''/'' = Inr c"
    using unesc [OF c, of 0 s "''/'' @ en"] by (simp add: s_def)
  moreover have "unescapeString None s (length ec + 1) (length s) ''/'' = Inr n"
    using unesc [OF n, of "length ec + 1" s "[]"] by (simp add: s_def)
  moreover have "n = []" if "\<not> length ec + 1 < length s"
  proof -
    from that have "en = []" by (simp add: s_def)
    with unesc [OF n, of 0 "[]" "[]"] unescape_empty show ?thesis by simp
  qed
  ultimately show ?thesis unfolding s_def [symmetric] by (simp add: stringToIdentity_def parse_part_def)
qed

text \<open>
  C31: \<open>stringToIdentity\<close> inverts \<open>identityToString\<close> in the Compat and Unicode modes: the separator is
  found although the category and the name may hold slashes and backslashes, and both parts come
  back byte for byte (for strings below the 2 GB where the \<open>int\<close> cast of the escape count wraps).
\<close>

theorem identity_roundtrip:
  assumes "mode \<noteq> ASCII" "identityToString None ident mode = Inr s" "length s < 2147483648"
  shows "stringToIdentity None s = Inr ident"
proof -
  obtain en where en: "escapeString None (idName ident) ''/'' mode = Inr en" "escape_loop ''/'' mode (idName ident) = Inr en"
    using escapeString_plain_modes [OF special_slash assms(1)] .
  obtain ec where ec: "escapeString None (idCategory ident) ''/'' mode = Inr ec" "escape_loop ''/'' mode (idCategory ident) = Inr ec"
    using escapeString_plain_modes [OF special_slash assms(1)] .
  have ident: "\<lparr>idName = idName ident, idCategory = idCategory ident\<rparr> = ident" by simp
  show ?thesis
  proof (cases "idCategory ident = []")
    case True
    with assms(2) en(1) have "s = en" by (simp add: identityToString_def)
    with parse_without_category [OF en(2) assms(1)] assms(3) True ident show ?thesis by simp
  next
    case False
    with assms(2) en(1) ec(1) have s: "s = ec @ ''/'' @ en" by (simp add: identityToString_def)
    from parse_with_category [OF ec(2) en(2) assms(1)] assms(3) ident show ?thesis unfolding s by simp
  qed
qed

theorem identity_roundtrip_witness:
  "identityToString None \<lparr>idName = ''a/b'', idCategory = ''c'' @ [bslash]\<rparr> Compat
     = Inr (''c'' @ [bslash, bslash] @ ''/a'' @ [bslash] @ ''/b'')
   \<and> stringToIdentity None (''c'' @ [bslash, bslash] @ ''/a'' @ [bslash] @ ''/b'')
     = Inr \<lparr>idName = ''a/b'', idCategory = ''c'' @ [bslash]\<rparr>"
proof -
  have s: "identityToString None \<lparr>idName = ''a/b'', idCategory = ''c'' @ [bslash]\<rparr> Compat
     = Inr (''c'' @ [bslash, bslash] @ ''/a'' @ [bslash] @ ''/b'')"
    by (simp add: identityToString_def escapeString_def check_special_def nativeToUTF8_def escape_one_def)
  from s identity_roundtrip [OF _ s] show ?thesis by simp
qed

end
