(* ===== verification/Properties.thy ===== *)
theory Properties
  imports StringUtilProps OrderedMap Protocol
begin

section \<open>Properties\<close>

text \<open>
  \<open>PropertiesI\<close> of cpp/src/Ice/PropertiesI.cpp: the property table with its used flags, the property
  name check, the accessors, command line options, configuration files and the line parser.  The mutex
  makes every operation atomic, so each is a function of the state.  The list of known properties
  (generated PropertyNames.cpp), the configuration files and the environment are parameters; the
  warnings that the code sends to the process logger are kept in the state.
\<close>

record prop_value =
  pvValue :: string
  pvUsed :: bool

record properties =
  pTable :: "(string \<times> prop_value) list"
  pLog :: "string list"

record prop_pattern =
  ppPattern :: string
  ppDeprecated :: bool
  ppDeprecatedBy :: "string option"

definition warning :: "string \<Rightarrow> properties \<Rightarrow> properties" where
  "warning msg p = p\<lparr>pLog := pLog p @ [msg]\<rparr>"

subsection \<open>Reading properties\<close>

definition mark_used :: "string \<Rightarrow> properties \<Rightarrow> properties" where
  "mark_used key p = p\<lparr>pTable := map (\<lambda>(k, v). (k, if k = key then v\<lparr>pvUsed := True\<rparr> else v)) (pTable p)\<rparr>"

definition getPropertyWithDefault :: "string \<Rightarrow> string \<Rightarrow> properties \<Rightarrow> string \<times> properties" where
  "getPropertyWithDefault key value p =
     (case map_of (pTable p) key of
        Some v \<Rightarrow> (pvValue v, mark_used key p)
      | None \<Rightarrow> (value, p))"

definition getProperty :: "string \<Rightarrow> properties \<Rightarrow> string \<times> properties" where
  "getProperty key p =
     (case map_of (pTable p) key of
        Some v \<Rightarrow> (pvValue v, mark_used key p)
      | None \<Rightarrow> ([], p))"

definition string_of_int :: "int \<Rightarrow> string" where
  "string_of_int n = (if n < 0 then CHR ''-'' # string_of_nat (nat (- n)) else string_of_nat (nat n))"

definition getPropertyAsIntWithDefault :: "string \<Rightarrow> int \<Rightarrow> properties \<Rightarrow> int \<times> properties" where
  "getPropertyAsIntWithDefault key value p =
     (case map_of (pTable p) key of
        Some v \<Rightarrow>
          (case istream_int (pvValue v) of
             Some n \<Rightarrow> (n, mark_used key p)
           | None \<Rightarrow> (value, warning (''numeric property '' @ key @ '' set to non-numeric value, defaulting to ''
                        @ string_of_int value) (mark_used key p)))
      | None \<Rightarrow> (value, p))"

definition getPropertyAsInt :: "string \<Rightarrow> properties \<Rightarrow> int \<times> properties" where
  "getPropertyAsInt key p = getPropertyAsIntWithDefault key 0 p"

definition list_delims :: string where
  "list_delims = [CHR '','', CHR 0x20, CHR 0x09, CHR 0x0D, CHR 0x0A]"

definition getPropertyAsListWithDefault :: "string \<Rightarrow> string list \<Rightarrow> properties \<Rightarrow> string list \<times> properties" where
  "getPropertyAsListWithDefault key value p =
     (case map_of (pTable p) key of
        Some v \<Rightarrow>
          (case splitString (pvValue v) list_delims of
             (ok, result) \<Rightarrow>
               (if result = [] then value else result,
                (if ok then (\<lambda>q. q)
                 else warning (''mismatched quotes in property '' @ key @ [squote] @ ''s value, returning default value''))
                  (mark_used key p)))
      | None \<Rightarrow> (value, p))"

definition getPropertyAsList :: "string \<Rightarrow> properties \<Rightarrow> string list \<times> properties" where
  "getPropertyAsList key p = getPropertyAsListWithDefault key [] p"

definition has_prefix :: "string \<Rightarrow> string \<Rightarrow> bool" where
  "has_prefix pfx s \<longleftrightarrow> take (length pfx) s = pfx"

definition getPropertiesForPrefix :: "string \<Rightarrow> properties \<Rightarrow> (string \<times> string) list \<times> properties" where
  "getPropertiesForPrefix pfx p =
     (map (\<lambda>(k, v). (k, pvValue v)) (filter (\<lambda>(k, v). pfx = [] \<or> has_prefix pfx k) (pTable p)),
      p\<lparr>pTable := map (\<lambda>(k, v). (k, if pfx = [] \<or> has_prefix pfx k then v\<lparr>pvUsed := True\<rparr> else v)) (pTable p)\<rparr>)"

definition getCommandLineOptions :: "properties \<Rightarrow> string list" where
  "getCommandLineOptions p = map (\<lambda>(k, v). ''--'' @ k @ ''='' @ pvValue v) (pTable p)"

definition getUnusedProperties :: "properties \<Rightarrow> string list" where
  "getUnusedProperties p = map fst (filter (\<lambda>(k, v). \<not> pvUsed v) (pTable p))"

definition clone :: "properties \<Rightarrow> properties" where
  "clone p = \<lparr>pTable = pTable p, pLog = []\<rparr>"

subsection \<open>Setting properties\<close>

text \<open>The inner loop over one array of known properties: found, the key to suggest, the key, the state.\<close>

fun check_patterns :: "prop_pattern list \<Rightarrow> string \<Rightarrow> properties \<Rightarrow> (bool \<times> string option \<times> string \<times> properties) result" where
  "check_patterns [] currentKey p = Inr (False, None, currentKey, p)"
| "check_patterns (prop # props) currentKey p =
     and_then (match currentKey (ppPattern prop) False) (\<lambda>found.
       if found then
         (if ppDeprecated prop
          then Inr (True, None, (case ppDeprecatedBy prop of Some k \<Rightarrow> k | None \<Rightarrow> currentKey),
                    warning (''deprecated property: '' @ currentKey) p)
          else Inr (True, None, currentKey, p))
       else and_then (match (toUpper currentKey) (toUpper (ppPattern prop)) False) (\<lambda>similar.
         if similar then Inr (True, Some (ppPattern prop), currentKey, p)
         else check_patterns props currentKey p))"

fun check_arrays :: "prop_pattern list list \<Rightarrow> string \<Rightarrow> string \<Rightarrow> properties \<Rightarrow> (string \<times> properties) result" where
  "check_arrays [] pfx currentKey p = Inr (currentKey, p)"
| "check_arrays (arr # arrs) pfx currentKey p =
     (case find_char CHR ''.'' (ppPattern (hd arr)) 0 of
        None \<Rightarrow> Inl AssertFailed
      | Some dotPos \<Rightarrow>
          if toUpper (take dotPos (ppPattern (hd arr))) \<noteq> toUpper pfx then check_arrays arrs pfx currentKey p
          else and_then (check_patterns arr currentKey p) (\<lambda>(found, otherKey, currentKey, p).
            check_arrays arrs pfx currentKey
              (if \<not> found then warning (''unknown property: `'' @ currentKey @ [squote]) p
               else case otherKey of
                 Some k \<Rightarrow> warning (''unknown property: `'' @ currentKey @ [squote] @ ''; did you mean `'' @ k @ [squote]) p
               | None \<Rightarrow> p)))"

definition checkName :: "prop_pattern list list \<Rightarrow> string \<Rightarrow> properties \<Rightarrow> (string \<times> properties) result" where
  "checkName valid currentKey p =
     (case find_char CHR ''.'' currentKey 0 of
        None \<Rightarrow> Inr (currentKey, p)
      | Some dotPos \<Rightarrow> check_arrays valid (take dotPos currentKey) currentKey p)"

definition store_property :: "string \<Rightarrow> string \<Rightarrow> properties \<Rightarrow> properties" where
  "store_property currentKey value p =
     (if value \<noteq> [] then
        p\<lparr>pTable := om_put currentKey
            \<lparr>pvValue = value,
             pvUsed = (case map_of (pTable p) currentKey of Some v \<Rightarrow> pvUsed v | None \<Rightarrow> False)\<rparr> (pTable p)\<rparr>
      else p\<lparr>pTable := om_erase currentKey (pTable p)\<rparr>)"

definition setProperty :: "prop_pattern list list \<Rightarrow> string \<Rightarrow> string \<Rightarrow> properties \<Rightarrow> properties result" where
  "setProperty valid key value p =
     (let currentKey = trim key in
      if currentKey = [] then Inl (InitializationException ''Attempt to set property with empty key'')
      else and_then (checkName valid currentKey p) (\<lambda>(currentKey, p). Inr (store_property currentKey value p)))"

subsection \<open>The line parser\<close>

record line_state =
  lsKey :: string
  lsValue :: string
  lsInValue :: bool
  lsWhite :: string
  lsEscaped :: string

definition is_line_space :: "char \<Rightarrow> bool" where
  "is_line_space c \<longleftrightarrow> c \<in> {CHR 0x20, CHR 0x09, CHR 0x0D, CHR 0x0A}"

text \<open>Appending to the key, and to the value, after the white space kept so far.\<close>

definition key_add :: "string \<Rightarrow> line_state \<Rightarrow> line_state" where
  "key_add s st = st\<lparr>lsKey := lsKey st @ lsWhite st @ s, lsWhite := []\<rparr>"

definition value_add :: "string \<Rightarrow> line_state \<Rightarrow> line_state" where
  "value_add s st =
     st\<lparr>lsValue := lsValue st @ (if lsValue st = [] then lsEscaped st else lsWhite st) @ s, lsWhite := [], lsEscaped := []\<rparr>"

text \<open>An escaped character, in the key and in the value.\<close>

definition key_escape :: "char \<Rightarrow> line_state \<Rightarrow> line_state" where
  "key_escape c st =
     (if c = bslash \<or> c = CHR ''#'' \<or> c = CHR ''='' then key_add [c] st
      else if c = CHR 0x20 then (if lsKey st \<noteq> [] then st\<lparr>lsWhite := lsWhite st @ [c]\<rparr> else st)
      else key_add [bslash, c] st)"

definition value_escape :: "char \<Rightarrow> line_state \<Rightarrow> line_state" where
  "value_escape c st =
     (if c = bslash \<or> c = CHR ''#'' \<or> c = CHR ''='' then value_add [c] st
      else if c = CHR 0x20 then st\<lparr>lsWhite := lsWhite st @ [c], lsEscaped := lsEscaped st @ [c]\<rparr>
      else value_add [bslash, c] st)"

text \<open>
  The character loop.  A backslash at the end of the line leaves the white space in place, which
  nothing reads afterwards but, in the value, the escaped space that the code appends at the end.
\<close>

fun parse_chars :: "string \<Rightarrow> line_state \<Rightarrow> line_state" where
  "parse_chars [] st = st"
| "parse_chars (c # cs) st =
     (if \<not> lsInValue st then
        (if c = bslash then
           (case cs of
              d # cs' \<Rightarrow> parse_chars cs' (key_escape d st)
            | [] \<Rightarrow> st\<lparr>lsKey := lsKey st @ lsWhite st @ [c]\<rparr>)
         else if is_line_space c then
           parse_chars cs (if lsKey st \<noteq> [] then st\<lparr>lsWhite := lsWhite st @ [c]\<rparr> else st)
         else if c = CHR ''='' then parse_chars cs (st\<lparr>lsWhite := [], lsInValue := True\<rparr>)
         else if c = CHR ''#'' then st
         else parse_chars cs (key_add [c] st))
      else
        (if c = bslash then
           (case cs of
              d # cs' \<Rightarrow> parse_chars cs' (value_escape d st)
            | [] \<Rightarrow> st\<lparr>lsValue := lsValue st @ (if lsValue st = [] then lsEscaped st else lsWhite st) @ [c]\<rparr>)
         else if is_line_space c then
           parse_chars cs (if lsValue st \<noteq> [] then st\<lparr>lsWhite := lsWhite st @ [c]\<rparr> else st)
         else if c = CHR ''#'' then st
         else parse_chars cs (value_add [c] st)))"

definition line_start :: line_state where
  "line_start = \<lparr>lsKey = [], lsValue = [], lsInValue = False, lsWhite = [], lsEscaped = []\<rparr>"

definition parseLine :: "prop_pattern list list \<Rightarrow> string_converter option \<Rightarrow> string \<Rightarrow> properties \<Rightarrow> properties result" where
  "parseLine valid conv line p =
     (let st = parse_chars line line_start; key = lsKey st; value = lsValue st @ lsEscaped st in
      if \<not> lsInValue st \<and> key \<noteq> [] \<or> lsInValue st \<and> key = [] then
        Inr (warning (''invalid config file entry: '' @ dquote # line @ [dquote]) p)
      else if key = [] then Inr p
      else and_then (UTF8ToNative conv key) (\<lambda>key.
           and_then (UTF8ToNative conv value) (\<lambda>value. setProperty valid key value p)))"

subsection \<open>Command lines and configuration files\<close>

definition add_default_value :: "string \<Rightarrow> string" where
  "add_default_value opt = (if CHR ''='' \<notin> set opt then opt @ ''=1'' else opt)"

fun parse_options :: "prop_pattern list list \<Rightarrow> string \<Rightarrow> string list \<Rightarrow> properties \<Rightarrow> (string list \<times> properties) result" where
  "parse_options valid pfx [] p = Inr ([], p)"
| "parse_options valid pfx (opt # opts) p =
     (if has_prefix pfx opt then
        and_then (parseLine valid None (drop 2 (add_default_value opt)) p) (parse_options valid pfx opts)
      else and_then (parse_options valid pfx opts p) (\<lambda>(result, p). Inr (opt # result, p)))"

definition parseCommandLineOptions ::
  "prop_pattern list list \<Rightarrow> string \<Rightarrow> string list \<Rightarrow> properties \<Rightarrow> (string list \<times> properties) result" where
  "parseCommandLineOptions valid pfx options p =
     (let pfx = (if pfx \<noteq> [] \<and> last pfx \<noteq> CHR ''.'' then pfx @ ''.'' else pfx)
      in parse_options valid (''--'' @ pfx) options p)"

fun parseIceCommandLineOptions ::
  "prop_pattern list list \<Rightarrow> string list \<Rightarrow> string list \<Rightarrow> properties \<Rightarrow> (string list \<times> properties) result" where
  "parseIceCommandLineOptions valid [] args p = Inr (args, p)"
| "parseIceCommandLineOptions valid (n # ns) args p =
     and_then (parseCommandLineOptions valid n args p) (\<lambda>(args, p). parseIceCommandLineOptions valid ns args p)"

definition UTF8_BOM :: string where
  "UTF8_BOM = [CHR 0xEF, CHR 0xBB, CHR 0xBF]"

fun parse_lines :: "prop_pattern list list \<Rightarrow> string_converter option \<Rightarrow> string list \<Rightarrow> properties \<Rightarrow> properties result" where
  "parse_lines valid conv [] p = Inr p"
| "parse_lines valid conv (l # ls) p = and_then (parseLine valid conv l p) (parse_lines valid conv ls)"

text \<open>\<open>files\<close> gives the lines of a file that can be opened.\<close>

definition load :: "prop_pattern list list \<Rightarrow> string_converter option \<Rightarrow> (string \<Rightarrow> string list option) \<Rightarrow> string
    \<Rightarrow> properties \<Rightarrow> properties result" where
  "load valid conv files file p =
     (case files file of
        None \<Rightarrow> Inl (FileException file)
      | Some ls \<Rightarrow>
          parse_lines valid conv
            (case ls of [] \<Rightarrow> [] | l # rest \<Rightarrow> (if has_prefix UTF8_BOM l then drop 3 l else l) # rest) p)"

fun load_files :: "prop_pattern list list \<Rightarrow> string_converter option \<Rightarrow> (string \<Rightarrow> string list option) \<Rightarrow> string list
    \<Rightarrow> properties \<Rightarrow> properties result" where
  "load_files valid conv files [] p = Inr p"
| "load_files valid conv files (f # fs) p = and_then (load valid conv files (trim f) p) (load_files valid conv files fs)"

text \<open>\<open>env\<close> is the value of the environment variable ICE_CONFIG (the branch of Unix systems).\<close>

definition loadConfig :: "prop_pattern list list \<Rightarrow> string_converter option \<Rightarrow> (string \<Rightarrow> string list option) \<Rightarrow> string option
    \<Rightarrow> properties \<Rightarrow> properties result" where
  "loadConfig valid conv files env p =
     (case getProperty ''Ice.Config'' p of (value, p) \<Rightarrow>
      let value = (if value = [] \<or> value = ''1'' then
                     (case env of Some s \<Rightarrow> if s \<noteq> [] then s else value | None \<Rightarrow> value)
                   else value) in
      if value \<noteq> [] then
        and_then (load_files valid conv files (snd (splitString value '','')) p) (\<lambda>p.
          Inr (p\<lparr>pTable := om_put ''Ice.Config'' \<lparr>pvValue = value, pvUsed = True\<rparr> (pTable p)\<rparr>))
      else Inr p)"

text \<open>The constructor's loop over the arguments that start with \<open>--Ice.Config\<close>.\<close>

fun config_args :: "prop_pattern list list \<Rightarrow> string list \<Rightarrow> properties \<Rightarrow> (string list \<times> bool \<times> properties) result" where
  "config_args valid [] p = Inr ([], False, p)"
| "config_args valid (s # ss) p =
     (if has_prefix ''--Ice.Config'' s then
        and_then (parseLine valid None (drop 2 (add_default_value s)) p) (\<lambda>p.
        and_then (config_args valid ss p) (\<lambda>(tmp, _, p). Inr (tmp, True, p)))
      else and_then (config_args valid ss p) (\<lambda>(tmp, found, p). Inr (s # tmp, found, p)))"

definition program_name :: "string list \<Rightarrow> properties \<Rightarrow> properties" where
  "program_name args p =
     (case map_of (pTable p) ''Ice.ProgramName'' of
        None \<Rightarrow>
          (case args of
             [] \<Rightarrow> p
           | q # _ \<Rightarrow> p\<lparr>pTable := om_put ''Ice.ProgramName''
                 \<lparr>pvValue = map (\<lambda>c. if c = bslash then CHR ''/'' else c) q, pvUsed = True\<rparr> (pTable p)\<rparr>)
      | Some _ \<Rightarrow> mark_used ''Ice.ProgramName'' p)"

definition properties_new :: "prop_pattern list list \<Rightarrow> string list \<Rightarrow> string_converter option \<Rightarrow> (string \<Rightarrow> string list option)
    \<Rightarrow> string option \<Rightarrow> string list \<Rightarrow> (string \<times> prop_value) list option \<Rightarrow> (string list \<times> properties) result" where
  "properties_new valid clPropNames conv files env args defaults =
     (let p = program_name args \<lparr>pTable = (case defaults of Some d \<Rightarrow> d | None \<Rightarrow> []), pLog = []\<rparr> in
      and_then (config_args valid args p) (\<lambda>(tmp, found, p).
      let loadConfigFiles = found \<or> map_of (pTable p) ''Ice.Config'' = None in
      and_then (if loadConfigFiles then loadConfig valid conv files env p else Inr p) (\<lambda>p.
        parseIceCommandLineOptions valid clPropNames tmp p)))"

end
