(* ===== verification/PropertiesProps.thy ===== *)
theory PropertiesProps
  imports Properties
begin

section \<open>Configuration lines, command lines and the property table\<close>

text \<open>
  Lines written with the documented escapes are parsed back, the table behaves as a map, and three
  places where the code departs from its documentation.
\<close>

subsection \<open>Escaped lines\<close>

definition conf_escape :: "string \<Rightarrow> string" where
  "conf_escape s = concat (map (\<lambda>c. if c \<in> {bslash, CHR ''#'', CHR ''='', CHR 0x20} then [bslash, c] else [c]) s)"

definition conf_char :: "char \<Rightarrow> bool" where
  "conf_char c \<longleftrightarrow> c \<notin> {CHR 0x09, CHR 0x0D, CHR 0x0A}"

lemma conf_escape_simps [simp]:
  "conf_escape [] = []"
  "conf_escape (c # s) = (if c \<in> {bslash, CHR ''#'', CHR ''='', CHR 0x20} then [bslash, c] else [c]) @ conf_escape s"
  by (simp_all add: conf_escape_def)

abbreviation key_state :: "string \<Rightarrow> string \<Rightarrow> line_state" where
  "key_state k w \<equiv> \<lparr>lsKey = k, lsValue = [], lsInValue = False, lsWhite = w, lsEscaped = []\<rparr>"

abbreviation value_state :: "string \<Rightarrow> string \<Rightarrow> string \<Rightarrow> line_state" where
  "value_state k v e \<equiv> \<lparr>lsKey = k, lsValue = v, lsInValue = True, lsWhite = e, lsEscaped = e\<rparr>"

lemma parse_key_char:
  assumes "conf_char c" "k \<noteq> [] \<or> c \<noteq> CHR 0x20"
  shows "parse_chars ((if c \<in> {bslash, CHR ''#'', CHR ''='', CHR 0x20} then [bslash, c] else [c]) @ rest) (key_state k w)
    = parse_chars rest (if c = CHR 0x20 then key_state k (w @ [c]) else key_state (k @ w @ [c]) [])"
  using assms by (auto simp: key_escape_def key_add_def is_line_space_def conf_char_def)

lemma parse_key:
  "list_all conf_char ks \<Longrightarrow> k \<noteq> [] \<or> ks = [] \<or> hd ks \<noteq> CHR 0x20 \<Longrightarrow>
     \<exists>k' w'. parse_chars (conf_escape ks @ rest) (key_state k w) = parse_chars rest (key_state k' w')
       \<and> k' @ w' = k @ w @ ks \<and> (ks \<noteq> [] \<and> last ks \<noteq> CHR 0x20 \<longrightarrow> w' = []) \<and> (ks = [] \<longrightarrow> w' = w)"
proof (induction ks arbitrary: k w)
  case (Cons c ks)
  from Cons.prems have c: "conf_char c" "k \<noteq> [] \<or> c \<noteq> CHR 0x20" "list_all conf_char ks" by auto
  note step = parse_key_char [OF c(1,2), of "conf_escape ks @ rest" w]
  show ?case
  proof (cases "c = CHR 0x20")
    case True
    with c have "k \<noteq> []" by blast
    with Cons.IH [OF c(3), of k "w @ [c]"] obtain k' w' where ih:
      "parse_chars (conf_escape ks @ rest) (key_state k (w @ [c])) = parse_chars rest (key_state k' w')"
      "k' @ w' = k @ (w @ [c]) @ ks" "ks \<noteq> [] \<and> last ks \<noteq> CHR 0x20 \<longrightarrow> w' = []" by blast
    show ?thesis
    proof (intro exI conjI)
      show "parse_chars (conf_escape (c # ks) @ rest) (key_state k w) = parse_chars rest (key_state k' w')"
        unfolding conf_escape_simps append_assoc step using True ih(1) by simp
      show "k' @ w' = k @ w @ c # ks" using ih(2) by simp
      show "c # ks \<noteq> [] \<and> last (c # ks) \<noteq> CHR 0x20 \<longrightarrow> w' = []" using ih(3) True by simp
    qed simp
  next
    case False
    with Cons.IH [OF c(3), of "k @ w @ [c]" "[]"] obtain k' w' where ih:
      "parse_chars (conf_escape ks @ rest) (key_state (k @ w @ [c]) []) = parse_chars rest (key_state k' w')"
      "k' @ w' = k @ w @ c # ks" "ks \<noteq> [] \<and> last ks \<noteq> CHR 0x20 \<longrightarrow> w' = []" "ks = [] \<longrightarrow> w' = []" by auto
    show ?thesis
    proof (intro exI conjI)
      show "parse_chars (conf_escape (c # ks) @ rest) (key_state k w) = parse_chars rest (key_state k' w')"
        unfolding conf_escape_simps append_assoc step using False ih(1) by simp
      show "k' @ w' = k @ w @ c # ks" by (rule ih(2))
      show "c # ks \<noteq> [] \<and> last (c # ks) \<noteq> CHR 0x20 \<longrightarrow> w' = []" using ih(3,4) by simp
    qed simp
  qed
qed auto

lemma parse_value_char:
  assumes "conf_char c"
  shows "parse_chars ((if c \<in> {bslash, CHR ''#'', CHR ''='', CHR 0x20} then [bslash, c] else [c]) @ rest) (value_state k v e)
    = parse_chars rest (if c = CHR 0x20 then value_state k v (e @ [c]) else value_state k (v @ e @ [c]) [])"
  using assms by (auto simp: value_escape_def value_add_def is_line_space_def conf_char_def)

lemma parse_value:
  "list_all conf_char vs \<Longrightarrow>
     \<exists>v' e'. parse_chars (conf_escape vs) (value_state k v e) = value_state k v' e' \<and> v' @ e' = v @ e @ vs"
proof (induction vs arbitrary: v e)
  case (Cons c vs)
  then have c: "conf_char c" "list_all conf_char vs" by simp_all
  note step = parse_value_char [OF c(1), of "conf_escape vs" k v e]
  from Cons.IH [OF c(2), of v "e @ [c]"] Cons.IH [OF c(2), of "v @ e @ [c]" "[]"] step
  show ?case by (cases "c = CHR 0x20") auto
qed auto

text \<open>
  C32: a line that spells a key and a value with the documented escapes (a backslash before each
  backslash, number sign, equal sign and space) sets exactly that property, whatever spaces the
  value starts or ends with; tabs and line ends have no escape, and a key has no spaces around it.
\<close>

theorem parseLine_escaped:
  assumes "list_all conf_char key" "list_all conf_char value"
    and "key \<noteq> []" "hd key \<noteq> CHR 0x20" "last key \<noteq> CHR 0x20"
  shows "parseLine valid None (conf_escape key @ ''='' @ conf_escape value) p = setProperty valid key value p"
proof -
  from parse_key [OF assms(1), of "[]" "''='' @ conf_escape value" "[]"] assms(3-5) obtain k where
    k: "parse_chars (conf_escape key @ ''='' @ conf_escape value) (key_state [] [])
       = parse_chars (''='' @ conf_escape value) (key_state k [])" "k = key" by auto
  from parse_value [OF assms(2), of key "[]" "[]"] obtain v e where
    v: "parse_chars (conf_escape value) (value_state key [] []) = value_state key v e" "v @ e = value" by auto
  have "parse_chars (conf_escape key @ ''='' @ conf_escape value) line_start = value_state key v e"
    unfolding line_start_def using k v(1) by (simp add: is_line_space_def)
  with v(2) assms(3) show ?thesis by (simp add: parseLine_def Let_def UTF8ToNative_def)
qed

theorem parseLine_escaped_witness:
  "parseLine [] None (''a'' @ [bslash] @ '' b='' @ [bslash] @ '' x'' @ [bslash] @ ''#y'') \<lparr>pTable = [], pLog = []\<rparr>
     = setProperty [] ''a b'' '' x#y'' \<lparr>pTable = [], pLog = []\<rparr>"
  using parseLine_escaped [of "''a b''" "'' x#y''" "[]"] by (simp add: conf_char_def)

subsection \<open>The table\<close>

lemma mark_used_lookup:
  "map_of (pTable (mark_used key p)) k =
     map_option (\<lambda>v. if k = key then v\<lparr>pvUsed := True\<rparr> else v) (map_of (pTable p) k)"
proof -
  have "map_of (map (\<lambda>(k, v). (k, f k v)) m) k = map_option (f k) (map_of m k)" for m :: "('a \<times> 'b) list" and f k
    by (induction m) auto
  then show ?thesis by (simp add: mark_used_def)
qed

lemma check_patterns_table:
  "check_patterns ps k p = Inr (found, other, k', p') \<Longrightarrow> pTable p' = pTable p"
  by (induction ps k p rule: check_patterns.induct)
    (auto simp: and_then_Inr warning_def split: if_splits)

lemma warning_table [simp]: "pTable (warning m p) = pTable p"
  by (simp add: warning_def)

lemma check_arrays_table: "check_arrays arrs pfx k p = Inr (k', p') \<Longrightarrow> pTable p' = pTable p"
proof (induction arrs arbitrary: k p)
  case (Cons arr arrs)
  from Cons.prems obtain d where d: "find_char CHR ''.'' (ppPattern (hd arr)) 0 = Some d"
    by (cases "find_char CHR ''.'' (ppPattern (hd arr)) 0") simp_all
  show ?case
  proof (cases "toUpper (take d (ppPattern (hd arr))) = toUpper pfx")
    case False
    with Cons.prems d show ?thesis by (simp add: Cons.IH)
  next
    case True
    with Cons.prems d obtain found other ck q where q: "check_patterns arr k p = Inr (found, other, ck, q)"
      by (cases "check_patterns arr k p") auto
    obtain r where "check_arrays arrs pfx ck r = Inr (k', p')" "pTable r = pTable q"
      using Cons.prems d True q by (auto split: if_splits option.splits)
    with Cons.IH check_patterns_table [OF q] show ?thesis by metis
  qed
qed simp

lemma checkName_table: "checkName valid k p = Inr (k', p') \<Longrightarrow> pTable p' = pTable p"
  by (auto simp: checkName_def dest: check_arrays_table split: option.splits)

text \<open>
  C33: the property table behaves as a map.  A successful \<open>setProperty\<close> changes exactly the entry of
  the trimmed key (or of the property that replaces a deprecated one): an empty value removes it,
  any other value is what \<open>getProperty\<close> then returns; the used flag survives the assignment and the
  table stays ordered without duplicates.
\<close>

theorem setProperty_lookup:
  assumes "om_wf (pTable p)" "setProperty valid key value p = Inr p'"
  shows "om_wf (pTable p') \<and>
    (\<exists>k q. checkName valid (trim key) p = Inr (k, q) \<and>
      (\<forall>j. j \<noteq> k \<longrightarrow> map_of (pTable p') j = map_of (pTable p) j) \<and>
      (if value = [] then map_of (pTable p') k = None \<and> fst (getProperty k p') = []
       else fst (getProperty k p') = value \<and>
         map_option pvUsed (map_of (pTable p') k) =
           Some (case map_of (pTable p) k of Some v \<Rightarrow> pvUsed v | None \<Rightarrow> False)))"
proof -
  from assms(2) obtain k q where q: "checkName valid (trim key) p = Inr (k, q)" "p' = store_property k value q"
    by (auto simp: setProperty_def Let_def and_then_Inr split: if_splits)
  have t: "pTable q = pTable p" by (rule checkName_table [OF q(1)])
  show ?thesis
    using assms(1) q t om.lookup_assign [OF assms(1)] om.lookup_erase [OF assms(1)]
    by (auto simp: store_property_def getProperty_def om.wf_assign om.wf_erase)
qed

theorem setProperty_lookup_witness:
  "\<exists>p'. setProperty [] '' a '' ''x'' \<lparr>pTable = [], pLog = []\<rparr> = Inr p' \<and> fst (getProperty ''a'' p') = ''x''"
proof -
  have t: "trim '' a '' = ''a''"
    by (simp add: trim_def find_char_if_def find_last_if_def is_blank_def Let_def)
  have "\<exists>p'. setProperty [] '' a '' ''x'' \<lparr>pTable = [], pLog = []\<rparr> = Inr p'"
    by (simp add: setProperty_def t checkName_def find_char_def find_char_if_def)
  then obtain p' where p': "setProperty [] '' a '' ''x'' \<lparr>pTable = [], pLog = []\<rparr> = Inr p'" ..
  have n: "checkName [] (trim '' a '') \<lparr>pTable = [], pLog = []\<rparr> = Inr (''a'', \<lparr>pTable = [], pLog = []\<rparr>)"
    by (simp add: t checkName_def find_char_def find_char_if_def)
  from setProperty_lookup [OF _ p'] n p' show ?thesis by auto
qed

subsection \<open>Where the code departs from its documentation\<close>

text \<open>
  The options that \<open>getCommandLineOptions\<close> returns are not equivalent to the property set as the
  documentation says: they are not escaped, so a value with a number sign comes back truncated.
\<close>

theorem command_line_options_lossy:
  "getCommandLineOptions \<lparr>pTable = [(''A'', \<lparr>pvValue = ''x#y'', pvUsed = False\<rparr>)], pLog = []\<rparr> = [''--A=x#y''] \<and>
   parseCommandLineOptions [] [] [''--A=x#y''] \<lparr>pTable = [], pLog = []\<rparr>
     = Inr ([], \<lparr>pTable = [(''A'', \<lparr>pvValue = ''x'', pvUsed = False\<rparr>)], pLog = []\<rparr>)"
  by (simp add: getCommandLineOptions_def parseCommandLineOptions_def has_prefix_def add_default_value_def
      parseLine_def line_start_def is_line_space_def key_add_def value_add_def UTF8ToNative_def setProperty_def
      trim_def find_char_def find_char_if_def find_last_if_def is_blank_def checkName_def store_property_def Let_def)

text \<open>
  A list property with mismatched quotes is documented to give the default list, and the code logs
  that it does, but it returns the elements it found before the quote.
\<close>

theorem mismatched_quotes_not_default:
  "getPropertyAsListWithDefault ''K'' [''d''] \<lparr>pTable = [(''K'', \<lparr>pvValue = ''a '' @ dquote # ''b'', pvUsed = False\<rparr>)], pLog = []\<rparr>
     = ([''a'', ''b''],
        \<lparr>pTable = [(''K'', \<lparr>pvValue = ''a '' @ dquote # ''b'', pvUsed = True\<rparr>)],
         pLog = [''mismatched quotes in property K'' @ [squote] @ ''s value, returning default value'']\<rparr>)"
  by (simp add: getPropertyAsListWithDefault_def splitString_def list_delims_def warning_def mark_used_def)

text \<open>
  On Unix, \<open>--Ice.Config\<close> (or \<open>--Ice.Config=1\<close>) without ICE_CONFIG in the environment keeps the
  value \<open>1\<close> and loads a file of that name, so that the constructor fails when there is none.
\<close>

theorem ice_config_one_is_a_file:
  assumes "files ''1'' = None"
  shows "properties_new [] [] conv files None [''prog'', ''--Ice.Config''] None = Inl (FileException ''1'')"
  using assms
  by (simp add: properties_new_def program_name_def has_prefix_def add_default_value_def
      parseLine_def line_start_def is_line_space_def key_add_def value_add_def UTF8ToNative_def setProperty_def
      trim_def find_char_def find_char_if_def find_last_if_def is_blank_def checkName_def store_property_def Let_def
      loadConfig_def getProperty_def load_def splitString_def)

theorem ice_config_one_is_a_file_witness:
  "properties_new [] [] None (\<lambda>f. None) None [''prog'', ''--Ice.Config''] None = Inl (FileException ''1'')"
  by (rule ice_config_one_is_a_file) simp

end
