(* ===== verification/ServantManager.thy ===== *)
theory ServantManager
  imports Identity OrderedMap
begin

section \<open>The servant manager\<close>

text \<open>
  \<open>IceInternal::ServantManager\<close> (cpp/src/Ice/ServantManager.h, .cpp): the active servant map of an object
  adapter with its facets, the default servants and the servant locators, and the iterators that the
  code keeps as hints.  Servants and locators are of any type.  An iterator is the key it stands on,
  \<open>None\<close> is \<open>end()\<close>; dereferencing an iterator whose element is gone is \<open>MemoryError\<close>.  The mutex makes
  every operation atomic.
\<close>

text \<open>The generated order of the struct \<open>Identity\<close>: by name, then by category.\<close>

instantiation identity_ext :: (linorder) linorder
begin

definition less_eq_identity_ext :: "'a identity_scheme \<Rightarrow> 'a identity_scheme \<Rightarrow> bool" where
  "x \<le> y \<longleftrightarrow> idName x < idName y \<or> idName x = idName y \<and>
     (idCategory x < idCategory y \<or> idCategory x = idCategory y \<and> identity.more x \<le> identity.more y)"

definition less_identity_ext :: "'a identity_scheme \<Rightarrow> 'a identity_scheme \<Rightarrow> bool" where
  "x < y \<longleftrightarrow> idName x < idName y \<or> idName x = idName y \<and>
     (idCategory x < idCategory y \<or> idCategory x = idCategory y \<and> identity.more x < identity.more y)"

instance
proof
  fix x y :: "'a identity_scheme"
  assume "x \<le> y" "y \<le> x"
  then have "idName x = idName y \<and> idCategory x = idCategory y \<and> identity.more x = identity.more y"
    by (auto simp: less_eq_identity_ext_def)
  then show "x = y" by (cases x, cases y) simp
qed (auto simp: less_eq_identity_ext_def less_identity_ext_def)

end

type_synonym 's facet_map = "(string \<times> 's) list"

record ('s, 'l) servant_manager =
  smAlive :: bool
  smMode :: to_string_mode
  smServants :: "(identity \<times> 's facet_map) list"
  smHint :: "identity option"
  smDefaults :: "(string \<times> 's) list"
  smLocators :: "(string \<times> 'l) list"
  smLocatorHint :: "string option"

definition servant_manager_new :: "to_string_mode \<Rightarrow> ('s, 'l) servant_manager" where
  "servant_manager_new mode =
     \<lparr>smAlive = True, smMode = mode, smServants = [], smHint = None, smDefaults = [],
      smLocators = [], smLocatorHint = None\<rparr>"

text \<open>The iterator \<open>p\<close> of the code: the hint when it stands on the key, the result of \<open>find\<close> otherwise.\<close>

definition locate :: "'k option \<Rightarrow> 'k \<Rightarrow> ('k \<times> 'v) list \<Rightarrow> 'v option result" where
  "locate hint k m =
     (case hint of
        None \<Rightarrow> Inr (map_of m k)
      | Some h \<Rightarrow> (case map_of m h of None \<Rightarrow> Inl MemoryError | Some v \<Rightarrow> Inr (if h = k then Some v else map_of m k)))"

text \<open>The iterator after the key (\<open>p++\<close>).\<close>

definition next_key :: "'k::linorder \<Rightarrow> ('k \<times> 'v) list \<Rightarrow> 'k option" where
  "next_key k m = (case filter (\<lambda>e. k < fst e) m of [] \<Rightarrow> None | e # _ \<Rightarrow> Some (fst e))"

definition servant_id :: "string_converter option \<Rightarrow> to_string_mode \<Rightarrow> identity \<Rightarrow> string \<Rightarrow> string result" where
  "servant_id conv mode ident facet =
     and_then (identityToString conv ident mode) (\<lambda>i.
       if facet = [] then Inr i
       else and_then (escapeString conv facet [] mode) (\<lambda>f. Inr (i @ '' -f '' @ f)))"

definition addServant :: "string_converter option \<Rightarrow> 's \<Rightarrow> identity \<Rightarrow> string \<Rightarrow> ('s, 'l) servant_manager
    \<Rightarrow> ('s, 'l) servant_manager result" where
  "addServant conv object ident facet sm =
     (if \<not> smAlive sm then Inl AssertFailed
      else and_then (locate (smHint sm) ident (smServants sm)) (\<lambda>p.
        case p of
          Some facets \<Rightarrow>
            if map_of facets facet \<noteq> None then
              and_then (servant_id conv (smMode sm) ident facet) (\<lambda>n. Inl (AlreadyRegistered ''servant'' n))
            else Inr (sm\<lparr>smHint := Some ident, smServants := om_put ident (om_insert facet object facets) (smServants sm)\<rparr>)
        | None \<Rightarrow> Inr (sm\<lparr>smHint := Some ident, smServants := om_put ident (om_insert facet object []) (smServants sm)\<rparr>)))"

definition addDefaultServant :: "'s \<Rightarrow> string \<Rightarrow> ('s, 'l) servant_manager \<Rightarrow> ('s, 'l) servant_manager result" where
  "addDefaultServant object category sm =
     (if \<not> smAlive sm then Inl AssertFailed
      else if map_of (smDefaults sm) category \<noteq> None then Inl (AlreadyRegistered ''default servant'' category)
      else Inr (sm\<lparr>smDefaults := om_insert category object (smDefaults sm)\<rparr>))"

text \<open>Erasing the entry of an identity, with the hint moved on when it stands there.\<close>

definition erase_servants :: "identity \<Rightarrow> ('s, 'l) servant_manager \<Rightarrow> ('s, 'l) servant_manager" where
  "erase_servants ident sm =
     sm\<lparr>smServants := om_erase ident (smServants sm),
        smHint := (if smHint sm = Some ident then next_key ident (smServants sm) else smHint sm)\<rparr>"

definition removeServant :: "string_converter option \<Rightarrow> identity \<Rightarrow> string \<Rightarrow> ('s, 'l) servant_manager
    \<Rightarrow> ('s \<times> ('s, 'l) servant_manager) result" where
  "removeServant conv ident facet sm =
     (if \<not> smAlive sm then Inl AssertFailed
      else and_then (locate (smHint sm) ident (smServants sm)) (\<lambda>p.
        case Option.bind p (\<lambda>facets. map_option (Pair facets) (map_of facets facet)) of
          None \<Rightarrow> and_then (servant_id conv (smMode sm) ident facet) (\<lambda>n. Inl (NotRegistered ''servant'' n))
        | Some (facets, servant) \<Rightarrow>
            let facets = om_erase facet facets in
            Inr (servant,
              if facets = [] then erase_servants ident sm
              else sm\<lparr>smServants := om_put ident facets (smServants sm)\<rparr>)))"

definition removeDefaultServant :: "string \<Rightarrow> ('s, 'l) servant_manager \<Rightarrow> ('s \<times> ('s, 'l) servant_manager) result" where
  "removeDefaultServant category sm =
     (if \<not> smAlive sm then Inl AssertFailed
      else case map_of (smDefaults sm) category of
        None \<Rightarrow> Inl (NotRegistered ''default servant'' category)
      | Some servant \<Rightarrow> Inr (servant, sm\<lparr>smDefaults := om_erase category (smDefaults sm)\<rparr>))"

definition removeAllFacets :: "string_converter option \<Rightarrow> identity \<Rightarrow> ('s, 'l) servant_manager
    \<Rightarrow> ('s facet_map \<times> ('s, 'l) servant_manager) result" where
  "removeAllFacets conv ident sm =
     (if \<not> smAlive sm then Inl AssertFailed
      else and_then (locate (smHint sm) ident (smServants sm)) (\<lambda>p.
        case p of
          None \<Rightarrow> and_then (identityToString conv ident (smMode sm)) (\<lambda>n. Inl (NotRegistered ''servant'' n))
        | Some facets \<Rightarrow> Inr (facets, erase_servants ident sm)))"

definition findServant :: "identity \<Rightarrow> string \<Rightarrow> ('s, 'l) servant_manager
    \<Rightarrow> ('s option \<times> ('s, 'l) servant_manager) result" where
  "findServant ident facet sm =
     and_then (locate (smHint sm) ident (smServants sm)) (\<lambda>p.
       case Option.bind p (\<lambda>facets. map_of facets facet) of
         Some servant \<Rightarrow> Inr (Some servant, sm\<lparr>smHint := Some ident\<rparr>)
       | None \<Rightarrow>
           Inr (case map_of (smDefaults sm) (idCategory ident) of
                  Some d \<Rightarrow> Some d
                | None \<Rightarrow> map_of (smDefaults sm) [], sm))"

definition findDefaultServant :: "string \<Rightarrow> ('s, 'l) servant_manager \<Rightarrow> 's option" where
  "findDefaultServant category sm = map_of (smDefaults sm) category"

definition findAllFacets :: "identity \<Rightarrow> ('s, 'l) servant_manager
    \<Rightarrow> ('s facet_map \<times> ('s, 'l) servant_manager) result" where
  "findAllFacets ident sm =
     (if \<not> smAlive sm then Inl AssertFailed
      else and_then (locate (smHint sm) ident (smServants sm)) (\<lambda>p.
        case p of
          None \<Rightarrow> Inr ([], sm)
        | Some facets \<Rightarrow> Inr (facets, sm\<lparr>smHint := Some ident\<rparr>)))"

definition hasServant :: "identity \<Rightarrow> ('s, 'l) servant_manager \<Rightarrow> (bool \<times> ('s, 'l) servant_manager) result" where
  "hasServant ident sm =
     and_then (locate (smHint sm) ident (smServants sm)) (\<lambda>p.
       case p of
         None \<Rightarrow> Inr (False, sm)
       | Some facets \<Rightarrow> if facets = [] then Inl AssertFailed else Inr (True, sm\<lparr>smHint := Some ident\<rparr>))"

subsection \<open>Servant locators\<close>

definition addServantLocator :: "'l \<Rightarrow> string \<Rightarrow> ('s, 'l) servant_manager \<Rightarrow> ('s, 'l) servant_manager result" where
  "addServantLocator locator category sm =
     (if \<not> smAlive sm then Inl AssertFailed
      else and_then (locate (smLocatorHint sm) category (smLocators sm)) (\<lambda>p.
        if p \<noteq> None then Inl (AlreadyRegistered ''servant locator'' category)
        else Inr (sm\<lparr>smLocators := om_insert category locator (smLocators sm), smLocatorHint := Some category\<rparr>)))"

definition removeServantLocator :: "string \<Rightarrow> ('s, 'l) servant_manager \<Rightarrow> ('l \<times> ('s, 'l) servant_manager) result" where
  "removeServantLocator category sm =
     (if \<not> smAlive sm then Inl AssertFailed
      else and_then (locate (smLocatorHint sm) category (smLocators sm)) (\<lambda>p.
        case p of
          None \<Rightarrow> Inl (NotRegistered ''servant locator'' category)
        | Some locator \<Rightarrow>
            let m = om_erase category (smLocators sm) in
            Inr (locator, sm\<lparr>smLocators := m, smLocatorHint := (case m of [] \<Rightarrow> None | e # _ \<Rightarrow> Some (fst e))\<rparr>)))"

definition findServantLocator :: "string \<Rightarrow> ('s, 'l) servant_manager \<Rightarrow> ('l option \<times> ('s, 'l) servant_manager) result" where
  "findServantLocator category sm =
     and_then (locate (smLocatorHint sm) category (smLocators sm)) (\<lambda>p.
       case p of
         None \<Rightarrow> Inr (None, sm)
       | Some locator \<Rightarrow> Inr (Some locator, sm\<lparr>smLocatorHint := Some category\<rparr>))"

text \<open>
  \<open>destroy\<close> empties the maps and then deactivates the locators outside the lock; the locators to
  deactivate are returned with their categories, in map order.
\<close>

definition sm_destroy :: "('s, 'l) servant_manager \<Rightarrow> (string \<times> 'l) list \<times> ('s, 'l) servant_manager" where
  "sm_destroy sm =
     (if \<not> smAlive sm then ([], sm)
      else (smLocators sm,
            sm\<lparr>smServants := [], smHint := None, smDefaults := [], smLocators := [], smLocatorHint := None,
               smAlive := False\<rparr>))"

end
