(* ===== verification/ServantProps.thy ===== *)
theory ServantProps
  imports ServantManager
begin

section \<open>The servant manager is a map and its hints never dangle\<close>

text \<open>
  The invariant of the servant manager, its preservation by every operation, the reachable states as a
  step relation, and the abstract view as a partial map from identities and facets to servants.
\<close>

subsection \<open>Invariant\<close>

definition hint_ok :: "'k option \<Rightarrow> ('k \<times> 'v) list \<Rightarrow> bool" where
  "hint_ok hint m \<longleftrightarrow> (case hint of None \<Rightarrow> True | Some h \<Rightarrow> map_of m h \<noteq> None)"

definition facets_ok :: "(identity \<times> 's facet_map) list \<Rightarrow> bool" where
  "facets_ok m \<longleftrightarrow> (\<forall>i f. map_of m i = Some f \<longrightarrow> f \<noteq> [] \<and> om_wf f)"

definition sm_inv :: "('s, 'l) servant_manager \<Rightarrow> bool" where
  "sm_inv sm \<longleftrightarrow>
     om_wf (smServants sm) \<and> facets_ok (smServants sm)
     \<and> hint_ok (smHint sm) (smServants sm) \<and> om_wf (smDefaults sm)
     \<and> om_wf (smLocators sm) \<and> hint_ok (smLocatorHint sm) (smLocators sm)"

lemma facets_ok_simps [simp]:
  "facets_ok []"
  "facets_ok m \<Longrightarrow> facets_ok (om_erase i m)"
  "om_wf m \<Longrightarrow> facets_ok m \<Longrightarrow> f \<noteq> [] \<Longrightarrow> om_wf f \<Longrightarrow> facets_ok (om_put i f m)"
  by (auto simp: facets_ok_def map_of_om_erase om.lookup_assign)

lemma facets_okD: "facets_ok m \<Longrightarrow> map_of m i = Some f \<Longrightarrow> f \<noteq> [] \<and> om_wf f"
  by (simp add: facets_ok_def)

lemma locate_ok [simp]: "hint_ok hint m \<Longrightarrow> locate hint k m = Inr (map_of m k)"
  by (auto simp: hint_ok_def locate_def split: option.splits)

lemma hint_ok_None [simp]: "hint_ok None m"
  by (simp add: hint_ok_def)

lemma hint_ok_put [simp]: "om_wf m \<Longrightarrow> hint_ok h m \<Longrightarrow> hint_ok h (om_put k v m)"
  by (auto simp: hint_ok_def om.lookup_assign split: option.splits)

lemma hint_ok_at_put [simp]: "om_wf m \<Longrightarrow> hint_ok (Some k) (om_put k v m)"
  by (simp add: hint_ok_def om.lookup_assign)

lemma next_key_later: "next_key k m = Some k' \<Longrightarrow> map_of m k' \<noteq> None \<and> k < k'"
proof -
  assume "next_key k m = Some k'"
  then obtain e es where e: "filter (\<lambda>e. k < fst e) m = e # es" "fst e = k'"
    by (auto simp: next_key_def split: list.splits)
  then have "e \<in> set (filter (\<lambda>e. k < fst e) m)" by simp
  then have "e \<in> set m" "k < fst e" by auto
  with e(2) show ?thesis by (auto simp: map_of_eq_None_iff)
qed

lemma hint_ok_erase:
  assumes "hint_ok h m"
  shows "hint_ok (if h = Some k then next_key k m else h) (om_erase k m)"
  using assms next_key_later [of k m]
  by (cases "next_key k m") (auto simp: hint_ok_def map_of_om_erase split: option.splits)

lemma hint_ok_first [simp]: "hint_ok (case m of [] \<Rightarrow> None | e # _ \<Rightarrow> Some (fst e)) m"
  by (auto simp: hint_ok_def split: list.splits)

lemma erase_servants_inv: "sm_inv sm \<Longrightarrow> sm_inv (erase_servants i sm)"
  unfolding sm_inv_def erase_servants_def
  using hint_ok_erase [of "smHint sm" "smServants sm" i]
  by (simp add: om.wf_erase)

lemma put_servants_inv:
  assumes "sm_inv sm" "facets \<noteq> []" "om_wf facets" "hint_ok h (om_put i facets (smServants sm))"
  shows "sm_inv (sm\<lparr>smHint := h, smServants := om_put i facets (smServants sm)\<rparr>)"
  using assms by (simp add: sm_inv_def om.wf_assign)

lemma addServant_inv:
  assumes inv: "sm_inv sm" and r: "addServant conv s i f sm = Inr sm'"
  shows "sm_inv sm'"
proof -
  from inv have hint: "hint_ok (smHint sm) (smServants sm)" and wf: "om_wf (smServants sm)" by (simp_all add: sm_inv_def)
  from r obtain facets where sm': "sm' = sm\<lparr>smHint := Some i, smServants := om_put i (om_insert f s facets) (smServants sm)\<rparr>"
    and facets: "facets = [] \<or> map_of (smServants sm) i = Some facets"
    by (auto simp: addServant_def hint and_then_Inr split: option.splits if_splits)
  from facets inv have "om_wf facets" by (auto simp: sm_inv_def dest: facets_okD)
  with wf show ?thesis unfolding sm' by (intro put_servants_inv [OF inv]) simp_all
qed

lemma removeServant_inv: "sm_inv sm \<Longrightarrow> removeServant conv i f sm = Inr (s, sm') \<Longrightarrow> sm_inv sm'"
proof -
  assume inv: "sm_inv sm" and r: "removeServant conv i f sm = Inr (s, sm')"
  from inv have hint: "hint_ok (smHint sm) (smServants sm)" by (simp add: sm_inv_def)
  from r obtain facets where facets: "map_of (smServants sm) i = Some facets" "map_of facets f = Some s"
    and sm': "sm' = (if om_erase f facets = [] then erase_servants i sm
       else sm\<lparr>smServants := om_put i (om_erase f facets) (smServants sm)\<rparr>)"
    by (auto simp: removeServant_def hint Let_def and_then_Inr split: option.splits if_splits Option.bind_splits)
  from inv facets have "om_wf (om_erase f facets)" by (auto simp: sm_inv_def om.wf_erase dest: facets_okD)
  with put_servants_inv [OF inv, of "om_erase f facets" "smHint sm" i] inv hint sm' erase_servants_inv [OF inv, of i]
  show ?thesis by (auto simp: sm_inv_def)
qed

subsection \<open>Reachable states\<close>

text \<open>One call of any operation; a call that throws leaves the state as it was.\<close>

inductive sm_step :: "('s, 'l) servant_manager \<Rightarrow> ('s, 'l) servant_manager \<Rightarrow> bool" where
  add: "addServant conv s i f sm = Inr sm' \<Longrightarrow> sm_step sm sm'"
| add_default: "addDefaultServant s c sm = Inr sm' \<Longrightarrow> sm_step sm sm'"
| remove: "removeServant conv i f sm = Inr (s, sm') \<Longrightarrow> sm_step sm sm'"
| remove_default: "removeDefaultServant c sm = Inr (s, sm') \<Longrightarrow> sm_step sm sm'"
| remove_all: "removeAllFacets conv i sm = Inr (fs, sm') \<Longrightarrow> sm_step sm sm'"
| find_one: "findServant i f sm = Inr (r, sm') \<Longrightarrow> sm_step sm sm'"
| find_all: "findAllFacets i sm = Inr (fs, sm') \<Longrightarrow> sm_step sm sm'"
| has: "hasServant i sm = Inr (b, sm') \<Longrightarrow> sm_step sm sm'"
| add_locator: "addServantLocator l c sm = Inr sm' \<Longrightarrow> sm_step sm sm'"
| remove_locator: "removeServantLocator c sm = Inr (l, sm') \<Longrightarrow> sm_step sm sm'"
| find_locator: "findServantLocator c sm = Inr (r, sm') \<Longrightarrow> sm_step sm sm'"
| destroy: "sm_destroy sm = (ls, sm') \<Longrightarrow> sm_step sm sm'"

inductive sm_reachable :: "('s, 'l) servant_manager \<Rightarrow> bool" where
  initial: "sm_reachable (servant_manager_new mode)"
| step: "sm_reachable sm \<Longrightarrow> sm_step sm sm' \<Longrightarrow> sm_reachable sm'"

lemma sm_fields_inv [simp]:
  "om_wf d \<Longrightarrow> sm_inv sm \<Longrightarrow> sm_inv (sm\<lparr>smDefaults := d\<rparr>)"
  "om_wf l \<Longrightarrow> hint_ok lh l \<Longrightarrow> sm_inv sm \<Longrightarrow> sm_inv (sm\<lparr>smLocators := l, smLocatorHint := lh\<rparr>)"
  "hint_ok h (smServants sm) \<Longrightarrow> sm_inv sm \<Longrightarrow> sm_inv (sm\<lparr>smHint := h\<rparr>)"
  "hint_ok lh (smLocators sm) \<Longrightarrow> sm_inv sm \<Longrightarrow> sm_inv (sm\<lparr>smLocatorHint := lh\<rparr>)"
  by (simp_all add: sm_inv_def)

lemma sm_invD:
  assumes "sm_inv sm"
  shows "hint_ok (smHint sm) (smServants sm)" "om_wf (smServants sm)" "facets_ok (smServants sm)"
    "om_wf (smDefaults sm)" "om_wf (smLocators sm)" "hint_ok (smLocatorHint sm) (smLocators sm)"
  using assms by (simp_all add: sm_inv_def)

lemma hint_ok_found: "map_of m k = Some v \<Longrightarrow> hint_ok (Some k) m"
  by (simp add: hint_ok_def)

lemma sm_find_inv:
  assumes "sm_inv sm"
  shows "findServant i f sm = Inr (r, sm') \<Longrightarrow> sm_inv sm'"
    "findAllFacets i sm = Inr (fs, sm') \<Longrightarrow> sm_inv sm'"
    "hasServant i sm = Inr (b, sm') \<Longrightarrow> sm_inv sm'"
    "findServantLocator c sm = Inr (l, sm') \<Longrightarrow> sm_inv sm'"
  using assms sm_invD [OF assms]
  by (auto simp: findServant_def findAllFacets_def hasServant_def findServantLocator_def
      dest: hint_ok_found hint_ok_found [OF sym] split: option.splits if_splits Option.bind_splits)

lemma sm_default_inv:
  assumes "sm_inv sm"
  shows "addDefaultServant s c sm = Inr sm' \<Longrightarrow> sm_inv sm'"
    "removeDefaultServant c sm = Inr (s, sm') \<Longrightarrow> sm_inv sm'"
    "removeAllFacets conv i sm = Inr (fs, sm') \<Longrightarrow> sm_inv sm'"
  using assms sm_invD [OF assms] erase_servants_inv [OF assms]
  by (auto simp: addDefaultServant_def removeDefaultServant_def removeAllFacets_def om.wf_add om.wf_erase
      and_then_Inr split: option.splits if_splits)

lemma sm_locator_inv:
  assumes "sm_inv sm"
  shows "addServantLocator l c sm = Inr sm' \<Longrightarrow> sm_inv sm'"
    "removeServantLocator c sm = Inr (l, sm') \<Longrightarrow> sm_inv sm'"
    "sm_destroy sm = (ls, sm') \<Longrightarrow> sm_inv sm'"
proof -
  note d = sm_invD [OF assms]
  show "addServantLocator l c sm = Inr sm' \<Longrightarrow> sm_inv sm'"
    using assms d hint_ok_found [of "om_insert c l (smLocators sm)" c l] om.lookup_add [OF d(5), of c l c]
    by (auto simp: addServantLocator_def om.wf_add split: option.splits if_splits)
  show "removeServantLocator c sm = Inr (l, sm') \<Longrightarrow> sm_inv sm'"
    using assms d by (auto simp: removeServantLocator_def Let_def om.wf_erase split: option.splits if_splits)
  show "sm_destroy sm = (ls, sm') \<Longrightarrow> sm_inv sm'"
    using assms by (auto simp: sm_destroy_def sm_inv_def split: if_splits)
qed

lemma sm_step_inv: "sm_step sm sm' \<Longrightarrow> sm_inv sm \<Longrightarrow> sm_inv sm'"
  by (induction rule: sm_step.induct)
    (blast intro: addServant_inv removeServant_inv sm_find_inv sm_default_inv sm_locator_inv)+

lemma sm_reachable_inv: "sm_reachable sm \<Longrightarrow> sm_inv sm"
proof (induction rule: sm_reachable.induct)
  case (initial mode)
  then show ?case by (simp add: sm_inv_def servant_manager_new_def)
qed (rule sm_step_inv)

subsection \<open>The abstract map\<close>

definition servant_at :: "('s, 'l) servant_manager \<Rightarrow> identity \<Rightarrow> string \<Rightarrow> 's option" where
  "servant_at sm i f = Option.bind (map_of (smServants sm) i) (\<lambda>m. map_of m f)"

lemma servant_id_defined: "mode \<noteq> ASCII \<Longrightarrow> \<exists>n. servant_id None mode i f = Inr n"
proof -
  assume mode: "mode \<noteq> ASCII"
  obtain a where a: "escapeString None (idName i) ''/'' mode = Inr a"
    using escapeString_plain_modes [OF special_slash mode] .
  obtain b where b: "escapeString None (idCategory i) ''/'' mode = Inr b"
    using escapeString_plain_modes [OF special_slash mode] .
  obtain c where c: "escapeString None f [] mode = Inr c"
    using escapeString_plain_modes [of "[]" mode, OF _ mode] by auto
  show ?thesis by (simp add: servant_id_def identityToString_def a b c)
qed

text \<open>What each operation does to the abstract map, on every branch.\<close>

lemma addServant_refines:
  assumes "sm_inv sm" "smAlive sm" "smMode sm \<noteq> ASCII"
  shows "(case servant_at sm i f of
      None \<Rightarrow> \<exists>sm'. addServant None s i f sm = Inr sm'
                \<and> (\<forall>i' f'. servant_at sm' i' f' = (if i' = i \<and> f' = f then Some s else servant_at sm i' f'))
                \<and> smDefaults sm' = smDefaults sm
    | Some _ \<Rightarrow> \<exists>n. addServant None s i f sm = Inl (AlreadyRegistered ''servant'' n))"
proof -
  note d = sm_invD [OF assms(1)]
  obtain n where n: "servant_id None (smMode sm) i f = Inr n" using servant_id_defined [OF assms(3)] by blast
  show ?thesis
  proof (cases "map_of (smServants sm) i")
    case None
    with assms(2) d show ?thesis by (auto simp: addServant_def servant_at_def om.lookup_assign)
  next
    case (Some m)
    with d(3) have "om_wf m" by (auto dest: facets_okD)
    with Some assms(2) d n show ?thesis
      by (auto simp: addServant_def servant_at_def om.lookup_assign om.lookup_add split: option.splits)
  qed
qed

lemma removeServant_refines:
  assumes "sm_inv sm" "smAlive sm" "smMode sm \<noteq> ASCII"
  shows "(case servant_at sm i f of
      None \<Rightarrow> \<exists>n. removeServant None i f sm = Inl (NotRegistered ''servant'' n)
    | Some s \<Rightarrow> \<exists>sm'. removeServant None i f sm = Inr (s, sm')
                \<and> (\<forall>i' f'. servant_at sm' i' f' = (if i' = i \<and> f' = f then None else servant_at sm i' f'))
                \<and> smDefaults sm' = smDefaults sm)"
proof -
  note d = sm_invD [OF assms(1)]
  obtain n where n: "servant_id None (smMode sm) i f = Inr n" using servant_id_defined [OF assms(3)] by blast
  have empty: "om_erase f m = [] \<Longrightarrow> f' \<noteq> f \<Longrightarrow> map_of m f' = None" for m :: "'a facet_map" and f'
    by (metis map_of.simps(1) map_of_om_erase fun_upd_other)
  show ?thesis
  proof (cases "servant_at sm i f")
    case None
    with assms(2) d n show ?thesis
      by (auto simp: removeServant_def servant_at_def split: Option.bind_splits)
  next
    case (Some s)
    then obtain m where m: "map_of (smServants sm) i = Some m" "map_of m f = Some s"
      by (auto simp: servant_at_def bind_eq_Some_conv)
    with assms(2) d Some show ?thesis
      by (auto simp: removeServant_def servant_at_def Let_def erase_servants_def om.lookup_assign
          map_of_om_erase dest: empty)
  qed
qed

lemma findServant_refines:
  assumes "sm_inv sm"
  shows "\<exists>sm'. findServant i f sm = Inr (case servant_at sm i f of
      Some s \<Rightarrow> Some s
    | None \<Rightarrow> (case findDefaultServant (idCategory i) sm of Some d \<Rightarrow> Some d | None \<Rightarrow> findDefaultServant [] sm), sm')
    \<and> smServants sm' = smServants sm \<and> smDefaults sm' = smDefaults sm"
  using sm_invD [OF assms]
  by (auto simp: findServant_def servant_at_def findDefaultServant_def split: option.splits Option.bind_splits)

text \<open>
  C34: over any sequence of calls the servant manager keeps its maps ordered, never keeps an identity
  without facets (the assertion of \<open>hasServant\<close> holds), and no cached iterator is ever left on an
  erased element: no lookup dereferences a dangling hint.
\<close>

theorem servant_hints_never_dangle:
  assumes "sm_reachable sm"
  shows "sm_inv sm \<and> (\<exists>r. hasServant i sm = Inr r) \<and> (\<exists>r. findServant i f sm = Inr r)
    \<and> (\<exists>r. findServantLocator c sm = Inr r)"
proof -
  have inv: "sm_inv sm" by (rule sm_reachable_inv [OF assms])
  from sm_invD [OF inv] have "\<exists>r. hasServant i sm = Inr r"
    by (auto simp: hasServant_def dest: facets_okD split: option.splits)
  moreover from sm_invD [OF inv] have "\<exists>r. findServantLocator c sm = Inr r"
    by (auto simp: findServantLocator_def split: option.splits)
  ultimately show ?thesis using inv findServant_refines [OF inv, of i f] by blast
qed

text \<open>
  C35: on every reachable state the servant manager implements a partial map from identities and facets
  to servants: adding succeeds exactly where nothing is registered and changes only that entry,
  removing returns the registered servant and clears only that entry (also when it was the last facet
  of the identity), and dispatch finds the registered servant, or the default servant of the category,
  or the one of the empty category.
\<close>

theorem servant_manager_refines_map:
  assumes "sm_reachable sm" "smAlive sm" "smMode sm \<noteq> ASCII"
  shows "(case servant_at sm i f of
       None \<Rightarrow> (\<exists>sm'. addServant None s i f sm = Inr sm'
                \<and> (\<forall>i' f'. servant_at sm' i' f' = (if i' = i \<and> f' = f then Some s else servant_at sm i' f')))
             \<and> (\<exists>n. removeServant None i f sm = Inl (NotRegistered ''servant'' n))
     | Some t \<Rightarrow> (\<exists>n. addServant None s i f sm = Inl (AlreadyRegistered ''servant'' n))
             \<and> (\<exists>sm'. removeServant None i f sm = Inr (t, sm')
                \<and> (\<forall>i' f'. servant_at sm' i' f' = (if i' = i \<and> f' = f then None else servant_at sm i' f'))))
   \<and> (\<exists>sm'. findServant i f sm = Inr (case servant_at sm i f of
         Some t \<Rightarrow> Some t
       | None \<Rightarrow> (case findDefaultServant (idCategory i) sm of Some d \<Rightarrow> Some d | None \<Rightarrow> findDefaultServant [] sm), sm'))"
proof -
  note inv = sm_reachable_inv [OF assms(1)]
  from addServant_refines [OF inv assms(2,3), where i = i and f = f and s = s]
    removeServant_refines [OF inv assms(2,3), where i = i and f = f]
    findServant_refines [OF inv, where i = i and f = f]
  show ?thesis by (cases "servant_at sm i f") auto
qed

lemma demo_servants:
  "\<exists>sm. addServant None (7 :: nat) \<lparr>idName = ''a'', idCategory = ''c''\<rparr> [] (servant_manager_new Unicode :: (nat, nat) servant_manager)
     = Inr sm \<and> sm_reachable sm \<and> smAlive sm \<and> smMode sm = Unicode"
proof -
  let ?sm = "servant_manager_new Unicode :: (nat, nat) servant_manager"
  have "\<exists>sm. addServant None 7 \<lparr>idName = ''a'', idCategory = ''c''\<rparr> [] ?sm = Inr sm \<and> smAlive sm \<and> smMode sm = Unicode"
    by (simp add: addServant_def servant_manager_new_def locate_def)
  then show ?thesis using sm_reachable.step [OF sm_reachable.initial sm_step.add] by metis
qed

theorem servant_hints_never_dangle_witness:
  "\<exists>sm :: (nat, nat) servant_manager. sm_reachable sm \<and> smServants sm \<noteq> []
     \<and> (\<exists>r. hasServant \<lparr>idName = ''b'', idCategory = []\<rparr> sm = Inr r)"
proof -
  from demo_servants obtain sm :: "(nat, nat) servant_manager" where
    sm: "addServant None 7 \<lparr>idName = ''a'', idCategory = ''c''\<rparr> [] (servant_manager_new Unicode) = Inr sm" "sm_reachable sm"
    by blast
  from sm(1) have "smServants sm \<noteq> []" by (auto simp: addServant_def servant_manager_new_def locate_def)
  with servant_hints_never_dangle [OF sm(2)] sm(2) show ?thesis by blast
qed

theorem servant_manager_refines_map_witness:
  "\<exists>(sm :: (nat, nat) servant_manager) sm'. sm_reachable sm \<and>
     addServant None 8 \<lparr>idName = ''b'', idCategory = []\<rparr> ''f'' sm = Inr sm'"
proof -
  from demo_servants obtain sm :: "(nat, nat) servant_manager" where
    sm: "addServant None 7 \<lparr>idName = ''a'', idCategory = ''c''\<rparr> [] (servant_manager_new Unicode) = Inr sm"
      "sm_reachable sm" "smAlive sm" "smMode sm \<noteq> ASCII"
    by auto
  from sm(1) have "servant_at sm \<lparr>idName = ''b'', idCategory = []\<rparr> ''f'' = None"
    by (auto simp: addServant_def servant_manager_new_def locate_def servant_at_def)
  with servant_manager_refines_map [OF sm(2-4), where i = "\<lparr>idName = ''b'', idCategory = []\<rparr>" and f = "''f''" and s = 8] sm(2)
  show ?thesis by auto
qed

end
