(* ===== verification/BatchQueue.thy ===== *)
theory BatchQueue
  imports OStream
begin

section \<open>The batch request queue\<close>

text \<open>
  \<open>IceInternal::BatchRequestQueue\<close> (cpp/src/Ice/BatchRequestQueue.h, .cpp).  A thread that marshals a batch
  request takes the batch stream with \<open>prepareBatchRequest\<close>, appends to it, and gives it back with
  \<open>finishBatchRequest\<close> or \<open>abortBatchRequest\<close>; \<open>swap\<close> takes the requests to send.  The monitor makes each
  call atomic; a call that would wait gives \<open>None\<close>.  The proxy's compression override, the application's
  interceptor and the flush that \<open>finishBatchRequest\<close> may start are arguments.
\<close>

definition udpOverhead :: nat where "udpOverhead = 20 + 8"

record batch_queue =
  bqStream :: ostream
  bqInUse :: bool
  bqCanFlush :: bool
  bqCompress :: bool
  bqNum :: ice_int
  bqMarker :: nat
  bqException :: "ice_error option"
  bqMaxSize :: nat

text \<open>
  The constructor: \<open>autoFlushSize\<close> is the instance's \<open>batchAutoFlushSize\<close>, \<open>udpSndSize\<close> the value of
  Ice.UDP.SndSize if the application set it; a negative one becomes a huge size when it is cast.
\<close>

definition size_of_int :: "int \<Rightarrow> nat" where
  "size_of_int n = nat (n mod 2 ^ 64)"

definition batch_queue_new :: "nat \<Rightarrow> bool \<Rightarrow> int option \<Rightarrow> batch_queue" where
  "batch_queue_new autoFlushSize datagram udpSndSize =
     (let s = writeBlob requestBatchHdr (ostream_init currentProtocolEncoding DefaultFormat);
          udp = size_of_int (case udpSndSize of Some n \<Rightarrow> n | None \<Rightarrow> int (65535 - udpOverhead)) in
      \<lparr>bqStream = s, bqInUse = False, bqCanFlush = False, bqCompress = False, bqNum = 0,
       bqMarker = length (obytes s), bqException = None,
       bqMaxSize = (if autoFlushSize > 0 \<and> datagram \<and> udp < autoFlushSize then udp else autoFlushSize)\<rparr>)"

text \<open>The condition under which \<open>waitStreamInUse\<close> returns.\<close>

definition stream_free :: "bool \<Rightarrow> batch_queue \<Rightarrow> bool" where
  "stream_free flush q \<longleftrightarrow> \<not> (bqInUse q \<and> \<not> (flush \<and> bqCanFlush q))"

definition prepareBatchRequest :: "ostream \<Rightarrow> batch_queue \<Rightarrow> (ostream \<times> batch_queue) result option" where
  "prepareBatchRequest os q =
     (case bqException q of
        Some x \<Rightarrow> Some (Inl x)
      | None \<Rightarrow>
          if \<not> stream_free False q then None
          else (case swap_streams (bqStream q) os of
                  (stream, os) \<Rightarrow> Some (Inr (os, q\<lparr>bqInUse := True, bqStream := stream\<rparr>))))"

text \<open>\<open>OutputStream::resize\<close>: the batch stream is only ever shrunk to the marker.\<close>

definition stream_resize :: "nat \<Rightarrow> ostream \<Rightarrow> ostream" where
  "stream_resize n s = s\<lparr>obytes := take n (obytes s) @ replicate (n - length (obytes s)) 0\<rparr>"

definition bq_swap :: "ostream \<Rightarrow> batch_queue \<Rightarrow> (ice_int \<times> bool \<times> ostream \<times> batch_queue) option" where
  "bq_swap os q =
     (if bqNum q = 0 then Some (0, False, os, q)
      else if \<not> stream_free True q then None
      else
        (let lastRequest = drop (bqMarker q) (obytes (bqStream q));
             stream = (if bqMarker q < length (obytes (bqStream q)) then stream_resize (bqMarker q) (bqStream q)
                       else bqStream q) in
         case swap_streams stream os of (stream, os) \<Rightarrow>
           let stream = writeBlob requestBatchHdr stream in
           Some (bqNum q, bqCompress q, os,
             q\<lparr>bqNum := 0, bqCompress := False, bqMarker := length (obytes stream),
                bqStream := (if lastRequest \<noteq> [] then writeBlob lastRequest stream else stream)\<rparr>)))"

definition enqueueBatchRequest :: "bool option \<Rightarrow> batch_queue \<Rightarrow> batch_queue result" where
  "enqueueBatchRequest compressOverride q =
     (if \<not> bqMarker q < length (obytes (bqStream q)) then Inl AssertFailed
      else Inr (q\<lparr>bqCompress := (case compressOverride of Some c \<Rightarrow> bqCompress q \<or> c | None \<Rightarrow> bqCompress q),
                  bqMarker := length (obytes (bqStream q)), bqNum := bqNum q + 1\<rparr>))"

text \<open>The application's interceptor may enqueue the request any number of times and may throw.\<close>

type_synonym interceptor = "ice_int \<Rightarrow> ice_int \<Rightarrow> ice_int \<Rightarrow> nat \<times> ice_error option"

fun enqueue_times :: "nat \<Rightarrow> bool option \<Rightarrow> batch_queue \<Rightarrow> batch_queue result" where
  "enqueue_times 0 c q = Inr q"
| "enqueue_times (Suc n) c q = and_then (enqueueBatchRequest c q) (enqueue_times n c)"

text \<open>The cleanup of both exits of \<open>finishBatchRequest\<close>.\<close>

definition release_stream :: "batch_queue \<Rightarrow> batch_queue" where
  "release_stream q = q\<lparr>bqStream := stream_resize (bqMarker q) (bqStream q), bqInUse := False, bqCanFlush := False\<rparr>"

text \<open>
  The flush that the code starts at the maximum size may swap the queue at once into the stream of its
  flush message, do so later, or throw.  The result is the exception that is rethrown, what that flush
  took, the caller's stream and the queue.
\<close>

datatype flush_outcome = FlushNow ostream | FlushLater | FlushThrows ice_error

type_synonym sent_batch = "ice_int \<times> bool \<times> ostream"

definition auto_flush :: "flush_outcome \<Rightarrow> batch_queue \<Rightarrow> (ice_error + sent_batch option) \<times> batch_queue" where
  "auto_flush flush q =
     (if bqMaxSize q > 0 \<and> length (obytes (bqStream q)) \<ge> bqMaxSize q then
        (case flush of
           FlushNow fs \<Rightarrow>
             (case bq_swap fs q of Some (n, c, fs, q) \<Rightarrow> (Inr (Some (n, c, fs)), q) | None \<Rightarrow> (Inr None, q))
         | FlushLater \<Rightarrow> (Inr None, q)
         | FlushThrows x \<Rightarrow> (Inl x, q))
      else (Inr None, q))"

definition finishBatchRequest :: "bool option \<Rightarrow> interceptor option \<Rightarrow> flush_outcome \<Rightarrow> ostream \<Rightarrow> batch_queue
    \<Rightarrow> (ice_error option \<times> sent_batch option \<times> ostream \<times> batch_queue) result" where
  "finishBatchRequest compressOverride interceptor flush os q =
     (if \<not> bqInUse q then Inl AssertFailed
      else case swap_streams (bqStream q) os of (stream, os) \<Rightarrow>
        (case auto_flush flush (q\<lparr>bqStream := stream, bqCanFlush := True\<rparr>) of
           (Inl x, q) \<Rightarrow> Inr (Some x, None, os, release_stream q)
         | (Inr sent, q) \<Rightarrow>
             if \<not> bqMarker q < length (obytes (bqStream q)) then Inl AssertFailed
             else case interceptor of
               Some f \<Rightarrow>
                 (case f (word_of_nat (length (obytes (bqStream q)) - bqMarker q)) (bqNum q) (word_of_nat (bqMarker q)) of
                    (n, thrown) \<Rightarrow>
                      and_then (enqueue_times n compressOverride q) (\<lambda>q. Inr (thrown, sent, os, release_stream q)))
             | None \<Rightarrow>
                 Inr (None, sent, os, release_stream
                   (q\<lparr>bqCompress := (case compressOverride of Some c \<Rightarrow> bqCompress q \<or> c | None \<Rightarrow> bqCompress q),
                      bqMarker := length (obytes (bqStream q)), bqNum := bqNum q + 1\<rparr>))))"

definition abortBatchRequest :: "ostream \<Rightarrow> batch_queue \<Rightarrow> ostream \<times> batch_queue" where
  "abortBatchRequest os q =
     (if bqInUse q then
        (case swap_streams (bqStream q) os of (stream, os) \<Rightarrow>
           (os, q\<lparr>bqStream := stream_resize (bqMarker q) stream, bqInUse := False\<rparr>))
      else (os, q))"

definition bq_destroy :: "ice_error \<Rightarrow> batch_queue \<Rightarrow> batch_queue" where
  "bq_destroy x q = q\<lparr>bqException := Some x\<rparr>"

definition bq_isEmpty :: "batch_queue \<Rightarrow> bool" where
  "bq_isEmpty q \<longleftrightarrow> length (obytes (bqStream q)) = length requestBatchHdr"

end
