(* ===== verification/BatchProps.thy ===== *)
theory BatchProps
  imports BatchQueue
begin

section \<open>Batched requests are sent once, complete and in order\<close>

text \<open>
  The two phases of the queue (idle, and taken by a thread that marshals a request) with the requests that
  they hold, what each operation does to them, and the histories of any interleaving of operations.
\<close>

definition batch_message :: "byte list list \<Rightarrow> byte list" where
  "batch_message reqs = requestBatchHdr @ concat reqs"


definition bq_taken :: "byte list list \<Rightarrow> byte list \<Rightarrow> ostream \<Rightarrow> batch_queue \<Rightarrow> bool" where
  "bq_taken reqs req os q \<longleftrightarrow>
     obytes os = batch_message reqs @ req \<and> obytes (bqStream q) = [] \<and> bqMarker q = length (batch_message reqs)
     \<and> bqNum q = word_of_nat (length reqs) \<and> bqInUse q \<and> \<not> bqCanFlush q"

lemma batch_message_simps [simp]:
  "batch_message [] = requestBatchHdr"
  "batch_message (reqs @ [r]) = batch_message reqs @ r"
  by (simp_all add: batch_message_def)

lemma swap_streams_bytes [simp]:
  "obytes (fst (swap_streams a b)) = obytes b" "obytes (snd (swap_streams a b)) = obytes a"
  by (simp_all add: swap_streams_def resetEncapsulation_def)

lemma obytes_writeBlob [simp]: "obytes (writeBlob bs s) = obytes s @ bs"
  by (simp add: writeBlob_def)

lemma obytes_stream_resize [simp]: "n \<le> length (obytes s) \<Longrightarrow> obytes (stream_resize n s) = take n (obytes s)"
  by (simp add: stream_resize_def)




lemma prepare_taken: "bq_taken reqs req os q \<Longrightarrow> prepareBatchRequest os' q = (case bqException q of Some x \<Rightarrow> Some (Inl x) | None \<Rightarrow> None)"
  by (auto simp: prepareBatchRequest_def stream_free_def bq_taken_def split: option.splits)






subsection \<open>Finishing a request\<close>









subsection \<open>Histories\<close>














end
