(* ===== verification/Base64.thy ===== *)
theory Base64
  imports Prelude
begin

section \<open>Base64\<close>

text \<open>
  \<open>IceInternal::Base64\<close> (cpp/src/Ice/Base64.cpp), which the web socket handshake and the tools use: the
  encoder with its line breaks, the decoder, and their round trip.
\<close>

definition b64_encode_char :: "byte \<Rightarrow> char" where
  "b64_encode_char uc =
     (if unat uc < 26 then char_of (65 + unat uc)
      else if unat uc < 52 then char_of (97 + unat uc - 26)
      else if unat uc < 62 then char_of (48 + unat uc - 52)
      else if uc = 62 then CHR ''+''
      else CHR ''/'')"

definition b64_decode_char :: "char \<Rightarrow> byte" where
  "b64_decode_char c =
     (let n = of_char c :: nat in
      if 65 \<le> n \<and> n \<le> 90 then word_of_nat (n - 65)
      else if 97 \<le> n \<and> n \<le> 122 then word_of_nat (n - 97 + 26)
      else if 48 \<le> n \<and> n \<le> 57 then word_of_nat (n - 48 + 52)
      else if c = CHR ''+'' then 62
      else 63)"

definition isBase64 :: "char \<Rightarrow> bool" where
  "isBase64 c \<longleftrightarrow>
     (let n = of_char c :: nat in
      65 \<le> n \<and> n \<le> 90 \<or> 97 \<le> n \<and> n \<le> 122 \<or> 48 \<le> n \<and> n \<le> 57
      \<or> c = CHR ''+'' \<or> c = CHR ''/'' \<or> c = CHR ''='')"

text \<open>The four six-bit values of a group of three bytes.\<close>

definition by4 :: "byte \<Rightarrow> byte" where "by4 by1 = drop_bit 2 by1"
definition by5 :: "byte \<Rightarrow> byte \<Rightarrow> byte" where "by5 by1 by2 = push_bit 4 (by1 AND 0x3) OR drop_bit 4 by2"
definition by6 :: "byte \<Rightarrow> byte \<Rightarrow> byte" where "by6 by2 by3 = push_bit 2 (by2 AND 0xf) OR drop_bit 6 by3"
definition by7 :: "byte \<Rightarrow> byte" where "by7 by3 = by3 AND 0x3f"

fun b64_groups :: "byte list \<Rightarrow> string" where
  "b64_groups [] = []"
| "b64_groups [a] = [b64_encode_char (by4 a), b64_encode_char (by5 a 0), CHR ''='', CHR ''='']"
| "b64_groups [a, b] = [b64_encode_char (by4 a), b64_encode_char (by5 a b), b64_encode_char (by6 b 0), CHR ''='']"
| "b64_groups (a # b # c # bs) =
     [b64_encode_char (by4 a), b64_encode_char (by5 a b), b64_encode_char (by6 b c), b64_encode_char (by7 c)]
       @ b64_groups bs"

function b64_lines :: "string \<Rightarrow> string" where
  "b64_lines s = (if length s > 76 then take 76 s @ [CHR 0x0D, CHR 0x0A] @ b64_lines (drop 76 s) else s)"
  by pat_completeness auto
termination by (relation "measure length") auto

declare b64_lines.simps [simp del]

definition b64_encode :: "byte list \<Rightarrow> string" where
  "b64_encode plainSeq = (if plainSeq = [] then [] else b64_lines (b64_groups plainSeq))"

text \<open>A missing character of the last group counts as the letter A.\<close>

definition b64_char_at :: "string \<Rightarrow> nat \<Rightarrow> char" where
  "b64_char_at s i = (if i < length s then s ! i else CHR ''A'')"

definition b64_ungroup :: "string \<Rightarrow> byte list" where
  "b64_ungroup s =
     (let c1 = b64_char_at s 0; c2 = b64_char_at s 1; c3 = b64_char_at s 2; c4 = b64_char_at s 3;
          by1 = b64_decode_char c1; by2 = b64_decode_char c2; by3 = b64_decode_char c3; by4 = b64_decode_char c4 in
      [push_bit 2 by1 OR drop_bit 4 by2]
      @ (if c3 \<noteq> CHR ''='' then [push_bit 4 (by2 AND 0xf) OR drop_bit 2 by3] else [])
      @ (if c4 \<noteq> CHR ''='' then [push_bit 6 (by3 AND 0x3) OR by4] else []))"

function b64_ungroups :: "string \<Rightarrow> byte list" where
  "b64_ungroups s = (if s = [] then [] else b64_ungroup s @ b64_ungroups (drop 4 s))"
  by pat_completeness auto
termination by (relation "measure length") auto

declare b64_ungroups.simps [simp del]

definition b64_decode :: "string \<Rightarrow> byte list" where
  "b64_decode str = b64_ungroups (filter isBase64 str)"

subsection \<open>The alphabet\<close>

lemma b64_alphabet:
  assumes "unat b < 64"
  shows "b64_decode_char (b64_encode_char b) = b \<and> isBase64 (b64_encode_char b) \<and> b64_encode_char b \<noteq> CHR ''=''"
proof -
  have w: "word_of_nat (unat b) = b" by simp
  consider "unat b < 26" | "26 \<le> unat b" "unat b < 52" | "52 \<le> unat b" "unat b < 62" | "unat b = 62" | "unat b = 63"
    using assms by linarith
  then show ?thesis
  proof cases
    case 1
    then have "(of_char (b64_encode_char b) :: nat) = 65 + unat b" by (simp add: b64_encode_char_def)
    with 1 show ?thesis by (auto simp: b64_decode_char_def isBase64_def)
  next
    case 2
    then have "(of_char (b64_encode_char b) :: nat) = 97 + unat b - 26" by (simp add: b64_encode_char_def)
    with 2 show ?thesis by (auto simp: b64_decode_char_def isBase64_def)
  next
    case 3
    then have "(of_char (b64_encode_char b) :: nat) = unat b - 4" by (simp add: b64_encode_char_def)
    moreover have "unat b - 4 - 48 + 52 = unat b" using 3 by simp
    ultimately show ?thesis using 3 by (auto simp: b64_decode_char_def isBase64_def Let_def)
  next
    case 4 then have "b = 62" by (simp add: word_unat_eq_iff)
    then show ?thesis by (simp add: b64_encode_char_def b64_decode_char_def isBase64_def)
  next
    case 5 then have "b = 63" by (simp add: word_unat_eq_iff)
    then show ?thesis by (simp add: b64_encode_char_def b64_decode_char_def isBase64_def)
  qed
qed

text \<open>Bytes are compared bit by bit.\<close>

lemma byte_eqI:
  fixes x y :: byte
  assumes "bit x 0 = bit y 0" "bit x 1 = bit y 1" "bit x 2 = bit y 2" "bit x 3 = bit y 3"
    "bit x 4 = bit y 4" "bit x 5 = bit y 5" "bit x 6 = bit y 6" "bit x 7 = bit y 7"
  shows "x = y"
proof (rule bit_word_eqI)
  fix n assume "n < LENGTH(8)"
  then have "n = 0 \<or> n = 1 \<or> n = 2 \<or> n = 3 \<or> n = 4 \<or> n = 5 \<or> n = 6 \<or> n = 7" by auto
  with assms show "bit x n = bit y n" by blast
qed

lemma byte_push: "bit (push_bit k x) n \<longleftrightarrow> k \<le> n \<and> n < 8 \<and> bit (x :: byte) (n - k)"
  by (auto simp: bit_push_bit_iff)

lemma byte_drop: "bit (drop_bit k x) n \<longleftrightarrow> bit (x :: byte) (k + n)"
  by (simp add: bit_drop_bit_eq)

lemma byte_high: "8 \<le> n \<Longrightarrow> \<not> bit (x :: byte) n"
  using bit_imp_le_length [of x n] by auto

lemmas byte_bits = byte_push byte_drop bit_and_iff bit_or_iff

lemma six_bits: "b AND 0x3f = b \<Longrightarrow> unat (b :: byte) < 64"
proof -
  assume "b AND 0x3f = b"
  then have "b \<le> 0x3f" by (metis word_and_le1)
  then have "unat b \<le> unat (0x3f :: byte)" by (simp add: word_le_nat_alt)
  then show ?thesis by simp
qed

lemma sextets: "unat (by4 a) < 64" "unat (by5 a b) < 64" "unat (by6 b c) < 64" "unat (by7 c) < 64"
proof -
  have "by4 a AND 0x3f = by4 a"
    by (rule byte_eqI; simp only: by4_def byte_bits; simp add: byte_high)
  then show "unat (by4 a) < 64" by (rule six_bits)
  have "by5 a b AND 0x3f = by5 a b"
    by (rule byte_eqI; simp only: by5_def byte_bits; simp add: byte_high)
  then show "unat (by5 a b) < 64" by (rule six_bits)
  have "by6 b c AND 0x3f = by6 b c"
    by (rule byte_eqI; simp only: by6_def byte_bits; simp add: byte_high)
  then show "unat (by6 b c) < 64" by (rule six_bits)
  have "by7 c AND 0x3f = by7 c"
    by (rule byte_eqI; simp only: by7_def byte_bits; simp add: byte_high)
  then show "unat (by7 c) < 64" by (rule six_bits)
qed

lemma regroup1: "push_bit 2 (by4 a) OR drop_bit 4 (by5 a b) = a"
  by (rule byte_eqI; simp only: by4_def by5_def byte_bits; simp add: byte_high)

lemma regroup2: "push_bit 4 (by5 a b AND 0xf) OR drop_bit 2 (by6 b c) = b"
  by (rule byte_eqI; simp only: by5_def by6_def byte_bits; simp add: byte_high)

lemma regroup3: "push_bit 6 (by6 b c AND 0x3) OR by7 c = c"
  by (rule byte_eqI; simp only: by6_def by7_def byte_bits; simp add: byte_high)

subsection \<open>The round trip\<close>

lemma enc_dec [simp]:
  "b64_decode_char (b64_encode_char (by4 a)) = by4 a" "b64_decode_char (b64_encode_char (by5 a b)) = by5 a b"
  "b64_decode_char (b64_encode_char (by6 b c)) = by6 b c" "b64_decode_char (b64_encode_char (by7 c)) = by7 c"
  "b64_encode_char (by6 b c) \<noteq> CHR ''=''" "b64_encode_char (by7 c) \<noteq> CHR ''=''"
  using b64_alphabet sextets by simp_all

lemma ungroup_3:
  "b64_ungroup ([b64_encode_char (by4 a), b64_encode_char (by5 a b), b64_encode_char (by6 b c), b64_encode_char (by7 c)] @ s)
     = [a, b, c]"
  by (simp add: b64_ungroup_def b64_char_at_def Let_def regroup1 [simplified] regroup2 [simplified] regroup3 [simplified])

lemma ungroup_1: "b64_ungroup [b64_encode_char (by4 a), b64_encode_char (by5 a 0), CHR ''='', CHR ''=''] = [a]"
  by (simp add: b64_ungroup_def b64_char_at_def Let_def regroup1 [simplified])

lemma ungroup_2: "b64_ungroup [b64_encode_char (by4 a), b64_encode_char (by5 a b), b64_encode_char (by6 b 0), CHR ''='']
    = [a, b]"
  by (simp add: b64_ungroup_def b64_char_at_def Let_def regroup1 [simplified] regroup2 [simplified])

lemma ungroups_step: "length g = 4 \<Longrightarrow> b64_ungroups (g @ s) = b64_ungroup (g @ s) @ b64_ungroups s"
  by (subst b64_ungroups.simps) auto

lemma ungroups_groups: "b64_ungroups (b64_groups bs) = bs"
proof (induction bs rule: b64_groups.induct)
  case (2 a)
  show ?case using ungroups_step [of "b64_groups [a]" "[]"] by (simp add: ungroup_1 b64_ungroups.simps)
next
  case (3 a b)
  show ?case using ungroups_step [of "b64_groups [a, b]" "[]"] by (simp add: ungroup_2 b64_ungroups.simps)
next
  case (4 a b c bs)
  let ?g = "[b64_encode_char (by4 a), b64_encode_char (by5 a b), b64_encode_char (by6 b c), b64_encode_char (by7 c)]"
  have "b64_ungroups (?g @ b64_groups bs) = [a, b, c] @ b64_ungroups (b64_groups bs)"
    using ungroups_step [of ?g "b64_groups bs"] ungroup_3 [of a b c "b64_groups bs"] by simp
  with 4 show ?case by simp
qed (simp add: b64_ungroups.simps)

lemma groups_alphabet: "c \<in> set (b64_groups bs) \<Longrightarrow> isBase64 c"
proof (induction bs rule: b64_groups.induct)
  case 1
  then show ?case by simp
qed (use b64_alphabet sextets in \<open>auto simp: isBase64_def [of "CHR ''=''"]\<close>)

lemma filter_lines: "filter isBase64 (b64_lines s) = filter isBase64 s"
proof (induction s rule: b64_lines.induct)
  case (1 s)
  show ?case
  proof (cases "length s > 76")
    case True
    have "\<not> isBase64 (CHR 0x0D)" "\<not> isBase64 (CHR 0x0A)" by (simp_all add: isBase64_def)
    with True 1 have "filter isBase64 (b64_lines s) = filter isBase64 (take 76 s) @ filter isBase64 (drop 76 s)"
      by (subst b64_lines.simps) simp
    then show ?thesis by (metis append_take_drop_id filter_append)
  qed (simp add: b64_lines.simps)
qed

lemma b64_decode_encode: "b64_decode (b64_encode bs) = bs"
proof -
  have "filter isBase64 (b64_groups bs) = b64_groups bs"
    using groups_alphabet by (intro filter_True) blast
  then show ?thesis
    by (cases "bs = []") (simp_all add: b64_decode_def b64_encode_def filter_lines ungroups_groups b64_ungroups.simps [of "[]"])
qed

text \<open>
  C38: decoding what the encoder produced gives the original bytes back, for every input length and
  whatever line breaks the encoder inserted.
\<close>

theorem base64_roundtrip: "b64_decode (b64_encode bs) = bs"
  by (rule b64_decode_encode)

text \<open>
  The decoder does not treat a missing tail as padding: an unpadded last group is completed with
  zero bits and gives zero bytes that no sender encoded.
\<close>

theorem base64_unpadded_tail:
  assumes "isBase64 c1" "isBase64 c2" "c1 \<noteq> CHR ''=''" "c2 \<noteq> CHR ''=''"
  shows "length (b64_decode [c1, c2]) = 3 \<and> last (b64_decode [c1, c2]) = 0"
  using assms
  by (simp add: b64_decode_def b64_ungroups.simps b64_ungroup_def b64_char_at_def Let_def
      b64_decode_char_def [of "CHR ''A''"])

theorem base64_unpadded_tail_witness: "last (b64_decode ''QQ'') = 0"
  using base64_unpadded_tail [of "CHR ''Q''" "CHR ''Q''"] by (simp add: isBase64_def)

end
