(* ===== verification/RoutingTable.thy ===== *)
theory RoutingTable
  imports ServantManager
begin

section \<open>The Glacier2 routing table\<close>

text \<open>
  \<open>Glacier2::RoutingTable\<close> (cpp/src/Glacier2/RoutingTable.h, .cpp): the proxies that a client of the router
  may reach, with a queue of map iterators in order of use and eviction at a maximum size.  Proxies are of
  any type; their identity, the default form in which they are stored (two-way, not secure, no facet) and
  the verifier's answer are arguments.  An iterator is the identity it stands on.
\<close>

record 'p routing_table =
  rtMap :: "(identity \<times> 'p) list"
  rtQueue :: "identity list"
  rtMaxSize :: int

definition routing_table_new :: "int option \<Rightarrow> 'p routing_table" where
  "routing_table_new maxSize =
     \<lparr>rtMap = [], rtQueue = [], rtMaxSize = (case maxSize of Some n \<Rightarrow> n | None \<Rightarrow> 1000)\<rparr>"

definition int_size :: "'a list \<Rightarrow> int" where
  "int_size m = sint (word_of_nat (length m) :: ice_int)"

text \<open>Moving the entry of an identity to the back of the queue.\<close>

definition to_back :: "identity \<Rightarrow> identity list \<Rightarrow> identity list" where
  "to_back i q = remove1 i q @ [i]"

text \<open>The \<open>while\<close> loop at the end of an addition; \<open>front()\<close> of an empty queue is undefined.\<close>

fun evict :: "int \<Rightarrow> (identity \<times> 'p) list \<Rightarrow> identity list
    \<Rightarrow> ('p list \<times> (identity \<times> 'p) list \<times> identity list) result" where
  "evict maxSize m q =
     (if int_size m > maxSize then
        (case q of
           [] \<Rightarrow> Inl MemoryError
         | k # q' \<Rightarrow>
             (case map_of m k of
                None \<Rightarrow> Inl MemoryError
              | Some p \<Rightarrow> and_then (evict maxSize (om_erase k m) q') (\<lambda>(ev, m, q). Inr (p # ev, m, q))))
      else Inr ([], m, q))"

declare evict.simps [simp del]

definition add_proxy :: "('p \<Rightarrow> identity) \<Rightarrow> 'p \<Rightarrow> 'p routing_table \<Rightarrow> ('p list \<times> 'p routing_table) result" where
  "add_proxy ident proxy rt =
     (let i = ident proxy;
          (m, q) = (case map_of (rtMap rt) i of
                      None \<Rightarrow> (om_insert i proxy (rtMap rt), rtQueue rt @ [i])
                    | Some _ \<Rightarrow> (rtMap rt, to_back i (rtQueue rt))) in
      and_then (evict (rtMaxSize rt) m q) (\<lambda>(ev, m, q). Inr (ev, rt\<lparr>rtMap := m, rtQueue := q\<rparr>)))"

fun add_proxies :: "('p \<Rightarrow> identity) \<Rightarrow> 'p list \<Rightarrow> 'p routing_table \<Rightarrow> ('p list \<times> 'p routing_table) result" where
  "add_proxies ident [] rt = Inr ([], rt)"
| "add_proxies ident (p # ps) rt =
     and_then (add_proxy ident p rt) (\<lambda>(ev, rt). and_then (add_proxies ident ps rt) (\<lambda>(ev', rt). Inr (ev @ ev', rt)))"

text \<open>
  \<open>add\<close>: null proxies (\<open>None\<close>) are skipped, one rejected proxy rejects the whole request before the table
  changes (and the code closes the connection).  The result is the evicted proxies, the change of size
  that the observer is told, and the table.
\<close>

definition rt_add :: "('p \<Rightarrow> identity) \<Rightarrow> ('p \<Rightarrow> 'p) \<Rightarrow> ('p \<Rightarrow> bool) \<Rightarrow> 'p option list \<Rightarrow> 'p routing_table
    \<Rightarrow> ('p list \<times> int \<times> 'p routing_table) result" where
  "rt_add ident default_form verify unfiltered rt =
     (let ps = map the (filter (\<lambda>p. p \<noteq> None) unfiltered) in
      if \<not> list_all verify ps then Inl ObjectNotExist
      else and_then (add_proxies ident (map default_form ps) rt) (\<lambda>(ev, rt').
        Inr (ev, int_size (rtMap rt') - int_size (rtMap rt), rt')))"

definition rt_get :: "identity \<Rightarrow> 'p routing_table \<Rightarrow> 'p option \<times> 'p routing_table" where
  "rt_get i rt =
     (if idName i = [] then (None, rt)
      else case map_of (rtMap rt) i of
        None \<Rightarrow> (None, rt)
      | Some p \<Rightarrow> (Some p, rt\<lparr>rtQueue := to_back i (rtQueue rt)\<rparr>))"

subsection \<open>The table as a list in order of use\<close>

definition rt_inv :: "'p routing_table \<Rightarrow> bool" where
  "rt_inv rt \<longleftrightarrow> om_wf (rtMap rt) \<and> distinct (rtQueue rt) \<and> set (rtQueue rt) = dom (map_of (rtMap rt))"

definition rt_abs :: "'p routing_table \<Rightarrow> (identity \<times> 'p) list" where
  "rt_abs rt = map (\<lambda>i. (i, the (map_of (rtMap rt) i))) (rtQueue rt)"

text \<open>The specification: a list of entries, least recently used first, cut to the maximum size.\<close>

definition lru_use :: "identity \<Rightarrow> 'p \<Rightarrow> (identity \<times> 'p) list \<Rightarrow> (identity \<times> 'p) list" where
  "lru_use i p l = filter (\<lambda>e. fst e \<noteq> i) l @ [(i, case map_of l i of Some p' \<Rightarrow> p' | None \<Rightarrow> p)]"

definition lru_add :: "nat \<Rightarrow> identity \<Rightarrow> 'p \<Rightarrow> (identity \<times> 'p) list \<Rightarrow> 'p list \<times> (identity \<times> 'p) list" where
  "lru_add n i p l = (let l' = lru_use i p l; k = length l' - n in (map snd (take k l'), drop k l'))"

lemma om_wf_length: "om_wf m \<Longrightarrow> length m = card (dom (map_of m))"
  using om_wf_distinct [of m] by (metis distinct_card dom_map_of_conv_image_fst length_map set_map)

lemma inv_length: "om_wf m \<Longrightarrow> distinct q \<Longrightarrow> set q = dom (map_of m) \<Longrightarrow> length m = length q"
  by (metis om_wf_length distinct_card)

definition entries :: "(identity \<times> 'p) list \<Rightarrow> identity list \<Rightarrow> (identity \<times> 'p) list" where
  "entries m q = map (\<lambda>i. (i, the (map_of m i))) q"

lemma entries_erase: "k \<notin> set q \<Longrightarrow> entries (om_erase k m) q = entries m q"
  by (auto simp: entries_def map_of_om_erase)

lemma int_size_small: "length m < 2147483648 \<Longrightarrow> int_size m = int (length m)"
  by (simp add: int_size_def sint32_of_nat)

lemma evict_entries:
  "om_wf m \<Longrightarrow> distinct q \<Longrightarrow> set q = dom (map_of m) \<Longrightarrow> length q < 2147483648 \<Longrightarrow>
     \<exists>m'. evict (int n) m q =
        Inr (map snd (take (length q - n) (entries m q)), m', drop (length q - n) q)
      \<and> om_wf m' \<and> set (drop (length q - n) q) = dom (map_of m')
      \<and> entries m' (drop (length q - n) q) = drop (length q - n) (entries m q)"
proof (induction q arbitrary: m)
  case Nil
  then have "m = []" by (cases m) auto
  then show ?case by (auto simp: evict.simps int_size_def entries_def)
next
  case (Cons k q)
  have len: "length m = Suc (length q)" using inv_length [OF Cons.prems(1-3)] by simp
  have size: "int_size m = int (Suc (length q))" using len Cons.prems(4) by (simp add: int_size_small)
  show ?case
  proof (cases "Suc (length q) > n")
    case False
    with size Cons.prems show ?thesis by (subst evict.simps) auto
  next
    case True
    obtain p where p: "map_of m k = Some p" using Cons.prems(3) by auto
    have q: "om_wf (om_erase k m)" "distinct q" "set q = dom (map_of (om_erase k m))" "k \<notin> set q" "length q < 2147483648"
      using Cons.prems by (auto simp: om.wf_erase map_of_om_erase)
    from Cons.IH [OF q(1-3,5)] obtain m' where m': "evict (int n) (om_erase k m) q =
        Inr (map snd (take (length q - n) (entries m q)), m', drop (length q - n) q)"
      "om_wf m'" "set (drop (length q - n) q) = dom (map_of m')"
      "entries m' (drop (length q - n) q) = drop (length q - n) (entries m q)"
      using entries_erase [OF q(4), of m] by auto
    have "Suc (length q) - n = Suc (length q - n)" using True by simp
    moreover have "entries m (k # q) = (k, p) # entries m q" by (simp add: entries_def p)
    moreover have "evict (int n) m (k # q) = Inr (p # map snd (take (length q - n) (entries m q)), m', drop (length q - n) q)"
      using True size p m'(1) by (subst evict.simps) simp
    ultimately show ?thesis using m'(2-4) by auto
  qed
qed

lemma rt_abs_entries: "rt_abs rt = entries (rtMap rt) (rtQueue rt)"
  by (simp add: rt_abs_def entries_def)

lemma map_of_entries: "i \<in> set q \<Longrightarrow> map_of (entries m q) i = Some (the (map_of m i))"
  by (induction q) (auto simp: entries_def)

lemma entries_None: "i \<notin> set q \<Longrightarrow> map_of (entries m q) i = None"
  by (induction q) (auto simp: entries_def)

lemma to_back_props:
  assumes "distinct q" "i \<in> set q"
  shows "distinct (to_back i q)" "set (to_back i q) = set q" "length (to_back i q) = length q"
    "entries m (to_back i q) = filter (\<lambda>e. fst e \<noteq> i) (entries m q) @ [(i, the (map_of m i))]"
proof -
  have r: "remove1 i q = filter (\<lambda>k. k \<noteq> i) q"
    using assms(1) by (simp add: distinct_remove1_removeAll removeAll_filter_not_eq conj_commute eq_commute)
  show "distinct (to_back i q)" "set (to_back i q) = set q"
    using assms by (auto simp: to_back_def)
  show "length (to_back i q) = length q"
    using assms length_pos_if_in_set [OF assms(2)] by (simp add: to_back_def length_remove1)
  show "entries m (to_back i q) = filter (\<lambda>e. fst e \<noteq> i) (entries m q) @ [(i, the (map_of m i))]"
    by (simp add: to_back_def r entries_def filter_map comp_def)
qed

text \<open>What an addition leaves before eviction is the list after the use of the entry.\<close>

lemma add_before_evict:
  assumes inv: "rt_inv rt"
    and mq: "(case map_of (rtMap rt) i of
      None \<Rightarrow> (om_insert i p (rtMap rt), rtQueue rt @ [i]) | Some _ \<Rightarrow> (rtMap rt, to_back i (rtQueue rt))) = (m, q)"
  shows "om_wf m \<and> distinct q \<and> set q = dom (map_of m) \<and> entries m q = lru_use i p (rt_abs rt)
    \<and> length q \<le> Suc (length (rtQueue rt))"
proof -
  from inv have wf: "om_wf (rtMap rt)" and d: "distinct (rtQueue rt)" and s: "set (rtQueue rt) = dom (map_of (rtMap rt))"
    by (simp_all add: rt_inv_def)
  show ?thesis
  proof (cases "map_of (rtMap rt) i")
    case None
    then have i: "i \<notin> set (rtQueue rt)" using s by auto
    have m: "map_of (om_insert i p (rtMap rt)) = (map_of (rtMap rt))(i \<mapsto> p)"
      using None wf by (simp add: map_of_om_insert)
    have "filter (\<lambda>e. fst e \<noteq> i) (rt_abs rt) = rt_abs rt"
      using i by (intro filter_True) (auto simp: rt_abs_def)
    moreover have "entries (om_insert i p (rtMap rt)) (rtQueue rt @ [i]) = rt_abs rt @ [(i, p)]"
      using i by (auto simp: entries_def m rt_abs_def)
    ultimately show ?thesis
      using None wf d s i m mq entries_None [OF i, of "rtMap rt"]
      by (auto simp: lru_use_def rt_abs_entries)
  next
    case (Some p')
    then have i: "i \<in> set (rtQueue rt)" using s by auto
    from to_back_props(4) [OF d i, of "rtMap rt"] Some
    have e: "entries (rtMap rt) (to_back i (rtQueue rt)) = filter (\<lambda>e. fst e \<noteq> i) (rt_abs rt) @ [(i, p')]"
      by (simp add: rt_abs_entries)
    from map_of_entries [OF i, of "rtMap rt"] Some have "map_of (rt_abs rt) i = Some p'"
      by (simp add: rt_abs_entries)
    with Some wf s mq to_back_props(1-3) [OF d i] e show ?thesis by (auto simp: lru_use_def)
  qed
qed

text \<open>
  C39: the routing table is a least-recently-used cache.  Seen as the list of its entries in order of use,
  adding a proxy moves its entry (with the proxy that was stored first) to the most recent end and evicts
  exactly the least recently used entries above the maximum size, in that order; a lookup returns the
  stored proxy and makes it the most recent; the map and the queue always hold the same identities.
\<close>

theorem routing_table_is_lru:
  assumes "rt_inv rt" "rtMaxSize rt = int n" "length (rtQueue rt) < 2147483647"
  shows "(\<exists>rt'. add_proxy ident p rt = Inr (fst (lru_add n (ident p) p (rt_abs rt)), rt')
            \<and> rt_abs rt' = snd (lru_add n (ident p) p (rt_abs rt)) \<and> rt_inv rt' \<and> length (rtQueue rt') \<le> n)
       \<and> (idName i \<noteq> [] \<longrightarrow>
            fst (rt_get i rt) = map_of (rt_abs rt) i \<and> rt_inv (snd (rt_get i rt)) \<and>
            rt_abs (snd (rt_get i rt)) = (case map_of (rt_abs rt) i of Some q \<Rightarrow> lru_use i q (rt_abs rt) | None \<Rightarrow> rt_abs rt))"
proof -
  from assms(1) have wf: "om_wf (rtMap rt)" and d: "distinct (rtQueue rt)" and s: "set (rtQueue rt) = dom (map_of (rtMap rt))"
    by (simp_all add: rt_inv_def)
  obtain m q where mq: "(case map_of (rtMap rt) (ident p) of
      None \<Rightarrow> (om_insert (ident p) p (rtMap rt), rtQueue rt @ [ident p])
    | Some _ \<Rightarrow> (rtMap rt, to_back (ident p) (rtQueue rt))) = (m, q)" by (metis surj_pair)
  from add_before_evict [OF assms(1) mq] have b: "om_wf m" "distinct q" "set q = dom (map_of m)"
    "entries m q = lru_use (ident p) p (rt_abs rt)" "length q \<le> Suc (length (rtQueue rt))" by simp_all
  from b(5) assms(3) have "length q < 2147483648" by simp
  from evict_entries [OF b(1-3) this, of n] obtain m' where m':
    "evict (int n) m q = Inr (map snd (take (length q - n) (entries m q)), m', drop (length q - n) q)"
    "om_wf m'" "set (drop (length q - n) q) = dom (map_of m')"
    "entries m' (drop (length q - n) q) = drop (length q - n) (entries m q)" by blast
  have len: "length q = length (lru_use (ident p) p (rt_abs rt))"
    using b(4) by (metis entries_def length_map)
  have "add_proxy ident p rt = Inr (map snd (take (length q - n) (entries m q)), rt\<lparr>rtMap := m', rtQueue := drop (length q - n) q\<rparr>)"
    unfolding add_proxy_def Let_def mq using m'(1) assms(2) by simp
  then have add: "\<exists>rt'. add_proxy ident p rt = Inr (fst (lru_add n (ident p) p (rt_abs rt)), rt')
            \<and> rt_abs rt' = snd (lru_add n (ident p) p (rt_abs rt)) \<and> rt_inv rt' \<and> length (rtQueue rt') \<le> n"
    using m'(2-4) b(2,4) len
    by (simp add: lru_add_def Let_def rt_abs_entries rt_inv_def)
  have get: "fst (rt_get i rt) = map_of (rt_abs rt) i \<and> rt_inv (snd (rt_get i rt)) \<and>
      rt_abs (snd (rt_get i rt)) = (case map_of (rt_abs rt) i of Some q \<Rightarrow> lru_use i q (rt_abs rt) | None \<Rightarrow> rt_abs rt)"
    if "idName i \<noteq> []"
  proof (cases "map_of (rtMap rt) i")
    case None
    then have "i \<notin> set (rtQueue rt)" using s by auto
    then have "map_of (rt_abs rt) i = None" by (simp add: rt_abs_entries entries_None)
    with None that assms(1) show ?thesis by (simp add: rt_get_def)
  next
    case (Some p')
    then have i: "i \<in> set (rtQueue rt)" using s by auto
    from to_back_props(4) [OF d i, of "rtMap rt"] Some
    have e: "entries (rtMap rt) (to_back i (rtQueue rt)) = filter (\<lambda>e. fst e \<noteq> i) (rt_abs rt) @ [(i, p')]"
      by (simp add: rt_abs_entries)
    from map_of_entries [OF i, of "rtMap rt"] Some have "map_of (rt_abs rt) i = Some p'"
      by (simp add: rt_abs_entries)
    with Some that wf s to_back_props(1-3) [OF d i] e show ?thesis
      by (simp add: rt_get_def lru_use_def rt_inv_def rt_abs_entries [of "rt\<lparr>rtQueue := to_back i (rtQueue rt)\<rparr>"])
  qed
  from add get show ?thesis by blast
qed

text \<open>
  C40: with a negative maximum size (the property is read without a check) the first addition evicts its
  own entry and then takes the front of an empty queue.
\<close>

theorem negative_max_size_undefined:
  assumes "n < 0"
  shows "add_proxy ident p (routing_table_new (Some n)) = Inl MemoryError"
  using assms
  by (simp add: add_proxy_def routing_table_new_def evict.simps int_size_def om_erase_def)

theorem negative_max_size_undefined_witness:
  "rt_add (\<lambda>_. \<lparr>idName = ''a'', idCategory = []\<rparr>) id (\<lambda>_. True) [Some (0 :: nat)] (routing_table_new (Some (-1))) = Inl MemoryError"
  using negative_max_size_undefined [of "-1" "\<lambda>_. \<lparr>idName = ''a'', idCategory = []\<rparr>" "0 :: nat"]
  by (simp add: rt_add_def Let_def)

theorem routing_table_is_lru_witness:
  "\<exists>rt'. add_proxy (\<lambda>n. \<lparr>idName = string_of_nat n, idCategory = []\<rparr>) 2
      \<lparr>rtMap = [(\<lparr>idName = ''1'', idCategory = []\<rparr>, 1)], rtQueue = [\<lparr>idName = ''1'', idCategory = []\<rparr>], rtMaxSize = 1\<rparr>
    = Inr ([1], rt') \<and> length (rtQueue rt') \<le> 1"
proof -
  let ?rt = "\<lparr>rtMap = [(\<lparr>idName = ''1'', idCategory = []\<rparr>, 1)], rtQueue = [\<lparr>idName = ''1'', idCategory = []\<rparr>], rtMaxSize = 1\<rparr> :: nat routing_table"
  have inv: "rt_inv ?rt" by (auto simp: rt_inv_def om_wf_def)
  have two: "string_of_nat 2 = ''2''" by (simp add: string_of_nat.simps digit_char_def char_of_def bit_0)
  from routing_table_is_lru [OF inv, of 1 "\<lambda>n. \<lparr>idName = string_of_nat n, idCategory = []\<rparr>" 2]
  show ?thesis by (auto simp: lru_add_def lru_use_def rt_abs_def two)
qed

end
