(* ===== verification/Effects.thy ===== *)
theory Effects
  imports Prelude
begin

section \<open>Operations with state and exceptions\<close>

text \<open>
  A C++ method that changes its object and may throw half way through is a function from the state to
  its outcome (\<open>Inl\<close> an exception, \<open>Inr\<close> a value) and the state it leaves, which a throw does not roll
  back.  A \<open>catch(const LocalException&)\<close> handles the exceptions of the runtime but neither a failed
  \<open>assert\<close>, which ends the process, nor an access outside an object.  \<open>wp m Q R s\<close> says that \<open>m\<close> run from
  \<open>s\<close> gives a value and a state with \<open>Q\<close>, or throws an exception and leaves a state with \<open>R\<close>; the rules
  in \<open>wp_simps\<close> compute it for the combinators.
\<close>

named_theorems wp_simps

type_synonym ('s, 'a) prog = "'s \<Rightarrow> 'a result \<times> 's"

definition ret :: "'a \<Rightarrow> ('s, 'a) prog" where
  "ret x = (\<lambda>s. (Inr x, s))"

definition throw :: "ice_error \<Rightarrow> ('s, 'a) prog" where
  "throw e = (\<lambda>s. (Inl e, s))"

definition bindp :: "('s, 'a) prog \<Rightarrow> ('a \<Rightarrow> ('s, 'b) prog) \<Rightarrow> ('s, 'b) prog" where
  "bindp m f = (\<lambda>s. case m s of (Inl e, s') \<Rightarrow> (Inl e, s') | (Inr x, s') \<Rightarrow> f x s')"

definition seqp :: "('s, 'a) prog \<Rightarrow> ('s, 'b) prog \<Rightarrow> ('s, 'b) prog" where
  "seqp m n = bindp m (\<lambda>_. n)"

definition reads :: "('s \<Rightarrow> 'a) \<Rightarrow> ('s, 'a) prog" where
  "reads f = (\<lambda>s. (Inr (f s), s))"

definition modify :: "('s \<Rightarrow> 's) \<Rightarrow> ('s, unit) prog" where
  "modify f = (\<lambda>s. (Inr (), f s))"

definition lift :: "'a result \<Rightarrow> ('s, 'a) prog" where
  "lift r = (\<lambda>s. (r, s))"

text \<open>\<open>withp f\<close> runs the operation that \<open>f\<close> chooses by looking at the state.\<close>

definition withp :: "('s \<Rightarrow> ('s, 'a) prog) \<Rightarrow> ('s, 'a) prog" where
  "withp f = (\<lambda>s. f s s)"

definition whenp :: "bool \<Rightarrow> ('s, unit) prog \<Rightarrow> ('s, unit) prog" where
  "whenp b m = (if b then m else ret ())"

definition assertp :: "('s \<Rightarrow> bool) \<Rightarrow> ('s, unit) prog" where
  "assertp P = (\<lambda>s. if P s then (Inr (), s) else (Inl AssertFailed, s))"

definition fatal :: "ice_error \<Rightarrow> bool" where
  "fatal e \<longleftrightarrow> e = AssertFailed \<or> e = MemoryError"

definition catchp :: "('s, 'a) prog \<Rightarrow> (ice_error \<Rightarrow> ('s, 'a) prog) \<Rightarrow> ('s, 'a) prog" where
  "catchp m h = (\<lambda>s. case m s of (Inl e, s') \<Rightarrow> if fatal e then (Inl e, s') else h e s' | r \<Rightarrow> r)"

subsection \<open>Weakest preconditions\<close>

definition wp :: "('s, 'a) prog \<Rightarrow> ('a \<Rightarrow> 's \<Rightarrow> bool) \<Rightarrow> (ice_error \<Rightarrow> 's \<Rightarrow> bool) \<Rightarrow> 's \<Rightarrow> bool" where
  "wp m Q R s \<longleftrightarrow> (case m s of (Inl e, s') \<Rightarrow> R e s' | (Inr x, s') \<Rightarrow> Q x s')"

lemma wp_basic [wp_simps]:
  "wp (ret x) Q R = Q x"
  "wp (throw e) Q R = R e"
  "wp (reads f) Q R s = Q (f s) s"
  "wp (modify g) Q' R s = Q' () (g s)"
  "wp (withp h) Q R s = wp (h s) Q R s"
  "wp (assertp P) Q' R s = (if P s then Q' () s else R AssertFailed s)"
  by (simp_all add: wp_def ret_def throw_def reads_def modify_def withp_def assertp_def fun_eq_iff)

lemma wp_lift [wp_simps]:
  "wp (lift r) Q R s = (case r of Inl e \<Rightarrow> R e s | Inr x \<Rightarrow> Q x s)"
  by (simp add: wp_def lift_def)

lemma wp_bindp [wp_simps]: "wp (bindp m f) Q R = wp m (\<lambda>x. wp (f x) Q R) R"
  by (auto simp: wp_def bindp_def fun_eq_iff split: prod.splits sum.splits)

lemma wp_seqp [wp_simps]: "wp (seqp m n) Q R = wp m (\<lambda>_. wp n Q R) R"
  by (simp add: seqp_def wp_bindp)

lemma wp_whenp [wp_simps]: "wp (whenp b m) Q R s = (if b then wp m Q R s else Q () s)"
  by (simp add: whenp_def wp_basic)

lemma wp_catchp [wp_simps]:
  "wp (catchp m h) Q R = wp m Q (\<lambda>e s'. if fatal e then R e s' else wp (h e) Q R s')"
  by (auto simp: wp_def catchp_def fun_eq_iff split: prod.splits sum.splits)

lemma wp_if [wp_simps]: "wp (if b then m else n) Q R s = (if b then wp m Q R s else wp n Q R s)"
  by simp

lemma wp_mono:
  assumes "wp m Q R s" "\<And>x s'. Q x s' \<Longrightarrow> Q' x s'" "\<And>e s'. R e s' \<Longrightarrow> R' e s'"
  shows "wp m Q' R' s"
  using assms by (auto simp: wp_def split: prod.splits sum.splits)

lemma wp_weaken:
  assumes "wp m Q (\<lambda>_ _. False) s" "\<And>x s'. Q x s' \<Longrightarrow> Q' x s'"
  shows "wp m Q' R s"
  using assms(1) by (rule wp_mono) (use assms(2) in auto)

lemma wp_conj:
  "wp m Q R s \<Longrightarrow> wp m Q' R' s \<Longrightarrow> wp m (\<lambda>x t. Q x t \<and> Q' x t) (\<lambda>e t. R e t \<and> R' e t) s"
  by (auto simp: wp_def split: prod.splits sum.splits)

lemma wp_run: "wp m (\<lambda>_. P) (\<lambda>_. P) s \<longleftrightarrow> P (snd (m s))"
  by (auto simp: wp_def split: prod.splits sum.splits)

lemma wp_true [simp, wp_simps]: "wp m (\<lambda>_ _. True) (\<lambda>_ _. True) s"
  by (auto simp: wp_def split: prod.splits sum.splits)

lemma wp_cases:
  assumes "wp m Q R s"
  obtains (throws) e s' where "m s = (Inl e, s')" "R e s'" | (returns) x s' where "m s = (Inr x, s')" "Q x s'"
  using assms by (cases "m s"; cases "fst (m s)") (auto simp: wp_def)

end
