(* ===== verification/ConnState.thy ===== *)
theory ConnState
  imports Effects BatchQueue IStream
begin

section \<open>Connections: state, environment and transceiver\<close>

text \<open>
  \<open>Ice::ConnectionI\<close> (cpp/src/Ice/ConnectionI.h) on the platforms with sockets that are polled.  A request
  (\<open>OutgoingAsyncBasePtr\<close>) is its address; what its virtual methods \<open>sent\<close>, \<open>exception\<close> and \<open>response\<close> return,
  that is whether a callback has to be called, is given by the environment.  Everything the connection does
  to the outside (notifications of requests, calls to the thread pool, callbacks) is recorded in \<open>cLog\<close>.
  Tracing, warnings and observers are left out.
\<close>

subsection \<open>Socket operations\<close>

text \<open>\<open>SocketOperation\<close> is a set of two flags; connecting is waited for as writing is.\<close>

record sockop =
  opRead :: bool
  opWrite :: bool

definition OpNone :: sockop where "OpNone = \<lparr>opRead = False, opWrite = False\<rparr>"
definition OpRead :: sockop where "OpRead = \<lparr>opRead = True, opWrite = False\<rparr>"
definition OpWrite :: sockop where "OpWrite = \<lparr>opRead = False, opWrite = True\<rparr>"
definition OpReadWrite :: sockop where "OpReadWrite = \<lparr>opRead = True, opWrite = True\<rparr>"

definition op_or :: "sockop \<Rightarrow> sockop \<Rightarrow> sockop" where
  "op_or a b = \<lparr>opRead = opRead a \<or> opRead b, opWrite = opWrite a \<or> opWrite b\<rparr>"

definition op_minus :: "sockop \<Rightarrow> sockop \<Rightarrow> sockop" where
  "op_minus a b = \<lparr>opRead = opRead a \<and> \<not> opRead b, opWrite = opWrite a \<and> \<not> opWrite b\<rparr>"

lemmas op_defs = OpNone_def OpRead_def OpWrite_def OpReadWrite_def op_or_def op_minus_def

lemma op_sel [simp]:
  "opRead OpNone = False" "opWrite OpNone = False" "opRead OpRead" "opWrite OpRead = False"
  "opRead OpWrite = False" "opWrite OpWrite" "opRead OpReadWrite" "opWrite OpReadWrite"
  "opRead (op_or a b) = (opRead a \<or> opRead b)" "opWrite (op_or a b) = (opWrite a \<or> opWrite b)"
  "opRead (op_minus a b) = (opRead a \<and> \<not> opRead b)" "opWrite (op_minus a b) = (opWrite a \<and> \<not> opWrite b)"
  by (simp_all add: op_defs)

lemma op_none_iff: "a = OpNone \<longleftrightarrow> \<not> opRead a \<and> \<not> opWrite a"
  by (cases a) (auto simp: OpNone_def)

subsection \<open>States and configuration\<close>

datatype conn_state =
    StateNotInitialized | StateNotValidated | StateActive | StateHolding
  | StateClosing | StateClosingPending | StateClosed | StateFinished

fun state_num :: "conn_state \<Rightarrow> nat" where
  "state_num StateNotInitialized = 0"
| "state_num StateNotValidated = 1"
| "state_num StateActive = 2"
| "state_num StateHolding = 3"
| "state_num StateClosing = 4"
| "state_num StateClosingPending = 5"
| "state_num StateClosed = 6"
| "state_num StateFinished = 7"

lemma state_num_inject: "state_num a = state_num b \<Longrightarrow> a = b"
  by (cases a; cases b) simp_all

instantiation conn_state :: linorder
begin

definition less_eq_conn_state :: "conn_state \<Rightarrow> conn_state \<Rightarrow> bool" where
  "a \<le> b \<longleftrightarrow> state_num a \<le> state_num b"

definition less_conn_state :: "conn_state \<Rightarrow> conn_state \<Rightarrow> bool" where
  "a < b \<longleftrightarrow> state_num a < state_num b"

instance
  by intro_classes (auto simp: less_eq_conn_state_def less_conn_state_def intro: state_num_inject)

end

lemmas state_order = less_eq_conn_state_def less_conn_state_def

text \<open>What \<open>Ice::ACM\<close> configures.\<close>

datatype acm_close = CloseOff | CloseOnIdle | CloseOnInvocation | CloseOnInvocationAndIdle | CloseOnIdleForceful

datatype acm_heartbeat = HeartbeatOff | HeartbeatOnDispatch | HeartbeatOnIdle | HeartbeatAlways

record acm_config =
  acmTimeout :: nat
  acmHeartbeat :: acm_heartbeat
  acmClose :: acm_close

text \<open>\<open>ConnectionClose\<close> and the reasons of \<open>destroy\<close>.\<close>

datatype close_mode = Forcefully | Gracefully | GracefullyWithWait

datatype destruction_reason = ReasonAdapterDeactivated | ReasonCommunicatorDestroyed

datatype conn_event =
    EvSent nat
  | EvException nat ice_error
  | EvInvokeException nat
  | EvInvokeExceptionAsync nat
  | EvResponse nat "byte list"
  | EvInvokeResponse nat
  | EvInvokeSent nat
  | EvHeartbeatCallback
  | EvCloseCallback
  | EvStartCompleted
  | EvStartFailed ice_error
  | EvInvocations ice_int ice_int byte "byte list"
  | EvPoolFinish
  | EvTransceiverClose
  | EvMonitorAdd
  | EvMonitorRemove
  | EvReap

text \<open>The answers of the operating system to the calls of the transceiver, in the order of the calls.\<close>

datatype tx_answer = Moved nat | Got "byte list" | InitOp sockop | Broken ice_error

text \<open>
  The environment: the endpoint (\<open>eDatagram\<close>, \<open>eTimeout\<close>) and the configuration, the transceiver's answer to
  \<open>closing(initiator)\<close> and its limit for messages, whether the selector closes at once (\<open>eCloseNow\<close>), libbz2,
  and what the requests' methods return.  \<open>eIsOutgoingAsync\<close> tells which requests are invocations (and not
  flushed batches or heartbeats), \<open>eTwoway\<close> which of them wait for a reply.
\<close>

record conn_env =
  eDatagram :: bool
  eTimeout :: int
  eConnectTimeout :: "int option"
  eCloseTimeout :: "int option"
  eMessageSizeMax :: nat
  eClosing :: "bool \<Rightarrow> sockop"
  eCheckSendSize :: "byte list \<Rightarrow> ice_error option"
  eCloseNow :: bool
  eBzCompress :: "byte list \<Rightarrow> byte list option"
  eBzDecompress :: "nat \<Rightarrow> byte list \<Rightarrow> byte list option"
  eIsOutgoingAsync :: "nat \<Rightarrow> bool"
  eTwoway :: "nat \<Rightarrow> bool"
  eWantsSent :: "nat \<Rightarrow> bool"
  eWantsException :: "nat \<Rightarrow> ice_error \<Rightarrow> bool"
  eWantsResponse :: "nat \<Rightarrow> byte list \<Rightarrow> bool"

subsection \<open>Buffers and queued messages\<close>

text \<open>\<open>Buffer\<close>: the bytes and the iterator \<open>i\<close>, an index or null.\<close>

record cbuf =
  bBytes :: "byte list"
  bPos :: "nat option"

definition empty_buf :: cbuf where "empty_buf = \<lparr>bBytes = [], bPos = Some 0\<rparr>"

text \<open>
  \<open>OutgoingMessage\<close>: \<open>omStream\<close> is the stream it points to (null after \<open>sent\<close> and \<open>completed\<close>), held by value;
  \<open>omAdopted\<close> tells whether the message owns it.
\<close>

record out_msg =
  omStream :: "cbuf option"
  omAsync :: "nat option"
  omCompress :: bool
  omRequestId :: ice_int
  omAdopted :: bool

definition mk_msg :: "nat option \<Rightarrow> byte list \<Rightarrow> bool \<Rightarrow> ice_int \<Rightarrow> out_msg" where
  "mk_msg out bs compress rid = \<lparr>omStream = Some \<lparr>bBytes = bs, bPos = Some 0\<rparr>, omAsync = out, omCompress = compress,
     omRequestId = rid, omAdopted = False\<rparr>"

text \<open>\<open>adopt\<close> with a stream of its own or with null.\<close>

definition adopt :: "cbuf option \<Rightarrow> out_msg \<Rightarrow> out_msg" where
  "adopt str m =
     (case str of
        Some b \<Rightarrow> m\<lparr>omStream := Some b, omAdopted := True\<rparr>
      | None \<Rightarrow> if omAdopted m \<or> omAsync m \<noteq> None then m else m\<lparr>omAdopted := True\<rparr>)"

text \<open>What the thread pool still has to call for this connection: the callbacks of one \<open>message\<close>.\<close>

record work =
  wStart :: bool
  wSent :: "nat list"
  wAsync :: "nat option"
  wHeartbeat :: bool
  wInvokeNum :: ice_int
  wRequestId :: ice_int
  wCompress :: byte
  wStream :: "byte list"

definition no_work :: work where
  "no_work = \<lparr>wStart = False, wSent = [], wAsync = None, wHeartbeat = False, wInvokeNum = 0, wRequestId = 0,
     wCompress = 0, wStream = []\<rparr>"

subsection \<open>The connection\<close>

text \<open>
  \<open>cAsyncRequests\<close> is the map from request ids (which are positive) to requests and \<open>cHint\<close> the key that
  \<open>_asyncRequestsHint\<close> stands on; time 0 is the null \<open>IceUtil::Time\<close>.  \<open>cRegistered\<close>, \<open>cPoolFinished\<close> are what the
  thread pool knows of the connection; \<open>cWork\<close> the callbacks and \<open>cOutstanding\<close> the number of incoming
  invocations that are not finished; \<open>cAnswers\<close> what the transceiver will do, \<open>cWire\<close> what it has sent.
\<close>

record conn =
  cState :: conn_state
  cException :: "ice_error option"
  cShutdownInitiated :: bool
  cInitialized :: bool
  cValidated :: bool
  cHasAdapter :: bool
  cDispatchCount :: ice_int
  cNextRequestId :: ice_int
  cAsyncRequests :: "(ice_int \<times> nat) list"
  cHint :: "ice_int option"
  cSendStreams :: "out_msg list"
  cReadBuf :: cbuf
  cReadHeader :: bool
  cWriteBuf :: cbuf
  cBatch :: batch_queue
  cMonitor :: "acm_config option"
  cAcmLast :: nat
  cStartCallback :: bool
  cCloseCallback :: bool
  cHeartbeatCallback :: bool
  cReadTimeout :: bool
  cWriteTimeout :: bool
  cNow :: nat
  cRegistered :: sockop
  cPoolFinished :: bool
  cWork :: "work list"
  cOutstanding :: nat
  cAnswers :: "tx_answer list"
  cWire :: "byte list"
  cLog :: "conn_event list"

type_synonym 'a cm = "(conn, 'a) prog"

definition emit :: "conn_event \<Rightarrow> unit cm" where
  "emit e = modify (\<lambda>c. c\<lparr>cLog := cLog c @ [e]\<rparr>)"

definition connection_new :: "conn_env \<Rightarrow> bool \<Rightarrow> acm_config option \<Rightarrow> batch_queue \<Rightarrow> nat \<Rightarrow> tx_answer list \<Rightarrow> conn" where
  "connection_new E adapter monitor batch now answers =
     \<lparr>cState = StateNotInitialized, cException = None, cShutdownInitiated = False, cInitialized = False,
      cValidated = False, cHasAdapter = adapter, cDispatchCount = 0, cNextRequestId = 1, cAsyncRequests = [],
      cHint = None, cSendStreams = [], cReadBuf = empty_buf, cReadHeader = False, cWriteBuf = empty_buf,
      cBatch = batch, cMonitor = monitor,
      cAcmLast = (case monitor of Some a \<Rightarrow> if acmTimeout a > 0 then now else 0 | None \<Rightarrow> 0),
      cStartCallback = False, cCloseCallback = False, cHeartbeatCallback = False, cReadTimeout = False,
      cWriteTimeout = False, cNow = now, cRegistered = OpNone, cPoolFinished = False, cWork = [],
      cOutstanding = 0, cAnswers = answers, cWire = [], cLog = []\<rparr>"

subsection \<open>The transceiver\<close>

text \<open>
  \<open>StreamSocket::write\<close> and \<open>read\<close>: they move what the operating system takes or has and report whether the
  buffer is finished; no call is made for an empty rest.  A datagram transceiver reads a whole packet and makes the
  buffer as long as it.  A broken socket throws.
\<close>

definition buf_pos :: "cbuf \<Rightarrow> nat" where
  "buf_pos b = (case bPos b of Some p \<Rightarrow> p | None \<Rightarrow> 0)"

definition at_end :: "cbuf \<Rightarrow> bool" where
  "at_end b \<longleftrightarrow> bPos b = Some (length (bBytes b))"

definition pop_answer :: "unit cm" where
  "pop_answer = modify (\<lambda>c. c\<lparr>cAnswers := tl (cAnswers c)\<rparr>)"

definition tx_write :: "cbuf \<Rightarrow> (sockop \<times> cbuf) cm" where
  "tx_write b = withp (\<lambda>c.
     let rest = drop (buf_pos b) (bBytes b) in
     if rest = [] then ret (OpNone, b)
     else seqp pop_answer
       (case cAnswers c of
          Broken e # _ \<Rightarrow> throw e
        | Moved k # _ \<Rightarrow>
            (let n = min k (length rest) in
             seqp (modify (\<lambda>c. c\<lparr>cWire := cWire c @ take n rest\<rparr>))
               (ret (if n < length rest then OpWrite else OpNone, b\<lparr>bPos := Some (buf_pos b + n)\<rparr>)))
        | _ \<Rightarrow> ret (OpWrite, b)))"

definition tx_read :: "conn_env \<Rightarrow> cbuf \<Rightarrow> (sockop \<times> cbuf) cm" where
  "tx_read E b = withp (\<lambda>c.
     let room = length (bBytes b) - buf_pos b in
     if room = 0 \<and> \<not> eDatagram E then ret (OpNone, b)
     else seqp pop_answer
       (case cAnswers c of
          Broken e # _ \<Rightarrow> throw e
        | Got bs # _ \<Rightarrow>
            if eDatagram E then ret (OpNone, \<lparr>bBytes = bs, bPos = Some (length bs)\<rparr>)
            else ret (if length bs < room then OpRead else OpNone,
                      b\<lparr>bBytes := poke (bBytes b) (buf_pos b) (take room bs),
                        bPos := Some (buf_pos b + min room (length bs))\<rparr>)
        | _ \<Rightarrow> ret (OpRead, b)))"

definition tx_initialize :: "sockop cm" where
  "tx_initialize = withp (\<lambda>c. seqp pop_answer
     (case cAnswers c of
        Broken e # _ \<Rightarrow> throw e
      | InitOp op # _ \<Rightarrow> ret op
      | _ \<Rightarrow> ret OpNone))"

subsection \<open>The thread pool\<close>

text \<open>
  \<open>ThreadPool::update\<close>, \<open>_register\<close>, \<open>unregister\<close> and \<open>finish\<close> as far as this handler is concerned; after
  \<open>finish\<close> the pool calls \<open>finished\<close> once and nothing else.
\<close>

definition pool_update :: "sockop \<Rightarrow> sockop \<Rightarrow> unit cm" where
  "pool_update remove add = modify (\<lambda>c.
     let remove = op_minus remove add in c\<lparr>cRegistered := op_or (op_minus (cRegistered c) remove) add\<rparr>)"

definition pool_register :: "sockop \<Rightarrow> unit cm" where
  "pool_register op = pool_update OpNone op"

definition pool_unregister :: "sockop \<Rightarrow> unit cm" where
  "pool_unregister op = pool_update op OpNone"

definition pool_finish :: "conn_env \<Rightarrow> bool cm" where
  "pool_finish E = seqp (modify (\<lambda>c. c\<lparr>cRegistered := OpNone, cPoolFinished := True\<rparr>))
     (seqp (emit EvPoolFinish) (ret (eCloseNow E)))"

subsection \<open>Timeouts\<close>

definition sched_timeout_value :: "conn_env \<Rightarrow> conn_state \<Rightarrow> int" where
  "sched_timeout_value E st =
     (if st < StateActive then (case eConnectTimeout E of Some t \<Rightarrow> t | None \<Rightarrow> eTimeout E)
      else if st < StateClosingPending then eTimeout E
      else (case eCloseTimeout E of Some t \<Rightarrow> t | None \<Rightarrow> eTimeout E))"

definition scheduleTimeout :: "conn_env \<Rightarrow> sockop \<Rightarrow> unit cm" where
  "scheduleTimeout E status = modify (\<lambda>c.
     let status = (if StateActive \<le> cState c \<and> cState c < StateClosingPending \<and> cReadHeader c
                   then op_minus status OpRead else status) in
     if sched_timeout_value E (cState c) < 0 then c
     else c\<lparr>cReadTimeout := cReadTimeout c \<or> opRead status, cWriteTimeout := cWriteTimeout c \<or> opWrite status\<rparr>)"

definition unscheduleTimeout :: "sockop \<Rightarrow> unit cm" where
  "unscheduleTimeout status = modify (\<lambda>c.
     c\<lparr>cReadTimeout := cReadTimeout c \<and> \<not> opRead status, cWriteTimeout := cWriteTimeout c \<and> \<not> opWrite status\<rparr>)"

end
