(* ===== verification/Connection.thy ===== *)
theory Connection
  imports ConnState
begin

section \<open>Connections: operations\<close>

text \<open>
  The methods of \<open>Ice::ConnectionI\<close> (cpp/src/Ice/ConnectionI.cpp).  The monitor of the connection makes each
  of them one step.  Every method that reaches the environment takes it as \<open>E\<close>.
\<close>

subsection \<open>Messages of the connection itself\<close>

text \<open>A message without a body: close and validate connection.\<close>

definition control_message :: "byte \<Rightarrow> byte \<Rightarrow> byte list" where
  "control_message messageType compress =
     magic @ [protocolMajor, protocolMinor, protocolEncodingMajor, protocolEncodingMinor, messageType, compress]
       @ le_bytes 4 (word_of_nat headerSize :: ice_int)"

definition close_message :: "byte list" where
  "close_message = control_message closeConnectionMsg 1"

definition validate_message :: "byte list" where
  "validate_message = control_message validateConnectionMsg 0"

definition fill_size :: "byte list \<Rightarrow> byte list" where
  "fill_size bs = poke bs 10 (le_bytes 4 (word_of_nat (length bs) :: ice_int))"

text \<open>The sender of a message that may be compressed marks it in the compression status byte.\<close>

definition mark_compress :: "byte \<Rightarrow> bool \<Rightarrow> byte list \<Rightarrow> byte list" where
  "mark_compress v compress bs = (if compress then bs[9 := v] else bs)"

definition doCompress :: "conn_env \<Rightarrow> byte list \<Rightarrow> byte list result" where
  "doCompress E bs =
     (case eBzCompress E (drop headerSize bs) of
        None \<Rightarrow> Inl CompressionError
      | Some body \<Rightarrow>
          (let size = headerSize + 4 + length body in
           Inr (poke (take headerSize bs) 10 (le_bytes 4 (word_of_nat size :: ice_int))
             @ le_bytes 4 (word_of_nat (length bs) :: ice_int) @ body)))"

definition doUncompress :: "conn_env \<Rightarrow> byte list \<Rightarrow> byte list result" where
  "doUncompress E bs =
     and_then (read_int ((istream_init currentProtocolEncoding bs)\<lparr>ipos := headerSize\<rparr>)) (\<lambda>(size, s).
       if sint size \<le> int headerSize then Inl IllegalMessageSize
       else if sint size > sint (word_of_nat (eMessageSizeMax E) :: ice_int) then Inl MemoryLimit
       else
         (let len = unat size - headerSize in
          case eBzDecompress E len (drop (headerSize + 4) bs) of
            None \<Rightarrow> Inl CompressionError
          | Some body \<Rightarrow> Inr (take headerSize bs @ take len body @ replicate (len - length body) 0)))"

subsection \<open>Requests and timers\<close>

definition touch :: "unit cm" where
  "touch = modify (\<lambda>c. if cAcmLast c \<noteq> 0 then c\<lparr>cAcmLast := cNow c\<rparr> else c)"

text \<open>\<open>OutgoingMessage::sent\<close> and \<open>completed\<close>.\<close>

definition msg_sent :: "conn_env \<Rightarrow> out_msg \<Rightarrow> bool cm" where
  "msg_sent E m =
     (case omAsync m of None \<Rightarrow> ret False | Some out \<Rightarrow> seqp (emit (EvSent out)) (ret (eWantsSent E out)))"

definition notify_exception :: "conn_env \<Rightarrow> ice_error \<Rightarrow> nat \<Rightarrow> unit cm" where
  "notify_exception E ex out =
     seqp (emit (EvException out ex)) (whenp (eWantsException E out ex) (emit (EvInvokeException out)))"

definition notify_exception_async :: "conn_env \<Rightarrow> ice_error \<Rightarrow> nat \<Rightarrow> unit cm" where
  "notify_exception_async E ex out =
     seqp (emit (EvException out ex)) (whenp (eWantsException E out ex) (emit (EvInvokeExceptionAsync out)))"

definition msg_completed :: "conn_env \<Rightarrow> ice_error \<Rightarrow> out_msg \<Rightarrow> unit cm" where
  "msg_completed E ex m = (case omAsync m of None \<Rightarrow> ret () | Some out \<Rightarrow> notify_exception E ex out)"

text \<open>\<open>OutgoingMessage::canceled\<close>.\<close>

definition msg_canceled :: "bool \<Rightarrow> out_msg \<Rightarrow> out_msg" where
  "msg_canceled adoptStream m = (let m = m\<lparr>omAsync := None\<rparr> in if adoptStream then adopt None m else m)"

definition deref_exception :: "ice_error cm" where
  "deref_exception = withp (\<lambda>c. case cException c of Some e \<Rightarrow> ret e | None \<Rightarrow> throw MemoryError)"

text \<open>\<open>_exception->ice_throw()\<close> after \<open>assert(_exception)\<close>.\<close>

definition rethrow :: "'a cm" where
  "rethrow = seqp (assertp (\<lambda>c. cException c \<noteq> None)) (bindp deref_exception throw)"

subsection \<open>Sending\<close>

datatype async_status = AsyncQueued | AsyncSent bool

text \<open>The end of both branches of \<open>sendMessage\<close>: the message is written or left to the selector thread.\<close>

definition write_or_queue :: "conn_env \<Rightarrow> out_msg \<Rightarrow> cbuf \<Rightarrow> (cbuf \<Rightarrow> out_msg) \<Rightarrow> async_status cm" where
  "write_or_queue E m b queued =
     bindp (tx_write b) (\<lambda>(op, b).
       if op = OpNone then bindp (msg_sent E m) (\<lambda>cb. seqp touch (ret (AsyncSent cb)))
       else seqp (modify (\<lambda>c. c\<lparr>cSendStreams := cSendStreams c @ [(queued b)\<lparr>omStream := Some (cWriteBuf c)\<rparr>],
                               cWriteBuf := b\<rparr>))
            (seqp (scheduleTimeout E op) (seqp (pool_register op) (ret AsyncQueued))))"

definition msg_bytes :: "out_msg \<Rightarrow> byte list" where
  "msg_bytes m = (case omStream m of Some b \<Rightarrow> bBytes b | None \<Rightarrow> [])"

definition sendMessage :: "conn_env \<Rightarrow> out_msg \<Rightarrow> async_status cm" where
  "sendMessage E m =
     seqp (assertp (\<lambda>c. cState c < StateClosed)) (withp (\<lambda>c.
       if cSendStreams c \<noteq> [] then
         seqp (modify (\<lambda>c. c\<lparr>cSendStreams := cSendStreams c @
             [adopt None (m\<lparr>omStream := Some \<lparr>bBytes = msg_bytes m, bPos = None\<rparr>\<rparr>)]\<rparr>)) (ret AsyncQueued)
       else if omCompress m \<and> length (msg_bytes m) \<ge> 100 then
         bindp (lift (doCompress E (mark_compress 2 True (msg_bytes m)))) (\<lambda>bs.
           write_or_queue E m \<lparr>bBytes = bs, bPos = Some 0\<rparr> (\<lambda>b. adopt (Some b) m))
       else
         write_or_queue E m \<lparr>bBytes = fill_size (mark_compress 1 (omCompress m) (msg_bytes m)), bPos = Some 0\<rparr>
           (\<lambda>b. adopt None (m\<lparr>omStream := Some b\<rparr>))))"

subsection \<open>Changing the state\<close>

text \<open>
  \<open>setState(State)\<close> and \<open>initiateShutdown\<close> call each other: entering \<open>StateClosing\<close> without a dispatch in
  progress sends the close message, and once that is sent the state becomes \<open>StateClosingPending\<close>, or
  \<open>StateClosed\<close> when sending fails.  The calls that \<open>initiateShutdown\<close> and its handler make do not enter
  \<open>StateClosing\<close>, so they run the body \<open>switch_state\<close> only.  \<open>switch_state\<close> tells whether it reached the end
  of the method, where the shutdown is started.
\<close>

definition effective_state :: "conn_env \<Rightarrow> conn \<Rightarrow> conn_state \<Rightarrow> conn_state" where
  "effective_state E c st =
     (let st = if eDatagram E \<and> st = StateClosing then StateClosed else st in
      if cState c \<le> StateNotValidated \<and> st = StateClosing then StateClosed else st)"

text \<open>The switch statement: whether the method goes on to change the state.\<close>

definition leave_state :: "conn_env \<Rightarrow> conn_state \<Rightarrow> bool cm" where
  "leave_state E st = withp (\<lambda>c.
     case st of
       StateNotInitialized \<Rightarrow> throw AssertFailed
     | StateNotValidated \<Rightarrow>
         if cState c \<noteq> StateNotInitialized then seqp (assertp (\<lambda>c. cState c = StateClosed)) (ret False) else ret True
     | StateActive \<Rightarrow>
         if cState c \<noteq> StateHolding \<and> cState c \<noteq> StateNotValidated then ret False
         else seqp (pool_register OpRead) (ret True)
     | StateHolding \<Rightarrow>
         if cState c \<noteq> StateActive \<and> cState c \<noteq> StateNotValidated then ret False
         else seqp (whenp (cState c = StateActive) (pool_unregister OpRead)) (ret True)
     | StateClosing \<Rightarrow> ret (cState c < StateClosingPending)
     | StateClosingPending \<Rightarrow> ret (cState c < StateClosingPending)
     | StateClosed \<Rightarrow>
         if cState c = StateFinished then ret False
         else bindp deref_exception (\<lambda>e.
           seqp (modify (\<lambda>c. c\<lparr>cBatch := bq_destroy e (cBatch c)\<rparr>))
             (bindp (pool_finish E) (\<lambda>now. seqp (whenp now (emit EvTransceiverClose)) (ret True))))
     | StateFinished \<Rightarrow> seqp (assertp (\<lambda>c. cState c = StateClosed)) (ret True))"

text \<open>Only active connections are registered with the monitor for active connection management.\<close>

definition update_monitor :: "conn_state \<Rightarrow> unit cm" where
  "update_monitor st = withp (\<lambda>c.
     whenp (cMonitor c \<noteq> None)
       (if st = StateActive then seqp touch (emit EvMonitorAdd)
        else whenp (cState c = StateActive) (emit EvMonitorRemove)))"

definition switch_state :: "conn_env \<Rightarrow> conn_state \<Rightarrow> bool cm" where
  "switch_state E st = withp (\<lambda>c.
     let st = effective_state E c st in
     if cState c = st then ret False
     else bindp (leave_state E st) (\<lambda>go.
       if go then seqp (update_monitor st) (seqp (modify (\<lambda>c. c\<lparr>cState := st\<rparr>)) (ret True))
       else ret False))"

text \<open>The part of \<open>setState(State, const LocalException&)\<close> in front of \<open>setState(State)\<close>; it tells whether to go on.\<close>

definition record_exception :: "conn_state \<Rightarrow> ice_error \<Rightarrow> bool cm" where
  "record_exception st ex =
     seqp (assertp (\<lambda>_. StateClosing \<le> st)) (withp (\<lambda>c.
       if cState c = st then ret False
       else seqp (whenp (cException c = None)
                   (seqp (assertp (\<lambda>c. cState c \<noteq> StateClosed)) (modify (\<lambda>c. c\<lparr>cException := Some ex\<rparr>))))
              (ret True)))"

definition close_now :: "conn_env \<Rightarrow> ice_error \<Rightarrow> unit cm" where
  "close_now E ex =
     bindp (record_exception StateClosed ex) (\<lambda>go. whenp go (seqp (switch_state E StateClosed) (ret ())))"

definition initiateShutdown :: "conn_env \<Rightarrow> unit cm" where
  "initiateShutdown E =
     seqp (assertp (\<lambda>c. cState c = StateClosing \<and> cDispatchCount c = 0)) (withp (\<lambda>c.
       if cShutdownInitiated c then ret ()
       else seqp (modify (\<lambda>c. c\<lparr>cShutdownInitiated := True\<rparr>))
         (whenp (\<not> eDatagram E)
           (bindp (sendMessage E (mk_msg None close_message False 0)) (\<lambda>status.
             whenp (status \<noteq> AsyncQueued)
               (seqp (switch_state E StateClosingPending)
                 (let op = eClosing E True in
                  whenp (op \<noteq> OpNone) (seqp (scheduleTimeout E op) (pool_register op)))))))))"

definition setState :: "conn_env \<Rightarrow> conn_state \<Rightarrow> unit cm" where
  "setState E st =
     bindp (switch_state E st) (\<lambda>go. withp (\<lambda>c.
       whenp (go \<and> cState c = StateClosing \<and> cDispatchCount c = 0)
         (catchp (initiateShutdown E) (close_now E))))"

definition setStateEx :: "conn_env \<Rightarrow> conn_state \<Rightarrow> ice_error \<Rightarrow> unit cm" where
  "setStateEx E st ex = bindp (record_exception st ex) (\<lambda>go. whenp go (setState E st))"

subsection \<open>The application's operations\<close>

definition activate :: "conn_env \<Rightarrow> unit cm" where
  "activate E = withp (\<lambda>c. if cState c \<le> StateNotValidated then ret () else seqp touch (setState E StateActive))"

definition hold :: "conn_env \<Rightarrow> unit cm" where
  "hold E = withp (\<lambda>c. if cState c \<le> StateNotValidated then ret () else setState E StateHolding)"

definition conn_destroy :: "conn_env \<Rightarrow> destruction_reason \<Rightarrow> unit cm" where
  "conn_destroy E reason =
     (case reason of
        ReasonAdapterDeactivated \<Rightarrow> setStateEx E StateClosing ObjectAdapterDeactivated
      | ReasonCommunicatorDestroyed \<Rightarrow> setStateEx E StateClosing CommunicatorDestroyed)"

text \<open>\<open>close(GracefullyWithWait)\<close> waits until \<open>close_ready\<close> holds.\<close>

definition close_ready :: "close_mode \<Rightarrow> conn \<Rightarrow> bool" where
  "close_ready mode c \<longleftrightarrow> mode = GracefullyWithWait \<longrightarrow> cAsyncRequests c = []"

definition conn_close :: "conn_env \<Rightarrow> close_mode \<Rightarrow> unit cm" where
  "conn_close E mode =
     (case mode of
        Forcefully \<Rightarrow> setStateEx E StateClosed (ConnectionManuallyClosed False)
      | Gracefully \<Rightarrow> setStateEx E StateClosing (ConnectionManuallyClosed True)
      | GracefullyWithWait \<Rightarrow> setStateEx E StateClosing (ConnectionManuallyClosed True))"

definition isActiveOrHolding :: "conn \<Rightarrow> bool" where
  "isActiveOrHolding c \<longleftrightarrow> StateNotValidated < cState c \<and> cState c < StateClosing"

definition isFinished :: "conn \<Rightarrow> bool" where
  "isFinished c \<longleftrightarrow> cState c = StateFinished \<and> cDispatchCount c = 0"

definition throwException :: "unit cm" where
  "throwException = withp (\<lambda>c. case cException c of
     None \<Rightarrow> ret () | Some e \<Rightarrow> seqp (assertp (\<lambda>c. StateClosing \<le> cState c)) (throw e))"

text \<open>The conditions under which \<open>waitUntilHolding\<close> and \<open>waitUntilFinished\<close> return.\<close>

definition holding_reached :: "conn \<Rightarrow> bool" where
  "holding_reached c \<longleftrightarrow> \<not> (cState c < StateHolding \<or> 0 <s cDispatchCount c)"

definition finished_reached :: "conn \<Rightarrow> bool" where
  "finished_reached c \<longleftrightarrow> \<not> (cState c < StateFinished \<or> 0 <s cDispatchCount c)"

text \<open>\<open>timedOut\<close> runs in the timer's thread, \<open>exception\<close> is called by the connection factory.\<close>

definition timedOut :: "conn_env \<Rightarrow> unit cm" where
  "timedOut E = withp (\<lambda>c.
     if cState c \<le> StateNotValidated then setStateEx E StateClosed ConnectTimeout
     else if cState c < StateClosing then setStateEx E StateClosed ReadWriteTimeout
     else if cState c < StateClosed then setStateEx E StateClosed CloseTimeout
     else ret ())"

definition conn_exception :: "conn_env \<Rightarrow> ice_error \<Rightarrow> unit cm" where
  "conn_exception E ex = setStateEx E StateClosed ex"

subsection \<open>Active connection management\<close>

definition sendHeartbeatNow :: "conn_env \<Rightarrow> unit cm" where
  "sendHeartbeatNow E =
     seqp (assertp (\<lambda>c. cState c = StateActive))
       (whenp (\<not> eDatagram E)
         (catchp (bindp (sendMessage E (mk_msg None validate_message False 0)) (\<lambda>_. ret ()))
           (\<lambda>ex. seqp (setStateEx E StateClosed ex) (assertp (\<lambda>c. cException c \<noteq> None)))))"

definition heartbeat_due :: "nat \<Rightarrow> acm_config \<Rightarrow> conn \<Rightarrow> bool" where
  "heartbeat_due now acm c \<longleftrightarrow>
     (acmHeartbeat acm = HeartbeatAlways
       \<or> acmHeartbeat acm \<noteq> HeartbeatOff \<and> bBytes (cWriteBuf c) = [] \<and> cAcmLast c + acmTimeout acm div 4 \<le> now)
     \<and> (acmHeartbeat acm \<noteq> HeartbeatOnDispatch \<or> 0 <s cDispatchCount c)"

definition conn_monitor :: "conn_env \<Rightarrow> nat \<Rightarrow> acm_config \<Rightarrow> unit cm" where
  "conn_monitor E now acm = withp (\<lambda>c.
     if cState c \<noteq> StateActive then ret ()
     else seqp (assertp (\<lambda>_. acmTimeout acm \<noteq> 0))
       (seqp (whenp (heartbeat_due now acm c) (sendHeartbeatNow E))
         (withp (\<lambda>c.
           if length (bBytes (cReadBuf c)) > headerSize \<or> bBytes (cWriteBuf c) \<noteq> [] then ret ()
           else whenp (acmClose acm \<noteq> CloseOff \<and> cAcmLast c + acmTimeout acm \<le> now)
             (if acmClose acm = CloseOnIdleForceful \<or> acmClose acm \<noteq> CloseOnIdle \<and> cAsyncRequests c \<noteq> []
              then setStateEx E StateClosed ConnectionTimeout
              else whenp (acmClose acm \<noteq> CloseOnInvocation \<and> cDispatchCount c = 0 \<and> bq_isEmpty (cBatch c)
                          \<and> cAsyncRequests c = [])
                (setStateEx E StateClosing ConnectionTimeout))))))"

text \<open>
  \<open>setACM\<close>: the monitor is replaced by one of the connection's own with the settings that are given; a
  negative timeout is refused.
\<close>

definition override_acm :: "int option \<Rightarrow> acm_close option \<Rightarrow> acm_heartbeat option \<Rightarrow> acm_config \<Rightarrow> acm_config" where
  "override_acm timeout close heartbeat a =
     \<lparr>acmTimeout = (case timeout of Some t \<Rightarrow> nat t * 1000000 | None \<Rightarrow> acmTimeout a),
      acmHeartbeat = (case heartbeat of Some h \<Rightarrow> h | None \<Rightarrow> acmHeartbeat a),
      acmClose = (case close of Some x \<Rightarrow> x | None \<Rightarrow> acmClose a)\<rparr>"

definition setACM :: "acm_config \<Rightarrow> int option \<Rightarrow> acm_close option \<Rightarrow> acm_heartbeat option \<Rightarrow> unit cm" where
  "setACM factory timeout close heartbeat = withp (\<lambda>c.
     if (case timeout of Some t \<Rightarrow> t < 0 | None \<Rightarrow> False) then throw (IllegalArgument ''invalid negative ACM timeout value'')
     else if cMonitor c = None \<or> StateClosed \<le> cState c then ret ()
     else
       (let a = override_acm timeout close heartbeat factory in
        seqp (whenp (cState c = StateActive) (emit EvMonitorRemove))
          (seqp (modify (\<lambda>c. c\<lparr>cMonitor := Some a\<rparr>))
            (seqp (if acmTimeout a div 1000000 = 0 then modify (\<lambda>c. c\<lparr>cAcmLast := 0\<rparr>)
                   else whenp (cAcmLast c = 0 \<and> cState c = StateActive) (modify (\<lambda>c. c\<lparr>cAcmLast := cNow c\<rparr>)))
              (whenp (cState c = StateActive) (emit EvMonitorAdd))))))"

definition setHeartbeatCallback :: "bool \<Rightarrow> unit cm" where
  "setHeartbeatCallback cb = modify (\<lambda>c. if StateClosed \<le> cState c then c else c\<lparr>cHeartbeatCallback := cb\<rparr>)"

text \<open>On a closed connection the thread pool calls the close callback.\<close>

definition setCloseCallback :: "bool \<Rightarrow> unit cm" where
  "setCloseCallback cb = withp (\<lambda>c.
     if StateClosed \<le> cState c then whenp cb (emit EvCloseCallback)
     else modify (\<lambda>c. c\<lparr>cCloseCallback := cb\<rparr>))"

definition setAdapter :: "bool \<Rightarrow> unit cm" where
  "setAdapter adapter = modify (\<lambda>c.
     if cState c \<le> StateNotValidated \<or> StateClosing \<le> cState c then c else c\<lparr>cHasAdapter := adapter\<rparr>)"

subsection \<open>Requests\<close>

text \<open>\<open>_nextRequestId++\<close> wraps around; ids that are not positive are skipped.\<close>

definition next_request_id :: "ice_int \<Rightarrow> ice_int \<times> ice_int" where
  "next_request_id n = (if n \<le>s 0 then (1, 2) else (n, n + 1))"

text \<open>
  \<open>sendAsyncRequest\<close>: \<open>os\<close> are the bytes of the request's stream, \<open>canceled\<close> the exception with which
  \<open>cancelable\<close> throws when the request has been canceled before.
\<close>

definition fill_request :: "ice_int \<Rightarrow> byte list \<Rightarrow> byte list" where
  "fill_request v bs = poke bs headerSize (le_bytes 4 v)"

definition allocate_id :: "bool \<Rightarrow> ice_int cm" where
  "allocate_id response =
     (if response then withp (\<lambda>c. case next_request_id (cNextRequestId c) of
        (rid, nxt) \<Rightarrow> seqp (modify (\<lambda>c. c\<lparr>cNextRequestId := nxt\<rparr>)) (ret rid))
      else ret 0)"

definition sendAsyncRequest :: "conn_env \<Rightarrow> nat \<Rightarrow> byte list \<Rightarrow> ice_error option \<Rightarrow> bool \<Rightarrow> bool \<Rightarrow> ice_int
    \<Rightarrow> async_status cm" where
  "sendAsyncRequest E out os canceled compress response batchRequestNum = withp (\<lambda>c.
     if cException c \<noteq> None then throw RetryRequest
     else seqp (assertp (\<lambda>c. StateNotValidated < cState c \<and> cState c < StateClosing))
       (seqp (lift (case eCheckSendSize E os of Some e \<Rightarrow> Inl e | None \<Rightarrow> Inr ()))
         (seqp (lift (case canceled of Some e \<Rightarrow> Inl e | None \<Rightarrow> Inr ()))
           (bindp (allocate_id response) (\<lambda>rid.
             let os = (if response then fill_request rid os
                       else if 0 <s batchRequestNum then fill_request batchRequestNum os else os) in
             bindp (catchp (sendMessage E (mk_msg (Some out) os compress rid))
                      (\<lambda>ex. seqp (setStateEx E StateClosed ex) rethrow)) (\<lambda>status.
               seqp (whenp response (modify (\<lambda>c. c\<lparr>cAsyncRequests := om_insert rid out (cAsyncRequests c),
                                                    cHint := Some rid\<rparr>)))
                 (ret status)))))))"

definition is_timeout :: "ice_error \<Rightarrow> bool" where
  "is_timeout ex \<longleftrightarrow> ex = ConnectionTimeout"

text \<open>\<open>asyncRequestCanceled\<close>: the first queued message of the request, else its entry in the map.\<close>

definition erase_request :: "ice_int \<Rightarrow> conn \<Rightarrow> conn" where
  "erase_request rid c = c\<lparr>cAsyncRequests := om_erase rid (cAsyncRequests c)\<rparr>"

definition hint_is :: "conn_env \<Rightarrow> nat \<Rightarrow> conn \<Rightarrow> bool" where
  "hint_is E out c \<longleftrightarrow>
     (case cHint c of None \<Rightarrow> False | Some k \<Rightarrow> eIsOutgoingAsync E out \<and> map_of (cAsyncRequests c) k = Some out)"

definition erase_hint :: "conn \<Rightarrow> conn" where
  "erase_hint c = (case cHint c of Some k \<Rightarrow> (erase_request k c)\<lparr>cHint := None\<rparr> | None \<Rightarrow> c)"

fun find_message :: "nat \<Rightarrow> out_msg list \<Rightarrow> nat option" where
  "find_message out [] = None"
| "find_message out (m # ms) = (if omAsync m = Some out then Some 0 else map_option Suc (find_message out ms))"

definition request_of :: "nat \<Rightarrow> (ice_int \<times> nat) list \<Rightarrow> ice_int option" where
  "request_of out m = map_option fst (List.find (\<lambda>p. snd p = out) m)"

definition cancel_queued :: "conn_env \<Rightarrow> nat \<Rightarrow> ice_error \<Rightarrow> nat \<Rightarrow> unit cm" where
  "cancel_queued E out ex i = withp (\<lambda>c.
     let m = cSendStreams c ! i in
     seqp (whenp (omRequestId m \<noteq> 0)
            (if hint_is E out c then modify erase_hint else modify (erase_request (omRequestId m))))
       (if is_timeout ex then setStateEx E StateClosed ex
        else seqp (modify (\<lambda>c. c\<lparr>cSendStreams :=
                (if i = 0 then (cSendStreams c)[0 := msg_canceled True m]
                 else take i (cSendStreams c) @ drop (Suc i) (cSendStreams c))\<rparr>))
              (notify_exception_async E ex out)))"

definition asyncRequestCanceled :: "conn_env \<Rightarrow> nat \<Rightarrow> ice_error \<Rightarrow> unit cm" where
  "asyncRequestCanceled E out ex = withp (\<lambda>c.
     if StateClosed \<le> cState c then ret ()
     else case find_message out (cSendStreams c) of
       Some i \<Rightarrow> cancel_queued E out ex i
     | None \<Rightarrow>
         if \<not> eIsOutgoingAsync E out then ret ()
         else if hint_is E out c then
           (if is_timeout ex then setStateEx E StateClosed ex
            else seqp (modify erase_hint) (notify_exception_async E ex out))
         else (case request_of out (cAsyncRequests c) of
             None \<Rightarrow> ret ()
           | Some k \<Rightarrow>
               if is_timeout ex then setStateEx E StateClosed ex
               else seqp (assertp (\<lambda>c. cHint c \<noteq> Some k))
                      (seqp (modify (erase_request k)) (notify_exception_async E ex out))))"

subsection \<open>Answers to incoming requests\<close>

definition conn_reap :: "unit cm" where
  "conn_reap = withp (\<lambda>c. whenp (cMonitor c \<noteq> None) (emit EvReap))"

text \<open>
  The common part of \<open>sendResponse\<close> and \<open>sendNoResponse\<close>; \<open>os\<close> is the reply and its compression status.  The
  invocation is finished, so \<open>cOutstanding\<close> goes down with the dispatch count.
\<close>

definition decrease_dispatch :: "unit cm" where
  "decrease_dispatch =
     seqp (modify (\<lambda>c. c\<lparr>cDispatchCount := cDispatchCount c - 1, cOutstanding := cOutstanding c - 1\<rparr>))
       (withp (\<lambda>c. whenp (cDispatchCount c = 0 \<and> cState c = StateFinished) conn_reap))"

definition finish_invocation :: "conn_env \<Rightarrow> (byte list \<times> byte) option \<Rightarrow> unit cm" where
  "finish_invocation E reply =
     seqp (assertp (\<lambda>c. StateNotValidated < cState c))
       (catchp
         (seqp decrease_dispatch
           (seqp (withp (\<lambda>c. if StateClosed \<le> cState c then rethrow else ret ()))
             (seqp (case reply of
                      Some (os, compressFlag) \<Rightarrow>
                        bindp (sendMessage E (mk_msg None os (compressFlag > 0) 0)) (\<lambda>_. ret ())
                    | None \<Rightarrow> ret ())
               (withp (\<lambda>c. whenp (cState c = StateClosing \<and> cDispatchCount c = 0) (initiateShutdown E))))))
         (setStateEx E StateClosed))"

definition sendResponse :: "conn_env \<Rightarrow> byte list \<Rightarrow> byte \<Rightarrow> unit cm" where
  "sendResponse E os compressFlag = finish_invocation E (Some (os, compressFlag))"

definition sendNoResponse :: "conn_env \<Rightarrow> unit cm" where
  "sendNoResponse E = finish_invocation E None"

definition invokeException :: "conn_env \<Rightarrow> ice_error \<Rightarrow> ice_int \<Rightarrow> unit cm" where
  "invokeException E ex invokeNum =
     seqp (setStateEx E StateClosed ex)
       (whenp (0 <s invokeNum)
         (seqp (assertp (\<lambda>c. invokeNum \<le>s cDispatchCount c))
           (seqp (modify (\<lambda>c. c\<lparr>cDispatchCount := cDispatchCount c - invokeNum,
                                cOutstanding := cOutstanding c - unat invokeNum\<rparr>))
             (withp (\<lambda>c. whenp (cDispatchCount c = 0 \<and> cState c = StateFinished) conn_reap)))))"

subsection \<open>Writing the queued messages\<close>

text \<open>
  The loop of \<open>sendNextMessage\<close>, by recursion on the length of the queue: the first message has been written and is
  notified and removed, the next one is prepared and written as far as the socket takes it.  \<open>cbs\<close> collects
  the requests whose sent callback has to be called, which the exception that ends the loop does not undo.
\<close>

definition prepare_next :: "conn_env \<Rightarrow> out_msg \<Rightarrow> (cbuf \<times> out_msg) result" where
  "prepare_next E m =
     (if omCompress m \<and> length (msg_bytes m) \<ge> 100 then
        and_then (doCompress E (mark_compress 2 True (msg_bytes m))) (\<lambda>bs.
          let b = \<lparr>bBytes = bs, bPos = Some 0\<rparr> in Inr (b, adopt (Some b) m))
      else
        (let b = \<lparr>bBytes = fill_size (mark_compress 1 (omCompress m) (msg_bytes m)), bPos = Some 0\<rparr> in
         Inr (b, m\<lparr>omStream := Some b\<rparr>)))"

definition notify_sent :: "conn_env \<Rightarrow> out_msg \<Rightarrow> nat list \<Rightarrow> nat list cm" where
  "notify_sent E m cbs =
     (case omStream m of
        None \<Rightarrow> ret cbs
      | Some b \<Rightarrow>
          seqp (modify (\<lambda>c. c\<lparr>cWriteBuf := b\<rparr>))
            (bindp (msg_sent E m) (\<lambda>cb.
               ret (case omAsync m of Some out \<Rightarrow> if cb then cbs @ [out] else cbs | None \<Rightarrow> cbs))))"

definition start_next :: "conn_env \<Rightarrow> out_msg \<Rightarrow> out_msg list \<Rightarrow> sockop cm" where
  "start_next E n ns =
     seqp (assertp (\<lambda>_. case omStream n of Some b \<Rightarrow> bPos b = None | None \<Rightarrow> True))
       (bindp (lift (prepare_next E n)) (\<lambda>(b, n).
         seqp (modify (\<lambda>c. c\<lparr>cSendStreams := n\<lparr>omStream := Some (cWriteBuf c)\<rparr> # ns, cWriteBuf := b\<rparr>))
           (bindp (tx_write b) (\<lambda>(op, b). seqp (modify (\<lambda>c. c\<lparr>cWriteBuf := b\<rparr>)) (ret op)))))"

datatype loop_end = AllSent | LoopStops sockop | LoopFails ice_error

fun send_loop :: "conn_env \<Rightarrow> nat list \<Rightarrow> nat \<Rightarrow> (loop_end \<times> nat list) cm" where
  "send_loop E cbs 0 = ret (AllSent, cbs)"
| "send_loop E cbs (Suc k) = withp (\<lambda>c.
     case cSendStreams c of
       [] \<Rightarrow> ret (AllSent, cbs)
     | m # ms \<Rightarrow>
         bindp (notify_sent E m cbs) (\<lambda>cbs.
           seqp (modify (\<lambda>c. c\<lparr>cSendStreams := ms\<rparr>))
             (case ms of
                [] \<Rightarrow> ret (AllSent, cbs)
              | n # ns \<Rightarrow> withp (\<lambda>c.
                  if StateClosingPending \<le> cState c then ret (LoopStops OpNone, cbs)
                  else bindp (catchp (bindp (start_next E n ns) (\<lambda>op. ret (Inr op))) (\<lambda>e. ret (Inl e)))
                    (\<lambda>r. case r of
                       Inl e \<Rightarrow> ret (LoopFails e, cbs)
                     | Inr op \<Rightarrow> if op \<noteq> OpNone then ret (LoopStops op, cbs) else send_loop E cbs k)))))"

definition sendNextMessage :: "conn_env \<Rightarrow> (sockop \<times> nat list) cm" where
  "sendNextMessage E = withp (\<lambda>c.
     case cSendStreams c of
       [] \<Rightarrow> ret (OpNone, [])
     | m # ms \<Rightarrow>
         if cState c = StateClosingPending \<and> bPos (cWriteBuf c) = Some 0 then
           seqp (modify (\<lambda>c. c\<lparr>cSendStreams := m\<lparr>omStream := Some (cWriteBuf c)\<rparr> # ms,
                               cWriteBuf := (case omStream m of Some b \<Rightarrow> b | None \<Rightarrow> empty_buf)\<rparr>))
             (ret (OpNone, []))
         else
           seqp (assertp (\<lambda>c. bBytes (cWriteBuf c) \<noteq> [] \<and> at_end (cWriteBuf c)))
             (bindp (send_loop E [] (length (cSendStreams c))) (\<lambda>(r, cbs). withp (\<lambda>c.
                case r of
                  LoopFails e \<Rightarrow> seqp (setStateEx E StateClosed e) (ret (OpNone, cbs))
                | LoopStops op \<Rightarrow> ret (op, cbs)
                | AllSent \<Rightarrow>
                    if cState c = StateClosing \<and> cShutdownInitiated c then
                      seqp (setState E StateClosingPending) (ret (eClosing E True, cbs))
                    else ret (OpNone, cbs)))))"

subsection \<open>Establishing a connection\<close>

definition conn_initialize :: "conn_env \<Rightarrow> sockop \<Rightarrow> bool cm" where
  "conn_initialize E operation =
     bindp tx_initialize (\<lambda>s.
       if s \<noteq> OpNone then seqp (scheduleTimeout E s) (seqp (pool_update operation s) (ret False))
       else seqp (modify (\<lambda>c. c\<lparr>cInitialized := True\<rparr>)) (seqp (setState E StateNotValidated) (ret True)))"

text \<open>Magic number, protocol and encoding version in front of every message.\<close>

definition check_magic :: "istream \<Rightarrow> istream result" where
  "check_magic s =
     and_then (read_raw 4 s) (\<lambda>(m, s).
       if m \<noteq> magic then Inl (BadMagic m)
       else and_then (read_version s) (\<lambda>(pv, s).
         and_then (checkSupportedProtocol pv) (\<lambda>_.
           and_then (read_version s) (\<lambda>(ev, s).
             and_then (checkSupportedProtocolEncoding ev) (\<lambda>_. Inr s)))))"

definition check_validation :: "byte list \<Rightarrow> unit result" where
  "check_validation bs =
     and_then (check_magic (istream_init currentProtocolEncoding bs)) (\<lambda>s.
       and_then (read_byte s) (\<lambda>(messageType, s).
         if messageType \<noteq> validateConnectionMsg then Inl ConnectionNotValidated
         else and_then (read_byte s) (\<lambda>(compress, s).
           and_then (read_int s) (\<lambda>(size, s).
             if size \<noteq> word_of_nat headerSize then Inl IllegalMessageSize else Inr ()))))"

definition resize_buf :: "nat \<Rightarrow> byte list \<Rightarrow> cbuf" where
  "resize_buf n bs = \<lparr>bBytes = take n bs @ replicate (n - length bs) 0, bPos = Some 0\<rparr>"

definition end_validate :: "bool cm" where
  "end_validate = seqp (modify (\<lambda>c. c\<lparr>cWriteBuf := empty_buf,
     cReadBuf := resize_buf headerSize (bBytes (cReadBuf c)), cReadHeader := True\<rparr>)) (ret True)"

definition wait_for :: "conn_env \<Rightarrow> sockop \<Rightarrow> sockop \<Rightarrow> bool cm" where
  "wait_for E operation op = seqp (scheduleTimeout E op) (seqp (pool_update operation op) (ret False))"

text \<open>The server, which has an adapter, sends the validation message; the client waits for it.\<close>

definition conn_validate :: "conn_env \<Rightarrow> sockop \<Rightarrow> bool cm" where
  "conn_validate E operation = withp (\<lambda>c.
     if eDatagram E then end_validate
     else if cHasAdapter c then
       seqp (modify (\<lambda>c. if bBytes (cWriteBuf c) = []
                         then c\<lparr>cWriteBuf := \<lparr>bBytes = validate_message, bPos = Some 0\<rparr>\<rparr> else c))
         (withp (\<lambda>c. bindp (tx_write (cWriteBuf c)) (\<lambda>(op, b).
            seqp (modify (\<lambda>c. c\<lparr>cWriteBuf := b\<rparr>))
              (if op \<noteq> OpNone then wait_for E operation op else end_validate))))
     else
       seqp (modify (\<lambda>c. if bBytes (cReadBuf c) = []
                         then c\<lparr>cReadBuf := resize_buf headerSize []\<rparr> else c))
         (withp (\<lambda>c. bindp (tx_read E (cReadBuf c)) (\<lambda>(op, b).
            seqp (modify (\<lambda>c. c\<lparr>cReadBuf := b\<rparr>))
              (if op \<noteq> OpNone then wait_for E operation op
               else seqp (modify (\<lambda>c. c\<lparr>cValidated := True\<rparr>))
                 (seqp (assertp (\<lambda>c. at_end (cReadBuf c)))
                   (seqp (lift (check_validation (bBytes b))) end_validate)))))))"

text \<open>\<open>start\<close> with a callback, as both connection factories call it.\<close>

definition conn_start :: "conn_env \<Rightarrow> unit cm" where
  "conn_start E =
     catchp
       (seqp (withp (\<lambda>c. if StateClosed \<le> cState c then rethrow else ret ()))
         (bindp (conn_initialize E OpNone) (\<lambda>i.
           bindp (if i then conn_validate E OpNone else ret False) (\<lambda>v.
             if \<not> v then modify (\<lambda>c. c\<lparr>cStartCallback := True\<rparr>)
             else seqp (setState E StateHolding) (emit EvStartCompleted)))))
       (\<lambda>ex. seqp (setStateEx E StateClosed ex) (emit (EvStartFailed ex)))"

subsection \<open>Reading messages\<close>

text \<open>The header of a message: its size, unless the message is refused.\<close>

definition parse_header :: "conn_env \<Rightarrow> cbuf \<Rightarrow> nat result" where
  "parse_header E b =
     (if buf_pos b < headerSize then Inl IllegalMessageSize
      else and_then (check_magic (istream_init currentProtocolEncoding (bBytes b))) (\<lambda>s.
        and_then (read_byte s) (\<lambda>(messageType, s).
          and_then (read_byte s) (\<lambda>(compressByte, s).
            and_then (read_int s) (\<lambda>(size, s).
              if sint size < int headerSize then Inl IllegalMessageSize
              else if sint size > sint (word_of_nat (eMessageSizeMax E) :: ice_int) then Inl MemoryLimit
              else Inr (unat size))))))"

definition read_header :: "conn_env \<Rightarrow> unit cm" where
  "read_header E =
     seqp (modify (\<lambda>c. c\<lparr>cReadHeader := False, cValidated := True\<rparr>))
       (withp (\<lambda>c. bindp (lift (parse_header E (cReadBuf c))) (\<lambda>size.
          modify (\<lambda>c. let b = cReadBuf c in
            if size > length (bBytes b)
            then c\<lparr>cReadBuf := b\<lparr>bBytes := bBytes b @ replicate (size - length (bBytes b)) 0\<rparr>\<rparr> else c))))"

text \<open>
  The \<open>while\<close> loop of \<open>message\<close>: the header is read first, then the body.  \<open>fuel\<close> bounds the rounds; two are
  always enough.
\<close>

fun read_loop :: "conn_env \<Rightarrow> nat \<Rightarrow> sockop option cm" where
  "read_loop E 0 = ret None"
| "read_loop E (Suc fuel) = withp (\<lambda>c.
     bindp (tx_read E (cReadBuf c)) (\<lambda>(op, b).
       seqp (modify (\<lambda>c. c\<lparr>cReadBuf := b\<rparr>))
         (if opRead op then ret (Some op)
          else seqp (whenp (cReadHeader c) (read_header E))
            (withp (\<lambda>c.
              if \<not> at_end (cReadBuf c)
              then if eDatagram E then throw DatagramLimit else read_loop E fuel
              else ret (Some op))))))"

text \<open>
  \<open>parseMessage\<close>: \<open>old\<close> are the bytes of the thread's stream, which the connection reuses to read the next
  header.  The result is the operation to wait for, the work to dispatch and what it adds to the dispatch count.
\<close>

definition parse_reply :: "conn_env \<Rightarrow> byte list \<Rightarrow> ice_int \<Rightarrow> work \<Rightarrow> (work \<times> ice_int) cm" where
  "parse_reply E stream rid w = withp (\<lambda>c.
     case map_of (cAsyncRequests c) rid of
       None \<Rightarrow> ret (w, 0)
     | Some out \<Rightarrow>
         seqp (modify (\<lambda>c. c\<lparr>
             cHint := (if cHint c = Some rid
                       then (case filter (\<lambda>p. rid < fst p) (cAsyncRequests c) of [] \<Rightarrow> None | p # _ \<Rightarrow> Some (fst p))
                       else cHint c),
             cAsyncRequests := om_erase rid (cAsyncRequests c)\<rparr>))
           (seqp (emit (EvResponse out stream))
             (if eWantsResponse E out stream then ret (w\<lparr>wAsync := Some out\<rparr>, 1) else ret (w, 0))))"

definition parse_close :: "conn_env \<Rightarrow> work \<Rightarrow> (sockop option \<times> work \<times> ice_int) cm" where
  "parse_close E w =
     (if eDatagram E then ret (None, w, 0)
      else seqp (setStateEx E StateClosingPending CloseConnection)
        (seqp (bindp deref_exception (\<lambda>_. ret ()))
          (if eClosing E False \<noteq> OpNone then ret (Some (eClosing E False), w, 0)
           else seqp (setState E StateClosed) (ret (None, w, 0)))))"

definition parse_body :: "conn_env \<Rightarrow> byte \<Rightarrow> byte \<Rightarrow> byte list \<Rightarrow> (sockop option \<times> work \<times> ice_int) cm" where
  "parse_body E messageType compress stream = withp (\<lambda>c.
     let s = (istream_init currentProtocolEncoding stream)\<lparr>ipos := headerSize\<rparr>;
         w = no_work\<lparr>wCompress := compress, wStream := stream\<rparr> in
     if messageType = closeConnectionMsg then parse_close E w
     else if messageType = requestMsg then
       (if StateClosing \<le> cState c then ret (None, w, 0)
        else bindp (lift (read_int s)) (\<lambda>(rid, s). ret (None, w\<lparr>wInvokeNum := 1, wRequestId := rid\<rparr>, 1)))
     else if messageType = requestBatchMsg then
       (if StateClosing \<le> cState c then ret (None, w, 0)
        else bindp (lift (read_int s)) (\<lambda>(n, s).
          if n <s 0 then throw UnmarshalOutOfBounds else ret (None, w\<lparr>wInvokeNum := n\<rparr>, n)))
     else if messageType = replyMsg then
       bindp (lift (read_int s)) (\<lambda>(rid, s).
         bindp (parse_reply E stream rid w) (\<lambda>(w, n). ret (None, w, n)))
     else if messageType = validateConnectionMsg then
       (if cHeartbeatCallback c then ret (None, w\<lparr>wHeartbeat := True\<rparr>, 1) else ret (None, w, 0))
     else throw UnknownMessage)"

definition parseMessage :: "conn_env \<Rightarrow> byte list \<Rightarrow> (sockop \<times> work \<times> ice_int) cm" where
  "parseMessage E old =
     seqp (assertp (\<lambda>c. StateNotValidated < cState c \<and> cState c < StateClosed \<and> at_end (cReadBuf c)))
       (withp (\<lambda>c. let stream = bBytes (cReadBuf c) in
          seqp (modify (\<lambda>c. c\<lparr>cReadBuf := resize_buf headerSize old, cReadHeader := True\<rparr>))
            (bindp (catchp
               (let messageType = stream ! 8; compress = stream ! 9 in
                bindp (lift (if compress = 2 then doUncompress E stream else Inr stream))
                  (\<lambda>stream. parse_body E messageType compress stream))
               (\<lambda>ex. seqp (whenp (\<not> eDatagram E) (setStateEx E StateClosed ex)) (ret (None, no_work, 0))))
               (\<lambda>(early, w, n). withp (\<lambda>c.
                  ret (case early of Some op \<Rightarrow> op
                       | None \<Rightarrow> if cState c = StateHolding then OpNone else OpRead, w, n))))))"

subsection \<open>I/O events\<close>

definition reset_read :: "unit cm" where
  "reset_read = modify (\<lambda>c. c\<lparr>cReadBuf := resize_buf headerSize (bBytes (cReadBuf c)), cReadHeader := True\<rparr>)"

definition is_socket_error :: "ice_error \<Rightarrow> bool" where
  "is_socket_error e \<longleftrightarrow> (case e of SocketError _ \<Rightarrow> True | ConnectionLost \<Rightarrow> True | _ \<Rightarrow> False)"

text \<open>The handlers of the exceptions that \<open>message\<close> catches.\<close>

definition message_failed :: "conn_env \<Rightarrow> ice_error \<Rightarrow> unit cm" where
  "message_failed E ex =
     (if ex = DatagramLimit then reset_read
      else if is_socket_error ex then setStateEx E StateClosed ex
      else if eDatagram E then reset_read
      else setStateEx E StateClosed ex)"

text \<open>
  The operations on the socket: the result is what has become ready and what has to be waited for.  The
  read loop is given two rounds.
\<close>

definition message_io :: "conn_env \<Rightarrow> sockop \<Rightarrow> (sockop \<times> sockop) cm" where
  "message_io E operation =
     seqp (unscheduleTimeout operation)
       (bindp (if opWrite operation
               then withp (\<lambda>c. bindp (tx_write (cWriteBuf c)) (\<lambda>(op, b).
                 seqp (modify (\<lambda>c. c\<lparr>cWriteBuf := b\<rparr>)) (ret op)))
               else ret OpNone) (\<lambda>writeOp.
         bindp (if opRead operation then read_loop E 2 else ret (Some OpNone)) (\<lambda>r.
           case r of
             None \<Rightarrow> throw MemoryError
           | Some readOp \<Rightarrow>
               (let newOp = op_or readOp writeOp; readyOp = op_minus operation newOp in
                seqp (assertp (\<lambda>_. readyOp \<noteq> OpNone \<or> newOp \<noteq> OpNone)) (ret (readyOp, newOp))))))"

text \<open>A connection that is not validated yet: \<open>None\<close> when it has to wait.\<close>

definition message_establish :: "conn_env \<Rightarrow> sockop \<Rightarrow> sockop \<Rightarrow> (work \<times> ice_int) option cm" where
  "message_establish E operation newOp =
     (if newOp \<noteq> OpNone
      then seqp (scheduleTimeout E newOp) (seqp (pool_update operation newOp) (ret None))
      else bindp (withp (\<lambda>c. if cState c = StateNotInitialized then conn_initialize E operation else ret True)) (\<lambda>i.
        if \<not> i then ret None
        else bindp (withp (\<lambda>c. if cState c \<le> StateNotValidated then conn_validate E operation else ret True)) (\<lambda>v.
          if \<not> v then ret None
          else seqp (pool_unregister operation)
            (seqp (setState E StateHolding)
              (withp (\<lambda>c.
                if cStartCallback c
                then seqp (modify (\<lambda>c. c\<lparr>cStartCallback := False\<rparr>)) (ret (Some (no_work\<lparr>wStart := True\<rparr>, 1)))
                else ret (Some (no_work, 0))))))))"

definition message_parse :: "conn_env \<Rightarrow> byte list \<Rightarrow> sockop \<Rightarrow> sockop \<Rightarrow> sockop \<Rightarrow> (work \<times> ice_int) option cm" where
  "message_parse E old operation readyOp newOp =
     seqp (assertp (\<lambda>c. cState c \<le> StateClosingPending))
       (bindp (if opRead readyOp then parseMessage E old else ret (OpNone, no_work, 0)) (\<lambda>(op1, w, n).
         bindp (if opWrite readyOp then sendNextMessage E else ret (OpNone, [])) (\<lambda>(op2, cbs).
           let newOp = op_or newOp (op_or op1 op2) in
           seqp (withp (\<lambda>c. whenp (cState c < StateClosed)
                   (seqp (scheduleTimeout E newOp) (pool_update operation newOp))))
             (ret (Some (w\<lparr>wSent := cbs\<rparr>, if cbs \<noteq> [] then n + 1 else n))))))"

definition conn_message :: "conn_env \<Rightarrow> byte list \<Rightarrow> sockop \<Rightarrow> unit cm" where
  "conn_message E old operation = withp (\<lambda>c.
     if StateClosed \<le> cState c then ret ()
     else catchp
       (bindp (message_io E operation) (\<lambda>(readyOp, newOp).
         bindp (withp (\<lambda>c. if cState c \<le> StateNotValidated then message_establish E operation newOp
                           else message_parse E old operation readyOp newOp)) (\<lambda>r.
           case r of
             None \<Rightarrow> ret ()
           | Some (w, n) \<Rightarrow>
               seqp touch
                 (whenp (n \<noteq> 0)
                   (modify (\<lambda>c. c\<lparr>cDispatchCount := cDispatchCount c + n, cWork := cWork c @ [w]\<rparr>))))))
       (message_failed E))"

subsection \<open>Dispatching\<close>

text \<open>
  What a thread does, without the monitor, with the \<open>i\<close>th item of work: it calls the callbacks and starts the
  invocations, which become outstanding; then it takes the callbacks off the dispatch count.
\<close>

definition work_callbacks :: "work \<Rightarrow> nat" where
  "work_callbacks w = of_bool (wStart w) + of_bool (wSent w \<noteq> []) + of_bool (wAsync w \<noteq> None) + of_bool (wHeartbeat w)"

definition work_events :: "work \<Rightarrow> conn_event list" where
  "work_events w =
     (if wStart w then [EvStartCompleted] else [])
     @ map EvInvokeSent (wSent w)
     @ (case wAsync w of Some out \<Rightarrow> [EvInvokeResponse out] | None \<Rightarrow> [])
     @ (if wHeartbeat w then [EvHeartbeatCallback] else [])
     @ (if wInvokeNum w \<noteq> 0 then [EvInvocations (wInvokeNum w) (wRequestId w) (wCompress w) (wStream w)] else [])"

definition start_work :: "nat \<Rightarrow> work cm" where
  "start_work i = withp (\<lambda>c. let w = cWork c ! i in
     seqp (modify (\<lambda>c. c\<lparr>cWork := take i (cWork c) @ drop (Suc i) (cWork c),
                         cOutstanding := cOutstanding c + unat (wInvokeNum w), cLog := cLog c @ work_events w\<rparr>))
       (ret w))"

definition end_dispatch :: "conn_env \<Rightarrow> nat \<Rightarrow> unit cm" where
  "end_dispatch E dispatchedCount =
     whenp (dispatchedCount > 0)
       (seqp (modify (\<lambda>c. c\<lparr>cDispatchCount := cDispatchCount c - word_of_nat dispatchedCount\<rparr>))
         (withp (\<lambda>c. whenp (cDispatchCount c = 0)
            (if cState c = StateClosing then catchp (initiateShutdown E) (setStateEx E StateClosed)
             else whenp (cState c = StateFinished) conn_reap))))"

definition conn_dispatch :: "conn_env \<Rightarrow> nat \<Rightarrow> unit cm" where
  "conn_dispatch E i = bindp (start_work i) (\<lambda>w. end_dispatch E (work_callbacks w))"

subsection \<open>The end of a connection\<close>

fun complete_messages :: "conn_env \<Rightarrow> ice_error \<Rightarrow> out_msg list \<Rightarrow> unit cm" where
  "complete_messages E ex [] = ret ()"
| "complete_messages E ex (m # ms) =
     seqp (msg_completed E ex m)
       (seqp (whenp (omRequestId m \<noteq> 0) (modify (erase_request (omRequestId m)))) (complete_messages E ex ms))"

fun fail_requests :: "conn_env \<Rightarrow> ice_error \<Rightarrow> (ice_int \<times> nat) list \<Rightarrow> unit cm" where
  "fail_requests E ex [] = ret ()"
| "fail_requests E ex (p # ps) = seqp (notify_exception E ex (snd p)) (fail_requests E ex ps)"

text \<open>The stream that is being written goes back to the first message.\<close>

definition return_stream :: "conn \<Rightarrow> conn" where
  "return_stream c =
     (case cSendStreams c of
        m # ms \<Rightarrow>
          if bBytes (cWriteBuf c) \<noteq> [] then
            c\<lparr>cSendStreams := m\<lparr>omStream := Some (cWriteBuf c)\<rparr> # ms,
              cWriteBuf := (case omStream m of Some b \<Rightarrow> b | None \<Rightarrow> empty_buf)\<rparr>
          else c
      | [] \<Rightarrow> c)"

definition fail_all :: "conn_env \<Rightarrow> unit cm" where
  "fail_all E =
     seqp (seqp (modify return_stream) (withp (\<lambda>c.
        if cSendStreams c = [] then ret ()
        else bindp deref_exception (\<lambda>ex.
          seqp (complete_messages E ex (cSendStreams c)) (modify (\<lambda>c. c\<lparr>cSendStreams := []\<rparr>))))))
       (seqp (withp (\<lambda>c.
        if cAsyncRequests c = [] then ret ()
        else bindp deref_exception (\<lambda>ex. fail_requests E ex (cAsyncRequests c))))
       (modify (\<lambda>c. c\<lparr>cAsyncRequests := []\<rparr>)))"

definition conn_finish :: "conn_env \<Rightarrow> bool \<Rightarrow> unit cm" where
  "conn_finish E close =
     seqp (whenp close (emit EvTransceiverClose))
       (seqp (withp (\<lambda>c. whenp (cStartCallback c)
          (seqp (assertp (\<lambda>c. cException c \<noteq> None))
            (bindp deref_exception (\<lambda>ex.
              seqp (emit (EvStartFailed ex)) (modify (\<lambda>c. c\<lparr>cStartCallback := False\<rparr>)))))))
         (seqp (fail_all E)
           (seqp (modify (\<lambda>c. c\<lparr>cWriteBuf := empty_buf, cReadBuf := empty_buf\<rparr>))
             (seqp (withp (\<lambda>c. whenp (cCloseCallback c)
                (seqp (emit EvCloseCallback) (modify (\<lambda>c. c\<lparr>cCloseCallback := False\<rparr>)))))
               (seqp (modify (\<lambda>c. c\<lparr>cHeartbeatCallback := False\<rparr>))
                 (seqp (setState E StateFinished)
                   (withp (\<lambda>c. whenp (cDispatchCount c = 0) conn_reap))))))))"

text \<open>The thread pool calls \<open>finished\<close> once after \<open>finish\<close>; it closes the transceiver unless that was done.\<close>

definition conn_finished :: "conn_env \<Rightarrow> unit cm" where
  "conn_finished E =
     seqp (assertp (\<lambda>c. cState c = StateClosed))
       (seqp (unscheduleTimeout OpReadWrite)
         (seqp (modify (\<lambda>c. c\<lparr>cPoolFinished := False\<rparr>)) (conn_finish E (\<not> eCloseNow E))))"

end
