(* ===== verification/ConnSteps.thy ===== *)
theory ConnSteps
  imports Connection
begin

section \<open>Connections: histories\<close>

text \<open>
  Every call that other parts of the runtime make on a connection, as an event; \<open>call_ready\<close> is what they
  guarantee when they make it.  The thread pool calls \<open>message\<close> with at least one operation and \<open>finished\<close> after
  \<open>finish\<close>; the factories call \<open>start\<close> on a new connection and hand out connections that have been validated; an
  invocation is answered once; a request is a message with its header and is not sent again before it is
  completed, and no request that is outstanding has the id that comes next.  \<open>Passes\<close> is the environment: time goes on and the operating system has new answers.
\<close>

datatype conn_call =
    CallStart
  | CallActivate
  | CallHold
  | CallDestroy destruction_reason
  | CallClose close_mode
  | CallMonitor nat acm_config
  | CallSend nat "byte list" "ice_error option" bool bool ice_int
  | CallCancel nat ice_error
  | CallSendResponse "byte list" byte
  | CallSendNoResponse
  | CallInvokeException ice_error ice_int
  | CallMessage "byte list" sockop
  | CallDispatch nat
  | CallFinished
  | CallTimedOut
  | CallException ice_error
  | CallSetACM acm_config "int option" "acm_close option" "acm_heartbeat option"
  | CallSetHeartbeatCallback bool
  | CallSetCloseCallback bool
  | CallSetAdapter bool
  | Passes nat "tx_answer list"

text \<open>The callbacks and invocations that are not finished; the dispatch count counts them.\<close>

definition work_weight :: "work \<Rightarrow> nat" where
  "work_weight w = work_callbacks w + unat (wInvokeNum w)"

definition pending :: "conn \<Rightarrow> nat" where
  "pending c = sum_list (map work_weight (cWork c)) + cOutstanding c"

definition in_progress :: "nat \<Rightarrow> conn \<Rightarrow> bool" where
  "in_progress out c \<longleftrightarrow> Some out \<in> omAsync ` set (cSendStreams c) \<or> out \<in> snd ` set (cAsyncRequests c)"

definition id_free :: "conn \<Rightarrow> bool" where
  "id_free c \<longleftrightarrow> fst (next_request_id (cNextRequestId c)) \<notin> fst ` set (cAsyncRequests c)
     \<and> fst (next_request_id (cNextRequestId c)) \<notin> omRequestId ` set (cSendStreams c)"

fun call_ready :: "conn_env \<Rightarrow> conn \<Rightarrow> conn_call \<Rightarrow> bool" where
  "call_ready E c CallStart = (cState c = StateNotInitialized \<and> \<not> cStartCallback c \<or> StateClosed \<le> cState c)"
| "call_ready E c (CallClose mode) = close_ready mode c"
| "call_ready E c (CallMonitor now acm) = (acmTimeout acm \<noteq> 0)"
| "call_ready E c (CallSend out os canceled compress response n) =
     (StateNotValidated < cState c \<and> length os \<ge> headerSize + 4 \<and> \<not> in_progress out c
      \<and> response = eTwoway E out \<and> (response \<longrightarrow> eIsOutgoingAsync E out \<and> id_free c)
      \<and> (case canceled of Some e \<Rightarrow> \<not> fatal e | None \<Rightarrow> True))"
| "call_ready E c (CallCancel out ex) = (\<not> fatal ex)"
| "call_ready E c (CallException ex) = (\<not> fatal ex)"
| "call_ready E c (CallSendResponse os flag) = (0 < cOutstanding c \<and> length os \<ge> headerSize)"
| "call_ready E c CallSendNoResponse = (0 < cOutstanding c)"
| "call_ready E c (CallInvokeException ex n) = (0 \<le>s n \<and> unat n \<le> cOutstanding c \<and> \<not> fatal ex)"
| "call_ready E c (CallMessage old op) = (op \<noteq> OpNone)"
| "call_ready E c (CallDispatch i) = (i < length (cWork c))"
| "call_ready E c CallFinished = cPoolFinished c"
| "call_ready E c (Passes now answers) = (\<forall>a \<in> set answers. case a of Broken e \<Rightarrow> \<not> fatal e | _ \<Rightarrow> True)"
| "call_ready E c _ = True"

fun run_call :: "conn_env \<Rightarrow> conn_call \<Rightarrow> unit cm" where
  "run_call E CallStart = conn_start E"
| "run_call E CallActivate = activate E"
| "run_call E CallHold = hold E"
| "run_call E (CallDestroy reason) = conn_destroy E reason"
| "run_call E (CallClose mode) = conn_close E mode"
| "run_call E (CallMonitor now acm) = conn_monitor E now acm"
| "run_call E (CallSend out os canceled compress response n) =
     bindp (sendAsyncRequest E out os canceled compress response n) (\<lambda>_. ret ())"
| "run_call E (CallCancel out ex) = asyncRequestCanceled E out ex"
| "run_call E (CallSendResponse os flag) = sendResponse E os flag"
| "run_call E CallSendNoResponse = sendNoResponse E"
| "run_call E (CallInvokeException ex n) = invokeException E ex n"
| "run_call E (CallMessage old op) = conn_message E old op"
| "run_call E (CallDispatch i) = conn_dispatch E i"
| "run_call E CallFinished = conn_finished E"
| "run_call E CallTimedOut = timedOut E"
| "run_call E (CallException ex) = conn_exception E ex"
| "run_call E (CallSetACM factory timeout close heartbeat) = setACM factory timeout close heartbeat"
| "run_call E (CallSetHeartbeatCallback cb) = setHeartbeatCallback cb"
| "run_call E (CallSetCloseCallback cb) = setCloseCallback cb"
| "run_call E (CallSetAdapter adapter) = setAdapter adapter"
| "run_call E (Passes now answers) = modify (\<lambda>c. c\<lparr>cNow := max now (cNow c), cAnswers := answers\<rparr>)"

definition after :: "conn_env \<Rightarrow> conn_call \<Rightarrow> conn \<Rightarrow> conn" where
  "after E call c = snd (run_call E call c)"

text \<open>
  The histories of a connection.  \<open>conn_steps\<close> are histories in which the number of callbacks and
  invocations in progress stays below \<open>2 ^ 31\<close>, so that the dispatch count does not overflow.
\<close>

definition conn_step :: "conn_env \<Rightarrow> conn \<Rightarrow> conn_call \<Rightarrow> conn \<Rightarrow> bool" where
  "conn_step E c call c' \<longleftrightarrow> call_ready E c call \<and> c' = after E call c \<and> pending c' < 2 ^ 31"

inductive conn_steps :: "conn_env \<Rightarrow> conn \<Rightarrow> conn_call list \<Rightarrow> conn \<Rightarrow> bool" for E c where
  start: "conn_steps E c [] c"
| step: "conn_steps E c calls c1 \<Longrightarrow> conn_step E c1 call c2 \<Longrightarrow> conn_steps E c (calls @ [call]) c2"

fun run_calls :: "conn_env \<Rightarrow> conn_call list \<Rightarrow> conn \<Rightarrow> conn" where
  "run_calls E [] c = c"
| "run_calls E (call # calls) c = run_calls E calls (after E call c)"

end
