(* ===== verification/ConnInv.thy ===== *)
theory ConnInv
  imports ConnSteps
begin

section \<open>Connections: the invariant\<close>

text \<open>
  What holds of a connection between two calls, group by group of its fields, for transceivers that
  close at once when the peer closes (TCP, SSL, UDP: \<open>eClosing E False = OpNone\<close>).
\<close>

definition plain_env :: "conn_env \<Rightarrow> bool" where
  "plain_env E \<longleftrightarrow> eClosing E False = OpNone \<and> (\<forall>bs e. eCheckSendSize E bs = Some e \<longrightarrow> \<not> fatal e)"

text \<open>States are compared by their numbers.\<close>

lemma state_eqs:
  "(s = StateNotInitialized) = (state_num s = 0)" "(s = StateNotValidated) = (state_num s = 1)"
  "(s = StateActive) = (state_num s = 2)" "(s = StateHolding) = (state_num s = 3)"
  "(s = StateClosing) = (state_num s = 4)" "(s = StateClosingPending) = (state_num s = 5)"
  "(s = StateClosed) = (state_num s = 6)" "(s = StateFinished) = (state_num s = 7)"
  by (cases s; simp)+

lemma state_num_le: "state_num s \<le> 7"
  by (cases s) simp_all

lemmas st_arith = state_order state_eqs

definition inv_state :: "conn \<Rightarrow> bool" where
  "inv_state c \<longleftrightarrow>
     (cException c \<noteq> None \<longleftrightarrow> StateClosing \<le> cState c)
     \<and> (cPoolFinished c \<longleftrightarrow> cState c = StateClosed)
     \<and> (cShutdownInitiated c \<longrightarrow> StateClosing \<le> cState c)
     \<and> (cState c = StateClosingPending \<longrightarrow> cShutdownInitiated c)"

definition inv_errors :: "conn \<Rightarrow> bool" where
  "inv_errors c \<longleftrightarrow> (\<forall>e. cException c = Some e \<longrightarrow> \<not> fatal e) \<and> (\<forall>e. Broken e \<in> set (cAnswers c) \<longrightarrow> \<not> fatal e)"

definition valid_pos :: "cbuf \<Rightarrow> bool" where
  "valid_pos b \<longleftrightarrow> (\<exists>p. bPos b = Some p \<and> p \<le> length (bBytes b))"

text \<open>A queued message that is not the first: it owns or borrows a stream with its header.\<close>

definition waiting_msg :: "out_msg \<Rightarrow> bool" where
  "waiting_msg m \<longleftrightarrow> (\<exists>bs. omStream m = Some \<lparr>bBytes = bs, bPos = None\<rparr> \<and> length bs \<ge> headerSize)"

definition queue_ok :: "out_msg list \<Rightarrow> bool" where
  "queue_ok q \<longleftrightarrow> (case q of [] \<Rightarrow> True | m # ms \<Rightarrow> \<forall>x \<in> set ms. waiting_msg x)"

text \<open>
  The first message is being written: its stream is in \<open>_writeStream\<close> and the message holds the empty stream that
  was there.  On a closed connection the first message may also be one that was not started.
\<close>

definition head_ok :: "cbuf \<Rightarrow> out_msg \<Rightarrow> bool" where
  "head_ok b m \<longleftrightarrow> (if bBytes b = [] then waiting_msg m else omStream m = Some empty_buf)"

definition inv_queue :: "conn \<Rightarrow> bool" where
  "inv_queue c \<longleftrightarrow>
     queue_ok (cSendStreams c) \<and> valid_pos (cWriteBuf c)
     \<and> (cSendStreams c \<noteq> [] \<longrightarrow> head_ok (cWriteBuf c) (hd (cSendStreams c)))
     \<and> (cSendStreams c \<noteq> [] \<and> cState c < StateClosed \<longrightarrow> bBytes (cWriteBuf c) \<noteq> [])
     \<and> (cSendStreams c \<noteq> [] \<longrightarrow> cState c \<notin> {StateNotInitialized, StateNotValidated, StateClosingPending, StateFinished})
     \<and> (cSendStreams c = [] \<and> StateNotValidated < cState c \<and> cState c < StateClosed \<longrightarrow> bBytes (cWriteBuf c) = [])"

lemma empty_bufI: "valid_pos b \<Longrightarrow> bBytes b = [] \<Longrightarrow> b = empty_buf"
  by (cases b) (simp add: valid_pos_def empty_buf_def)

lemma head_ok_writing: "bBytes b \<noteq> [] \<Longrightarrow> head_ok b m \<longleftrightarrow> omStream m = Some empty_buf"
  by (simp add: head_ok_def)

definition inv_requests :: "conn \<Rightarrow> bool" where
  "inv_requests c \<longleftrightarrow>
     om_wf (cAsyncRequests c)
     \<and> (cState c < StateFinished \<longrightarrow> (\<forall>k. cHint c = Some k \<longrightarrow> k \<in> fst ` set (cAsyncRequests c)))
     \<and> (cState c \<in> {StateNotInitialized, StateNotValidated, StateFinished} \<longrightarrow> cAsyncRequests c = [])"

definition inv_read :: "conn \<Rightarrow> bool" where
  "inv_read c \<longleftrightarrow> valid_pos (cReadBuf c)"

definition no_invocations :: "conn \<Rightarrow> bool" where
  "no_invocations c \<longleftrightarrow> cOutstanding c = 0 \<and> (\<forall>w \<in> set (cWork c). wInvokeNum w = 0)"

definition inv_dispatch :: "conn \<Rightarrow> bool" where
  "inv_dispatch c \<longleftrightarrow>
     cDispatchCount c = word_of_nat (pending c)
     \<and> (cState c \<le> StateNotValidated \<longrightarrow> cWork c = [] \<and> cOutstanding c = 0)
     \<and> (cShutdownInitiated c \<and> cState c < StateClosed \<longrightarrow> no_invocations c)"

definition conn_inv :: "conn \<Rightarrow> bool" where
  "conn_inv c \<longleftrightarrow> inv_state c \<and> inv_errors c \<and> inv_queue c \<and> inv_requests c \<and> inv_read c \<and> inv_dispatch c"

lemmas inv_defs = conn_inv_def inv_state_def inv_errors_def inv_queue_def inv_requests_def inv_read_def
  inv_dispatch_def

subsection \<open>Fields that no group mentions\<close>

lemma conn_inv_frame [simp]:
  "conn_inv (c\<lparr>cLog := l\<rparr>) = conn_inv c"
  "conn_inv (c\<lparr>cWire := w\<rparr>) = conn_inv c"
  "conn_inv (c\<lparr>cRegistered := op\<rparr>) = conn_inv c"
  "conn_inv (c\<lparr>cAcmLast := t\<rparr>) = conn_inv c"
  "conn_inv (c\<lparr>cNow := t\<rparr>) = conn_inv c"
  "conn_inv (c\<lparr>cMonitor := mo\<rparr>) = conn_inv c"
  "conn_inv (c\<lparr>cReadTimeout := b\<rparr>) = conn_inv c"
  "conn_inv (c\<lparr>cWriteTimeout := b\<rparr>) = conn_inv c"
  "conn_inv (c\<lparr>cReadTimeout := b, cWriteTimeout := b'\<rparr>) = conn_inv c"
  "conn_inv (c\<lparr>cInitialized := b\<rparr>) = conn_inv c"
  "conn_inv (c\<lparr>cValidated := b\<rparr>) = conn_inv c"
  "conn_inv (c\<lparr>cHasAdapter := b\<rparr>) = conn_inv c"
  "conn_inv (c\<lparr>cReadHeader := b\<rparr>) = conn_inv c"
  "conn_inv (c\<lparr>cReadHeader := b, cValidated := b'\<rparr>) = conn_inv c"
  "conn_inv (c\<lparr>cNextRequestId := n\<rparr>) = conn_inv c"
  "conn_inv (c\<lparr>cBatch := q\<rparr>) = conn_inv c"
  "conn_inv (c\<lparr>cStartCallback := b\<rparr>) = conn_inv c"
  "conn_inv (c\<lparr>cCloseCallback := b\<rparr>) = conn_inv c"
  "conn_inv (c\<lparr>cHeartbeatCallback := b\<rparr>) = conn_inv c"
  by (simp_all add: inv_defs pending_def no_invocations_def)

lemma conn_inv_new: "conn_inv (connection_new E adapter monitor batch now answers)
    \<longleftrightarrow> (\<forall>e. Broken e \<in> set answers \<longrightarrow> \<not> fatal e)"
  by (simp add: inv_defs connection_new_def st_arith queue_ok_def valid_pos_def empty_buf_def pending_def)

lemma not_fatal [simp]:
  "\<not> fatal CloseConnection" "\<not> fatal (ConnectionManuallyClosed b)" "\<not> fatal ConnectionTimeout" "\<not> fatal ConnectTimeout"
  "\<not> fatal ReadWriteTimeout" "\<not> fatal CloseTimeout" "\<not> fatal CommunicatorDestroyed" "\<not> fatal ObjectAdapterDeactivated"
  "\<not> fatal UnmarshalOutOfBounds" "\<not> fatal UnknownMessage" "\<not> fatal ConnectionNotValidated" "\<not> fatal IllegalMessageSize"
  "\<not> fatal MemoryLimit" "\<not> fatal DatagramLimit" "\<not> fatal CompressionError" "\<not> fatal RetryRequest" "\<not> fatal (BadMagic m)"
  "\<not> fatal UnsupportedProtocol" "\<not> fatal UnsupportedEncoding" "\<not> fatal (IllegalArgument t)"
  "fatal AssertFailed" "fatal MemoryError"
  by (simp_all add: fatal_def)

subsection \<open>Closing\<close>

text \<open>What of the log concerns requests; the other fields that a change of the state leaves alone.\<close>

definition about_request :: "conn_event \<Rightarrow> bool" where
  "about_request ev = (case ev of EvSent r \<Rightarrow> True | EvException r e \<Rightarrow> True | EvResponse r bs \<Rightarrow> True | _ \<Rightarrow> False)"

definition notified :: "conn \<Rightarrow> conn_event list" where
  "notified c = filter about_request (cLog c)"

lemma about_request_simps [simp]:
  "about_request (EvSent r)" "about_request (EvException r e)" "about_request (EvResponse r bs)"
  "\<not> about_request EvPoolFinish" "\<not> about_request EvTransceiverClose" "\<not> about_request EvMonitorAdd"
  "\<not> about_request EvMonitorRemove" "\<not> about_request EvReap" "\<not> about_request EvStartCompleted"
  "\<not> about_request (EvStartFailed e)" "\<not> about_request EvCloseCallback" "\<not> about_request EvHeartbeatCallback"
  "\<not> about_request (EvInvokeException r)" "\<not> about_request (EvInvokeExceptionAsync r)"
  "\<not> about_request (EvInvokeResponse r)" "\<not> about_request (EvInvokeSent r)"
  "\<not> about_request (EvInvocations n i f bs)"
  by (simp_all add: about_request_def)

definition same_data :: "conn \<Rightarrow> conn \<Rightarrow> bool" where
  "same_data c c' \<longleftrightarrow>
     cSendStreams c' = cSendStreams c \<and> cWriteBuf c' = cWriteBuf c \<and> cReadBuf c' = cReadBuf c
     \<and> cReadHeader c' = cReadHeader c \<and> cAsyncRequests c' = cAsyncRequests c \<and> cHint c' = cHint c
     \<and> cDispatchCount c' = cDispatchCount c \<and> cWork c' = cWork c \<and> cOutstanding c' = cOutstanding c
     \<and> cShutdownInitiated c' = cShutdownInitiated c \<and> cAnswers c' = cAnswers c \<and> cWire c' = cWire c
     \<and> cNextRequestId c' = cNextRequestId c \<and> cStartCallback c' = cStartCallback c
     \<and> cCloseCallback c' = cCloseCallback c \<and> cHeartbeatCallback c' = cHeartbeatCallback c
     \<and> cHasAdapter c' = cHasAdapter c \<and> notified c' = notified c"

lemmas same_data = same_data_def [THEN iffD1, rule_format]

text \<open>The connection that \<open>setState(StateClosed, ex)\<close> leaves.\<close>

definition closed_by :: "ice_error \<Rightarrow> conn \<Rightarrow> conn \<Rightarrow> bool" where
  "closed_by ex c c' \<longleftrightarrow>
     (if StateClosed \<le> cState c then c' = c
      else same_data c c' \<and> cException c' = Some (case cException c of Some e \<Rightarrow> e | None \<Rightarrow> ex)
        \<and> cPoolFinished c' \<and> cState c' = StateClosed)"

lemmas state_defs = setState_def switch_state_def effective_state_def leave_state_def Let_def pool_finish_def
  emit_def deref_exception_def update_monitor_def touch_def record_exception_def

lemma wp_setState_Closed:
  assumes "cException c = Some e" "\<And>c'. closed_by e c c' \<Longrightarrow> Q () c'"
  shows "wp (setState E StateClosed) Q R c"
proof -
  have "wp (setState E StateClosed) (\<lambda>_ c'. closed_by e c c') (\<lambda>_ _. False) c"
    using assms(1)
    by (cases "cState c"; simp add: state_defs wp_simps closed_by_def state_order same_data_def notified_def)
  then show ?thesis by (rule wp_weaken) (simp add: assms(2))
qed

lemma wp_setStateEx_Closed:
  assumes "inv_state c" "\<And>c'. closed_by ex c c' \<Longrightarrow> Q () c'"
  shows "wp (setStateEx E StateClosed ex) Q R c"
proof -
  have "wp (setStateEx E StateClosed ex) (\<lambda>_ c'. closed_by ex c c') (\<lambda>_ _. False) c"
    using assms(1)
    by (cases "cState c"; cases "cException c";
        simp add: setStateEx_def inv_state_def state_defs wp_simps closed_by_def state_order same_data_def notified_def)
  then show ?thesis by (rule wp_weaken) (simp add: assms(2))
qed

lemma wp_close_now:
  assumes "inv_state c" "\<And>c'. closed_by ex c c' \<Longrightarrow> Q () c'"
  shows "wp (close_now E ex) Q R c"
proof -
  have "wp (close_now E ex) (\<lambda>_ c'. closed_by ex c c') (\<lambda>_ _. False) c"
    using assms(1)
    by (cases "cState c"; cases "cException c";
        simp add: close_now_def inv_state_def state_defs wp_simps closed_by_def state_order same_data_def notified_def)
  then show ?thesis by (rule wp_weaken) (simp add: assms(2))
qed

lemma closed_by_inv: "conn_inv c \<Longrightarrow> closed_by ex c c' \<Longrightarrow> \<not> fatal ex \<Longrightarrow> conn_inv c'"
  by (cases "StateClosed \<le> cState c"; cases "cException c")
    (simp_all add: closed_by_def same_data_def inv_defs pending_def no_invocations_def state_order)

lemma wp_scheduleTimeout:
  assumes "\<And>a b. Q () (c\<lparr>cReadTimeout := a, cWriteTimeout := b\<rparr>)"
  shows "wp (scheduleTimeout E op) Q R c"
proof -
  have "c = c\<lparr>cReadTimeout := cReadTimeout c, cWriteTimeout := cWriteTimeout c\<rparr>" by simp
  then have "Q () c" using assms by metis
  with assms show ?thesis by (simp add: scheduleTimeout_def wp_simps Let_def)
qed

subsection \<open>Writing\<close>

lemma wp_tx_write:
  assumes "valid_pos b" "inv_errors c"
    and "\<And>op p as. \<lbrakk>buf_pos b \<le> p; p \<le> length (bBytes b); op = (if p < length (bBytes b) then OpWrite else OpNone);
        set as \<subseteq> set (cAnswers c)\<rbrakk> \<Longrightarrow>
      Q (op, b\<lparr>bPos := Some p\<rparr>)
        (c\<lparr>cAnswers := as, cWire := cWire c @ take (p - buf_pos b) (drop (buf_pos b) (bBytes b))\<rparr>)"
    and "\<And>e as. \<lbrakk>\<not> fatal e; set as \<subseteq> set (cAnswers c)\<rbrakk> \<Longrightarrow> R e (c\<lparr>cAnswers := as\<rparr>)"
  shows "wp (tx_write b) Q R c"
proof -
  obtain p where p: "bPos b = Some p" "p \<le> length (bBytes b)" using assms(1) by (auto simp: valid_pos_def)
  have tl: "set (tl (cAnswers c)) \<subseteq> set (cAnswers c)" by (cases "cAnswers c") auto
  have b: "b\<lparr>bPos := Some p\<rparr> = b" using p by (cases b) simp
  have nop: "Q (if p < length (bBytes b) then OpWrite else OpNone, b) (c\<lparr>cAnswers := as\<rparr>)"
    if "set as \<subseteq> set (cAnswers c)" for as
    using assms(3) [of p _ as] that p b by (simp add: buf_pos_def)
  show ?thesis
  proof (cases "p < length (bBytes b)")
    case False
    with nop [of "cAnswers c"] p show ?thesis by (simp add: tx_write_def wp_simps buf_pos_def)
  next
    case True
    show ?thesis
    proof (cases "cAnswers c")
      case Nil
      with nop [of "[]"] True p show ?thesis
        by (simp add: tx_write_def wp_simps buf_pos_def pop_answer_def)
    next
      case (Cons a as)
      show ?thesis
      proof (cases a)
        case (Moved k)
        have "Q (if p + min k (length (bBytes b) - p) < length (bBytes b) then OpWrite else OpNone,
            b\<lparr>bPos := Some (p + min k (length (bBytes b) - p))\<rparr>)
           (c\<lparr>cAnswers := as, cWire := cWire c @ take (min k (length (bBytes b) - p)) (drop p (bBytes b))\<rparr>)"
          using assms(3) [of "p + min k (length (bBytes b) - p)" _ as] p Cons by (simp add: buf_pos_def subset_insertI)
        moreover have "(p + min k (length (bBytes b) - p) < length (bBytes b)) = (min k (length (bBytes b) - p) < length (bBytes b) - p)"
          using True by auto
        ultimately show ?thesis using True p Cons Moved
          by (simp add: tx_write_def wp_simps buf_pos_def pop_answer_def Let_def)
      next
        case (Broken e)
        then have "\<not> fatal e" using assms(2) Cons by (auto simp: inv_errors_def)
        with assms(4) [of e as] True p Cons Broken show ?thesis
          by (simp add: tx_write_def wp_simps buf_pos_def pop_answer_def subset_insertI)
      qed (use nop [of as] True p Cons in \<open>simp_all add: tx_write_def wp_simps buf_pos_def pop_answer_def subset_insertI\<close>)
    qed
  qed
qed

text \<open>What sending a message leaves alone, and what a change of the state leaves alone.\<close>

definition same_base :: "conn \<Rightarrow> conn \<Rightarrow> bool" where
  "same_base c c' \<longleftrightarrow>
     cAsyncRequests c' = cAsyncRequests c \<and> cHint c' = cHint c
     \<and> cDispatchCount c' = cDispatchCount c \<and> cWork c' = cWork c \<and> cOutstanding c' = cOutstanding c
     \<and> cReadBuf c' = cReadBuf c \<and> cReadHeader c' = cReadHeader c \<and> cNextRequestId c' = cNextRequestId c
     \<and> cStartCallback c' = cStartCallback c \<and> cCloseCallback c' = cCloseCallback c
     \<and> cHeartbeatCallback c' = cHeartbeatCallback c \<and> cHasAdapter c' = cHasAdapter c"

definition same_ctl :: "conn \<Rightarrow> conn \<Rightarrow> bool" where
  "same_ctl c c' \<longleftrightarrow> same_base c c' \<and>
     cState c' = cState c \<and> cException c' = cException c \<and> cShutdownInitiated c' = cShutdownInitiated c
     \<and> cPoolFinished c' = cPoolFinished c"

lemma same_base_trans: "same_base c c1 \<Longrightarrow> same_base c1 c2 \<Longrightarrow> same_base c c2"
  by (simp add: same_base_def)

lemma same_base_refl [simp]: "same_base c c"
  by (simp add: same_base_def)

lemma same_base_frame [simp]:
  "same_base c (c'\<lparr>cLog := l\<rparr>) = same_base c c'"
  "same_base c (c'\<lparr>cWire := w\<rparr>) = same_base c c'"
  "same_base c (c'\<lparr>cAnswers := as\<rparr>) = same_base c c'"
  "same_base c (c'\<lparr>cRegistered := op\<rparr>) = same_base c c'"
  "same_base c (c'\<lparr>cAcmLast := t\<rparr>) = same_base c c'"
  "same_base c (c'\<lparr>cReadTimeout := b\<rparr>) = same_base c c'"
  "same_base c (c'\<lparr>cWriteTimeout := b\<rparr>) = same_base c c'"
  "same_base c (c'\<lparr>cState := st\<rparr>) = same_base c c'"
  "same_base c (c'\<lparr>cException := e\<rparr>) = same_base c c'"
  "same_base c (c'\<lparr>cShutdownInitiated := b\<rparr>) = same_base c c'"
  "same_base c (c'\<lparr>cSendStreams := q\<rparr>) = same_base c c'"
  "same_base c (c'\<lparr>cWriteBuf := wb\<rparr>) = same_base c c'"
  by (simp_all add: same_base_def)

lemma same_base_pending: "same_base c c' \<Longrightarrow> pending c' = pending c"
  by (simp add: same_base_def pending_def)

lemma same_data_base: "same_data c c' \<Longrightarrow> same_base c c'"
  by (simp add: same_data_def same_base_def)

text \<open>The queue gets messages that belong to no request, and no request is notified.\<close>

definition queue_grows :: "conn \<Rightarrow> conn \<Rightarrow> bool" where
  "queue_grows c c' \<longleftrightarrow> notified c' = notified c \<and>
     (\<exists>ms. cSendStreams c' = cSendStreams c @ ms \<and> (\<forall>m \<in> set ms. omAsync m = None \<and> omRequestId m = 0))"

lemma queue_grows_refl: "cSendStreams c' = cSendStreams c \<Longrightarrow> notified c' = notified c \<Longrightarrow> queue_grows c c'"
  by (auto simp: queue_grows_def)

lemma queue_grows_trans: "queue_grows c c1 \<Longrightarrow> queue_grows c1 c2 \<Longrightarrow> queue_grows c c2"
  by (force simp: queue_grows_def)

lemma queue_grows_frame [simp]:
  "queue_grows c (c'\<lparr>cWire := w\<rparr>) = queue_grows c c'"
  "queue_grows c (c'\<lparr>cAnswers := as\<rparr>) = queue_grows c c'"
  "queue_grows c (c'\<lparr>cRegistered := op\<rparr>) = queue_grows c c'"
  "queue_grows c (c'\<lparr>cAcmLast := t\<rparr>) = queue_grows c c'"
  "queue_grows c (c'\<lparr>cReadTimeout := b\<rparr>) = queue_grows c c'"
  "queue_grows c (c'\<lparr>cWriteTimeout := b\<rparr>) = queue_grows c c'"
  "queue_grows c (c'\<lparr>cState := st\<rparr>) = queue_grows c c'"
  "queue_grows c (c'\<lparr>cException := e\<rparr>) = queue_grows c c'"
  "queue_grows c (c'\<lparr>cShutdownInitiated := b\<rparr>) = queue_grows c c'"
  by (simp_all add: queue_grows_def notified_def)

text \<open>The order in which a connection goes through its states; only active and holding alternate.\<close>

fun state_rank :: "conn_state \<Rightarrow> nat" where
  "state_rank StateNotInitialized = 0"
| "state_rank StateNotValidated = 1"
| "state_rank StateActive = 2"
| "state_rank StateHolding = 2"
| "state_rank StateClosing = 3"
| "state_rank StateClosingPending = 4"
| "state_rank StateClosed = 5"
| "state_rank StateFinished = 6"

definition moved :: "conn \<Rightarrow> conn \<Rightarrow> bool" where
  "moved c c' \<longleftrightarrow> same_base c c' \<and> queue_grows c c' \<and> state_rank (cState c) \<le> state_rank (cState c')"

lemma moved_refl [simp]: "moved c c"
  by (simp add: moved_def queue_grows_refl)

lemma moved_trans: "moved c c1 \<Longrightarrow> moved c1 c2 \<Longrightarrow> moved c c2"
  by (auto simp: moved_def intro: same_base_trans queue_grows_trans)

lemma state_rank_Closed: "\<not> StateClosed \<le> s \<Longrightarrow> state_rank s \<le> 5"
  by (cases s) (simp_all add: state_order)

lemma closed_by_moved: "closed_by ex c c' \<Longrightarrow> moved c c'"
  by (cases "StateClosed \<le> cState c")
    (simp_all add: closed_by_def moved_def same_data_base same_data_def queue_grows_refl state_rank_Closed)

text \<open>What \<open>sendMessage\<close> does with a message: it is queued at the end, or written at once.\<close>

definition sent_event :: "out_msg \<Rightarrow> conn_event list" where
  "sent_event m = (case omAsync m of Some out \<Rightarrow> [EvSent out] | None \<Rightarrow> [])"

definition same_id :: "out_msg \<Rightarrow> out_msg \<Rightarrow> bool" where
  "same_id m m' \<longleftrightarrow> omAsync m' = omAsync m \<and> omRequestId m' = omRequestId m"

fun sent_as :: "out_msg \<Rightarrow> conn \<Rightarrow> async_status \<Rightarrow> conn \<Rightarrow> bool" where
  "sent_as m c AsyncQueued c' =
     ((\<exists>m'. cSendStreams c' = cSendStreams c @ [m'] \<and> same_id m m') \<and> notified c' = notified c)"
| "sent_as m c (AsyncSent cb) c' =
     (cSendStreams c = [] \<and> cSendStreams c' = [] \<and> notified c' = notified c @ sent_event m)"

definition fresh_msg :: "out_msg \<Rightarrow> bool" where
  "fresh_msg m \<longleftrightarrow> (\<exists>bs. omStream m = Some \<lparr>bBytes = bs, bPos = Some 0\<rparr> \<and> length bs \<ge> headerSize) \<and> \<not> omAdopted m"

lemma fresh_mk_msg [simp]: "fresh_msg (mk_msg out bs compress rid) \<longleftrightarrow> length bs \<ge> headerSize"
  by (simp add: fresh_msg_def mk_msg_def)

lemma length_fill_size [simp]: "length bs \<ge> headerSize \<Longrightarrow> length (fill_size bs) = length bs"
  by (simp add: fill_size_def headerSize_def)

lemma length_mark_compress [simp]: "length (mark_compress v b bs) = length bs"
  by (simp add: mark_compress_def)

lemma doCompress_length: "doCompress E bs = Inr bs' \<Longrightarrow> length bs \<ge> headerSize \<Longrightarrow> length bs' \<ge> headerSize"
  by (auto simp: doCompress_def headerSize_def Let_def split: option.splits)

lemma doCompress_error: "doCompress E bs = Inl e \<Longrightarrow> \<not> fatal e"
  by (auto simp: doCompress_def Let_def split: option.splits)

lemma same_ctl_inv:
  assumes "same_ctl c c'"
  shows "inv_state c' = inv_state c" "inv_requests c' = inv_requests c" "inv_read c' = inv_read c"
    "inv_dispatch c' = inv_dispatch c"
  using assms by (simp_all add: same_ctl_def same_base_def inv_state_def inv_requests_def inv_read_def inv_dispatch_def
      pending_def no_invocations_def)

lemma conn_inv_ctl:
  assumes "conn_inv c" "same_ctl c c'" "set (cAnswers c') \<subseteq> set (cAnswers c)" "inv_queue c'"
  shows "conn_inv c'"
proof -
  have "cException c' = cException c" using assms(2) by (simp add: same_ctl_def)
  moreover have "inv_errors c" using assms(1) by (simp add: conn_inv_def)
  ultimately have "inv_errors c'" using assms(3) by (auto simp: inv_errors_def)
  with assms(1,4) same_ctl_inv [OF assms(2)] show ?thesis by (simp add: conn_inv_def)
qed

lemma wp_write_or_queue:
  assumes b: "bPos b = Some 0" "length (bBytes b) \<ge> headerSize"
    and inv: "conn_inv c" "cSendStreams c = []" "cState c \<in> {StateActive, StateHolding, StateClosing}"
    and q: "\<And>b. same_id m (queued b)"
    and Q: "\<And>st c'. \<lbrakk>conn_inv c'; same_ctl c c'; sent_as m c st c'\<rbrakk> \<Longrightarrow> Q st c'"
    and R: "\<And>e c'. \<lbrakk>conn_inv c'; same_ctl c c'; \<not> fatal e; cSendStreams c' = cSendStreams c; notified c' = notified c\<rbrakk> \<Longrightarrow> R e c'"
  shows "wp (write_or_queue E m b queued) Q R c"
  unfolding write_or_queue_def wp_bindp
proof (rule wp_tx_write)
  show "valid_pos b" using b by (simp add: valid_pos_def)
  show "inv_errors c" using inv by (simp add: conn_inv_def)
next
  fix op p as
  assume p: "buf_pos b \<le> p" "p \<le> length (bBytes b)" "op = (if p < length (bBytes b) then OpWrite else OpNone)"
    and as: "set as \<subseteq> set (cAnswers c)"
  let ?c = "c\<lparr>cAnswers := as, cWire := cWire c @ take (p - buf_pos b) (drop (buf_pos b) (bBytes b))\<rparr>"
  let ?b = "b\<lparr>bPos := Some p\<rparr>"
  have iq: "inv_queue c" using inv by (simp add: conn_inv_def)
  show "wp (case (op, ?b) of (op, b) \<Rightarrow>
        if op = OpNone then bindp (msg_sent E m) (\<lambda>cb. seqp touch (ret (AsyncSent cb)))
        else seqp (modify (\<lambda>c. c\<lparr>cSendStreams := cSendStreams c @ [(queued b)\<lparr>omStream := Some (cWriteBuf c)\<rparr>],
                               cWriteBuf := b\<rparr>))
            (seqp (scheduleTimeout E op) (seqp (pool_register op) (ret AsyncQueued)))) Q R ?c"
  proof (cases "p < length (bBytes b)")
    case True
    let ?r = "\<lambda>c. c\<lparr>cSendStreams := [(queued ?b)\<lparr>omStream := Some (cWriteBuf c)\<rparr>], cWriteBuf := ?b\<rparr>"
    have *: "Q AsyncQueued c'" if "same_ctl c c'" "set (cAnswers c') \<subseteq> set (cAnswers c)"
        "cSendStreams c' = [(queued ?b)\<lparr>omStream := Some (cWriteBuf c)\<rparr>]" "cWriteBuf c' = ?b" "notified c' = notified c" for c'
    proof (rule Q [OF conn_inv_ctl [OF inv(1) that(1,2)]])
      have "cState c' = cState c" using that(1) by (simp add: same_ctl_def)
      moreover have "bBytes b \<noteq> []" using b(2) by (auto simp: headerSize_def)
      moreover have "cWriteBuf c = empty_buf"
        using iq inv(2,3) by (intro empty_bufI) (auto simp: inv_queue_def state_order)
      ultimately show "inv_queue c'" using that(3,4) p(2) inv(3)
        by (auto simp: inv_queue_def queue_ok_def valid_pos_def head_ok_writing)
      show "sent_as m c AsyncQueued c'" using that inv(2) q [of ?b] by (simp add: same_id_def)
    qed (use that in simp)
    show ?thesis using True p as inv(2)
      by (auto simp: wp_simps op_none_iff scheduleTimeout_def pool_register_def pool_update_def Let_def
          same_ctl_def same_base_def notified_def intro!: *)
  next
    case False
    have *: "Q (AsyncSent cb) c'" if "same_ctl c c'" "set (cAnswers c') \<subseteq> set (cAnswers c)"
        "cSendStreams c' = cSendStreams c" "cWriteBuf c' = cWriteBuf c" "notified c' = notified c @ sent_event m" for cb c'
    proof (rule Q)
      have "inv_queue c'" using that iq by (simp add: inv_queue_def same_ctl_def)
      then show "conn_inv c'" by (rule conn_inv_ctl [OF inv(1) that(1,2)])
      show "sent_as m c (AsyncSent cb) c'" using that inv(2) by simp
    qed (use that in simp)
    show ?thesis using False p as
      by (auto simp: wp_simps msg_sent_def touch_def emit_def same_ctl_def notified_def sent_event_def
          split: option.split intro!: *)
  qed
next
  fix e as assume "\<not> fatal e" "set as \<subseteq> set (cAnswers c)"
  with inv show "R e (c\<lparr>cAnswers := as\<rparr>)"
    by (intro R conn_inv_ctl [OF inv(1)]) (auto simp: inv_defs same_ctl_def notified_def)
qed

lemma wp_sendMessage:
  assumes inv: "conn_inv c" "cState c \<in> {StateActive, StateHolding, StateClosing}" and m: "fresh_msg m"
    and Q: "\<And>st c'. \<lbrakk>conn_inv c'; same_ctl c c'; sent_as m c st c'\<rbrakk> \<Longrightarrow> Q st c'"
    and R: "\<And>e c'. \<lbrakk>conn_inv c'; same_ctl c c'; \<not> fatal e; cSendStreams c' = cSendStreams c; notified c' = notified c\<rbrakk> \<Longrightarrow> R e c'"
  shows "wp (sendMessage E m) Q R c"
proof -
  obtain bs where bs: "omStream m = Some \<lparr>bBytes = bs, bPos = Some 0\<rparr>" "length bs \<ge> headerSize" "\<not> omAdopted m"
    using m by (auto simp: fresh_msg_def)
  have mb: "msg_bytes m = bs" using bs by (simp add: msg_bytes_def)
  have lt: "cState c < StateClosed" using inv(2) by (auto simp: state_order)
  show ?thesis
  proof (cases "cSendStreams c = []")
    case False
    let ?m = "adopt None (m\<lparr>omStream := Some \<lparr>bBytes = bs, bPos = None\<rparr>\<rparr>)"
    let ?c = "c\<lparr>cSendStreams := cSendStreams c @ [?m]\<rparr>"
    have "waiting_msg ?m" using bs by (auto simp: waiting_msg_def adopt_def)
    with inv False have "inv_queue ?c"
      by (cases "cSendStreams c") (auto simp: conn_inv_def inv_queue_def queue_ok_def)
    then have "conn_inv ?c" by (rule conn_inv_ctl [OF inv(1), rotated 2]) (simp_all add: same_ctl_def)
    then have "Q AsyncQueued ?c"
      by (rule Q) (auto simp: same_ctl_def same_id_def adopt_def notified_def)
    with False lt mb show ?thesis by (simp add: sendMessage_def wp_simps)
  next
    case True
    have l: "length (mark_compress 2 True bs) \<ge> headerSize" using bs by simp
    have "wp (write_or_queue E m \<lparr>bBytes = fill_size (mark_compress 1 (omCompress m) bs), bPos = Some 0\<rparr>
           (\<lambda>b. adopt None (m\<lparr>omStream := Some b\<rparr>))) Q R c"
      by (rule wp_write_or_queue [OF _ _ inv(1) True inv(2)]) (use bs Q R in \<open>auto simp: same_id_def adopt_def\<close>)
    moreover have "wp (write_or_queue E m \<lparr>bBytes = bs', bPos = Some 0\<rparr> (\<lambda>b. adopt (Some b) m)) Q R c"
      if "doCompress E (mark_compress 2 True bs) = Inr bs'" for bs'
      by (rule wp_write_or_queue [OF _ _ inv(1) True inv(2)])
        (use doCompress_length [OF that l] Q R in \<open>auto simp: same_id_def adopt_def\<close>)
    moreover have "R e c" if "doCompress E (mark_compress 2 True bs) = Inl e" for e
      using doCompress_error [OF that] inv(1) by (intro R) (auto simp: same_ctl_def)
    ultimately show ?thesis using True lt mb by (auto simp: sendMessage_def wp_simps split: sum.split)
  qed
qed

subsection \<open>Closing gracefully\<close>

text \<open>
  Every graceful closure leaves the requests alone, and the state is at least closing afterwards.  The close
  message is queued behind the others or sent.
\<close>

lemma sent_as_moved:
  assumes "same_ctl c c'" "sent_as (mk_msg None bs compress 0) c st c'"
  shows "moved c c'"
proof (cases st)
  case AsyncQueued
  with assms show ?thesis
    by (auto simp: moved_def same_ctl_def queue_grows_def same_id_def mk_msg_def)
next
  case (AsyncSent cb)
  with assms show ?thesis
    by (auto simp: moved_def same_ctl_def sent_event_def mk_msg_def intro: queue_grows_refl)
qed

lemma pending_zero:
  assumes "inv_dispatch c" "cDispatchCount c = 0" "pending c < 2 ^ 31"
  shows "pending c = 0"
proof -
  have "unat (cDispatchCount c) = pending c"
    using assms(1,3) by (simp add: inv_dispatch_def unat_of_nat)
  with assms(2) show ?thesis by simp
qed

lemma pending_zero_no_invocations: "pending c = 0 \<Longrightarrow> no_invocations c"
  by (auto simp: pending_def no_invocations_def work_weight_def unat_eq_0)

lemma length_close_message [simp]: "length close_message = headerSize" "length validate_message = headerSize"
  by (simp_all add: close_message_def validate_message_def control_message_def magic_def headerSize_def)

lemma wp_initiateShutdown:
  assumes inv: "conn_inv c" "cState c = StateClosing" "cDispatchCount c = 0" "pending c < 2 ^ 31"
    and Q: "\<And>c'. \<lbrakk>conn_inv c'; moved c c'; StateClosing \<le> cState c'\<rbrakk> \<Longrightarrow> Q () c'"
    and R: "\<And>e c'. \<lbrakk>conn_inv c'; moved c c'; StateClosing \<le> cState c'; \<not> fatal e\<rbrakk> \<Longrightarrow> R e c'"
  shows "wp (initiateShutdown E) Q R c"
proof -
  let ?c = "c\<lparr>cShutdownInitiated := True\<rparr>"
  have "no_invocations c"
    using pending_zero [OF _ inv(3,4)] inv(1) by (simp add: conn_inv_def pending_zero_no_invocations)
  with inv have inv': "conn_inv ?c"
    by (simp add: inv_defs pending_def no_invocations_def)
  have mv: "moved c ?c" by (simp add: moved_def queue_grows_refl)
  have "wp (bindp (sendMessage E (mk_msg None close_message False 0)) (\<lambda>status.
             whenp (status \<noteq> AsyncQueued)
               (seqp (switch_state E StateClosingPending)
                 (let op = eClosing E True in
                  whenp (op \<noteq> OpNone) (seqp (scheduleTimeout E op) (pool_register op)))))) Q R ?c" if "\<not> eDatagram E"
    unfolding wp_bindp
  proof (rule wp_sendMessage [OF inv'])
    fix st c1 assume c1: "conn_inv c1" "same_ctl ?c c1" "sent_as (mk_msg None close_message False 0) ?c st c1"
    have m1: "moved c c1" using sent_as_moved [OF c1(2,3)] mv moved_trans by blast
    have s1: "cState c1 = StateClosing" "cShutdownInitiated c1" using c1(2) inv(2) by (simp_all add: same_ctl_def)
    show "wp (whenp (st \<noteq> AsyncQueued)
               (seqp (switch_state E StateClosingPending)
                 (let op = eClosing E True in
                  whenp (op \<noteq> OpNone) (seqp (scheduleTimeout E op) (pool_register op))))) Q R c1"
    proof (cases st)
      case AsyncQueued
      then show ?thesis using c1 m1 s1 by (auto simp: wp_simps state_order intro!: Q)
    next
      case (AsyncSent cb)
      have "cSendStreams c1 = []" using c1(3) AsyncSent by simp
      then have inv2: "conn_inv (c1\<lparr>cState := StateClosingPending\<rparr>)"
        using c1(1) s1 by (simp add: inv_defs pending_def no_invocations_def state_order)
      have m2: "moved c (c1\<lparr>cState := StateClosingPending\<rparr>)" using m1 s1 by (simp add: moved_def)
      have "wp (let op = eClosing E True in
                  whenp (op \<noteq> OpNone) (seqp (scheduleTimeout E op) (pool_register op))) Q R
              (c1\<lparr>cState := StateClosingPending\<rparr>)"
        using inv2 m2 by (auto simp: Let_def wp_simps pool_register_def pool_update_def moved_def state_order
            intro!: Q wp_scheduleTimeout)
      then show ?thesis using AsyncSent s1
        by (simp add: wp_simps switch_state_def effective_state_def leave_state_def update_monitor_def Let_def state_order split: if_splits)
    qed
  next
    fix e c1 assume c1: "conn_inv c1" "same_ctl ?c c1" "\<not> fatal e" "cSendStreams c1 = cSendStreams ?c" "notified c1 = notified ?c"
    then have "moved ?c c1" by (simp add: moved_def same_ctl_def queue_grows_refl)
    with c1 mv inv(2) show "R e c1" by (intro R moved_trans [OF mv]) (auto simp: same_ctl_def state_order)
  qed (use inv in simp_all)
  then show ?thesis using inv inv' mv
    by (auto simp: initiateShutdown_def wp_simps state_order intro!: Q)
qed

lemma wp_shutdown_or_close:
  assumes inv: "conn_inv c" "cState c = StateClosing" "cDispatchCount c = 0" "pending c < 2 ^ 31"
    and close: "\<And>e c1. \<lbrakk>inv_state c1; \<And>c'. closed_by e c1 c' \<Longrightarrow> Q () c'\<rbrakk> \<Longrightarrow> wp (close E e) Q R c1"
    and Q: "\<And>c'. \<lbrakk>conn_inv c'; moved c c'; StateClosing \<le> cState c'\<rbrakk> \<Longrightarrow> Q () c'"
  shows "wp (catchp (initiateShutdown E) (close E)) Q R c"
  unfolding wp_catchp
proof (rule wp_initiateShutdown [where c = c, OF inv(1) inv(2) inv(3) inv(4)])
  fix e c1 assume c1: "conn_inv c1" "moved c c1" "StateClosing \<le> cState c1" "\<not> fatal e"
  have "wp (close E e) Q R c1"
  proof (rule close)
    show "inv_state c1" using c1(1) by (simp add: conn_inv_def)
    fix c' assume "closed_by e c1 c'"
    then show "Q () c'" using c1 closed_by_inv [of c1 e c'] closed_by_moved [of e c1 c'] moved_trans [of c c1 c']
      by (intro Q) (auto simp: state_order closed_by_def split: if_splits)
  qed
  with c1(4) show "if fatal e then R e c1 else wp (close E e) Q R c1" by simp
qed (use Q in simp)

text \<open>\<open>setState(StateClosing, ex)\<close>.\<close>

lemma setStateEx_Closing_unchanged:
  assumes "StateClosed \<le> cState c \<or> StateClosing \<le> cState c \<and> \<not> eDatagram E \<or> cState c = StateClosing"
    and "cException c \<noteq> None"
  shows "wp (setStateEx E StateClosing ex) (\<lambda>_ c'. c' = c) (\<lambda>_ _. False) c"
proof -
  have "cState c = StateClosing \<or> cState c = StateClosingPending \<and> \<not> eDatagram E \<or> cState c = StateClosed \<or> cState c = StateFinished"
    using assms(1) by (cases "cState c") (auto simp: state_order)
  moreover obtain e where "cException c = Some e" using assms(2) by auto
  ultimately show ?thesis
    by (elim disjE conjE) (simp_all add: setStateEx_def state_defs wp_simps state_order)
qed

lemma setStateEx_Closing_closed:
  assumes "cState c < StateClosed" "cState c \<noteq> StateClosing" "eDatagram E \<or> cState c \<le> StateNotValidated" "inv_state c"
  shows "wp (setStateEx E StateClosing ex) (\<lambda>_ c'. closed_by ex c c') (\<lambda>_ _. False) c"
  using assms by (cases "cState c"; cases "eDatagram E"; cases "cException c";
    simp add: setStateEx_def state_defs wp_simps closed_by_def state_order same_data_def notified_def inv_state_def)

lemma switch_state_Closing:
  assumes "cState c = StateActive \<or> cState c = StateHolding" "\<not> eDatagram E"
  shows "wp (switch_state E StateClosing)
    (\<lambda>go c1. go \<and> (c1 = c\<lparr>cState := StateClosing\<rparr> \<or> c1 = c\<lparr>cLog := cLog c @ [EvMonitorRemove], cState := StateClosing\<rparr>))
    (\<lambda>_ _. False) c"
  using assms by (elim disjE) (simp_all add: state_defs wp_simps state_order)

lemma wp_setStateEx_Closing:
  assumes inv: "conn_inv c" "pending c < 2 ^ 31" "\<not> fatal ex"
    and Q: "\<And>c'. \<lbrakk>conn_inv c'; moved c c'; StateClosing \<le> cState c'\<rbrakk> \<Longrightarrow> Q () c'"
  shows "wp (setStateEx E StateClosing ex) Q R c"
proof -
  have ins: "inv_state c" using inv(1) by (simp add: conn_inv_def)
  consider (unchanged) "StateClosed \<le> cState c \<or> StateClosing \<le> cState c \<and> \<not> eDatagram E \<or> cState c = StateClosing"
    | (closed) "cState c < StateClosed" "cState c \<noteq> StateClosing" "eDatagram E \<or> cState c \<le> StateNotValidated"
    | (closing) "cState c = StateActive \<or> cState c = StateHolding" "\<not> eDatagram E"
    by (cases "cState c") (auto simp: state_order)
  then show ?thesis
  proof cases
    case unchanged
    then have cl: "StateClosing \<le> cState c" by (auto simp: state_order)
    then have "cException c \<noteq> None" using ins by (simp add: inv_state_def)
    from setStateEx_Closing_unchanged [OF unchanged this] show ?thesis
      by (rule wp_weaken) (use Q [OF inv(1) _ cl] in simp)
  next
    case closed
    from setStateEx_Closing_closed [OF closed ins] show ?thesis
    proof (rule wp_weaken)
      fix x c' assume cb: "closed_by ex c c'"
      have "StateClosing \<le> cState c'" using cb closed(1) by (simp add: closed_by_def state_order)
      then show "Q x c'" using Q [OF closed_by_inv [OF inv(1) cb inv(3)] closed_by_moved [OF cb]] by simp
    qed
  next
    case closing
    let ?ok = "\<lambda>c1. conn_inv c1 \<and> moved c c1 \<and> cState c1 = StateClosing"
    let ?c = "c\<lparr>cException := Some ex\<rparr>"
    have e: "cException c = None" using closing ins by (auto simp: inv_state_def state_order)
    have i: "conn_inv (?c\<lparr>cState := StateClosing\<rparr>)"
      using closing(1) inv(1,3) by (elim disjE) (simp_all add: inv_defs pending_def no_invocations_def state_order)
    have ok: "?ok (?c\<lparr>cState := StateClosing\<rparr>)" "?ok (?c\<lparr>cLog := cLog ?c @ [EvMonitorRemove], cState := StateClosing\<rparr>)"
      using i closing(1) by (simp_all add: moved_def queue_grows_def notified_def inv_defs pending_def no_invocations_def)
        (elim disjE; simp)+
    have "wp (switch_state E StateClosing) (\<lambda>go c1. go \<and> ?ok c1) (\<lambda>_ _. False) ?c"
      by (rule wp_weaken [OF switch_state_Closing]) (use closing ok in auto)
    then have "wp (setState E StateClosing) Q R ?c"
      unfolding setState_def wp_bindp
    proof (rule wp_weaken)
      fix go c1 assume c1: "go \<and> ?ok c1"
      then have p: "pending c1 < 2 ^ 31"
        using inv(2) same_base_pending [of c c1] by (simp add: moved_def)
      have "wp (catchp (initiateShutdown E) (close_now E)) Q R c1" if d: "cDispatchCount c1 = 0"
      proof (rule wp_shutdown_or_close [OF _ _ d p])
        fix c' assume "conn_inv c'" "moved c1 c'" "StateClosing \<le> cState c'"
        then show "Q () c'" using c1 moved_trans [of c c1 c'] by (intro Q) simp_all
      next
        fix e c2 assume "inv_state c2" "\<And>c'. closed_by e c2 c' \<Longrightarrow> Q () c'"
        then show "wp (close_now E e) Q R c2" by (rule wp_close_now)
      qed (use c1 in simp_all)
      moreover have "Q () c1" using c1 by (intro Q) (auto simp: state_order)
      ultimately show "wp (withp (\<lambda>c. whenp (go \<and> cState c = StateClosing \<and> cDispatchCount c = 0)
         (catchp (initiateShutdown E) (close_now E)))) Q R c1"
        using c1 by (simp add: wp_basic(5) wp_whenp)
    qed
    with closing e show ?thesis by (auto simp: setStateEx_def record_exception_def wp_simps state_order)
  qed
qed

end
