(* ===== verification/ConnSafe.thy ===== *)
theory ConnSafe
  imports ConnInv
begin

section \<open>Connections: every call keeps the invariant\<close>

text \<open>
  A request is settled when it is waiting in the connection or has been notified of its end: of the reply, of an
  exception, or, when it expects no reply, of having been sent.  No call loses a request, and none makes the
  connection go back in the order of its states.
\<close>

definition completes :: "conn_env \<Rightarrow> nat \<Rightarrow> conn_event \<Rightarrow> bool" where
  "completes E out ev =
     (case ev of
        EvException r e \<Rightarrow> r = out
      | EvResponse r bs \<Rightarrow> r = out
      | EvSent r \<Rightarrow> r = out \<and> \<not> eTwoway E out
      | _ \<Rightarrow> False)"

definition completed :: "conn_env \<Rightarrow> nat \<Rightarrow> conn \<Rightarrow> bool" where
  "completed E out c \<longleftrightarrow> (\<exists>ev \<in> set (cLog c). completes E out ev)"

definition settled :: "conn_env \<Rightarrow> nat \<Rightarrow> conn \<Rightarrow> bool" where
  "settled E out c \<longleftrightarrow> in_progress out c \<or> completed E out c"

text \<open>
  The queue and the map belong together: an entry under the id of a queued message is for the same request,
  and a request is queued and waited for once at most.
\<close>

definition queued_outs :: "out_msg list \<Rightarrow> nat list" where
  "queued_outs q = List.map_filter omAsync q"

definition link_ok :: "out_msg list \<Rightarrow> (ice_int \<times> nat) list \<Rightarrow> bool" where
  "link_ok q m \<longleftrightarrow>
     (\<forall>x \<in> set q. omRequestId x \<noteq> 0 \<longrightarrow> (\<forall>v. (omRequestId x, v) \<in> set m \<longrightarrow> omAsync x = Some v))
     \<and> distinct (map snd m) \<and> distinct (queued_outs q)"

definition paired :: "conn_env \<Rightarrow> conn \<Rightarrow> bool" where
  "paired E c \<longleftrightarrow> link_ok (cSendStreams c) (cAsyncRequests c)
     \<and> (\<forall>p \<in> set (cAsyncRequests c). eIsOutgoingAsync E (snd p))"

text \<open>A queued request that waits for a reply is in the map as well, unless it has been completed already.\<close>

definition awaits :: "conn_env \<Rightarrow> conn \<Rightarrow> bool" where
  "awaits E c \<longleftrightarrow> (\<forall>out. Some out \<in> omAsync ` set (cSendStreams c) \<longrightarrow> eTwoway E out \<longrightarrow>
     out \<in> snd ` set (cAsyncRequests c) \<or> completed E out c)"

definition linked :: "conn_env \<Rightarrow> conn \<Rightarrow> bool" where
  "linked E c \<longleftrightarrow> paired E c \<and> (cState c < StateClosed \<longrightarrow> awaits E c)"

lemmas linked_defs = linked_def paired_def awaits_def completed_def

definition advanced :: "conn_env \<Rightarrow> conn \<Rightarrow> conn \<Rightarrow> bool" where
  "advanced E c c' \<longleftrightarrow> state_rank (cState c) \<le> state_rank (cState c')
     \<and> (\<forall>out. settled E out c \<longrightarrow> settled E out c') \<and> (linked E c \<longrightarrow> linked E c')"

definition good :: "conn_env \<Rightarrow> conn \<Rightarrow> conn \<Rightarrow> bool" where
  "good E c0 c \<longleftrightarrow> conn_inv c \<and> linked E c \<and> advanced E c0 c"

definition safe :: "conn_env \<Rightarrow> unit cm \<Rightarrow> conn \<Rightarrow> bool" where
  "safe E m c \<longleftrightarrow> wp m (\<lambda>_. good E c) (\<lambda>e c'. good E c c' \<and> \<not> fatal e) c"

lemma completes_about: "completes E out ev \<Longrightarrow> about_request ev"
  by (auto simp: completes_def about_request_def split: conn_event.splits)

lemma completed_notified: "completed E out c \<longleftrightarrow> (\<exists>ev \<in> set (notified c). completes E out ev)"
  by (auto simp: completed_def notified_def completes_about)

lemma advanced_refl [simp]: "advanced E c c"
  by (simp add: advanced_def)

lemma advanced_trans: "advanced E c c1 \<Longrightarrow> advanced E c1 c2 \<Longrightarrow> advanced E c c2"
  by (auto simp: advanced_def)

lemma good_refl: "conn_inv c \<Longrightarrow> linked E c \<Longrightarrow> good E c c"
  by (simp add: good_def)

lemma good_step: "good E c0 c \<Longrightarrow> conn_inv c' \<Longrightarrow> advanced E c c' \<Longrightarrow> good E c0 c'"
  unfolding good_def using advanced_trans by (auto simp: advanced_def)

lemma good_inv: "good E c0 c \<Longrightarrow> conn_inv c"
  by (simp add: good_def)

lemma good_inv_state: "good E c0 c \<Longrightarrow> inv_state c"
  by (simp add: good_def conn_inv_def)

lemma queued_outs_append: "queued_outs (q @ r) = queued_outs q @ queued_outs r"
  by (simp add: queued_outs_def List.map_filter_def)

lemma queued_outs_None: "(\<forall>x \<in> set q. omAsync x = None) \<Longrightarrow> queued_outs q = []"
  by (induction q) (auto simp: queued_outs_def List.map_filter_def)

lemma set_queued_outs: "set (queued_outs q) = {out. Some out \<in> omAsync ` set q}"
  by (induction q) (auto simp: queued_outs_def List.map_filter_def)

lemma link_ok_append_control:
  "\<forall>x \<in> set r. omAsync x = None \<and> omRequestId x = 0 \<Longrightarrow> link_ok (q @ r) m = link_ok q m"
  by (auto simp: link_ok_def queued_outs_append queued_outs_None)

lemma moved_queue:
  assumes "moved c c'"
  obtains ms where "cSendStreams c' = cSendStreams c @ ms" "\<forall>x \<in> set ms. omAsync x = None \<and> omRequestId x = 0"
  using assms by (auto simp: moved_def queue_grows_def)

lemma moved_paired:
  assumes "moved c c'"
  shows "paired E c' = paired E c"
proof -
  obtain ms where "cSendStreams c' = cSendStreams c @ ms" "\<forall>x \<in> set ms. omAsync x = None \<and> omRequestId x = 0"
    using moved_queue [OF assms] .
  with assms show ?thesis by (simp add: paired_def moved_def same_base_def link_ok_append_control)
qed

lemma moved_advanced:
  assumes "moved c c'"
  shows "advanced E c c'"
proof -
  obtain ms where ms: "cSendStreams c' = cSendStreams c @ ms" "\<forall>x \<in> set ms. omAsync x = None \<and> omRequestId x = 0"
    using moved_queue [OF assms] .
  have "awaits E c' = awaits E c"
    using ms assms by (auto simp: awaits_def moved_def same_base_def queue_grows_def completed_notified)
  moreover have "cState c < StateClosed" if "cState c' < StateClosed"
    using that assms by (cases "cState c"; cases "cState c'") (auto simp: moved_def state_order)
  ultimately have "linked E c \<Longrightarrow> linked E c'" using moved_paired [OF assms] by (simp add: linked_def)
  moreover have "settled E out c \<Longrightarrow> settled E out c'" for out
    using assms ms(1) by (auto simp: moved_def settled_def in_progress_def same_base_def queue_grows_def completed_notified)
  ultimately show ?thesis using assms by (simp add: advanced_def moved_def)
qed

text \<open>Fields that neither the invariant nor the progress mentions.\<close>

lemma settled_frame [simp]:
  "settled E out (c\<lparr>cWire := w\<rparr>) = settled E out c"
  "settled E out (c\<lparr>cRegistered := op\<rparr>) = settled E out c"
  "settled E out (c\<lparr>cAcmLast := t\<rparr>) = settled E out c"
  "settled E out (c\<lparr>cNow := t\<rparr>) = settled E out c"
  "settled E out (c\<lparr>cNow := t, cAnswers := as\<rparr>) = settled E out c"
  "settled E out (c\<lparr>cAnswers := as\<rparr>) = settled E out c"
  "settled E out (c\<lparr>cMonitor := mo\<rparr>) = settled E out c"
  "settled E out (c\<lparr>cReadTimeout := b\<rparr>) = settled E out c"
  "settled E out (c\<lparr>cWriteTimeout := b\<rparr>) = settled E out c"
  "settled E out (c\<lparr>cInitialized := b\<rparr>) = settled E out c"
  "settled E out (c\<lparr>cValidated := b\<rparr>) = settled E out c"
  "settled E out (c\<lparr>cHasAdapter := b\<rparr>) = settled E out c"
  "settled E out (c\<lparr>cReadHeader := b\<rparr>) = settled E out c"
  "settled E out (c\<lparr>cReadBuf := rb\<rparr>) = settled E out c"
  "settled E out (c\<lparr>cWriteBuf := rb\<rparr>) = settled E out c"
  "settled E out (c\<lparr>cNextRequestId := n\<rparr>) = settled E out c"
  "settled E out (c\<lparr>cBatch := q\<rparr>) = settled E out c"
  "settled E out (c\<lparr>cStartCallback := b\<rparr>) = settled E out c"
  "settled E out (c\<lparr>cCloseCallback := b\<rparr>) = settled E out c"
  "settled E out (c\<lparr>cHeartbeatCallback := b\<rparr>) = settled E out c"
  "settled E out (c\<lparr>cState := st\<rparr>) = settled E out c"
  "settled E out (c\<lparr>cDispatchCount := n\<rparr>) = settled E out c"
  "settled E out (c\<lparr>cOutstanding := k\<rparr>) = settled E out c"
  "settled E out (c\<lparr>cWork := ws\<rparr>) = settled E out c"
  "settled E out (c\<lparr>cPoolFinished := b\<rparr>) = settled E out c"
  "settled E out (c\<lparr>cHint := h\<rparr>) = settled E out c"
  by (simp_all add: settled_def in_progress_def completed_def)

lemma settled_log: "settled E out c \<Longrightarrow> settled E out (c\<lparr>cLog := cLog c @ l\<rparr>)"
  by (auto simp: settled_def in_progress_def completed_def)

lemma good_frame [simp]:
  "good E c0 (c\<lparr>cWire := w\<rparr>) = good E c0 c"
  "good E c0 (c\<lparr>cRegistered := op\<rparr>) = good E c0 c"
  "good E c0 (c\<lparr>cAcmLast := t\<rparr>) = good E c0 c"
  "good E c0 (c\<lparr>cNow := t\<rparr>) = good E c0 c"
  "good E c0 (c\<lparr>cMonitor := mo\<rparr>) = good E c0 c"
  "good E c0 (c\<lparr>cReadTimeout := b\<rparr>) = good E c0 c"
  "good E c0 (c\<lparr>cWriteTimeout := b\<rparr>) = good E c0 c"
  "good E c0 (c\<lparr>cInitialized := b\<rparr>) = good E c0 c"
  "good E c0 (c\<lparr>cValidated := b\<rparr>) = good E c0 c"
  "good E c0 (c\<lparr>cHasAdapter := b\<rparr>) = good E c0 c"
  "good E c0 (c\<lparr>cReadHeader := b\<rparr>) = good E c0 c"
  "good E c0 (c\<lparr>cNextRequestId := n\<rparr>) = good E c0 c"
  "good E c0 (c\<lparr>cBatch := q\<rparr>) = good E c0 c"
  "good E c0 (c\<lparr>cStartCallback := b\<rparr>) = good E c0 c"
  "good E c0 (c\<lparr>cCloseCallback := b\<rparr>) = good E c0 c"
  "good E c0 (c\<lparr>cHeartbeatCallback := b\<rparr>) = good E c0 c"
  by (simp_all add: good_def advanced_def linked_defs)

lemma good_log [simp]: "cLog c = l0 \<Longrightarrow> good E c0 c \<Longrightarrow> good E c0 (c\<lparr>cLog := l0 @ l\<rparr>)"
  by (auto simp: good_def advanced_def settled_log linked_defs)

lemma wp_emit: "good E c0 c \<Longrightarrow> (\<And>c'. good E c0 c' \<Longrightarrow> c' = c\<lparr>cLog := cLog c @ [ev]\<rparr> \<Longrightarrow> Q () c') \<Longrightarrow> wp (emit ev) Q R c"
  by (simp add: emit_def wp_simps)

subsection \<open>Changing the state\<close>

lemma wp_close_good:
  assumes "good E c0 c" "\<not> fatal ex" "\<And>c'. good E c0 c' \<Longrightarrow> StateClosed \<le> cState c' \<Longrightarrow> pending c' = pending c \<Longrightarrow>
      closed_by ex c c' \<Longrightarrow> Q () c'"
  shows "wp (setStateEx E StateClosed ex) Q R c"
proof (rule wp_setStateEx_Closed [OF good_inv_state [OF assms(1)]])
  fix c' assume c': "closed_by ex c c'"
  have "good E c0 c'"
    by (rule good_step [OF assms(1) closed_by_inv [OF good_inv [OF assms(1)] c' assms(2)]
        moved_advanced [OF closed_by_moved [OF c']]])
  moreover have "StateClosed \<le> cState c'" using c' by (auto simp: closed_by_def split: if_splits)
  ultimately show "Q () c'"
    using assms(3) c' closed_by_moved [OF c'] same_base_pending [of c c'] by (simp add: moved_def)
qed

text \<open>Closing makes up for a request that is queued but is not in the map.\<close>

lemma wp_close_paired:
  assumes c: "conn_inv c" "paired E c" "state_rank (cState c0) \<le> state_rank (cState c)" "\<And>r. settled E r c0 \<Longrightarrow> settled E r c"
    and ex: "\<not> fatal ex" and Q: "\<And>c'. good E c0 c' \<Longrightarrow> Q () c'"
  shows "wp (setStateEx E StateClosed ex) Q R c"
proof (rule wp_setStateEx_Closed)
  show "inv_state c" using c(1) by (simp add: conn_inv_def)
  fix c' assume c': "closed_by ex c c'"
  note m = closed_by_moved [OF c']
  have "StateClosed \<le> cState c'" using c' by (auto simp: closed_by_def split: if_splits)
  then have "linked E c'" using moved_paired [OF m] c(2) by (simp add: linked_def leD)
  then show "Q () c'"
    using closed_by_inv [OF c(1) c' ex] moved_advanced [OF m, of E] c(3,4)
    by (intro Q) (auto simp: good_def advanced_def)
qed

lemma wp_closing_good:
  assumes "good E c0 c" "pending c < 2 ^ 31" "\<not> fatal ex" "\<And>c'. good E c0 c' \<Longrightarrow> Q () c'"
  shows "wp (setStateEx E StateClosing ex) Q R c"
  by (rule wp_setStateEx_Closing [OF good_inv [OF assms(1)] assms(2,3)])
    (auto intro: assms(4) good_step [OF assms(1)] moved_advanced)

text \<open>\<open>setState\<close> with \<open>StateActive\<close> or \<open>StateHolding\<close> either does nothing or makes the connection active or holding.\<close>

lemma wp_setState_Active:
  assumes "good E c0 c" "StateNotValidated < cState c" "\<And>c'. good E c0 c' \<Longrightarrow> Q () c'"
  shows "wp (setState E StateActive) Q R c"
proof -
  have i: "good E c0 (c\<lparr>cState := StateActive\<rparr>)" if "cState c = StateHolding"
    using that assms(1) by (simp add: good_def advanced_def linked_defs inv_defs pending_def no_invocations_def state_order)
  have "wp (setState E StateActive) (\<lambda>_. good E c0) (\<lambda>_ _. False) c"
  proof (cases "cState c = StateHolding")
    case True
    note g = i [OF True]
    have "good E c0 (c\<lparr>cRegistered := r, cAcmLast := t, cLog := cLog c @ l, cState := StateActive\<rparr>)"
      "good E c0 (c\<lparr>cRegistered := r, cLog := cLog c @ l, cState := StateActive\<rparr>)"
      "good E c0 (c\<lparr>cRegistered := r, cState := StateActive\<rparr>)" for r t l
      using good_log [OF refl g, of l] g by (simp_all add: good_def advanced_def linked_defs inv_defs pending_def no_invocations_def
          settled_def in_progress_def completed_def)
    with True show ?thesis
      by (simp add: state_defs wp_simps state_order pool_register_def pool_update_def)
  next
    case False
    with assms(1,2) show ?thesis
      by (cases "cState c") (simp_all add: state_defs wp_simps state_order)
  qed
  then show ?thesis by (rule wp_weaken) (use assms(3) in simp)
qed

lemma wp_setState_Holding:
  assumes "good E c0 c" "cState c \<noteq> StateNotInitialized" "cState c = StateNotValidated \<longrightarrow> bBytes (cWriteBuf c) = []"
    and Q: "\<And>c'. good E c0 c' \<Longrightarrow> cStartCallback c' = cStartCallback c \<Longrightarrow> pending c' = pending c \<Longrightarrow>
      (cState c = StateNotValidated \<longrightarrow> cState c' = StateHolding) \<Longrightarrow> Q () c'"
  shows "wp (setState E StateHolding) Q R c"
proof -
  let ?ok = "\<lambda>c'. good E c0 c' \<and> cStartCallback c' = cStartCallback c \<and> pending c' = pending c \<and>
    (cState c = StateNotValidated \<longrightarrow> cState c' = StateHolding)"
  have i: "good E c0 (c\<lparr>cState := StateHolding\<rparr>)" if "cState c = StateActive \<or> cState c = StateNotValidated"
    using that assms(1,3)
    by (elim disjE; simp add: good_def advanced_def linked_defs inv_defs pending_def no_invocations_def state_order; auto simp: queue_ok_def)
  have "wp (setState E StateHolding) (\<lambda>_. ?ok) (\<lambda>_ _. False) c"
  proof (cases "cState c = StateActive \<or> cState c = StateNotValidated")
    case True
    note g = i [OF True]
    have "good E c0 (c\<lparr>cRegistered := r, cLog := cLog c @ l, cState := StateHolding\<rparr>)"
      "good E c0 (c\<lparr>cRegistered := r, cState := StateHolding\<rparr>)" for r t l
      using good_log [OF refl g, of l] g by (simp_all add: good_def advanced_def linked_defs inv_defs pending_def no_invocations_def
          settled_def in_progress_def completed_def)
    with True g show ?thesis
      by (elim disjE) (simp_all add: state_defs wp_simps state_order pool_unregister_def pool_update_def pending_def)
  next
    case False
    with assms(1,2) show ?thesis
      by (cases "cState c") (simp_all add: state_defs wp_simps state_order)
  qed
  then show ?thesis by (rule wp_weaken) (use Q in simp)
qed

subsection \<open>The application's operations\<close>

text \<open>A program whose only outcome is a good connection is safe.\<close>

lemma safeI: "conn_inv c \<Longrightarrow> linked E c \<Longrightarrow> (good E c c \<Longrightarrow> wp m (\<lambda>_. good E c) (\<lambda>e c'. good E c c' \<and> \<not> fatal e) c) \<Longrightarrow> safe E m c"
  by (simp add: safe_def good_refl)

lemma activate_safe: "conn_inv c \<Longrightarrow> linked E c \<Longrightarrow> safe E (activate E) c"
  by (rule safeI) (auto simp: activate_def touch_def wp_simps not_le intro!: wp_setState_Active)

lemma hold_safe: "conn_inv c \<Longrightarrow> linked E c \<Longrightarrow> safe E (hold E) c"
  by (rule safeI) (auto simp: hold_def wp_simps state_order intro!: wp_setState_Holding)

lemma destroy_safe: "conn_inv c \<Longrightarrow> linked E c \<Longrightarrow> pending c < 2 ^ 31 \<Longrightarrow> safe E (conn_destroy E reason) c"
  by (rule safeI; cases reason) (auto simp: conn_destroy_def intro!: wp_closing_good)

lemma close_safe: "conn_inv c \<Longrightarrow> linked E c \<Longrightarrow> pending c < 2 ^ 31 \<Longrightarrow> safe E (conn_close E mode) c"
  by (rule safeI; cases mode) (auto simp: conn_close_def intro!: wp_closing_good wp_close_good)

lemma timedOut_safe: "conn_inv c \<Longrightarrow> linked E c \<Longrightarrow> safe E (timedOut E) c"
  by (rule safeI) (auto simp: timedOut_def wp_simps intro!: wp_close_good)

lemma exception_safe: "conn_inv c \<Longrightarrow> linked E c \<Longrightarrow> \<not> fatal ex \<Longrightarrow> safe E (conn_exception E ex) c"
  by (rule safeI) (auto simp: conn_exception_def intro!: wp_close_good)

lemma setACM_safe: "conn_inv c \<Longrightarrow> linked E c \<Longrightarrow> safe E (setACM factory timeout close heartbeat) c"
  by (rule safeI) (auto simp: setACM_def wp_simps emit_def Let_def split: option.splits)

lemma callbacks_safe:
  assumes "conn_inv c" "linked E c"
  shows "safe E (setHeartbeatCallback cb) c" "safe E (setCloseCallback cb) c" "safe E (setAdapter cb) c"
  using assms by (auto intro!: safeI simp: setHeartbeatCallback_def setCloseCallback_def setAdapter_def wp_simps emit_def)

subsection \<open>Sending\<close>

text \<open>A message of a request that is not in progress, under an id that is not in use.\<close>

definition unlinked :: "out_msg \<Rightarrow> conn \<Rightarrow> bool" where
  "unlinked m c \<longleftrightarrow> (omRequestId m \<noteq> 0 \<longrightarrow> omRequestId m \<notin> fst ` set (cAsyncRequests c))
     \<and> (\<forall>out. omAsync m = Some out \<longrightarrow> Some out \<notin> omAsync ` set (cSendStreams c))"

lemma unlinked_control [simp]: "unlinked (mk_msg None bs compress 0) c"
  by (simp add: unlinked_def mk_msg_def)

lemma link_ok_append:
  assumes "link_ok q m" "omRequestId x \<noteq> 0 \<longrightarrow> omRequestId x \<notin> fst ` set m"
    "\<forall>out. omAsync x = Some out \<longrightarrow> Some out \<notin> omAsync ` set q"
  shows "link_ok (q @ [x]) m"
proof -
  have "distinct (queued_outs (q @ [x]))"
    using assms(1,3) by (cases "omAsync x")
      (simp_all add: link_ok_def queued_outs_append set_queued_outs, simp_all add: queued_outs_def List.map_filter_def)
  moreover have "(omRequestId x, v) \<notin> set m" if "omRequestId x \<noteq> 0" for v
    using assms(2) that by force
  ultimately show ?thesis using assms(1) by (auto simp: link_ok_def)
qed

definition no_reply :: "conn_env \<Rightarrow> out_msg \<Rightarrow> bool" where
  "no_reply E m \<longleftrightarrow> (\<forall>out. omAsync m = Some out \<longrightarrow> \<not> eTwoway E out)"

lemma no_reply_control [simp]: "no_reply E (mk_msg None bs compress rid)"
  by (simp add: no_reply_def mk_msg_def)

lemma sent_as_settled:
  assumes "same_ctl c c'" "sent_as m c st c'"
  shows "settled E out c \<Longrightarrow> settled E out c'" "completed E out c \<Longrightarrow> completed E out c'"
  using assms by (cases st; auto simp: settled_def in_progress_def same_ctl_def same_base_def completed_notified)+

lemma sent_as_paired:
  assumes "same_ctl c c'" "sent_as m c st c'" "unlinked m c" "paired E c"
  shows "paired E c'"
proof (cases st)
  case AsyncQueued
  then obtain m' where "cSendStreams c' = cSendStreams c @ [m']" "same_id m m'" using assms(2) by auto
  with assms(1,3,4) link_ok_append [of "cSendStreams c" "cAsyncRequests c" m'] show ?thesis
    by (simp add: paired_def same_ctl_def same_base_def same_id_def unlinked_def)
next
  case (AsyncSent cb)
  with assms(1,2,4) show ?thesis by (simp add: paired_def same_ctl_def same_base_def)
qed

lemma sent_as_awaits:
  assumes "same_ctl c c'" "sent_as m c st c'" "awaits E c" "Some out \<in> omAsync ` set (cSendStreams c')" "eTwoway E out"
  shows "out \<in> snd ` set (cAsyncRequests c') \<or> completed E out c' \<or> omAsync m = Some out"
proof (cases st)
  case AsyncQueued
  then obtain m' where "cSendStreams c' = cSendStreams c @ [m']" "same_id m m'" using assms(2) by auto
  with assms AsyncQueued show ?thesis
    by (auto simp: awaits_def same_ctl_def same_base_def same_id_def completed_notified)
next
  case (AsyncSent cb)
  with assms show ?thesis by simp
qed

lemma sent_as_advanced:
  assumes "same_ctl c c'" "sent_as m c st c'" "unlinked m c" "no_reply E m"
  shows "advanced E c c'"
proof -
  have "awaits E c'" if "awaits E c"
    using sent_as_awaits [OF assms(1,2) that] assms(4) unfolding awaits_def no_reply_def by blast
  then show ?thesis
    using sent_as_settled [OF assms(1,2)] sent_as_paired [OF assms(1-3)] assms(1)
    by (simp add: advanced_def linked_def same_ctl_def)
qed

lemma unsent_advanced:
  assumes "same_ctl c c'" "cSendStreams c' = cSendStreams c" "notified c' = notified c"
  shows "advanced E c c'"
  using assms by (simp add: advanced_def same_ctl_def same_base_def settled_def in_progress_def completed_notified linked_defs)

lemma wp_sendMessage_good:
  assumes g: "good E c0 c" "cState c \<in> {StateActive, StateHolding, StateClosing}" and m: "fresh_msg m" "unlinked m c" "no_reply E m"
    and Q: "\<And>st c'. \<lbrakk>good E c0 c'; same_ctl c c'; sent_as m c st c'\<rbrakk> \<Longrightarrow> Q st c'"
    and R: "\<And>e c'. \<lbrakk>good E c0 c'; same_ctl c c'; \<not> fatal e\<rbrakk> \<Longrightarrow> R e c'"
  shows "wp (sendMessage E m) Q R c"
proof (rule wp_sendMessage [OF good_inv [OF g(1)] g(2) m(1)])
  fix st c' assume "conn_inv c'" "same_ctl c c'" "sent_as m c st c'"
  then show "Q st c'" using sent_as_advanced [OF _ _ m(2,3)] good_step [OF g(1)] by (intro Q) blast+
next
  fix e c' assume "conn_inv c'" "same_ctl c c'" "\<not> fatal e" "cSendStreams c' = cSendStreams c" "notified c' = notified c"
  then show "R e c'" using unsent_advanced good_step [OF g(1)] by (intro R) blast+
qed

lemma same_ctl_pending: "same_ctl c c' \<Longrightarrow> pending c' = pending c"
  by (simp add: same_ctl_def same_base_pending)

lemma wp_heartbeat:
  assumes "good E c0 c" "cState c = StateActive" "\<And>c'. good E c0 c' \<Longrightarrow> pending c' = pending c \<Longrightarrow> Q () c'"
  shows "wp (sendHeartbeatNow E) Q R c"
proof -
  have "wp (sendMessage E (mk_msg None validate_message False 0)) (\<lambda>_. Q ())
     (\<lambda>e c1. \<not> fatal e \<and> wp (seqp (setStateEx E StateClosed e) (assertp (\<lambda>c. cException c \<noteq> None))) Q R c1) c"
  proof (rule wp_sendMessage_good [OF assms(1)])
    fix st c' assume "good E c0 c'" "same_ctl c c'"
    then show "Q () c'" by (intro assms(3) same_ctl_pending)
  next
    fix e c1 assume c1: "good E c0 c1" "same_ctl c c1" "\<not> fatal e"
    have "cState c1 = StateActive" using c1(2) assms(2) by (simp add: same_ctl_def)
    then have "wp (setStateEx E StateClosed e) (\<lambda>_ c'. cException c' \<noteq> None \<and> Q () c') R c1"
      using c1 assms(3) same_ctl_pending [OF c1(2)]
      by (intro wp_close_good [OF c1(1,3)]) (auto simp: closed_by_def state_order)
    then have "wp (seqp (setStateEx E StateClosed e) (assertp (\<lambda>c. cException c \<noteq> None))) Q R c1"
      unfolding wp_seqp by (rule wp_mono) (simp_all add: wp_simps)
    with c1(3) show "\<not> fatal e \<and> wp (seqp (setStateEx E StateClosed e) (assertp (\<lambda>c. cException c \<noteq> None))) Q R c1" by simp
  qed (use assms(2) in simp_all)
  then have "wp (sendMessage E (mk_msg None validate_message False 0)) (\<lambda>_. Q ())
     (\<lambda>e c1. if fatal e then R e c1
       else wp (seqp (setStateEx E StateClosed e) (assertp (\<lambda>c. cException c \<noteq> None))) Q R c1) c"
    by (rule wp_mono) simp_all
  with assms show ?thesis
    unfolding sendHeartbeatNow_def wp_seqp wp_catchp wp_bindp wp_whenp wp_basic(1) by (simp add: wp_basic(6))
qed

lemma monitor_safe:
  assumes "conn_inv c" "linked E c" "pending c < 2 ^ 31" "acmTimeout acm \<noteq> 0"
  shows "safe E (conn_monitor E now acm) c"
proof (rule safeI [OF assms(1,2)])
  assume g: "good E c c"
  let ?rest = "withp (\<lambda>c.
           if length (bBytes (cReadBuf c)) > headerSize \<or> bBytes (cWriteBuf c) \<noteq> [] then ret ()
           else whenp (acmClose acm \<noteq> CloseOff \<and> cAcmLast c + acmTimeout acm \<le> now)
             (if acmClose acm = CloseOnIdleForceful \<or> acmClose acm \<noteq> CloseOnIdle \<and> cAsyncRequests c \<noteq> []
              then setStateEx E StateClosed ConnectionTimeout
              else whenp (acmClose acm \<noteq> CloseOnInvocation \<and> cDispatchCount c = 0 \<and> bq_isEmpty (cBatch c)
                          \<and> cAsyncRequests c = [])
                (setStateEx E StateClosing ConnectionTimeout)))"
  let ?Q = "\<lambda>_. good E c" let ?R = "\<lambda>e c'. good E c c' \<and> \<not> fatal e"
  have rest: "wp ?rest ?Q ?R c1" if "good E c c1" "pending c1 = pending c" for c1
    using that assms(3) by (auto simp: wp_basic(5) wp_whenp wp_basic(1) intro!: wp_close_good wp_closing_good)
  have "wp (sendHeartbeatNow E) (\<lambda>_. wp ?rest ?Q ?R) ?R c" if "cState c = StateActive"
    by (rule wp_heartbeat [OF g that]) (rule rest)
  with g rest assms(4) show "wp (conn_monitor E now acm) ?Q ?R c"
    by (auto simp: conn_monitor_def wp_basic wp_seqp wp_whenp)
qed

subsection \<open>Requests\<close>

lemma good_answers: "good E c0 c \<Longrightarrow> conn_inv c"
  by (simp add: good_def)

lemma fst_set_om_insert [simp]: "fst ` set (om_insert k v m) = insert k (fst ` set m)"
  by (induction k v m rule: om_insert.induct) auto

lemma set_om_insert_subset: "set m \<subseteq> set (om_insert k v m)"
  by (induction k v m rule: om_insert.induct) auto

lemma length_fill_request [simp]:
  "length os \<ge> headerSize + 4 \<Longrightarrow> length (fill_request v os) = length os"
  by (simp add: fill_request_def headerSize_def)

lemma conn_inv_requests:
  "conn_inv (c\<lparr>cAsyncRequests := m, cHint := h\<rparr>) \<longleftrightarrow>
     inv_state c \<and> inv_errors c \<and> inv_queue c \<and> inv_read c \<and> inv_dispatch c
     \<and> inv_requests (c\<lparr>cAsyncRequests := m, cHint := h\<rparr>)"
  by (simp add: conn_inv_def inv_state_def inv_errors_def inv_queue_def inv_read_def inv_dispatch_def pending_def
      no_invocations_def conj_ac)

lemma good_inv_groups:
  assumes "good E c0 c"
  shows "inv_state c" "inv_errors c" "inv_queue c" "inv_requests c" "inv_read c" "inv_dispatch c"
  using assms by (simp_all add: good_def conn_inv_def)

lemma om_insert_new: "k \<notin> fst ` set m \<Longrightarrow> (k, v) \<in> set (om_insert k v m)"
  by (induction k v m rule: om_insert.induct) auto

lemma set_om_insert_new: "k \<notin> fst ` set m \<Longrightarrow> set (om_insert k v m) = insert (k, v) (set m)"
  by (induction k v m rule: om_insert.induct) auto

lemma distinct_om_insert_new:
  "k \<notin> fst ` set m \<Longrightarrow> v \<notin> snd ` set m \<Longrightarrow> distinct (map snd m) \<Longrightarrow> distinct (map snd (om_insert k v m))"
  by (induction k v m rule: om_insert.induct) (auto simp: set_om_insert_new)

text \<open>A request that has been sent or queued is entered into the map.\<close>

lemma good_sent_insert:
  assumes g: "good E c0 c" "cState c \<in> {StateActive, StateHolding}"
    and m: "omAsync m = Some out" "omRequestId m = rid" "unlinked m c" "rid \<noteq> 0"
    and c': "conn_inv c'" "same_ctl c c'" "sent_as m c st c'"
    and new: "out \<notin> snd ` set (cAsyncRequests c)" "eIsOutgoingAsync E out" "rid \<notin> omRequestId ` set (cSendStreams c)"
  shows "good E c0 (c'\<lparr>cAsyncRequests := om_insert rid out (cAsyncRequests c'), cHint := Some rid\<rparr>)" (is "good E c0 ?c")
proof (rule good_step [OF g(1)])
  have same: "cAsyncRequests c' = cAsyncRequests c" "cState c' = cState c"
    using c'(2) by (simp_all add: same_ctl_def same_base_def)
  have free: "rid \<notin> fst ` set (cAsyncRequests c)" using m by (simp add: unlinked_def)
  have "inv_requests ?c"
    using c'(1) same g(2) by (auto simp: conn_inv_def inv_requests_def state_order)
  then show "conn_inv ?c" unfolding conn_inv_requests using c'(1) by (simp add: conn_inv_def)
  have lg: "paired E c" "awaits E c" using g by (auto simp: good_def linked_def state_order)
  have own: "\<forall>x \<in> set (cSendStreams c'). omRequestId x = rid \<longrightarrow> omAsync x = Some out"
    using c'(3) new(3) m(1) by (cases st) (auto simp: same_id_def)
  have "paired E c'" by (rule sent_as_paired [OF c'(2,3) m(3) lg(1)])
  then have p: "paired E ?c"
    using own new(1,2) free same by (auto simp: paired_def link_ok_def set_om_insert_new distinct_om_insert_new)
  have sub: "snd ` set (cAsyncRequests c) \<subseteq> snd ` set (om_insert rid out (cAsyncRequests c))"
    by (rule image_mono [OF set_om_insert_subset])
  have "out \<in> snd ` set (om_insert rid out (cAsyncRequests c))"
    using om_insert_new [OF free, of out] by force
  then have "r \<in> snd ` set (om_insert rid out (cAsyncRequests c)) \<or> completed E r c'"
    if "Some r \<in> omAsync ` set (cSendStreams c')" "eTwoway E r" for r
    using sent_as_awaits [OF c'(2,3) lg(2) that] subsetD [OF sub, of r] m(1) same(1) by auto
  then have aw: "awaits E ?c" unfolding awaits_def completed_def by (simp add: same(1))
  have "settled E r ?c" if "settled E r c" for r
    using sent_as_settled(1) [OF c'(2,3) that] sub same by (auto simp: settled_def in_progress_def completed_def)
  with p aw same show "advanced E c ?c" by (simp add: advanced_def linked_def)
qed

lemma wp_send_or_close:
  assumes g: "good E c0 c" "cState c \<in> {StateActive, StateHolding}" and m: "fresh_msg m"
    and Q: "\<And>st c'. \<lbrakk>conn_inv c'; same_ctl c c'; sent_as m c st c'\<rbrakk> \<Longrightarrow> Q st c'"
    and R: "\<And>e c'. \<lbrakk>good E c0 c'; \<not> fatal e\<rbrakk> \<Longrightarrow> R e c'"
  shows "wp (catchp (sendMessage E m) (\<lambda>ex. seqp (setStateEx E StateClosed ex) rethrow)) Q R c"
  unfolding wp_catchp
proof (rule wp_sendMessage [OF good_inv [OF g(1)] _ m])
  fix e c1 assume c1: "conn_inv c1" "same_ctl c c1" "\<not> fatal e" "cSendStreams c1 = cSendStreams c" "notified c1 = notified c"
  then have g1: "good E c0 c1" using unsent_advanced good_step [OF g(1)] by blast
  have "cState c1 = StateActive \<or> cState c1 = StateHolding" using c1(2) g(2) by (auto simp: same_ctl_def)
  then have "wp (setStateEx E StateClosed e) (\<lambda>_ c'. good E c0 c' \<and> cException c' \<noteq> None) R c1"
    by (intro wp_close_good [OF g1 c1(3)]) (auto simp: closed_by_def state_order)
  then have "wp (seqp (setStateEx E StateClosed e) rethrow) Q R c1"
    unfolding wp_seqp
  proof (rule wp_mono)
    fix x c' assume c': "good E c0 c' \<and> cException c' \<noteq> None"
    then obtain ex where ex: "cException c' = Some ex" by auto
    then have "\<not> fatal ex" using c' by (simp add: good_def conn_inv_def inv_errors_def)
    with c' ex R show "wp rethrow Q R c'" by (simp add: rethrow_def deref_exception_def wp_simps)
  qed
  with c1(3) show "if fatal e then R e c1 else wp (seqp (setStateEx E StateClosed e) rethrow) Q R c1" by simp
qed (use g(2) Q in auto)

text \<open>Sending a request and entering it into the map, when the connection is open.\<close>

lemma wp_send_and_insert:
  fixes rid :: ice_int and response :: bool
  assumes g: "good E c0 c" "cState c \<in> {StateActive, StateHolding}" and bs: "length bs \<ge> headerSize"
    and out: "\<not> in_progress out c" "response = eTwoway E out" "response \<Longrightarrow> eIsOutgoingAsync E out"
    and rid: "response \<Longrightarrow> rid \<noteq> 0 \<and> rid \<notin> fst ` set (cAsyncRequests c) \<and> rid \<notin> omRequestId ` set (cSendStreams c)"
      "\<not> response \<Longrightarrow> rid = 0"
  shows "wp (bindp (catchp (sendMessage E (mk_msg (Some out) bs compress rid))
                      (\<lambda>ex. seqp (setStateEx E StateClosed ex) rethrow)) (\<lambda>status.
               seqp (whenp response (modify (\<lambda>c. c\<lparr>cAsyncRequests := om_insert rid out (cAsyncRequests c),
                                                    cHint := Some rid\<rparr>)))
                 (ret status)))
           (\<lambda>_ c'. good E c0 c' \<and> settled E out c') (\<lambda>e c'. good E c0 c' \<and> \<not> fatal e) c"
  unfolding wp_bindp
proof (rule wp_send_or_close [OF g])
  let ?m = "mk_msg (Some out) bs compress rid"
  have id: "omAsync ?m = Some out" "omRequestId ?m = rid" by (simp_all add: mk_msg_def)
  have u: "unlinked ?m c" using rid out by (cases response) (simp_all add: unlinked_def mk_msg_def in_progress_def)
  fix status c' assume c': "conn_inv c'" "same_ctl c c'" "sent_as ?m c status c'"
  have same: "cAsyncRequests c' = cAsyncRequests c" using c'(2) by (simp add: same_ctl_def same_base_def)
  show "wp (seqp (whenp response (modify (\<lambda>c. c\<lparr>cAsyncRequests := om_insert rid out (cAsyncRequests c),
                cHint := Some rid\<rparr>))) (ret status))
          (\<lambda>_ c'. good E c0 c' \<and> settled E out c') (\<lambda>e c'. good E c0 c' \<and> \<not> fatal e) c'"
  proof (cases response)
    case False
    have "settled E out c'"
    proof (cases status)
      case AsyncQueued
      then obtain m' where "cSendStreams c' = cSendStreams c @ [m']" "omAsync m' = Some out"
        using c'(3) by (auto simp: same_id_def mk_msg_def)
      then show ?thesis by (simp add: settled_def in_progress_def)
    next
      case (AsyncSent cb)
      with c'(3) False out(2) show ?thesis
        by (simp add: settled_def completed_notified sent_event_def mk_msg_def completes_def)
    qed
    moreover have "good E c0 c'"
      using False out(2) by (intro good_step [OF g(1) c'(1)] sent_as_advanced [OF c'(2,3) u]) (simp add: no_reply_def mk_msg_def)
    ultimately show ?thesis using False by (simp add: wp_simps)
  next
    case True
    have free: "rid \<notin> fst ` set (cAsyncRequests c')" using rid(1) [OF True] same by simp
    have "out \<in> snd ` set (om_insert rid out (cAsyncRequests c'))"
      using om_insert_new [OF free, of out] by force
    then have "settled E out (c'\<lparr>cAsyncRequests := om_insert rid out (cAsyncRequests c'), cHint := Some rid\<rparr>)"
      by (simp add: settled_def in_progress_def)
    moreover have "good E c0 (c'\<lparr>cAsyncRequests := om_insert rid out (cAsyncRequests c'), cHint := Some rid\<rparr>)"
      by (rule good_sent_insert [OF g id u _ c']) (use rid(1) [OF True] out True in \<open>simp_all add: in_progress_def\<close>)
    ultimately show ?thesis using True by (simp add: wp_simps)
  qed
qed (use bs in simp_all)

lemma next_request_id_nonzero: "fst (next_request_id n) \<noteq> 0"
  by (auto simp: next_request_id_def)

lemma send_safe:
  assumes inv: "conn_inv c" "linked E c" and env: "plain_env E"
    and ready: "call_ready E c (CallSend out os canceled compress response n)"
  shows "wp (sendAsyncRequest E out os canceled compress response n)
    (\<lambda>_ c'. good E c c' \<and> settled E out c') (\<lambda>e c'. good E c c' \<and> \<not> fatal e) c"
proof (cases "cException c = None")
  case False
  with inv show ?thesis by (simp add: sendAsyncRequest_def wp_simps good_refl)
next
  case True
  let ?Q = "\<lambda>_ c'. good E c c' \<and> settled E out c'" and ?R = "\<lambda>e c'. good E c c' \<and> \<not> fatal e"
  have st: "cState c = StateActive \<or> cState c = StateHolding" "StateNotValidated < cState c" "cState c < StateClosing"
    using True ready inv by (cases "cState c"; simp add: conn_inv_def inv_state_def state_order)+
  have len: "length os \<ge> headerSize" "length (fill_request v os) \<ge> headerSize" for v using ready by simp_all
  have out: "\<not> in_progress out c" "response = eTwoway E out" "response \<Longrightarrow> eIsOutgoingAsync E out"
    using ready by simp_all
  obtain rid k where k: "next_request_id (cNextRequestId c) = (rid, k)" by fastforce
  then have "rid \<noteq> 0" using next_request_id_nonzero [of "cNextRequestId c"] by simp
  define body where "body = bindp (allocate_id response) (\<lambda>rid.
             let os = (if response then fill_request rid os
                       else if 0 <s n then fill_request n os else os) in
             bindp (catchp (sendMessage E (mk_msg (Some out) os compress rid))
                      (\<lambda>ex. seqp (setStateEx E StateClosed ex) rethrow)) (\<lambda>status.
               seqp (whenp response (modify (\<lambda>c. c\<lparr>cAsyncRequests := om_insert rid out (cAsyncRequests c),
                                                    cHint := Some rid\<rparr>)))
                 (ret status)))"
  have "wp body ?Q ?R c"
  proof (cases response)
    case True
    let ?c = "c\<lparr>cNextRequestId := k\<rparr>"
    have "rid \<notin> fst ` set (cAsyncRequests ?c) \<and> rid \<notin> omRequestId ` set (cSendStreams ?c)"
      using ready k True by (simp add: id_free_def)
    moreover have "good E c ?c" "cState ?c \<in> {StateActive, StateHolding}" "\<not> in_progress out ?c"
      using inv st out by (simp_all add: good_refl in_progress_def)
    ultimately show ?thesis
      using \<open>rid \<noteq> 0\<close> wp_send_and_insert [of E c ?c "fill_request rid os" out True rid compress] len(2) out True
      unfolding body_def allocate_id_def wp_bindp [of "if _ then _ else _"] by (simp add: k wp_basic wp_seqp Let_def)
  next
    case False
    have "good E c c" "cState c \<in> {StateActive, StateHolding}" using inv st by (simp_all add: good_refl)
    then show ?thesis
      using wp_send_and_insert [of E c c _ out False 0 compress] len out False
      unfolding body_def allocate_id_def wp_bindp [of "if _ then _ else _"] by (simp add: wp_basic Let_def)
  qed
  moreover have "\<not> fatal e" if "eCheckSendSize E os = Some e" for e
    using that env by (simp add: plain_env_def)
  moreover have "\<not> fatal e" if "canceled = Some e" for e
    using that ready by simp
  ultimately show ?thesis using True st inv
    unfolding sendAsyncRequest_def body_def [symmetric]
    by (auto simp: wp_basic wp_seqp wp_lift good_refl split: option.split)
qed

end
