(* ===== verification/ConnEvents.thy ===== *)
theory ConnEvents
  imports ConnSafe
begin

section \<open>Connections: cancellation, answers, input and output\<close>

text \<open>The calls of the previous theory's section continued: the rest of them keep the invariant, too.\<close>

lemma wp_withp: "wp (withp h) Q R = (\<lambda>s. wp (h s) Q R s)"
  by (simp add: fun_eq_iff wp_basic)

subsection \<open>Cancelling a request\<close>

lemma find_message_Some:
  "find_message out q = Some i \<Longrightarrow> i < length q \<and> omAsync (q ! i) = Some out"
  by (induction q arbitrary: i) (auto split: if_splits)

lemma request_of_Some: "request_of out m = Some k \<Longrightarrow> (k, out) \<in> set m"
  by (auto simp: request_of_def find_Some_iff) (metis nth_mem snd_conv)

lemma om_wf_lookup: "om_wf m \<Longrightarrow> (k, v) \<in> set m \<Longrightarrow> map_of m k = Some v"
  by (simp add: om_wf_distinct)

lemma set_om_erase: "set (om_erase k m) = {p \<in> set m. fst p \<noteq> k}"
  by (auto simp: om_erase_def)

text \<open>Taking a request out of the map and the queue when it is notified of its end.\<close>

lemma conn_inv_erase:
  assumes "conn_inv c" "cHint c \<noteq> Some k"
  shows "conn_inv (erase_request k c)"
proof -
  have "inv_requests (erase_request k c)"
    using assms by (auto simp: conn_inv_def inv_requests_def erase_request_def set_om_erase) (auto simp: om_erase_def)
  then show ?thesis
    using assms(1) by (simp add: conn_inv_def inv_state_def inv_errors_def inv_queue_def inv_read_def inv_dispatch_def
        pending_def no_invocations_def erase_request_def)
qed

lemma conn_inv_erase_hint: "conn_inv c \<Longrightarrow> conn_inv (erase_hint c)"
proof (cases "cHint c")
  case (Some k)
  assume inv: "conn_inv c"
  have "inv_requests (erase_hint c)"
    using inv Some by (auto simp: conn_inv_def inv_requests_def erase_hint_def erase_request_def set_om_erase)
      (auto simp: om_erase_def)
  then show ?thesis
    using inv Some by (simp add: conn_inv_def inv_state_def inv_errors_def inv_queue_def inv_read_def inv_dispatch_def
        pending_def no_invocations_def erase_hint_def erase_request_def)
qed (simp add: erase_hint_def)

text \<open>What happens to the requests when \<open>out\<close> alone is taken out.\<close>

definition drops_sets :: "nat \<Rightarrow> nat option set \<Rightarrow> nat option set \<Rightarrow> nat set \<Rightarrow> nat set \<Rightarrow> bool" where
  "drops_sets out A A' M M' \<longleftrightarrow> A' \<subseteq> insert None A
     \<and> (\<forall>r. r \<noteq> out \<longrightarrow> (Some r \<in> A \<longrightarrow> Some r \<in> A') \<and> (r \<in> M \<longrightarrow> r \<in> M'))"

definition drops_only :: "nat \<Rightarrow> conn \<Rightarrow> conn \<Rightarrow> bool" where
  "drops_only out c c' \<longleftrightarrow> cLog c' = cLog c \<and> cState c' = cState c
     \<and> drops_sets out (omAsync ` set (cSendStreams c)) (omAsync ` set (cSendStreams c'))
         (snd ` set (cAsyncRequests c)) (snd ` set (cAsyncRequests c'))"

lemma drops_only_progress: "drops_only out c c' \<Longrightarrow> r \<noteq> out \<Longrightarrow> in_progress r c \<Longrightarrow> in_progress r c'"
  by (auto simp: drops_only_def drops_sets_def in_progress_def)

text \<open>An event that completes \<open>out\<close>.\<close>

lemma good_completed:
  assumes g: "good E c0 c" and c': "conn_inv c'" "paired E c'" "drops_only out c c'" and ev: "completes E out ev"
  shows "good E c0 (c'\<lparr>cLog := cLog c' @ ev # l\<rparr>)" (is "good E c0 ?c")
proof (rule good_step [OF g])
  show "conn_inv ?c" using c'(1) by simp
  have out: "completed E out ?c" using ev by (simp add: completed_def)
  have old: "completed E r c \<Longrightarrow> completed E r ?c" for r
    using c'(3) by (auto simp: completed_def drops_only_def)
  have "settled E r ?c" if "settled E r c" for r
  proof (cases "r = out")
    case True
    with out show ?thesis by (simp add: settled_def)
  next
    case False
    with that old drops_only_progress [OF c'(3), of r] show ?thesis
      by (simp add: settled_def) (auto simp: in_progress_def)
  qed
  moreover have "awaits E ?c" if aw: "awaits E c"
    unfolding awaits_def
  proof (intro allI impI)
    fix r assume r: "Some r \<in> omAsync ` set (cSendStreams ?c)" "eTwoway E r"
    then have "Some r \<in> omAsync ` set (cSendStreams c)" using c'(3) by (auto simp: drops_only_def drops_sets_def)
    with aw r(2) have "r \<in> snd ` set (cAsyncRequests c) \<or> completed E r c" by (simp add: awaits_def)
    then show "r \<in> snd ` set (cAsyncRequests ?c) \<or> completed E r ?c"
      using out old c'(3) by (cases "r = out") (auto simp: drops_only_def drops_sets_def)
  qed
  moreover have "paired E ?c" using c'(2) by (simp add: paired_def)
  moreover have "cState ?c = cState c" using c'(3) by (simp add: drops_only_def)
  ultimately show "advanced E c ?c" by (simp add: advanced_def linked_def)
qed

lemma wp_notify_async:
  assumes "good E c0 c" "conn_inv c'" "paired E c'" "drops_only out c c'" "\<And>c'. good E c0 c' \<Longrightarrow> Q () c'"
  shows "wp (notify_exception_async E ex out) Q R c'"
  using good_completed [OF assms(1-4), of "EvException out ex" "[]"]
    good_completed [OF assms(1-4), of "EvException out ex" "[EvInvokeExceptionAsync out]"]
  by (auto simp: notify_exception_async_def emit_def wp_simps completes_def intro!: assms(5))

text \<open>The queued message of a request: the request leaves the map and the message.\<close>

definition drop_message :: "nat \<Rightarrow> conn \<Rightarrow> conn" where
  "drop_message i c = c\<lparr>cSendStreams :=
     (if i = 0 then (cSendStreams c)[0 := msg_canceled True (cSendStreams c ! i)]
      else take i (cSendStreams c) @ drop (Suc i) (cSendStreams c))\<rparr>"

lemma msg_canceled_stream [simp]:
  "omStream (msg_canceled b m) = omStream m" "omAsync (msg_canceled b m) = None"
  by (auto simp: msg_canceled_def adopt_def Let_def)

lemma queue_ok_drop:
  assumes "queue_ok q" "i < length q"
  shows "queue_ok (if i = 0 then q[0 := msg_canceled True (q ! i)] else take i q @ drop (Suc i) q)"
    "(if i = 0 then q[0 := msg_canceled True (q ! i)] else take i q @ drop (Suc i) q) \<noteq> []"
    "omStream (hd (if i = 0 then q[0 := msg_canceled True (q ! i)] else take i q @ drop (Suc i) q)) = omStream (hd q)"
proof -
  obtain m ms where q: "q = m # ms" using assms(2) by (cases q) auto
  show "queue_ok (if i = 0 then q[0 := msg_canceled True (q ! i)] else take i q @ drop (Suc i) q)"
    using assms q by (cases i) (auto simp: queue_ok_def dest: in_set_takeD in_set_dropD)
  show "(if i = 0 then q[0 := msg_canceled True (q ! i)] else take i q @ drop (Suc i) q) \<noteq> []"
    "omStream (hd (if i = 0 then q[0 := msg_canceled True (q ! i)] else take i q @ drop (Suc i) q)) = omStream (hd q)"
    using q by (cases i; simp)+
qed

lemma conn_inv_drop_message:
  assumes "conn_inv c" "i < length (cSendStreams c)"
  shows "conn_inv (drop_message i c)"
proof -
  have "queue_ok (cSendStreams c)" "cSendStreams c \<noteq> []" "head_ok (cWriteBuf c) (hd (cSendStreams c))"
    using assms by (auto simp: conn_inv_def inv_queue_def)
  note q = queue_ok_drop [OF this(1) assms(2)] and h = this(3)
  have "inv_queue (drop_message i c)"
    using assms(1) q(1,2) h \<open>cSendStreams c \<noteq> []\<close> unfolding drop_message_def conn_inv_def inv_queue_def head_ok_def waiting_msg_def
    by (simp add: q(3))
  then show ?thesis
    using assms(1) by (simp add: conn_inv_def inv_state_def inv_errors_def inv_requests_def inv_read_def inv_dispatch_def
        pending_def no_invocations_def drop_message_def)
qed

lemma in_queue_drop:
  assumes "i < length q" "omAsync (q ! i) = Some out" "r \<noteq> out" "Some r \<in> omAsync ` set q"
  shows "Some r \<in> omAsync ` set (if i = 0 then q[0 := msg_canceled True (q ! i)] else take i q @ drop (Suc i) q)"
proof -
  have q: "q = take i q @ q ! i # drop (Suc i) q" by (simp add: assms(1) id_take_nth_drop [symmetric])
  have "set q = set (take i q) \<union> {q ! i} \<union> set (drop (Suc i) q)" by (subst q) auto
  with assms(2-4) have r: "Some r \<in> omAsync ` set (take i q) \<or> Some r \<in> omAsync ` set (drop (Suc i) q)" by auto
  show ?thesis
  proof (cases i)
    case 0
    then obtain m ms where "q = m # ms" using assms(1) by (cases q) auto
    with r 0 show ?thesis by auto
  next
    case (Suc j)
    with r show ?thesis by auto
  qed
qed

lemma drops_only_message:
  assumes "i < length (cSendStreams c)" "omAsync (cSendStreams c ! i) = Some out"
  shows "drops_only out c (drop_message i c)"
proof -
  let ?q = "cSendStreams c"
  have "omAsync ` set (?q[0 := msg_canceled True (?q ! i)]) \<subseteq> insert None (omAsync ` set ?q)"
    using set_update_subset_insert [of ?q 0 "msg_canceled True (?q ! i)"] by force
  moreover have "omAsync ` set (take i ?q @ drop (Suc i) ?q) \<subseteq> insert None (omAsync ` set ?q)"
    using set_take_subset [of i ?q] set_drop_subset [of "Suc i" ?q] by force
  ultimately show ?thesis
    using in_queue_drop [OF assms] by (cases "i = 0") (simp_all add: drops_only_def drops_sets_def drop_message_def)
qed

lemma drops_sets_trans: "drops_sets out A A' M M' \<Longrightarrow> drops_sets out A' A'' M' M'' \<Longrightarrow> drops_sets out A A'' M M''"
  unfolding drops_sets_def by blast

lemma drops_only_trans: "drops_only out c c1 \<Longrightarrow> drops_only out c1 c2 \<Longrightarrow> drops_only out c c2"
  unfolding drops_only_def by (elim conjE) (intro conjI; (rule drops_sets_trans)?; simp)

lemma drops_only_erase:
  assumes "om_wf (cAsyncRequests c)" "\<And>v. map_of (cAsyncRequests c) k = Some v \<Longrightarrow> v = out"
  shows "drops_only out c (erase_request k c)"
proof -
  have "r \<in> snd ` set (om_erase k (cAsyncRequests c))" if "r \<noteq> out" "r \<in> snd ` set (cAsyncRequests c)" for r
    using that assms(2) om_wf_lookup [OF assms(1)] by (force simp: set_om_erase)
  then show ?thesis by (auto simp: drops_only_def drops_sets_def erase_request_def)
qed

lemma drops_only_hint:
  assumes "om_wf (cAsyncRequests c)" "hint_is E out c"
  shows "drops_only out c (erase_hint c)"
proof -
  obtain k where k: "cHint c = Some k" "map_of (cAsyncRequests c) k = Some out"
    using assms(2) by (auto simp: hint_is_def split: option.splits)
  have "drops_only out c (erase_request k c)" by (rule drops_only_erase [OF assms(1)]) (use k in simp)
  with k(1) show ?thesis by (simp add: erase_hint_def drops_only_def)
qed

lemma link_ok_subset:
  assumes "link_ok q m" "set m' \<subseteq> set m" "distinct (map snd m')"
  shows "link_ok q m'"
  using assms by (auto simp: link_ok_def)

lemma link_ok_erase: "link_ok q m \<Longrightarrow> link_ok q (om_erase k m)"
  by (rule link_ok_subset) (auto simp: om_erase_def link_ok_def distinct_map_filter)

lemma queued_outs_drop:
  assumes "distinct (queued_outs q)"
  shows "distinct (queued_outs (take i q @ drop (Suc i) q))"
proof -
  have "queued_outs q = queued_outs (take i q) @ queued_outs (drop i q)"
    by (simp add: queued_outs_append [symmetric])
  moreover have "\<exists>xs. queued_outs (drop i q) = xs @ queued_outs (drop (Suc i) q)"
  proof (cases "i < length q")
    case True
    then have "drop i q = [q ! i] @ drop (Suc i) q" by (simp add: Cons_nth_drop_Suc)
    then show ?thesis by (metis queued_outs_append)
  next
    case False
    then show ?thesis by simp
  qed
  ultimately show ?thesis using assms by (auto simp: queued_outs_append)
qed

lemma link_ok_drop:
  assumes l: "link_ok q m" and i: "i < length q" and free: "omRequestId (q ! i) \<noteq> 0 \<Longrightarrow> omRequestId (q ! i) \<notin> fst ` set m"
  shows "link_ok (if i = 0 then q[0 := msg_canceled True (q ! i)] else take i q @ drop (Suc i) q) m"
proof (cases i)
  case 0
  then obtain x xs where q: "q = x # xs" using i by (cases q) auto
  have "omRequestId (msg_canceled True x) = omRequestId x"
    by (auto simp: msg_canceled_def adopt_def Let_def)
  moreover have "(omRequestId x, v) \<notin> set m" if "omRequestId x \<noteq> 0" for v
    using free that q 0 by force
  moreover have "distinct (queued_outs (msg_canceled True x # xs))"
    using l q by (cases "omAsync x") (simp_all add: link_ok_def queued_outs_def List.map_filter_def)
  ultimately show ?thesis using l q 0 by (auto simp: link_ok_def)
next
  case (Suc j)
  with l queued_outs_drop [of q i] show ?thesis
    by (auto simp: link_ok_def dest: in_set_takeD in_set_dropD)
qed

text \<open>The first step: the request leaves the map, under the cached iterator or by its id.\<close>

definition erase_queued :: "conn_env \<Rightarrow> nat \<Rightarrow> out_msg \<Rightarrow> conn \<Rightarrow> conn" where
  "erase_queued E out m c =
     (if omRequestId m = 0 then c else if hint_is E out c then erase_hint c else erase_request (omRequestId m) c)"

lemma erase_queued_frame:
  "cSendStreams (erase_queued E out m c) = cSendStreams c" "cLog (erase_queued E out m c) = cLog c"
  "cState (erase_queued E out m c) = cState c"
  by (auto simp: erase_queued_def erase_hint_def erase_request_def split: option.split)

lemma hint_valid:
  assumes "conn_inv c" "cHint c = Some k" "cState c < StateFinished"
  shows "\<exists>v. map_of (cAsyncRequests c) k = Some v"
proof -
  have "k \<in> fst ` set (cAsyncRequests c)" using assms by (simp add: conn_inv_def inv_requests_def)
  then show ?thesis using map_of_eq_None_iff [of "cAsyncRequests c" k] by auto
qed

lemma erase_queued_ok:
  assumes g: "good E c0 c" and st: "cState c < StateClosed" and m: "m \<in> set (cSendStreams c)" "omAsync m = Some out"
  shows "conn_inv (erase_queued E out m c)" "paired E (erase_queued E out m c)"
    "drops_only out c (erase_queued E out m c)"
    "omRequestId m \<noteq> 0 \<Longrightarrow> omRequestId m \<notin> fst ` set (cAsyncRequests (erase_queued E out m c))"
proof -
  have inv: "conn_inv c" and wf: "om_wf (cAsyncRequests c)" and l: "link_ok (cSendStreams c) (cAsyncRequests c)"
    using g by (simp_all add: good_def conn_inv_def inv_requests_def linked_defs)
  have oa: "eIsOutgoingAsync E v" if "map_of (cAsyncRequests c) k = Some v" for k v
    using g map_of_SomeD [OF that] by (force simp: good_def linked_defs)
  have own: "v = out" if "omRequestId m \<noteq> 0" "map_of (cAsyncRequests c) (omRequestId m) = Some v" for v
    using l m that map_of_SomeD [of "cAsyncRequests c"] by (fastforce simp: link_ok_def)
  have "conn_inv (erase_queued E out m c) \<and> paired E (erase_queued E out m c) \<and> drops_only out c (erase_queued E out m c)
    \<and> (omRequestId m \<noteq> 0 \<longrightarrow> omRequestId m \<notin> fst ` set (cAsyncRequests (erase_queued E out m c)))"
  proof (cases "omRequestId m = 0")
    case True
    then show ?thesis using g by (auto simp: good_def erase_queued_def drops_only_def drops_sets_def linked_def)
  next
    case rid: False
    show ?thesis
    proof (cases "hint_is E out c")
      case True
      then obtain k where k: "cHint c = Some k" "map_of (cAsyncRequests c) k = Some out"
        by (auto simp: hint_is_def split: option.splits)
      have "omRequestId m \<notin> fst ` set (om_erase k (cAsyncRequests c))"
      proof
        assume "omRequestId m \<in> fst ` set (om_erase k (cAsyncRequests c))"
        then obtain v where v: "(omRequestId m, v) \<in> set (cAsyncRequests c)" "omRequestId m \<noteq> k"
          by (auto simp: set_om_erase)
        then have "v = out" using own [OF rid] om_wf_lookup [OF wf] by blast
        moreover have "(k, out) \<in> set (cAsyncRequests c)" using k(2) by (rule map_of_SomeD)
        moreover have "inj_on snd (set (cAsyncRequests c))" using l by (simp add: link_ok_def distinct_map)
        ultimately have "(k, out) = (omRequestId m, v)"
          using v(1) inj_onD [of snd _ "(k, out)" "(omRequestId m, v)"] by simp
        with v(2) show False by simp
      qed
      moreover have "paired E (erase_hint c)"
        using g k link_ok_erase by (simp add: good_def linked_defs erase_hint_def erase_request_def set_om_erase)
      ultimately show ?thesis
        using rid True k conn_inv_erase_hint [OF inv] drops_only_hint [OF wf True]
        by (simp add: erase_queued_def erase_hint_def erase_request_def)
    next
      case False
      have "cHint c \<noteq> Some (omRequestId m)"
        using False hint_valid [OF inv, of "omRequestId m"] own [OF rid] oa st
        by (auto simp: hint_is_def state_order)
      moreover have "paired E (erase_request (omRequestId m) c)"
        using g link_ok_erase by (simp add: good_def linked_defs erase_request_def set_om_erase)
      moreover have "drops_only out c (erase_request (omRequestId m) c)"
        by (rule drops_only_erase [OF wf own [OF rid]])
      ultimately show ?thesis
        using rid False conn_inv_erase [OF inv] by (auto simp: erase_queued_def erase_request_def set_om_erase)
    qed
  qed
  then show "conn_inv (erase_queued E out m c)" "paired E (erase_queued E out m c)"
    "drops_only out c (erase_queued E out m c)"
    "omRequestId m \<noteq> 0 \<Longrightarrow> omRequestId m \<notin> fst ` set (cAsyncRequests (erase_queued E out m c))" by simp_all
qed

lemma cancel_queued_safe:
  assumes inv: "conn_inv c" "linked E c" and st: "cState c < StateClosed" and ex: "\<not> fatal ex"
    and i: "find_message out (cSendStreams c) = Some i"
  shows "safe E (cancel_queued E out ex i) c"
proof (rule safeI [OF inv])
  assume g: "good E c c"
  let ?m = "cSendStreams c ! i" and ?Q = "\<lambda>_. good E c" and ?R = "\<lambda>e c'. good E c c' \<and> \<not> fatal e"
  define c1 where "c1 = erase_queued E out ?m c"
  have i': "i < length (cSendStreams c)" "omAsync ?m = Some out" using find_message_Some [OF i] by simp_all
  then have m: "?m \<in> set (cSendStreams c)" by simp
  note e = erase_queued_ok [OF g st m i'(2), folded c1_def] and f = erase_queued_frame [of E out ?m c, folded c1_def]
  have kept: "settled E r c1" if "settled E r c" for r
  proof (cases "r = out")
    case True
    have "Some out \<in> omAsync ` set (cSendStreams c)" using m i'(2) by (metis imageI)
    with True f show ?thesis by (simp add: settled_def in_progress_def)
  next
    case False
    with that drops_only_progress [OF e(3)] f show ?thesis by (auto simp: settled_def completed_def)
  qed
  have "wp (if is_timeout ex then setStateEx E StateClosed ex
        else seqp (modify (\<lambda>c. c\<lparr>cSendStreams :=
                (if i = 0 then (cSendStreams c)[0 := msg_canceled True ?m]
                 else take i (cSendStreams c) @ drop (Suc i) (cSendStreams c))\<rparr>))
              (notify_exception_async E ex out)) ?Q ?R c1"
  proof (cases "is_timeout ex")
    case True
    then show ?thesis by (simp, intro wp_close_paired [OF e(1,2) _ kept ex]) (simp_all add: f ex)
  next
    case False
    have d: "drop_message i c1 = c1\<lparr>cSendStreams :=
                (if i = 0 then (cSendStreams c1)[0 := msg_canceled True ?m]
                 else take i (cSendStreams c1) @ drop (Suc i) (cSendStreams c1))\<rparr>"
      by (simp only: drop_message_def f)
    have i1: "i < length (cSendStreams c1)" "omAsync (cSendStreams c1 ! i) = Some out" using i' f by simp_all
    have "paired E (drop_message i c1)"
      using link_ok_drop [OF _ i'(1), of "cAsyncRequests c1"] e(2,4) f
      by (cases "i = 0") (simp_all add: linked_defs drop_message_def)
    then have "wp (notify_exception_async E ex out) ?Q ?R (drop_message i c1)"
      by (rule wp_notify_async [OF g conn_inv_drop_message [OF e(1) i1(1)] _ drops_only_trans [OF e(3) drops_only_message [OF i1]]])
    with False show ?thesis unfolding d by (simp add: wp_seqp wp_basic)
  qed
  then show "wp (cancel_queued E out ex i) ?Q ?R c"
    by (cases "omRequestId ?m = 0"; cases "hint_is E out c")
      (simp_all only: c1_def cancel_queued_def Let_def wp_basic(5) wp_seqp wp_whenp wp_basic(4) wp_if erase_queued_def
        if_True if_False simp_thms)
qed

lemma cancel_safe:
  assumes inv: "conn_inv c" "linked E c" and ex: "\<not> fatal ex"
  shows "safe E (asyncRequestCanceled E out ex) c"
proof (cases "StateClosed \<le> cState c")
  case True
  then show ?thesis using inv by (simp add: safe_def asyncRequestCanceled_def wp_simps good_refl)
next
  case st: False
  have g: "good E c c" using inv by (simp add: good_refl)
  have wf: "om_wf (cAsyncRequests c)" using inv by (simp add: conn_inv_def inv_requests_def)
  show ?thesis
  proof (cases "find_message out (cSendStreams c)")
    case (Some i)
    with st show ?thesis using cancel_queued_safe [OF inv _ ex Some]
      by (simp add: safe_def asyncRequestCanceled_def wp_basic(5))
  next
    case None
    let ?Q = "\<lambda>_. good E c" and ?R = "\<lambda>e c'. good E c c' \<and> \<not> fatal e"
    have t: "wp (setStateEx E StateClosed ex) ?Q ?R c" by (rule wp_close_good [OF g ex])
    have h: "wp (notify_exception_async E ex out) ?Q ?R (erase_hint c)" if "hint_is E out c"
    proof -
      have "paired E (erase_hint c)"
        using inv(2) link_ok_erase by (auto simp: linked_defs erase_hint_def erase_request_def set_om_erase split: option.split)
      then show ?thesis by (rule wp_notify_async [OF g conn_inv_erase_hint [OF inv(1)] _ drops_only_hint [OF wf that]])
    qed
    have r: "wp (notify_exception_async E ex out) ?Q ?R (erase_request k c) \<and> cHint c \<noteq> Some k"
      if "\<not> hint_is E out c" "request_of out (cAsyncRequests c) = Some k" "eIsOutgoingAsync E out" for k
    proof -
      have k: "map_of (cAsyncRequests c) k = Some out" by (rule om_wf_lookup [OF wf request_of_Some [OF that(2)]])
      then have hk: "cHint c \<noteq> Some k" using that(1,3) by (auto simp: hint_is_def)
      have "paired E (erase_request k c)"
        using inv(2) link_ok_erase by (auto simp: linked_defs erase_request_def set_om_erase)
      moreover have "drops_only out c (erase_request k c)" by (rule drops_only_erase [OF wf]) (use k in simp)
      ultimately have "wp (notify_exception_async E ex out) ?Q ?R (erase_request k c)"
        by (rule wp_notify_async [OF g conn_inv_erase [OF inv(1) hk]])
      with hk show ?thesis by simp
    qed
    have "wp (asyncRequestCanceled E out ex) ?Q ?R c"
    proof (cases "eIsOutgoingAsync E out")
      case True
      show ?thesis
      proof (cases "hint_is E out c")
        case hint: True
        from st None True hint t h [OF hint] show ?thesis
          unfolding asyncRequestCanceled_def by (simp add: wp_basic wp_seqp)
      next
        case nohint: False
        show ?thesis
        proof (cases "request_of out (cAsyncRequests c)")
          case (Some k)
          from st None True nohint t r [OF nohint Some True] Some show ?thesis
            unfolding asyncRequestCanceled_def by (simp add: wp_basic wp_seqp)
        qed (use st None True nohint g in \<open>simp add: asyncRequestCanceled_def wp_basic\<close>)
      qed
    qed (use st None g in \<open>simp add: asyncRequestCanceled_def wp_basic\<close>)
    then show ?thesis by (simp add: safe_def)
  qed
qed

subsection \<open>Answers to incoming requests\<close>

text \<open>Fewer invocations or callbacks in progress.\<close>

lemma conn_inv_dispatch:
  assumes "conn_inv c" "inv_dispatch (c\<lparr>cDispatchCount := d, cOutstanding := k\<rparr>)"
  shows "conn_inv (c\<lparr>cDispatchCount := d, cOutstanding := k\<rparr>)"
  using assms by (simp add: conn_inv_def inv_state_def inv_errors_def inv_queue_def inv_requests_def inv_read_def)

lemma good_dispatch:
  assumes "good E c0 c" "inv_dispatch (c\<lparr>cDispatchCount := d, cOutstanding := k\<rparr>)"
  shows "good E c0 (c\<lparr>cDispatchCount := d, cOutstanding := k\<rparr>)"
  using assms conn_inv_dispatch [where c = c and d = d and k = k] by (simp add: good_def advanced_def linked_defs)

lemma finish_some:
  assumes "good E c0 c" "k \<le> cOutstanding c"
  shows "good E c0 (c\<lparr>cDispatchCount := cDispatchCount c - word_of_nat k, cOutstanding := cOutstanding c - k\<rparr>)"
proof (rule good_dispatch [OF assms(1)])
  let ?c = "c\<lparr>cDispatchCount := cDispatchCount c - word_of_nat k, cOutstanding := cOutstanding c - k\<rparr>"
  have i: "inv_dispatch c" using assms(1) by (simp add: good_def conn_inv_def)
  define n where "n = pending ?c"
  have "pending c = n + k" using assms(2) by (simp add: n_def pending_def)
  then have "cDispatchCount ?c = word_of_nat n"
    using i by (simp add: inv_dispatch_def)
  with i show "inv_dispatch ?c" by (auto simp: n_def inv_dispatch_def no_invocations_def)
qed

lemma pending_finish_some:
  "k \<le> cOutstanding c \<Longrightarrow> pending (c\<lparr>cDispatchCount := dc, cOutstanding := cOutstanding c - k\<rparr>) = pending c - k"
  by (simp add: pending_def)

lemma wp_reap: "good E c0 c \<Longrightarrow> (\<And>l. good E c0 (c\<lparr>cLog := cLog c @ l\<rparr>) \<Longrightarrow> Q () (c\<lparr>cLog := cLog c @ l\<rparr>)) \<Longrightarrow> wp conn_reap Q R c"
proof -
  assume g: "good E c0 c" and Q: "\<And>l. good E c0 (c\<lparr>cLog := cLog c @ l\<rparr>) \<Longrightarrow> Q () (c\<lparr>cLog := cLog c @ l\<rparr>)"
  have "Q () (c\<lparr>cLog := cLog c @ l\<rparr>)" for l by (rule Q) (use g in simp)
  from this [of "[]"] this [of "[EvReap]"] show "wp conn_reap Q R c"
    by (simp add: conn_reap_def wp_simps emit_def)
qed

text \<open>The shutdown that the end of the last invocation or callback starts.\<close>

lemma wp_shutdown_good:
  assumes g: "good E c0 c" "cState c = StateClosing" "cDispatchCount c = 0" "pending c < 2 ^ 31"
    and Q: "\<And>c'. good E c0 c' \<Longrightarrow> Q () c'" and R: "\<And>e c'. good E c0 c' \<Longrightarrow> \<not> fatal e \<Longrightarrow> R e c'"
  shows "wp (initiateShutdown E) Q R c"
proof (rule wp_initiateShutdown [OF good_inv [OF g(1)] g(2-4)])
  fix c' assume "conn_inv c'" "moved c c'"
  then show "Q () c'" by (intro Q good_step [OF g(1)] moved_advanced)
next
  fix e c' assume "conn_inv c'" "moved c c'" "\<not> fatal e"
  then show "R e c'" by (intro R good_step [OF g(1)] moved_advanced)
qed

lemma finish_invocation_safe:
  assumes inv: "conn_inv c" "linked E c" and p: "pending c < 2 ^ 31" and o: "0 < cOutstanding c"
    and reply: "\<And>os flag. reply = Some (os, flag) \<Longrightarrow> length os \<ge> headerSize"
  shows "safe E (finish_invocation E reply) c"
proof (rule safeI [OF inv])
  let ?Q = "\<lambda>_. good E c" and ?R = "\<lambda>e c'. good E c c' \<and> \<not> fatal e"
  assume g: "good E c c"
  have st: "StateNotValidated < cState c"
    using inv(1) o by (auto simp: conn_inv_def inv_dispatch_def not_le)
  let ?c = "c\<lparr>cDispatchCount := cDispatchCount c - 1, cOutstanding := cOutstanding c - 1\<rparr>"
  have g1: "good E c ?c" using finish_some [OF g, of 1] o by simp
  define rest where "rest =
    seqp (withp (\<lambda>c. if StateClosed \<le> cState c then rethrow else ret ()))
      (seqp (case reply of
               Some (os, compressFlag) \<Rightarrow> bindp (sendMessage E (mk_msg None os (compressFlag > 0) 0)) (\<lambda>_. ret ())
             | None \<Rightarrow> ret ())
        (withp (\<lambda>c. whenp (cState c = StateClosing \<and> cDispatchCount c = 0) (initiateShutdown E))))"
  have shut: "wp (withp (\<lambda>c. whenp (cState c = StateClosing \<and> cDispatchCount c = 0) (initiateShutdown E))) ?Q ?R c1"
    if "good E c c1" "pending c1 < 2 ^ 31" for c1
    using that by (auto simp: wp_basic(5) wp_whenp intro!: wp_shutdown_good)
  have rest: "wp rest ?Q ?R c1" if c1: "good E c c1" "same_ctl ?c c1" for c1
  proof (cases "StateClosed \<le> cState c1")
    case True
    then have "cException c1 \<noteq> None"
      using c1(1) by (simp add: good_def conn_inv_def inv_state_def state_order)
    then obtain ex where ex: "cException c1 = Some ex" by auto
    then have "\<not> fatal ex" using c1(1) by (simp add: good_def conn_inv_def inv_errors_def)
    with True ex c1(1) show ?thesis
      by (simp add: rest_def wp_seqp wp_basic(5) rethrow_def deref_exception_def wp_basic wp_bindp)
  next
    case False
    have p1: "pending c1 < 2 ^ 31"
      using same_ctl_pending [OF c1(2)] pending_finish_some [of 1 c "cDispatchCount c - 1"] o p by simp
    show ?thesis
    proof (cases reply)
      case None
      with False shut [OF c1(1) p1] show ?thesis by (simp add: rest_def wp_seqp wp_basic)
    next
      case (Some a)
      obtain os flag where a: "a = (os, flag)" by (cases a)
      have "cState c1 = cState c" using c1(2) by (simp add: same_ctl_def)
      moreover have "cState c \<noteq> StateClosingPending"
        using inv(1) o by (auto simp: conn_inv_def inv_state_def inv_dispatch_def no_invocations_def state_order)
      ultimately have st1: "cState c1 \<in> {StateActive, StateHolding, StateClosing}"
        using st False by (cases "cState c1") (auto simp: state_order)
      have "wp (sendMessage E (mk_msg None os (flag > 0) 0))
          (\<lambda>_. wp (withp (\<lambda>c. whenp (cState c = StateClosing \<and> cDispatchCount c = 0) (initiateShutdown E))) ?Q ?R) ?R c1"
      proof (rule wp_sendMessage_good [OF c1(1) st1])
        show "fresh_msg (mk_msg None os (flag > 0) 0)" using reply Some a by simp
        fix st' c2 assume "good E c c2" "same_ctl c1 c2"
        then show "wp (withp (\<lambda>c. whenp (cState c = StateClosing \<and> cDispatchCount c = 0) (initiateShutdown E))) ?Q ?R c2"
          using p1 same_ctl_pending by (intro shut) simp_all
      qed simp_all
      with False Some a show ?thesis by (simp add: rest_def wp_seqp wp_bindp wp_basic(1,2) wp_withp)
    qed
  qed
  have "wp (seqp decrease_dispatch rest) ?Q ?R c"
  proof -
    have "wp rest ?Q ?R ?c" by (rule rest [OF g1]) (simp add: same_ctl_def)
    moreover have "wp rest ?Q ?R (?c\<lparr>cLog := cLog ?c @ l\<rparr>)" for l
      by (rule rest) (use g1 in \<open>simp_all add: same_ctl_def\<close>)
    moreover from this have "wp conn_reap (\<lambda>_. wp rest ?Q ?R) ?R ?c"
      by (intro wp_reap [OF g1])
    ultimately show ?thesis
      unfolding decrease_dispatch_def wp_seqp wp_basic(4) wp_basic(5) wp_whenp
      by (cases "cDispatchCount ?c = 0 \<and> cState ?c = StateFinished") (simp_all only: if_True if_False simp_thms)
  qed
  then have "wp (catchp (seqp decrease_dispatch rest) (setStateEx E StateClosed)) ?Q ?R c"
    unfolding wp_catchp
    by (rule wp_mono) (auto intro!: wp_close_good)
  with st show "wp (finish_invocation E reply) ?Q ?R c"
    by (simp add: finish_invocation_def rest_def wp_seqp wp_basic)
qed

end
