(* ===== verification/ConnIO.thy ===== *)
theory ConnIO
  imports ConnEvents
begin


section \<open>Connections: establishing, reading and writing\<close>

text \<open>The parts of the calls that a thread of the pool makes, each with what it keeps.\<close>

subsection \<open>Failed invocations\<close>

lemma closed_by_outstanding:
  "closed_by ex c c' \<Longrightarrow> cOutstanding c' = cOutstanding c \<and> cDispatchCount c' = cDispatchCount c"
  by (auto simp: closed_by_def same_data_def split: if_splits)

lemma dispatch_count_bound:
  fixes n :: ice_int
  assumes "conn_inv c" "pending c < 2 ^ 31" "0 \<le>s n" "unat n \<le> pending c"
  shows "n \<le>s cDispatchCount c"
proof -
  have "cDispatchCount c = word_of_nat (pending c)" using assms(1) by (simp add: conn_inv_def inv_dispatch_def)
  then have "sint (cDispatchCount c) = int (pending c)"
    using assms(2) by (simp add: signed_of_nat signed_take_bit_int_eq_self)
  moreover have "sint n = int (unat n)"
    using assms(3) sint_lt [of n] by (simp add: word_sle_eq uint_sint take_bit_int_eq_self)
  moreover have "int (unat n) \<le> int (pending c)" using assms(4) by (simp only: of_nat_le_iff)
  ultimately show ?thesis by (simp only: word_sle_eq)
qed

lemma invokeException_safe:
  assumes inv: "conn_inv c" "linked E c" and p: "pending c < 2 ^ 31"
    and n: "0 \<le>s n" "unat n \<le> cOutstanding c" and ex: "\<not> fatal ex"
  shows "safe E (invokeException E ex n) c"
proof (rule safeI [OF inv])
  let ?Q = "\<lambda>_. good E c" and ?R = "\<lambda>e c'. good E c c' \<and> \<not> fatal e"
  assume g: "good E c c"
  show "wp (invokeException E ex n) ?Q ?R c"
    unfolding invokeException_def wp_seqp
  proof (rule wp_close_good [OF g ex])
    fix c' assume c': "good E c c'" "StateClosed \<le> cState c'" "pending c' = pending c" "closed_by ex c c'"
    have o: "unat n \<le> cOutstanding c'" using n(2) closed_by_outstanding [OF c'(4)] by simp
    then have "unat n \<le> pending c'" by (simp add: pending_def)
    then have b: "n \<le>s cDispatchCount c'"
      using c' p n(1) by (intro dispatch_count_bound) (simp_all add: good_inv)
    have g1: "good E c (c'\<lparr>cDispatchCount := cDispatchCount c' - n, cOutstanding := cOutstanding c' - unat n\<rparr>)"
      using finish_some [OF c'(1) o] by simp
    have r: "wp conn_reap ?Q ?R (c'\<lparr>cDispatchCount := cDispatchCount c' - n, cOutstanding := cOutstanding c' - unat n\<rparr>)"
      by (rule wp_reap [OF g1])
    show "wp (whenp (0 <s n) (seqp (assertp (\<lambda>c. n \<le>s cDispatchCount c))
           (seqp (modify (\<lambda>c. c\<lparr>cDispatchCount := cDispatchCount c - n, cOutstanding := cOutstanding c - unat n\<rparr>))
             (withp (\<lambda>c. whenp (cDispatchCount c = 0 \<and> cState c = StateFinished) conn_reap))))) ?Q ?R c'"
      using b g1 r c'(1) unfolding wp_whenp wp_seqp wp_basic(4) wp_basic(5) wp_basic(6)
      by (simp only: if_True if_False simp_thms split: if_split)
  qed
qed

subsection \<open>Establishing a connection\<close>

text \<open>The results of reading the header never include a failed assertion.\<close>

definition benign :: "'a result \<Rightarrow> bool" where
  "benign r \<longleftrightarrow> (\<forall>e. r = Inl e \<longrightarrow> \<not> fatal e)"

lemma benign_simps [simp]: "benign (Inr x)" "benign (Inl e) = (\<not> fatal e)"
  by (simp_all add: benign_def)

lemma benign_and_then [intro]: "benign m \<Longrightarrow> (\<And>x. benign (f x)) \<Longrightarrow> benign (and_then m f)"
  by (cases m) simp_all

lemma benign_split [intro]: "(\<And>a b. benign (f a b)) \<Longrightarrow> benign (case p of (a, b) \<Rightarrow> f a b)"
  by (cases p) simp

lemma benign_if [intro]: "benign r \<Longrightarrow> benign r' \<Longrightarrow> benign (if b then r else r')"
  by simp

lemma benign_reads [simp]: "benign (read_raw n s)" "benign (read_int s)" "benign (read_byte s)" "benign (read_version s)"
  "benign (checkSupportedProtocol v)" "benign (checkSupportedProtocolEncoding v)"
  by (simp_all add: read_raw_def read_int_def read_byte_def read_version_def checkSupportedProtocol_def
      checkSupportedProtocolEncoding_def and_then_def split: sum.split)

lemma benign_check_magic [simp]: "benign (check_magic s)"
  unfolding check_magic_def by (intro benign_and_then benign_split benign_if) simp_all

lemma benign_check_validation [simp]: "benign (check_validation bs)"
  unfolding check_validation_def by (intro benign_and_then benign_split benign_if) simp_all

lemma benign_parse_header [simp]: "benign (parse_header E b)"
  unfolding parse_header_def by (intro benign_and_then benign_split benign_if) simp_all

lemma benign_doUncompress [simp]: "benign (doUncompress E bs)"
  unfolding doUncompress_def Let_def
  by (intro benign_and_then benign_split benign_if) (simp_all split: option.split)

lemma wp_lift_benign: "benign r \<Longrightarrow> (\<And>x. r = Inr x \<Longrightarrow> Q x c) \<Longrightarrow> (\<And>e. \<not> fatal e \<Longrightarrow> R e c) \<Longrightarrow> wp (lift r) Q R c"
  by (simp add: wp_lift benign_def split: sum.split)

text \<open>The buffers and the answers of the environment.\<close>

lemma good_answers_subset:
  assumes "good E c0 c" "set as \<subseteq> set (cAnswers c)"
  shows "good E c0 (c\<lparr>cAnswers := as\<rparr>)"
proof (rule good_step [OF assms(1)])
  have "inv_errors (c\<lparr>cAnswers := as\<rparr>)"
    using good_inv_groups(2) [OF assms(1)] assms(2) by (auto simp: inv_errors_def)
  then show "conn_inv (c\<lparr>cAnswers := as\<rparr>)"
    using good_inv_groups [OF assms(1)] by (simp add: conn_inv_def inv_state_def inv_queue_def inv_requests_def inv_read_def
        inv_dispatch_def pending_def no_invocations_def)
  show "advanced E c (c\<lparr>cAnswers := as\<rparr>)" by (simp add: advanced_def linked_defs)
qed

lemma conn_inv_bufs:
  assumes "conn_inv c" "valid_pos rb" "inv_queue (c\<lparr>cWriteBuf := wb\<rparr>)"
  shows "conn_inv (c\<lparr>cReadBuf := rb, cWriteBuf := wb\<rparr>)"
proof -
  have "inv_queue (c\<lparr>cReadBuf := rb, cWriteBuf := wb\<rparr>)" using assms(3) by (simp add: inv_queue_def)
  with assms(1,2) show ?thesis
    by (simp add: conn_inv_def inv_state_def inv_errors_def inv_requests_def inv_read_def inv_dispatch_def pending_def
        no_invocations_def)
qed

lemma good_read_buf:
  assumes "good E c0 c" "valid_pos b"
  shows "good E c0 (c\<lparr>cReadBuf := b\<rparr>)"
proof (rule good_step [OF assms(1)])
  show "conn_inv (c\<lparr>cReadBuf := b\<rparr>)"
    using conn_inv_bufs [OF good_inv [OF assms(1)] assms(2), of "cWriteBuf c"] good_inv_groups(3) [OF assms(1)] by simp
qed (simp add: advanced_def linked_defs)

lemma good_write_buf:
  assumes "good E c0 c" "valid_pos b" "cState c \<le> StateNotValidated"
  shows "good E c0 (c\<lparr>cWriteBuf := b\<rparr>)"
proof (rule good_step [OF assms(1)])
  have st: "cState c = StateNotInitialized \<or> cState c = StateNotValidated"
    using assms(3) by (cases "cState c") (auto simp: state_order)
  then have "inv_queue (c\<lparr>cWriteBuf := b\<rparr>)"
    using good_inv_groups(3) [OF assms(1)] assms(2) by (auto simp: inv_queue_def state_order)
  then show "conn_inv (c\<lparr>cWriteBuf := b\<rparr>)"
    using conn_inv_bufs [OF good_inv [OF assms(1)], of "cReadBuf c" b] good_inv_groups(5) [OF assms(1)]
    by (simp add: inv_read_def)
qed (simp add: advanced_def linked_defs)

lemma wp_tx_read:
  assumes "valid_pos b" "inv_errors c"
    and "\<And>op b' as. \<lbrakk>valid_pos b'; \<not> opWrite op; \<not> opRead op \<longrightarrow> at_end b'; \<not> eDatagram E \<longrightarrow> length (bBytes b') = length (bBytes b);
        set as \<subseteq> set (cAnswers c)\<rbrakk> \<Longrightarrow> Q (op, b') (c\<lparr>cAnswers := as\<rparr>)"
    and "\<And>e as. \<lbrakk>\<not> fatal e; set as \<subseteq> set (cAnswers c)\<rbrakk> \<Longrightarrow> R e (c\<lparr>cAnswers := as\<rparr>)"
  shows "wp (tx_read E b) Q R c"
proof -
  obtain p where p: "bPos b = Some p" "p \<le> length (bBytes b)" using assms(1) by (auto simp: valid_pos_def)
  have unread: "Q (OpRead, b) (c\<lparr>cAnswers := as\<rparr>)" if "set as \<subseteq> set (cAnswers c)" for as
    by (rule assms(3)) (use that assms(1) in simp_all)
  show ?thesis
  proof (cases "length (bBytes b) - p = 0 \<and> \<not> eDatagram E")
    case True
    have "Q (OpNone, b) (c\<lparr>cAnswers := cAnswers c\<rparr>)"
      by (rule assms(3)) (use True p assms(1) in \<open>simp_all add: at_end_def\<close>)
    with True p show ?thesis by (simp add: tx_read_def wp_simps buf_pos_def)
  next
    case False
    show ?thesis
    proof (cases "cAnswers c")
      case Nil
      with unread [of "[]"] False p show ?thesis
        by (auto simp add: tx_read_def wp_simps buf_pos_def pop_answer_def Let_def)
    next
      case (Cons a as)
      then have as: "set as \<subseteq> set (cAnswers c)" by auto
      show ?thesis
      proof (cases a)
        case (Got bs)
        have d: "Q (OpNone, \<lparr>bBytes = bs, bPos = Some (length bs)\<rparr>) (c\<lparr>cAnswers := as\<rparr>)" if "eDatagram E"
          by (rule assms(3)) (use that as in \<open>simp_all add: valid_pos_def at_end_def\<close>)
        have l: "length (poke (bBytes b) p (take (length (bBytes b) - p) bs)) = length (bBytes b)"
          using p by (intro length_poke) (auto simp: min_def)
        have s: "Q (if length bs < length (bBytes b) - p then OpRead else OpNone,
                b\<lparr>bBytes := poke (bBytes b) p (take (length (bBytes b) - p) bs),
                  bPos := Some (p + min (length (bBytes b) - p) (length bs))\<rparr>) (c\<lparr>cAnswers := as\<rparr>)" if "\<not> eDatagram E"
          by (rule assms(3)) (use p as l in \<open>auto simp: valid_pos_def at_end_def min_def simp del: length_poke\<close>)
        from d s False p Cons Got show ?thesis
          by (auto simp add: tx_read_def wp_simps buf_pos_def pop_answer_def Let_def)
      next
        case (Broken e)
        then have "\<not> fatal e" using assms(2) Cons by (auto simp: inv_errors_def)
        with assms(4) [of e as] as False p Cons Broken show ?thesis
          by (auto simp add: tx_read_def wp_simps buf_pos_def pop_answer_def Let_def)
      qed (use unread [OF as] False p Cons in \<open>auto simp add: tx_read_def wp_simps buf_pos_def pop_answer_def Let_def\<close>)
    qed
  qed
qed

text \<open>Establishing: a connection that is not established yet stays so, until its buffers are ready for messages.\<close>

definition established :: "conn_env \<Rightarrow> conn \<Rightarrow> conn \<Rightarrow> bool" where
  "established E c0 c \<longleftrightarrow> good E c0 c \<and> cState c = StateNotValidated \<and> bBytes (cWriteBuf c) = []"

abbreviation failed :: "conn_env \<Rightarrow> conn \<Rightarrow> ice_error \<Rightarrow> conn \<Rightarrow> bool" where
  "failed E c0 e c \<equiv> good E c0 c \<and> \<not> fatal e"

lemma good_timeouts [simp]: "good E c0 (c\<lparr>cReadTimeout := a, cWriteTimeout := b\<rparr>) = good E c0 c"
  by (simp add: good_def advanced_def linked_defs settled_def in_progress_def completed_def)

lemma wp_wait_for:
  assumes "good E c0 c" "\<And>c'. good E c0 c' \<Longrightarrow> cState c' = cState c \<Longrightarrow> Q False c'"
  shows "wp (wait_for E operation op) Q R c"
  unfolding wait_for_def wp_seqp
  by (rule wp_scheduleTimeout) (simp add: pool_update_def wp_basic Let_def assms)

lemma wp_setState_NotValidated:
  assumes "good E c0 c" "cState c = StateNotInitialized"
    and "\<And>c'. good E c0 c' \<Longrightarrow> cState c' = StateNotValidated \<Longrightarrow> Q () c'"
  shows "wp (setState E StateNotValidated) Q R c"
proof -
  have "good E c0 (c\<lparr>cState := StateNotValidated\<rparr>)"
    by (rule good_step [OF assms(1)])
      (use good_inv_groups [OF assms(1)] assms(2) in \<open>auto simp: advanced_def linked_defs conn_inv_def inv_state_def
        inv_errors_def inv_queue_def inv_requests_def inv_read_def inv_dispatch_def pending_def no_invocations_def state_order\<close>)
  with assms(2,3) show ?thesis by (simp add: state_defs wp_simps state_order)
qed

lemma wp_tx_initialize:
  assumes "good E c0 c" "\<And>op as. set as \<subseteq> set (cAnswers c) \<Longrightarrow> Q op (c\<lparr>cAnswers := as\<rparr>)"
    and "\<And>e as. \<not> fatal e \<Longrightarrow> set as \<subseteq> set (cAnswers c) \<Longrightarrow> R e (c\<lparr>cAnswers := as\<rparr>)"
  shows "wp tx_initialize Q R c"
proof (cases "cAnswers c")
  case Nil
  with assms(2) [of "[]"] show ?thesis by (simp add: tx_initialize_def wp_simps pop_answer_def)
next
  case (Cons a as)
  then have "set as \<subseteq> set (cAnswers c)" by auto
  moreover have "\<not> fatal e" if "a = Broken e" for e
    using that Cons good_inv_groups(2) [OF assms(1)] by (simp add: inv_errors_def)
  ultimately show ?thesis using assms(2,3) Cons
    by (cases a) (simp_all add: tx_initialize_def wp_simps pop_answer_def)
qed

lemma wp_initialize:
  assumes g: "good E c0 c" "cState c = StateNotInitialized"
  shows "wp (conn_initialize E operation) (\<lambda>r c'. good E c0 c' \<and> cState c' = (if r then StateNotValidated else StateNotInitialized))
    (failed E c0) c"
  unfolding conn_initialize_def wp_bindp
proof (rule wp_tx_initialize [OF g(1)])
  fix op as assume "set as \<subseteq> set (cAnswers c)"
  then have g1: "good E c0 (c\<lparr>cAnswers := as\<rparr>)" "cState (c\<lparr>cAnswers := as\<rparr>) = StateNotInitialized"
    using g good_answers_subset by simp_all
  from g1 show "wp (if op \<noteq> OpNone then seqp (scheduleTimeout E op) (seqp (pool_update operation op) (ret False))
       else seqp (modify (\<lambda>c. c\<lparr>cInitialized := True\<rparr>)) (seqp (setState E StateNotValidated) (ret True)))
     (\<lambda>r c'. good E c0 c' \<and> cState c' = (if r then StateNotValidated else StateNotInitialized)) (failed E c0) (c\<lparr>cAnswers := as\<rparr>)"
    unfolding wait_for_def [symmetric]
    by (cases "op = OpNone") (auto simp: wp_seqp wp_basic intro!: wp_wait_for wp_setState_NotValidated)
qed (use g good_answers_subset in simp)

lemma valid_resize [simp]: "valid_pos (resize_buf n bs)" "valid_pos empty_buf" "bBytes empty_buf = []"
  "bBytes (resize_buf n bs) = take n bs @ replicate (n - length bs) 0"
  by (simp_all add: valid_pos_def resize_buf_def empty_buf_def)

lemma wp_end_validate:
  assumes "good E c0 c" "cState c = StateNotValidated"
  shows "wp end_validate (\<lambda>r c'. r \<and> established E c0 c') R c"
proof -
  let ?b = "resize_buf headerSize (bBytes (cReadBuf c))"
  have "good E c0 (c\<lparr>cWriteBuf := empty_buf\<rparr>)"
    using assms by (intro good_write_buf) (simp_all add: state_order)
  then have "good E c0 (c\<lparr>cWriteBuf := empty_buf, cReadBuf := ?b\<rparr>)" by (rule good_read_buf) simp
  with assms show ?thesis by (simp add: end_validate_def wp_simps established_def)
qed

lemma wp_validate:
  assumes g: "good E c0 c" "cState c = StateNotValidated"
  shows "wp (conn_validate E operation)
    (\<lambda>r c'. if r then established E c0 c' else good E c0 c' \<and> cState c' = StateNotValidated) (failed E c0) c"
proof -
  let ?Q = "\<lambda>r c'. if r then established E c0 c' else good E c0 c' \<and> cState c' = StateNotValidated"
  have finish: "wp end_validate ?Q (failed E c0) c1" if "good E c0 c1" "cState c1 = StateNotValidated" for c1
    by (rule wp_mono [OF wp_end_validate [OF that]]) auto
  have again: "wp (wait_for E operation op) ?Q (failed E c0) c1" if "good E c0 c1" "cState c1 = StateNotValidated" for c1 op
    by (rule wp_wait_for [OF that(1)]) (use that in simp)
  have wr: "wp (bindp (tx_write (cWriteBuf c1)) (\<lambda>(op, b).
            seqp (modify (\<lambda>c. c\<lparr>cWriteBuf := b\<rparr>))
              (if op \<noteq> OpNone then wait_for E operation op else end_validate))) ?Q (failed E c0) c1"
    if c1: "good E c0 c1" "cState c1 = StateNotValidated" for c1
    unfolding wp_bindp
  proof (rule wp_tx_write)
    show "valid_pos (cWriteBuf c1)" "inv_errors c1"
      using good_inv_groups [OF c1(1)] by (simp_all add: inv_queue_def)
  next
    fix op p as
    let ?b = "cWriteBuf c1\<lparr>bPos := Some p\<rparr>"
    let ?c = "c1\<lparr>cAnswers := as, cWire := cWire c1 @ take (p - buf_pos (cWriteBuf c1)) (drop (buf_pos (cWriteBuf c1)) (bBytes (cWriteBuf c1)))\<rparr>"
    assume "p \<le> length (bBytes (cWriteBuf c1))" "set as \<subseteq> set (cAnswers c1)"
    then have "good E c0 (?c\<lparr>cWriteBuf := ?b\<rparr>)"
      using c1 good_answers_subset [OF c1(1)] by (intro good_write_buf) (simp_all add: valid_pos_def state_order)
    with c1(2) finish again show "wp (case (op, ?b) of (op, b) \<Rightarrow> seqp (modify (\<lambda>c. c\<lparr>cWriteBuf := b\<rparr>))
              (if op \<noteq> OpNone then wait_for E operation op else end_validate)) ?Q (failed E c0) ?c"
      by (simp add: wp_seqp wp_basic)
  next
    fix e as assume "\<not> fatal e" "set as \<subseteq> set (cAnswers c1)"
    then show "failed E c0 e (c1\<lparr>cAnswers := as\<rparr>)" using good_answers_subset [OF c1(1)] by simp
  qed
  have rd: "wp (bindp (tx_read E (cReadBuf c1)) (\<lambda>(op, b).
            seqp (modify (\<lambda>c. c\<lparr>cReadBuf := b\<rparr>))
              (if op \<noteq> OpNone then wait_for E operation op
               else seqp (modify (\<lambda>c. c\<lparr>cValidated := True\<rparr>))
                 (seqp (assertp (\<lambda>c. at_end (cReadBuf c)))
                   (seqp (lift (check_validation (bBytes b))) end_validate))))) ?Q (failed E c0) c1"
    if c1: "good E c0 c1" "cState c1 = StateNotValidated" for c1
    unfolding wp_bindp
  proof (rule wp_tx_read)
    show "valid_pos (cReadBuf c1)" "inv_errors c1"
      using good_inv_groups [OF c1(1)] by (simp_all add: inv_read_def)
  next
    fix op :: sockop and b as
    let ?c = "c1\<lparr>cAnswers := as\<rparr>"
    assume b: "valid_pos b" "\<not> opRead op \<longrightarrow> at_end b" "set as \<subseteq> set (cAnswers c1)"
    then have g2: "good E c0 (?c\<lparr>cReadBuf := b\<rparr>)"
      using good_answers_subset [OF c1(1)] by (intro good_read_buf) simp_all
    have "wp (seqp (lift (check_validation (bBytes b))) end_validate) ?Q (failed E c0) (?c\<lparr>cReadBuf := b, cValidated := True\<rparr>)"
      unfolding wp_seqp by (rule wp_lift_benign) (use g2 c1(2) finish in simp_all)
    with b g2 c1(2) again show "wp (case (op, b) of (op, b) \<Rightarrow> seqp (modify (\<lambda>c. c\<lparr>cReadBuf := b\<rparr>))
              (if op \<noteq> OpNone then wait_for E operation op
               else seqp (modify (\<lambda>c. c\<lparr>cValidated := True\<rparr>))
                 (seqp (assertp (\<lambda>c. at_end (cReadBuf c)))
                   (seqp (lift (check_validation (bBytes b))) end_validate)))) ?Q (failed E c0) ?c"
      by (cases "op = OpNone") (simp_all add: wp_seqp wp_basic)
  next
    fix e as assume "\<not> fatal e" "set as \<subseteq> set (cAnswers c1)"
    then show "failed E c0 e (c1\<lparr>cAnswers := as\<rparr>)" using good_answers_subset [OF c1(1)] by simp
  qed
  have "good E c0 (c\<lparr>cWriteBuf := \<lparr>bBytes = validate_message, bPos = Some 0\<rparr>\<rparr>)"
    using g by (intro good_write_buf) (simp_all add: valid_pos_def state_order)
  moreover have "good E c0 (c\<lparr>cReadBuf := resize_buf headerSize []\<rparr>)"
    using g(1) by (rule good_read_buf) simp
  ultimately show ?thesis
    using g finish [OF g] wr rd unfolding conn_validate_def by (simp add: wp_seqp wp_basic)
qed

lemma wp_setState_established:
  assumes "established E c0 c" "\<And>c'. good E c0 c' \<Longrightarrow> cState c' = StateHolding \<Longrightarrow> cStartCallback c' = cStartCallback c \<Longrightarrow> Q () c'"
  shows "wp (setState E StateHolding) Q R c"
  by (rule wp_setState_Holding [where c = c and E = E and ?c0.0 = c0]) (use assms in \<open>simp_all add: established_def\<close>)

lemma start_safe:
  assumes inv: "conn_inv c" "linked E c" and ready: "call_ready E c CallStart"
  shows "safe E (conn_start E) c"
proof (rule safeI [OF inv])
  assume g: "good E c c"
  let ?Q = "\<lambda>_. good E c"
  define body where "body = seqp (withp (\<lambda>c. if StateClosed \<le> cState c then rethrow else ret ()))
         (bindp (conn_initialize E OpNone) (\<lambda>i.
           bindp (if i then conn_validate E OpNone else ret False) (\<lambda>v.
             if \<not> v then modify (\<lambda>c. c\<lparr>cStartCallback := True\<rparr>)
             else seqp (setState E StateHolding) (emit EvStartCompleted))))"
  have "wp body ?Q (failed E c) c"
  proof (cases "StateClosed \<le> cState c")
    case True
    then have "cException c \<noteq> None" using inv(1) by (simp add: conn_inv_def inv_state_def state_order)
    then obtain ex where ex: "cException c = Some ex" by auto
    then have "\<not> fatal ex" using inv(1) by (simp add: conn_inv_def inv_errors_def)
    with True ex g show ?thesis
      by (simp add: body_def wp_seqp wp_basic rethrow_def deref_exception_def wp_bindp)
  next
    case False
    with ready have st: "cState c = StateNotInitialized" by simp
    have hold: "wp (seqp (setState E StateHolding) (emit EvStartCompleted)) ?Q (failed E c) c1" if "established E c c1" for c1
      unfolding wp_seqp by (rule wp_setState_established [OF that]) (rule wp_emit, simp_all)
    have "wp (bindp (conn_initialize E OpNone) (\<lambda>i.
           bindp (if i then conn_validate E OpNone else ret False) (\<lambda>v.
             if \<not> v then modify (\<lambda>c. c\<lparr>cStartCallback := True\<rparr>)
             else seqp (setState E StateHolding) (emit EvStartCompleted)))) ?Q (failed E c) c"
      unfolding wp_bindp
    proof (rule wp_mono [OF wp_initialize [OF g st]])
      fix i c1 assume c1: "good E c c1 \<and> cState c1 = (if i then StateNotValidated else StateNotInitialized)"
      show "wp (if i then conn_validate E OpNone else ret False) (\<lambda>v. wp
             (if \<not> v then modify (\<lambda>c. c\<lparr>cStartCallback := True\<rparr>)
             else seqp (setState E StateHolding) (emit EvStartCompleted)) ?Q (failed E c)) (failed E c) c1"
      proof (cases i)
        case True
        with c1 have "wp (conn_validate E OpNone)
           (\<lambda>r c'. if r then established E c c' else good E c c' \<and> cState c' = StateNotValidated) (failed E c) c1"
          by (intro wp_validate) simp_all
        with True show ?thesis
          by (auto elim!: wp_mono simp: wp_basic hold split: if_splits)
      next
        case False
        with c1 show ?thesis by (simp add: wp_basic)
      qed
    qed simp
    with False show ?thesis by (simp add: body_def wp_seqp wp_basic)
  qed
  then have "wp (catchp body (\<lambda>ex. seqp (setStateEx E StateClosed ex) (emit (EvStartFailed ex)))) ?Q (failed E c) c"
    unfolding wp_catchp wp_seqp
    by (rule wp_mono) (auto intro!: wp_close_good wp_emit)
  then show "wp (conn_start E) ?Q (failed E c) c" by (simp add: conn_start_def body_def)
qed

subsection \<open>Reading\<close>

text \<open>What reading leaves alone.\<close>

definition same_send :: "conn \<Rightarrow> conn \<Rightarrow> bool" where
  "same_send c c' \<longleftrightarrow> cState c' = cState c \<and> cSendStreams c' = cSendStreams c \<and> cWriteBuf c' = cWriteBuf c"

lemma same_send_simps [simp]:
  "same_send c c"
  "same_send c (c'\<lparr>cReadBuf := b\<rparr>) = same_send c c'"
  "same_send c (c'\<lparr>cAnswers := as\<rparr>) = same_send c c'"
  "same_send c (c'\<lparr>cReadHeader := h\<rparr>) = same_send c c'"
  "same_send c (c'\<lparr>cReadHeader := h, cValidated := v\<rparr>) = same_send c c'"
  by (simp_all add: same_send_def)

lemma good_header [simp]:
  "good E c0 (c\<lparr>cReadHeader := h, cValidated := v\<rparr>) = good E c0 c"
  by (simp add: good_def advanced_def linked_defs settled_def in_progress_def completed_def)

lemma wp_read_header:
  assumes g: "good E c0 c" and Q: "\<And>c'. \<lbrakk>good E c0 c'; same_send c c'; \<not> cReadHeader c'\<rbrakk> \<Longrightarrow> Q () c'"
    and R: "\<And>e c'. \<lbrakk>good E c0 c'; \<not> fatal e\<rbrakk> \<Longrightarrow> R e c'"
  shows "wp (read_header E) Q R c"
proof -
  let ?c = "c\<lparr>cReadHeader := False, cValidated := True\<rparr>"
  have g1: "good E c0 ?c" using g by simp
  have "valid_pos (cReadBuf c)" using good_inv_groups(5) [OF g] by (simp add: inv_read_def)
  then have "valid_pos (cReadBuf c\<lparr>bBytes := bBytes (cReadBuf c) @ replicate n 0\<rparr>)" for n
    by (auto simp: valid_pos_def)
  then have "good E c0 (?c\<lparr>cReadBuf := cReadBuf c\<lparr>bBytes := bBytes (cReadBuf c) @ replicate n 0\<rparr>\<rparr>)" for n
    by (intro good_read_buf g1)
  then have "wp (bindp (lift (parse_header E (cReadBuf ?c))) (\<lambda>size.
          modify (\<lambda>c. let b = cReadBuf c in
            if size > length (bBytes b)
            then c\<lparr>cReadBuf := b\<lparr>bBytes := bBytes b @ replicate (size - length (bBytes b)) 0\<rparr>\<rparr> else c))) Q R ?c"
    unfolding wp_bindp using g1
    by (intro wp_lift_benign) (auto simp: wp_basic Let_def intro!: Q R)
  then show ?thesis by (simp add: read_header_def wp_seqp wp_basic)
qed

text \<open>One round of the loop: it stops, or it has read the header and goes on.\<close>

lemma wp_read_round:
  assumes g: "good E c0 c"
    and stop: "\<And>op c'. \<lbrakk>good E c0 c'; same_send c c'; \<not> opWrite op; \<not> opRead op \<longrightarrow> at_end (cReadBuf c')\<rbrakk> \<Longrightarrow> Q (Some op) c'"
    and again: "\<And>c'. \<lbrakk>good E c0 c'; same_send c c'; cReadHeader c; \<not> cReadHeader c'\<rbrakk> \<Longrightarrow> wp (read_loop E k) Q R c'"
    and R: "\<And>e c'. \<lbrakk>good E c0 c'; \<not> fatal e\<rbrakk> \<Longrightarrow> R e c'"
  shows "wp (read_loop E (Suc k)) Q R c"
proof -
  define rest where "rest op = withp (\<lambda>c.
              if \<not> at_end (cReadBuf c)
              then if eDatagram E then throw DatagramLimit else read_loop E k
              else ret (Some op))" for op
  have "wp (tx_read E (cReadBuf c)) (\<lambda>(op, b). wp (seqp (modify (\<lambda>c. c\<lparr>cReadBuf := b\<rparr>))
         (if opRead op then ret (Some op) else seqp (whenp (cReadHeader c) (read_header E)) (rest op))) Q R) R c"
  proof (rule wp_tx_read)
    show "valid_pos (cReadBuf c)" "inv_errors c" using good_inv_groups [OF g] by (simp_all add: inv_read_def)
  next
    fix op :: sockop and b as
    let ?c = "c\<lparr>cAnswers := as, cReadBuf := b\<rparr>"
    assume b: "valid_pos b" "\<not> opWrite op" "\<not> opRead op \<longrightarrow> at_end b" "set as \<subseteq> set (cAnswers c)"
    then have g1: "good E c0 ?c" "same_send c ?c" by (simp_all add: good_read_buf good_answers_subset [OF g])
    have "wp (seqp (whenp (cReadHeader c) (read_header E)) (rest op)) Q R ?c" if op: "\<not> opRead op"
    proof (cases "cReadHeader c")
      case True
      have "wp (read_header E) (\<lambda>_. wp (rest op) Q R) R ?c"
      proof (rule wp_read_header [OF g1(1)])
        fix c' assume c': "good E c0 c'" "same_send ?c c'" "\<not> cReadHeader c'"
        then have "same_send c c'" by (simp add: same_send_def)
        with c' True b(2) op show "wp (rest op) Q R c'"
          by (auto simp: rest_def wp_basic intro!: again stop R)
      qed (rule R)
      with True show ?thesis by (simp add: wp_seqp wp_whenp)
    next
      case False
      with b op g1 show ?thesis by (simp add: rest_def wp_seqp wp_whenp wp_basic stop)
    qed
    with g1 b show "(case (op, b) of (op, b) \<Rightarrow> wp (seqp (modify (\<lambda>c. c\<lparr>cReadBuf := b\<rparr>))
         (if opRead op then ret (Some op) else seqp (whenp (cReadHeader c) (read_header E)) (rest op))) Q R) (c\<lparr>cAnswers := as\<rparr>)"
      by (simp add: wp_seqp wp_basic stop)
  next
    fix e as assume "\<not> fatal e" "set as \<subseteq> set (cAnswers c)"
    then show "R e (c\<lparr>cAnswers := as\<rparr>)" using good_answers_subset [OF g] by (intro R)
  qed
  then show ?thesis unfolding rest_def read_loop.simps wp_basic(5) wp_bindp by (simp only: split_def)
qed

lemma wp_read_loop:
  assumes g: "good E c0 c"
    and Q: "\<And>op c'. \<lbrakk>good E c0 c'; same_send c c'; \<not> opWrite op; \<not> opRead op \<longrightarrow> at_end (cReadBuf c')\<rbrakk> \<Longrightarrow> Q (Some op) c'"
    and R: "\<And>e c'. \<lbrakk>good E c0 c'; \<not> fatal e\<rbrakk> \<Longrightarrow> R e c'"
  shows "wp (read_loop E 2) Q R c"
  unfolding numeral_2_eq_2
proof (rule wp_read_round [OF g])
  fix c1 assume c1: "good E c0 c1" "same_send c c1" "cReadHeader c" "\<not> cReadHeader c1"
  show "wp (read_loop E (Suc 0)) Q R c1"
  proof (rule wp_read_round [OF c1(1)])
    fix op :: sockop and c' assume "good E c0 c'" "same_send c1 c'" "\<not> opWrite op" "\<not> opRead op \<longrightarrow> at_end (cReadBuf c')"
    then show "Q (Some op) c'" using c1(2) by (intro Q) (simp_all add: same_send_def)
  qed (use c1(4) R in simp_all)
qed (use Q R in simp_all)

subsection \<open>Messages that arrive\<close>

text \<open>
  What parsing a message leaves: the work with its weight, and the queue as it was; the connection stays in its state
  or is closed.
\<close>

definition same_out :: "conn \<Rightarrow> conn \<Rightarrow> bool" where
  "same_out c c' \<longleftrightarrow> cSendStreams c' = cSendStreams c \<and> cWriteBuf c' = cWriteBuf c
     \<and> (cState c' = cState c \<or> StateClosed \<le> cState c')"

definition parsed :: "conn_env \<Rightarrow> conn \<Rightarrow> conn \<Rightarrow> work \<Rightarrow> ice_int \<Rightarrow> conn \<Rightarrow> bool" where
  "parsed E c0 c w n c' \<longleftrightarrow> good E c0 c' \<and> same_out c c' \<and> wSent w = [] \<and> n = word_of_nat (work_weight w)
     \<and> (wInvokeNum w \<noteq> 0 \<longrightarrow> cState c' < StateClosing) \<and> awaits E c'"

lemma closed_by_same_out: "closed_by ex c c' \<Longrightarrow> same_out c c'"
  by (auto simp: closed_by_def same_data_def same_out_def split: if_splits)

lemma work_weight_simps [simp]:
  "work_weight no_work = 0"
  "work_weight (no_work\<lparr>wCompress := z, wStream := s\<rparr>) = 0"
  "work_weight (no_work\<lparr>wCompress := z, wStream := s, wInvokeNum := n\<rparr>) = unat n"
  "work_weight (no_work\<lparr>wCompress := z, wStream := s, wInvokeNum := n, wRequestId := r\<rparr>) = unat n"
  "work_weight (no_work\<lparr>wCompress := z, wStream := s, wAsync := Some out\<rparr>) = 1"
  "work_weight (no_work\<lparr>wCompress := z, wStream := s, wHeartbeat := True\<rparr>) = 1"
  "work_weight (no_work\<lparr>wStart := True\<rparr>) = 1"
  by (simp_all add: work_weight_def work_callbacks_def no_work_def)

lemma no_work_sel [simp]: "wSent no_work = []" "wInvokeNum no_work = 0" "wAsync no_work = None"
  by (simp_all add: no_work_def)

lemma good_reply:
  assumes g: "good E c0 c" and k: "map_of (cAsyncRequests c) rid = Some out"
    and h: "\<And>k. h = Some k \<Longrightarrow> k \<in> fst ` set (om_erase rid (cAsyncRequests c))"
  shows "good E c0 (c\<lparr>cHint := h, cAsyncRequests := om_erase rid (cAsyncRequests c),
           cLog := cLog c @ [EvResponse out stream]\<rparr>)"
proof -
  let ?d = "c\<lparr>cAsyncRequests := om_erase rid (cAsyncRequests c), cHint := h\<rparr>"
  have wf: "om_wf (cAsyncRequests c)" using good_inv_groups(4) [OF g] by (simp add: inv_requests_def)
  have "inv_requests ?d"
    using good_inv_groups(4) [OF g] h by (auto simp: inv_requests_def) (auto simp: om_erase_def)
  then have inv: "conn_inv ?d" using good_inv_groups [OF g] by (simp add: conn_inv_requests)
  have "paired E c" using g by (simp add: good_def linked_def)
  then have p: "paired E ?d" using link_ok_erase by (auto simp: paired_def set_om_erase)
  have "drops_only out c (erase_request rid c)" by (rule drops_only_erase [OF wf]) (use k in simp)
  then have "drops_only out c ?d" by (simp add: drops_only_def erase_request_def)
  from good_completed [OF g inv p this, of "EvResponse out stream" "[]"]
  have "good E c0 (?d\<lparr>cLog := cLog c @ [EvResponse out stream]\<rparr>)" by (simp add: completes_def)
  also have "?d\<lparr>cLog := cLog c @ [EvResponse out stream]\<rparr> = c\<lparr>cHint := h, cAsyncRequests := om_erase rid (cAsyncRequests c),
           cLog := cLog c @ [EvResponse out stream]\<rparr>" by simp
  finally show ?thesis .
qed

lemma good_awaits: "good E c0 c \<Longrightarrow> cState c < StateClosed \<Longrightarrow> awaits E c"
  by (simp add: good_def linked_def)

lemma closed_by_awaits: "closed_by ex c c' \<Longrightarrow> awaits E c \<Longrightarrow> awaits E c'"
  by (auto simp: closed_by_def same_data_def awaits_def completed_notified split: if_splits)

lemma wp_parse_reply:
  assumes g: "good E c0 c" and st: "cState c < StateClosed"
  shows "wp (parse_reply E stream rid (no_work\<lparr>wCompress := z, wStream := s\<rparr>))
    (\<lambda>(w, n) c'. parsed E c0 c w n c') R c"
proof (cases "map_of (cAsyncRequests c) rid")
  case None
  with g st show ?thesis by (simp add: parse_reply_def wp_basic parsed_def same_out_def good_awaits)
next
  case (Some out)
  let ?m = "om_erase rid (cAsyncRequests c)"
  let ?h = "if cHint c = Some rid then (case filter (\<lambda>p. rid < fst p) (cAsyncRequests c) of [] \<Rightarrow> None | p # _ \<Rightarrow> Some (fst p))
      else cHint c"
  have h: "k \<in> fst ` set ?m" if "?h = Some k" for k
  proof (cases "cHint c = Some rid")
    case True
    then obtain p ps where "filter (\<lambda>p. rid < fst p) (cAsyncRequests c) = p # ps" "k = fst p"
      using \<open>?h = Some k\<close> by (auto split: list.splits)
    then have "p \<in> set (filter (\<lambda>p. rid < fst p) (cAsyncRequests c))" "k = fst p" by simp_all
    then show ?thesis by (force simp: set_om_erase)
  next
    case False
    with \<open>?h = Some k\<close> have k: "cHint c = Some k" "k \<noteq> rid" by auto
    have "cState c < StateFinished"
      using Some good_inv_groups(4) [OF g] by (cases "cState c") (auto simp: inv_requests_def state_order)
    with k good_inv_groups(4) [OF g] show ?thesis by (auto simp: inv_requests_def set_om_erase)
  qed
  have g': "good E c0 (c\<lparr>cHint := ?h, cAsyncRequests := ?m, cLog := cLog c @ [EvResponse out stream]\<rparr>)"
    by (rule good_reply [OF g Some h])
  then have "awaits E (c\<lparr>cHint := ?h, cAsyncRequests := ?m, cLog := cLog c @ [EvResponse out stream]\<rparr>)"
    by (rule good_awaits) (use st in simp)
  with g' Some show ?thesis
    by (cases "eWantsResponse E out stream")
      (simp_all add: parse_reply_def wp_basic wp_seqp emit_def parsed_def same_out_def)
qed

lemma wp_parse_close:
  assumes g: "good E c0 c" "StateNotValidated < cState c" "cState c < StateClosed" and env: "plain_env E"
  shows "wp (parse_close E w) (\<lambda>(early, w', n) c'. early = None \<and> w' = w \<and> n = 0 \<and> good E c0 c' \<and> same_out c c' \<and> awaits E c') R c"
proof -
  have ins: "inv_state c" using g(1) by (simp add: good_inv_state)
  have main: "wp (parse_close E w) (\<lambda>(early, w', n) c'. early = None \<and> w' = w \<and> n = 0 \<and> (c' = c \<or> closed_by CloseConnection c c')) (\<lambda>_ _. False) c"
    using g(2,3) ins env
    by (cases "cState c"; cases "cException c"; cases "eDatagram E";
        simp add: parse_close_def plain_env_def setStateEx_def inv_state_def state_defs wp_simps closed_by_def state_order
          same_data_def notified_def)
  have "good E c0 c'" if "closed_by CloseConnection c c'" for c'
    using good_step [OF g(1) closed_by_inv [OF good_inv [OF g(1)] that] moved_advanced [OF closed_by_moved [OF that]]] by simp
  then show ?thesis
    by (intro wp_weaken [OF main]) (use g closed_by_same_out closed_by_awaits good_awaits [OF g(1,3)] in \<open>auto simp: same_out_def\<close>)
qed

lemma wp_ifI: "(b \<Longrightarrow> wp m Q R c) \<Longrightarrow> (\<not> b \<Longrightarrow> wp n Q R c) \<Longrightarrow> wp (if b then m else n) Q R c"
  by simp

lemma wp_parse_body:
  assumes g: "good E c0 c" "StateNotValidated < cState c" "cState c < StateClosed" and env: "plain_env E"
  shows "wp (parse_body E messageType z stream) (\<lambda>(early, w, n) c'. early = None \<and> parsed E c0 c w n c') (\<lambda>e c'. c' = c \<and> \<not> fatal e) c"
proof -
  let ?s = "(istream_init currentProtocolEncoding stream)\<lparr>ipos := headerSize\<rparr>"
  let ?w = "no_work\<lparr>wCompress := z, wStream := stream\<rparr>"
  let ?Q = "\<lambda>(early, w, n) c'. early = None \<and> parsed E c0 c w n c'"
  have close: "wp (parse_close E ?w) ?Q (\<lambda>e c'. c' = c \<and> \<not> fatal e) c"
    by (rule wp_mono [OF wp_parse_close [OF g env, where R = "\<lambda>_ _. False"]]) (auto simp: parsed_def no_work_def work_weight_def work_callbacks_def)
  have reply: "wp (bindp (lift (read_int ?s)) (\<lambda>(rid, s).
         bindp (parse_reply E stream rid ?w) (\<lambda>(w, n). ret (None, w, n)))) ?Q (\<lambda>e c'. c' = c \<and> \<not> fatal e) c"
    unfolding wp_bindp
  proof (rule wp_lift_benign)
    fix x assume "read_int ?s = Inr x"
    obtain rid s where x: "x = (rid, s)" by (cases x)
    have "wp (parse_reply E stream rid ?w) (\<lambda>(w, n). ?Q (None, w, n)) (\<lambda>e c'. c' = c \<and> \<not> fatal e) c"
      using wp_parse_reply [OF g(1,3)] by (rule wp_mono) auto
    then show "wp (case x of (rid, s) \<Rightarrow> bindp (parse_reply E stream rid ?w) (\<lambda>(w, n). ret (None, w, n))) ?Q (\<lambda>e c'. c' = c \<and> \<not> fatal e) c"
      by (simp add: x wp_bindp wp_basic split_def)
  qed (use g in simp_all)
  have request: "wp (bindp (lift (read_int ?s)) (\<lambda>(rid, s). ret (None, ?w\<lparr>wInvokeNum := 1, wRequestId := rid\<rparr>, 1))) ?Q (\<lambda>e c'. c' = c \<and> \<not> fatal e) c"
    if "cState c < StateClosing"
    unfolding wp_bindp by (rule wp_lift_benign) (use g that good_awaits [OF g(1,3)] in \<open>auto simp: wp_basic parsed_def same_out_def split: prod.split\<close>)
  have batch: "wp (bindp (lift (read_int ?s)) (\<lambda>(n, s).
          if n <s 0 then throw UnmarshalOutOfBounds else ret (None, ?w\<lparr>wInvokeNum := n\<rparr>, n))) ?Q (\<lambda>e c'. c' = c \<and> \<not> fatal e) c"
    if "cState c < StateClosing"
    unfolding wp_bindp by (rule wp_lift_benign) (use g that good_awaits [OF g(1,3)] in \<open>auto simp: wp_basic parsed_def same_out_def split: prod.split\<close>)
  have "parsed E c0 c ?w 0 c" "parsed E c0 c (?w\<lparr>wHeartbeat := True\<rparr>) 1 c"
    using g good_awaits [OF g(1,3)] by (simp_all add: parsed_def same_out_def)
  with g(1) show ?thesis
    unfolding parse_body_def wp_basic(5) Let_def
    by (intro wp_ifI close reply request batch) (simp_all add: wp_basic not_le)
qed

lemma wp_parseMessage:
  assumes g: "good E c0 c" "StateNotValidated < cState c" "cState c < StateClosed" "at_end (cReadBuf c)" and env: "plain_env E"
  shows "wp (parseMessage E old) (\<lambda>(op, w, n) c'. parsed E c0 c w n c') R c"
proof -
  let ?c = "c\<lparr>cReadBuf := resize_buf headerSize old, cReadHeader := True\<rparr>"
  let ?stream = "bBytes (cReadBuf c)"
  have g1: "good E c0 ?c" using good_read_buf [OF g(1), of "resize_buf headerSize old"] good_frame(11) by force
  have g2: "StateNotValidated < cState ?c" "cState ?c < StateClosed" using g by simp_all
  define body where "body = bindp (lift (if ?stream ! 9 = 2 then doUncompress E ?stream else Inr ?stream))
                  (\<lambda>stream. parse_body E (?stream ! 8) (?stream ! 9) stream)"
  define handler where "handler = (\<lambda>ex. seqp (whenp (\<not> eDatagram E) (setStateEx E StateClosed ex))
     (ret (None :: sockop option, no_work, 0 :: ice_int)))"
  define k where "k = (\<lambda>(early, w, n). withp (\<lambda>c.
                  ret (case early of Some op \<Rightarrow> op
                       | None \<Rightarrow> if cState c = StateHolding then OpNone else OpRead, w :: work, n :: ice_int)) :: (sockop \<times> work \<times> ice_int) cm)"
  let ?Q = "\<lambda>(early, w, n) c'. parsed E c0 ?c w n c'"
  have b: "wp body ?Q (\<lambda>e c'. c' = ?c \<and> \<not> fatal e) ?c"
    unfolding body_def wp_bindp
    by (rule wp_lift_benign) (auto intro: wp_mono [OF wp_parse_body [OF g1 g2 env]])
  have h: "wp (handler ex) ?Q R ?c" if "\<not> fatal ex" for ex
    unfolding handler_def wp_seqp
    using g1 good_awaits [OF g1 g2(2)] by (auto simp: wp_whenp wp_basic parsed_def same_out_def
        intro!: wp_close_good [OF g1 that] dest: closed_by_same_out [unfolded same_out_def] closed_by_awaits)
  have "wp (catchp body handler) ?Q R ?c"
    unfolding wp_catchp by (rule wp_mono [OF b]) (auto intro: h)
  then have "wp (bindp (catchp body handler) k) (\<lambda>(op, w, n) c'. parsed E c0 c w n c') R ?c"
    unfolding wp_bindp by (rule wp_mono) (auto simp: k_def wp_basic parsed_def same_out_def)
  with g(2-4) show ?thesis
    unfolding parseMessage_def body_def handler_def k_def Let_def wp_seqp wp_basic(6) wp_basic(5) wp_basic(4)
    by (simp only: if_True simp_thms)
qed

end
