(* ===== verification/ConnTurns.thy ===== *)
theory ConnTurns
  imports ConnIO
begin

section \<open>Connections: the turns of a pool thread\<close>

text \<open>
  The calls of the thread pool: \<open>message\<close> with its parts put together, \<open>dispatch\<close>, \<open>finished\<close>.  With them every call
  of a history keeps the invariant.
\<close>

subsection \<open>Input and output\<close>

lemma good_write_pos:
  assumes "good E c0 c" "p \<le> length (bBytes (cWriteBuf c))"
  shows "good E c0 (c\<lparr>cWriteBuf := cWriteBuf c\<lparr>bPos := Some p\<rparr>\<rparr>)"
proof (rule good_step [OF assms(1)])
  have "inv_queue (c\<lparr>cWriteBuf := cWriteBuf c\<lparr>bPos := Some p\<rparr>\<rparr>)"
    using good_inv_groups(3) [OF assms(1)] assms(2) by (simp add: inv_queue_def valid_pos_def head_ok_def)
  then show "conn_inv (c\<lparr>cWriteBuf := cWriteBuf c\<lparr>bPos := Some p\<rparr>\<rparr>)"
    using conn_inv_bufs [OF good_inv [OF assms(1)], of "cReadBuf c"] good_inv_groups(5) [OF assms(1)]
    by (simp add: inv_read_def)
qed (simp add: advanced_def linked_defs)

lemma good_wire [simp]: "good E c0 (c\<lparr>cAnswers := as, cWire := w\<rparr>) = good E c0 (c\<lparr>cAnswers := as\<rparr>)"
  using good_frame(1) [where E = E and ?c0.0 = c0 and c = "c\<lparr>cAnswers := as\<rparr>" and w = w] by simp

definition io_write :: "sockop \<Rightarrow> sockop cm" where
  "io_write operation =
     (if opWrite operation
      then withp (\<lambda>c. bindp (tx_write (cWriteBuf c)) (\<lambda>(op, b). seqp (modify (\<lambda>c. c\<lparr>cWriteBuf := b\<rparr>)) (ret op)))
      else ret OpNone)"

lemma wp_io_write:
  assumes g: "good E c0 c"
    and Q: "\<And>op c'. \<lbrakk>good E c0 c'; cState c' = cState c; \<not> opRead op; opWrite operation \<and> \<not> opWrite op \<longrightarrow> at_end (cWriteBuf c')\<rbrakk>
      \<Longrightarrow> Q op c'"
    and R: "\<And>e c'. \<lbrakk>good E c0 c'; \<not> fatal e\<rbrakk> \<Longrightarrow> R e c'"
  shows "wp (io_write operation) Q R c"
proof (cases "opWrite operation")
  case False
  with Q [OF g] show ?thesis by (simp add: io_write_def wp_basic)
next
  case True
  have "wp (tx_write (cWriteBuf c)) (\<lambda>(op, b). wp (seqp (modify (\<lambda>c. c\<lparr>cWriteBuf := b\<rparr>)) (ret op)) Q R) R c"
  proof (rule wp_tx_write)
    show "valid_pos (cWriteBuf c)" "inv_errors c" using good_inv_groups [OF g] by (simp_all add: inv_queue_def)
  next
    fix op :: sockop and p as
    let ?b = "cWriteBuf c\<lparr>bPos := Some p\<rparr>"
    let ?c = "c\<lparr>cAnswers := as, cWire := cWire c @ take (p - buf_pos (cWriteBuf c)) (drop (buf_pos (cWriteBuf c)) (bBytes (cWriteBuf c)))\<rparr>"
    assume p: "p \<le> length (bBytes (cWriteBuf c))" "op = (if p < length (bBytes (cWriteBuf c)) then OpWrite else OpNone)"
      and as: "set as \<subseteq> set (cAnswers c)"
    have "good E c0 ?c" using good_answers_subset [OF g as] by simp
    then have "good E c0 (?c\<lparr>cWriteBuf := ?b\<rparr>)" using good_write_pos [of E c0 ?c p] p(1) by simp
    then have "Q op (?c\<lparr>cWriteBuf := ?b\<rparr>)" by (rule Q) (use p in \<open>auto simp: at_end_def\<close>)
    then show "(case (op, ?b) of (op, b) \<Rightarrow> wp (seqp (modify (\<lambda>c. c\<lparr>cWriteBuf := b\<rparr>)) (ret op)) Q R) ?c"
      by (simp add: wp_seqp wp_basic)
  next
    fix e as assume "\<not> fatal e" "set as \<subseteq> set (cAnswers c)"
    then show "R e (c\<lparr>cAnswers := as\<rparr>)" using good_answers_subset [OF g] by (intro R)
  qed
  with True show ?thesis by (simp add: io_write_def wp_basic wp_bindp split_def)
qed

lemma wp_message_io:
  assumes g: "good E c0 c" and op: "operation \<noteq> OpNone"
    and Q: "\<And>ready new c'. \<lbrakk>good E c0 c'; cState c' = cState c; opRead ready \<longrightarrow> at_end (cReadBuf c');
        opWrite ready \<longrightarrow> at_end (cWriteBuf c')\<rbrakk> \<Longrightarrow> Q (ready, new) c'"
    and R: "\<And>e c'. \<lbrakk>good E c0 c'; \<not> fatal e\<rbrakk> \<Longrightarrow> R e c'"
  shows "wp (message_io E operation) Q R c"
proof -
  define k where "k w = (\<lambda>r. case r of
             None \<Rightarrow> throw MemoryError
           | Some readOp \<Rightarrow>
               (let newOp = op_or readOp w; readyOp = op_minus operation newOp in
                seqp (assertp (\<lambda>_. readyOp \<noteq> OpNone \<or> newOp \<noteq> OpNone)) (ret (readyOp, newOp) :: (sockop \<times> sockop) cm)))" for w
  have ready: "wp (k w (Some r)) Q R c'"
    if "good E c0 c'" "cState c' = cState c" "\<not> opWrite r" "\<not> opRead w" "opRead operation \<and> \<not> opRead r \<longrightarrow> at_end (cReadBuf c')"
      "opWrite operation \<and> \<not> opWrite w \<longrightarrow> at_end (cWriteBuf c')" for w r c'
  proof -
    have "op_minus operation (op_or r w) \<noteq> OpNone \<or> op_or r w \<noteq> OpNone" using op by (auto simp: op_none_iff)
    with that show ?thesis by (simp add: k_def Let_def wp_seqp wp_basic Q)
  qed
  have "wp (io_write operation) (\<lambda>w. wp (bindp (if opRead operation then read_loop E 2 else ret (Some OpNone)) (k w)) Q R) R
     (c\<lparr>cReadTimeout := a, cWriteTimeout := b\<rparr>)" for a b
  proof (rule wp_io_write)
    fix w :: sockop and c1 assume c1: "good E c0 c1" "cState c1 = cState (c\<lparr>cReadTimeout := a, cWriteTimeout := b\<rparr>)"
      "\<not> opRead w" "opWrite operation \<and> \<not> opWrite w \<longrightarrow> at_end (cWriteBuf c1)"
    show "wp (bindp (if opRead operation then read_loop E 2 else ret (Some OpNone)) (k w)) Q R c1"
    proof (cases "opRead operation")
      case True
      have "wp (read_loop E 2) (\<lambda>r. wp (k w r) Q R) R c1"
        by (rule wp_read_loop [OF c1(1)]) (use c1 R in \<open>auto simp: same_send_def intro!: ready\<close>)
      with True show ?thesis by (simp add: wp_bindp)
    next
      case False
      with c1 show ?thesis by (simp add: wp_bindp wp_basic ready)
    qed
  qed (use g R in simp_all)
  then show ?thesis
    unfolding message_io_def io_write_def [symmetric] k_def [symmetric] unscheduleTimeout_def
    by (simp add: wp_seqp wp_basic wp_bindp)
qed

subsection \<open>Work\<close>

lemma pending_work: "pending (c\<lparr>cDispatchCount := d, cWork := cWork c @ [w]\<rparr>) = pending c + work_weight w"
  by (simp add: pending_def)

lemma good_work:
  assumes g: "good E c0 c" "StateNotValidated < cState c" and w: "wInvokeNum w \<noteq> 0 \<longrightarrow> cState c < StateClosing \<or> StateClosed \<le> cState c"
  shows "good E c0 (c\<lparr>cDispatchCount := cDispatchCount c + word_of_nat (work_weight w), cWork := cWork c @ [w]\<rparr>)" (is "good E c0 ?c")
proof (rule good_step [OF g(1)])
  have i: "inv_dispatch c" "inv_state c" using good_inv_groups [OF g(1)] by simp_all
  have "no_invocations ?c" if "cShutdownInitiated c" "cState c < StateClosed"
  proof -
    have "wInvokeNum w = 0" using w that i(2) by (auto simp: inv_state_def state_order)
    with i(1) that show ?thesis by (auto simp: inv_dispatch_def no_invocations_def)
  qed
  then have "inv_dispatch ?c"
    using i(1) g(2) by (simp add: inv_dispatch_def pending_work state_order)
  then show "conn_inv ?c"
    using good_inv_groups [OF g(1)] by (simp add: conn_inv_def inv_state_def inv_errors_def inv_queue_def inv_requests_def inv_read_def)
qed (simp add: advanced_def linked_defs)

subsection \<open>Writing the queue\<close>

text \<open>
  Between two messages of \<open>send_loop\<close> the first message of the queue is not started yet although the connection is
  open; only closing the connection is good then.
\<close>

definition stalled :: "conn_env \<Rightarrow> conn \<Rightarrow> conn \<Rightarrow> bool" where
  "stalled E c0 c \<longleftrightarrow> inv_state c \<and> inv_errors c \<and> inv_requests c \<and> inv_read c \<and> inv_dispatch c
     \<and> queue_ok (cSendStreams c) \<and> valid_pos (cWriteBuf c)
     \<and> (cSendStreams c \<noteq> [] \<longrightarrow> head_ok (cWriteBuf c) (hd (cSendStreams c))
         \<and> cState c \<notin> {StateNotInitialized, StateNotValidated, StateClosingPending, StateFinished})
     \<and> linked E c \<and> advanced E c0 c"

lemma good_stalled: "good E c0 c \<Longrightarrow> stalled E c0 c"
  by (auto simp: stalled_def good_def conn_inv_def inv_queue_def)

lemma stalled_good:
  assumes "stalled E c0 c" "cSendStreams c \<noteq> [] \<and> cState c < StateClosed \<longrightarrow> bBytes (cWriteBuf c) \<noteq> []"
    "cSendStreams c = [] \<longrightarrow> bBytes (cWriteBuf c) = []"
  shows "good E c0 c"
  using assms by (simp add: stalled_def good_def conn_inv_def inv_queue_def)

lemma wp_close_stalled:
  assumes s: "stalled E c0 c" "cState c < StateClosed" and ex: "\<not> fatal ex" and Q: "\<And>c'. good E c0 c' \<Longrightarrow> StateClosed \<le> cState c' \<Longrightarrow> Q () c'"
  shows "wp (setStateEx E StateClosed ex) Q R c"
proof (rule wp_setStateEx_Closed)
  show "inv_state c" using s(1) by (simp add: stalled_def)
  fix c' assume c': "closed_by ex c c'"
  then have same: "cState c' = StateClosed" "same_data c c'" "cException c' = Some (case cException c of Some e \<Rightarrow> e | None \<Rightarrow> ex)"
    "cPoolFinished c'" using s(2) by (auto simp: closed_by_def)
  have "inv_state c'" "inv_errors c'"
    using s(1) same ex by (cases "cException c"; simp add: stalled_def inv_state_def inv_errors_def same_data_def state_order)+
  moreover have "inv_queue c'" "inv_requests c'"
    using s same by (simp_all add: stalled_def inv_queue_def inv_requests_def same_data_def state_order)
  moreover have "inv_read c'" "inv_dispatch c'"
    using s same by (simp_all add: stalled_def inv_read_def inv_dispatch_def same_data_def pending_def no_invocations_def state_order)
  ultimately have "conn_inv c'" by (simp add: conn_inv_def)
  moreover have "advanced E c c'" by (rule moved_advanced [OF closed_by_moved [OF c']])
  then have "advanced E c0 c'" "linked E c'" using s(1) advanced_trans [of E c0 c c'] by (auto simp: stalled_def advanced_def)
  ultimately show "Q () c'" using same(1) by (intro Q) (simp_all add: good_def)
qed

text \<open>The first message has been written and leaves the queue.\<close>

definition popped :: "out_msg \<Rightarrow> out_msg list \<Rightarrow> conn \<Rightarrow> conn" where
  "popped m ms c = c\<lparr>cWriteBuf := empty_buf, cLog := cLog c @ sent_event m, cSendStreams := ms\<rparr>"

lemma popped_awaits:
  assumes "awaits E c" "cSendStreams c = m # ms"
  shows "awaits E (popped m ms c)"
  using assms by (auto simp: awaits_def popped_def completed_def)

lemma popped_settled:
  assumes aw: "awaits E c" and q: "cSendStreams c = m # ms" and s: "settled E out c"
  shows "settled E out (popped m ms c)"
proof (cases "omAsync m = Some out")
  case True
  show ?thesis
  proof (cases "eTwoway E out")
    case True
    with aw q \<open>omAsync m = Some out\<close> have "out \<in> snd ` set (cAsyncRequests c) \<or> completed E out c"
      by (auto simp: awaits_def)
    then show ?thesis by (auto simp: settled_def in_progress_def completed_def popped_def)
  next
    case False
    with True show ?thesis by (simp add: settled_def completed_def popped_def sent_event_def completes_def)
  qed
next
  case False
  with q s show ?thesis by (auto simp: settled_def in_progress_def completed_def popped_def)
qed

lemma popped_stalled:
  assumes g: "good E c0 c" and aw: "awaits E c" and q: "cSendStreams c = m # ms"
  shows "stalled E c0 (popped m ms c)"
proof -
  have i: "inv_queue c" using good_inv_groups [OF g] by simp
  have h: "head_ok empty_buf (hd ms)" if "ms \<noteq> []"
    using i q that by (cases ms) (auto simp: inv_queue_def queue_ok_def head_ok_def)
  have qo: "queue_ok ms" using i q by (cases ms) (auto simp: inv_queue_def queue_ok_def)
  have st: "cState c \<notin> {StateNotInitialized, StateNotValidated, StateClosingPending, StateFinished}"
    using i q by (simp add: inv_queue_def)
  have "link_ok (m # ms) (cAsyncRequests c)" using g q by (simp add: good_def linked_def paired_def)
  then have "link_ok ms (cAsyncRequests c)"
    by (cases "omAsync m") (auto simp: link_ok_def queued_outs_def List.map_filter_def)
  then have p: "paired E (popped m ms c)" using g by (simp add: good_def linked_def paired_def popped_def)
  then have l: "linked E (popped m ms c)" using popped_awaits [OF aw q] by (simp add: linked_def)
  then have "advanced E c (popped m ms c)"
    using popped_settled [OF aw q] by (simp add: advanced_def) (simp add: popped_def)
  then have "advanced E c0 (popped m ms c)" using g advanced_trans by (auto simp: good_def)
  with l h qo st show ?thesis
    using good_inv_groups [OF g] unfolding stalled_def
    by (simp add: popped_def inv_state_def inv_errors_def inv_requests_def inv_read_def inv_dispatch_def pending_def no_invocations_def)
qed

text \<open>The next message is prepared; its stream and the connection's change places.\<close>

lemma prepare_next_ok:
  assumes "waiting_msg n"
  shows "prepare_next E n = Inl e \<Longrightarrow> \<not> fatal e"
    "prepare_next E n = Inr (b, n') \<Longrightarrow> same_id n n' \<and> bPos b = Some 0 \<and> bBytes b \<noteq> []"
proof -
  obtain bs where bs: "omStream n = Some \<lparr>bBytes = bs, bPos = None\<rparr>" "length bs \<ge> headerSize"
    using assms by (auto simp: waiting_msg_def)
  then have mb: "msg_bytes n = bs" by (simp add: msg_bytes_def)
  show "prepare_next E n = Inl e \<Longrightarrow> \<not> fatal e"
    by (auto simp: prepare_next_def Let_def and_then_def dest: doCompress_error split: if_splits sum.splits)
  have ne: "length xs \<ge> headerSize \<Longrightarrow> xs \<noteq> []" for xs :: "byte list" by (auto simp: headerSize_def)
  have c: "bs' \<noteq> []" if "doCompress E (mark_compress 2 True bs) = Inr bs'" for bs'
    using doCompress_length [OF that] bs(2) by (intro ne) simp
  have f: "fill_size (mark_compress 1 (omCompress n) bs) \<noteq> []"
    using bs(2) by (intro ne) simp
  show "prepare_next E n = Inr (b, n') \<Longrightarrow> same_id n n' \<and> bPos b = Some 0 \<and> bBytes b \<noteq> []"
    using c f by (auto simp: prepare_next_def Let_def and_then_def mb same_id_def adopt_def split: if_splits sum.splits)
qed

lemma link_ok_same_head: "same_id n n' \<Longrightarrow> link_ok (n' # ns) m = link_ok (n # ns) m"
  by (auto simp: link_ok_def same_id_def queued_outs_def List.map_filter_def)

lemma good_started:
  assumes s: "stalled E c0 c" "cSendStreams c = n # ns" and n: "same_id n n'" and b: "bPos b = Some 0" "bBytes b \<noteq> []"
  shows "good E c0 (c\<lparr>cSendStreams := n'\<lparr>omStream := Some empty_buf\<rparr> # ns, cWriteBuf := b\<rparr>)" (is "good E c0 ?c")
proof -
  let ?n = "n'\<lparr>omStream := Some empty_buf\<rparr>"
  have id: "same_id n ?n" using n by (simp add: same_id_def)
  then have im: "omAsync ` set (cSendStreams ?c) = omAsync ` set (cSendStreams c)"
    using s(2) by (simp add: same_id_def)
  have "queue_ok (?n # ns)" using s by (simp add: stalled_def queue_ok_def)
  then have "inv_queue ?c" using s b by (simp add: stalled_def inv_queue_def valid_pos_def head_ok_def)
  then have i: "conn_inv ?c"
    using s(1) by (simp add: stalled_def conn_inv_def inv_state_def inv_errors_def inv_requests_def inv_read_def
        inv_dispatch_def pending_def no_invocations_def)
  have l: "linked E ?c"
    using s im link_ok_same_head [OF id] unfolding stalled_def linked_defs by simp
  have "settled E r c \<Longrightarrow> settled E r ?c" for r
    using im by (simp add: settled_def in_progress_def completed_def)
  then have "advanced E c ?c" using l by (simp add: advanced_def)
  with s(1) i l show ?thesis using advanced_trans [of E c0 c ?c] by (simp add: good_def stalled_def)
qed

lemma wp_start_next:
  assumes s: "stalled E c0 c" "cSendStreams c = n # ns" "cWriteBuf c = empty_buf"
    and Q: "\<And>op c'. \<lbrakk>good E c0 c'; cState c' = cState c; length (cSendStreams c') = Suc (length ns)\<rbrakk> \<Longrightarrow> Q op c'"
    and R: "\<And>e c'. \<lbrakk>stalled E c0 c'; cState c' = cState c; \<not> fatal e\<rbrakk> \<Longrightarrow> R e c'"
  shows "wp (start_next E n ns) Q R c"
proof -
  have w: "waiting_msg n" using s by (simp add: stalled_def head_ok_def)
  then have p0: "case omStream n of Some b \<Rightarrow> bPos b = None | None \<Rightarrow> True" by (auto simp: waiting_msg_def)
  have main: "wp (bindp (tx_write b) (\<lambda>(op, b). seqp (modify (\<lambda>c. c\<lparr>cWriteBuf := b\<rparr>)) (ret op))) Q R
      (c\<lparr>cSendStreams := n'\<lparr>omStream := Some empty_buf\<rparr> # ns, cWriteBuf := b\<rparr>)"
    if b: "same_id n n'" "bPos b = Some 0" "bBytes b \<noteq> []" for n' b
  proof -
    let ?c = "c\<lparr>cSendStreams := n'\<lparr>omStream := Some empty_buf\<rparr> # ns, cWriteBuf := b\<rparr>"
    have g: "good E c0 ?c" by (rule good_started [OF s(1,2) b])
    show ?thesis
      unfolding wp_bindp
    proof (rule wp_tx_write)
      show "valid_pos b" using b(2) by (simp add: valid_pos_def)
      show "inv_errors ?c" using good_inv_groups(2) [OF g] .
    next
      fix op :: sockop and p as
      assume p: "p \<le> length (bBytes b)" and as: "set as \<subseteq> set (cAnswers ?c)"
      let ?d = "?c\<lparr>cAnswers := as, cWire := cWire ?c @ take (p - buf_pos b) (drop (buf_pos b) (bBytes b))\<rparr>"
      have "good E c0 ?d" using good_answers_subset [OF g as] by simp
      then have "good E c0 (?d\<lparr>cWriteBuf := b\<lparr>bPos := Some p\<rparr>\<rparr>)" using good_write_pos [of E c0 ?d p] p by simp
      then have "Q op (?d\<lparr>cWriteBuf := b\<lparr>bPos := Some p\<rparr>\<rparr>)" by (rule Q) simp_all
      then show "wp (case (op, b\<lparr>bPos := Some p\<rparr>) of (op, b) \<Rightarrow> seqp (modify (\<lambda>c. c\<lparr>cWriteBuf := b\<rparr>)) (ret op)) Q R ?d"
        by (simp add: wp_seqp wp_basic)
    next
      fix e as assume "\<not> fatal e" "set as \<subseteq> set (cAnswers ?c)"
      then show "R e (?c\<lparr>cAnswers := as\<rparr>)"
        using good_stalled [OF good_answers_subset [OF g]] by (intro R) simp_all
    qed
  qed
  show ?thesis
  proof (cases "prepare_next E n")
    case (Inl e)
    with p0 s R prepare_next_ok(1) [OF w Inl] show ?thesis
      by (simp add: start_next_def wp_seqp wp_bindp wp_basic wp_lift)
  next
    case (Inr x)
    obtain b n' where x: "x = (b, n')" by (cases x)
    note ok = prepare_next_ok(2) [OF w Inr [unfolded x]]
    have "wp (bindp (tx_write b) (\<lambda>(op, b). seqp (modify (\<lambda>c. c\<lparr>cWriteBuf := b\<rparr>)) (ret op))) Q R
      (c\<lparr>cSendStreams := n'\<lparr>omStream := Some (cWriteBuf c)\<rparr> # ns, cWriteBuf := b\<rparr>)"
      unfolding s(3) by (rule main) (use ok in simp_all)
    with p0 Inr x show ?thesis
      unfolding start_next_def wp_seqp wp_bindp [where m = "lift _"] wp_lift
      by (simp add: wp_basic wp_seqp [where m = "modify _"])
  qed
qed

text \<open>How the loop ends.\<close>

fun loop_ends :: "conn_env \<Rightarrow> conn \<Rightarrow> loop_end \<Rightarrow> conn \<Rightarrow> bool" where
  "loop_ends E c0 AllSent c = (good E c0 c \<and> cSendStreams c = [])"
| "loop_ends E c0 (LoopStops op) c = good E c0 c"
| "loop_ends E c0 (LoopFails e) c = (stalled E c0 c \<and> \<not> fatal e \<and> cState c < StateClosed)"

lemma wp_notify_sent:
  assumes "omStream m = Some empty_buf"
    "\<And>cbs. Q cbs (c\<lparr>cWriteBuf := empty_buf, cLog := cLog c @ sent_event m\<rparr>)"
  shows "wp (notify_sent E m cbs) Q R c"
  using assms by (cases "omAsync m") (auto simp: notify_sent_def msg_sent_def wp_simps emit_def sent_event_def)

lemma wp_send_loop:
  assumes "good E c0 c" "awaits E c" "cSendStreams c \<noteq> [] \<longrightarrow> bBytes (cWriteBuf c) \<noteq> []" "length (cSendStreams c) \<le> k"
    and Q: "\<And>r cbs c'. loop_ends E c0 r c' \<Longrightarrow> cState c' = cState c \<Longrightarrow> Q (r, cbs) c'"
  shows "wp (send_loop E cbs k) Q R c"
  using assms
proof (induction k arbitrary: c cbs)
  case 0
  then show ?case by (simp add: wp_basic)
next
  case (Suc k)
  show ?case
  proof (cases "cSendStreams c")
    case Nil
    with Suc.prems show ?thesis by (simp add: wp_basic)
  next
    case (Cons m ms)
    define rest where "rest = (\<lambda>cbs. case ms of
                [] \<Rightarrow> ret (AllSent, cbs)
              | n # ns \<Rightarrow> withp (\<lambda>c.
                  if StateClosingPending \<le> cState c then ret (LoopStops OpNone, cbs)
                  else bindp (catchp (bindp (start_next E n ns) (\<lambda>op. ret (Inr op))) (\<lambda>e. ret (Inl e)))
                    (\<lambda>r. case r of
                       Inl e \<Rightarrow> ret (LoopFails e, cbs)
                     | Inr op \<Rightarrow> if op \<noteq> OpNone then ret (LoopStops op, cbs) else send_loop E cbs k)))"
    let ?c = "popped m ms c"
    have h: "omStream m = Some empty_buf"
      using good_inv_groups(3) [OF Suc.prems(1)] Cons Suc.prems(3) by (simp add: inv_queue_def head_ok_def)
    have s: "stalled E c0 ?c" by (rule popped_stalled [OF Suc.prems(1,2) Cons])
    have f: "cState ?c = cState c" "cSendStreams ?c = ms" "cWriteBuf ?c = empty_buf" by (simp_all add: popped_def)
    have st: "cState c \<noteq> StateClosingPending" using good_inv_groups(3) [OF Suc.prems(1)] Cons by (simp add: inv_queue_def)
    have rest: "wp (rest cbs) Q R ?c" for cbs
    proof (cases ms)
      case Nil
      then have "good E c0 ?c" using stalled_good [OF s] f by simp
      with Nil f Suc.prems(5) show ?thesis by (simp add: rest_def wp_basic)
    next
      case ms: (Cons n ns)
      show ?thesis
      proof (cases "StateClosingPending \<le> cState c")
        case True
        then have "\<not> cState ?c < StateClosed" using st f by (auto simp: st_arith)
        then have "good E c0 ?c" using stalled_good [OF s] f ms by simp
        with True ms f Suc.prems(5) show ?thesis by (simp add: rest_def wp_basic)
      next
        case False
        then have opn: "cState c < StateClosed" by (auto simp: st_arith)
        have "wp (start_next E n ns) (\<lambda>op. wp (if op \<noteq> OpNone then ret (LoopStops op, cbs) else send_loop E cbs k) Q R)
           (\<lambda>e c'. \<not> fatal e \<and> Q (LoopFails e, cbs) c') ?c"
        proof (rule wp_start_next [OF s _ f(3)])
          fix op c1 assume c1: "good E c0 c1" "cState c1 = cState ?c" "length (cSendStreams c1) = Suc (length ns)"
          have "wp (send_loop E cbs k) Q R c1"
          proof (rule Suc.IH [OF c1(1)])
            show "awaits E c1" using c1 opn f by (intro good_awaits) simp_all
            show "cSendStreams c1 \<noteq> [] \<longrightarrow> bBytes (cWriteBuf c1) \<noteq> []"
              using good_inv_groups(3) [OF c1(1)] c1(2) opn f by (simp add: inv_queue_def)
            show "length (cSendStreams c1) \<le> k" using c1(3) Cons ms Suc.prems(4) by simp
          qed (use Suc.prems(5) c1(2) f in simp)
          with c1 f Suc.prems(5) show "wp (if op \<noteq> OpNone then ret (LoopStops op, cbs) else send_loop E cbs k) Q R c1"
            by (simp add: wp_basic)
        qed (use ms f opn Suc.prems(5) in simp_all)
        then have "wp (bindp (catchp (bindp (start_next E n ns) (\<lambda>op. ret (Inr op))) (\<lambda>e. ret (Inl e)))
                    (\<lambda>r. case r of
                       Inl e \<Rightarrow> ret (LoopFails e, cbs)
                     | Inr op \<Rightarrow> if op \<noteq> OpNone then ret (LoopStops op, cbs) else send_loop E cbs k)) Q R ?c"
          unfolding wp_bindp wp_catchp by (rule wp_mono) (simp_all add: wp_basic)
        with False ms f show ?thesis by (simp add: rest_def wp_basic(5))
      qed
    qed
    have "wp (notify_sent E m cbs) (\<lambda>cbs. wp (seqp (modify (\<lambda>c. c\<lparr>cSendStreams := ms\<rparr>)) (rest cbs)) Q R) R c"
      by (rule wp_notify_sent [OF h]) (use rest in \<open>simp add: wp_seqp wp_basic(4) popped_def\<close>)
    then show ?thesis
      unfolding send_loop.simps wp_basic(5) Cons list.case wp_bindp rest_def .
  qed
qed

text \<open>All messages are sent, the close message the last of them.\<close>

lemma wp_setState_ClosingPending:
  assumes g: "good E c0 c" "cState c = StateClosing" "cShutdownInitiated c" "cSendStreams c = []"
    and Q: "good E c0 (c\<lparr>cState := StateClosingPending\<rparr>) \<Longrightarrow> Q () (c\<lparr>cState := StateClosingPending\<rparr>)"
  shows "wp (setState E StateClosingPending) Q R c"
proof -
  have "good E c0 (c\<lparr>cState := StateClosingPending\<rparr>)"
    by (rule good_step [OF g(1)])
      (use good_inv_groups [OF g(1)] g(2-4) in \<open>auto simp: advanced_def linked_defs conn_inv_def inv_state_def
        inv_errors_def inv_queue_def inv_requests_def inv_read_def inv_dispatch_def pending_def no_invocations_def state_order\<close>)
  with g(2) Q show ?thesis by (simp add: state_defs wp_simps state_order split: if_splits)
qed

definition still_open :: "conn \<Rightarrow> conn \<Rightarrow> bool" where
  "still_open c c' \<longleftrightarrow> (cState c < StateClosing \<longrightarrow> cState c' < StateClosing \<or> StateClosed \<le> cState c')"

lemma wp_sendNextMessage:
  assumes g: "good E c0 c" "awaits E c"
    and w: "cSendStreams c \<noteq> [] \<longrightarrow> bBytes (cWriteBuf c) \<noteq> [] \<and> at_end (cWriteBuf c)"
    and Q: "\<And>op cbs c'. good E c0 c' \<Longrightarrow> still_open c c' \<Longrightarrow> Q (op, cbs) c'"
  shows "wp (sendNextMessage E) Q R c"
proof (cases "cSendStreams c")
  case Nil
  with g Q show ?thesis by (simp add: sendNextMessage_def wp_basic still_open_def)
next
  case (Cons m ms)
  have st: "cState c \<noteq> StateClosingPending" using good_inv_groups(3) [OF g(1)] Cons by (simp add: inv_queue_def)
  have "wp (send_loop E [] (length (cSendStreams c))) (\<lambda>(r, cbs) c'. wp (case r of
                  LoopFails e \<Rightarrow> seqp (setStateEx E StateClosed e) (ret (OpNone, cbs))
                | LoopStops op \<Rightarrow> ret (op, cbs)
                | AllSent \<Rightarrow>
                    if cState c' = StateClosing \<and> cShutdownInitiated c' then
                      seqp (setState E StateClosingPending) (ret (eClosing E True, cbs))
                    else ret (OpNone, cbs)) Q R c') R c"
  proof (rule wp_send_loop [OF g])
    fix r :: loop_end and cbs c' assume c': "loop_ends E c0 r c'" "cState c' = cState c"
    show "(\<lambda>(r, cbs) c'. wp (case r of
                  LoopFails e \<Rightarrow> seqp (setStateEx E StateClosed e) (ret (OpNone, cbs))
                | LoopStops op \<Rightarrow> ret (op, cbs)
                | AllSent \<Rightarrow>
                    if cState c' = StateClosing \<and> cShutdownInitiated c' then
                      seqp (setState E StateClosingPending) (ret (eClosing E True, cbs))
                    else ret (OpNone, cbs)) Q R c') (r, cbs) c'"
    proof (cases r)
      case AllSent
      have "wp (setState E StateClosingPending) (\<lambda>_. wp (ret (eClosing E True, cbs)) Q R) R c'"
        if "cState c' = StateClosing" "cShutdownInitiated c'"
        by (rule wp_setState_ClosingPending [OF _ that])
          (use c' AllSent that Q in \<open>auto simp: wp_basic still_open_def\<close>)
      with AllSent c' Q show ?thesis by (simp add: wp_basic wp_seqp still_open_def)
    next
      case (LoopStops op)
      with c' Q show ?thesis by (simp add: wp_basic still_open_def)
    next
      case (LoopFails e)
      have "wp (setStateEx E StateClosed e) (\<lambda>_. wp (ret (OpNone, cbs)) Q R) R c'"
        by (rule wp_close_stalled [where ?c0.0 = c0])
          (use c' LoopFails Q in \<open>simp_all add: wp_basic still_open_def\<close>)
      with LoopFails show ?thesis by (simp add: wp_seqp)
    qed
  qed (use w in simp_all)
  then have "wp (bindp (send_loop E [] (length (cSendStreams c))) (\<lambda>(r, cbs). withp (\<lambda>c.
                case r of
                  LoopFails e \<Rightarrow> seqp (setStateEx E StateClosed e) (ret (OpNone, cbs))
                | LoopStops op \<Rightarrow> ret (op, cbs)
                | AllSent \<Rightarrow>
                    if cState c = StateClosing \<and> cShutdownInitiated c then
                      seqp (setState E StateClosingPending) (ret (eClosing E True, cbs))
                    else ret (OpNone, cbs)))) Q R c"
    unfolding wp_bindp by (rule wp_mono) (auto simp: wp_basic)
  with Cons w st show ?thesis
    by (simp add: sendNextMessage_def wp_basic(5) wp_seqp [where m = "assertp _"] wp_basic(6) del: send_loop.simps)
qed

subsection \<open>A turn of the pool: message\<close>

lemma wp_message_failed:
  assumes "good E c0 c" "\<not> fatal ex" "\<And>c'. good E c0 c' \<Longrightarrow> Q () c'"
  shows "wp (message_failed E ex) Q R c"
proof -
  have "wp reset_read Q R c"
    using assms(3) good_read_buf [OF assms(1), of "resize_buf headerSize (bBytes (cReadBuf c))"]
    by (simp add: reset_read_def wp_basic)
  moreover have "wp (setStateEx E StateClosed ex) Q R c" by (rule wp_close_good [OF assms(1,2)]) (rule assms(3))
  ultimately show ?thesis by (simp add: message_failed_def)
qed

text \<open>What both parts leave: no work, or work that may be added.\<close>

definition work_ready :: "conn_env \<Rightarrow> conn \<Rightarrow> (work \<times> ice_int) option \<Rightarrow> conn \<Rightarrow> bool" where
  "work_ready E c0 r c \<longleftrightarrow> good E c0 c \<and>
     (case r of None \<Rightarrow> True
      | Some (w, n) \<Rightarrow> StateNotValidated < cState c \<and> n = word_of_nat (work_weight w)
          \<and> (wInvokeNum w \<noteq> 0 \<longrightarrow> cState c < StateClosing \<or> StateClosed \<le> cState c))"

lemma wp_message_establish:
  assumes g: "good E c0 c" "cState c \<le> StateNotValidated"
  shows "wp (message_establish E operation newOp) (work_ready E c0) (failed E c0) c"
proof (cases "newOp = OpNone")
  case False
  have "wp (scheduleTimeout E newOp) (\<lambda>_. wp (seqp (pool_update operation newOp) (ret None)) (work_ready E c0) (failed E c0)) (failed E c0) c"
    by (rule wp_scheduleTimeout) (use g in \<open>simp add: pool_update_def wp_seqp wp_basic Let_def work_ready_def\<close>)
  with False show ?thesis by (simp add: message_establish_def wp_seqp [where m = "scheduleTimeout _ _"])
next
  case True
  define hold where "hold = seqp (pool_unregister operation)
            (seqp (setState E StateHolding)
              (withp (\<lambda>c.
                if cStartCallback c
                then seqp (modify (\<lambda>c. c\<lparr>cStartCallback := False\<rparr>)) (ret (Some (no_work\<lparr>wStart := True\<rparr>, 1 :: ice_int)))
                else ret (Some (no_work, 0)))))"
  define validate where "validate = bindp (withp (\<lambda>c. if cState c \<le> StateNotValidated then conn_validate E operation else ret True))
     (\<lambda>v. if \<not> v then ret None else hold)"
  define init where "init = withp (\<lambda>c. if cState c = StateNotInitialized then conn_initialize E operation else ret True)"
  have h: "wp hold (work_ready E c0) (failed E c0) c1" if "established E c0 c1" for c1
    unfolding hold_def wp_seqp pool_unregister_def pool_update_def Let_def wp_basic(4)
    by (rule wp_setState_established [where ?c0.0 = c0])
      (use that in \<open>auto simp: established_def wp_basic wp_seqp work_ready_def state_order\<close>)
  have val: "wp validate (work_ready E c0) (failed E c0) c1" if "good E c0 c1" "cState c1 = StateNotValidated" for c1
  proof -
    have "wp (conn_validate E operation) (\<lambda>v. wp (if \<not> v then ret None else hold) (work_ready E c0) (failed E c0)) (failed E c0) c1"
      by (rule wp_mono [OF wp_validate [OF that]]) (auto simp: h wp_basic work_ready_def)
    with that(2) show ?thesis unfolding validate_def wp_bindp wp_basic(5) by (simp add: state_order)
  qed
  have "wp init (\<lambda>i c'. good E c0 c' \<and> cState c' = (if i then StateNotValidated else StateNotInitialized)) (failed E c0) c"
    using wp_initialize [OF g(1)] g by (cases "cState c") (simp_all add: init_def wp_basic state_order)
  then have "wp (bindp init (\<lambda>i. if \<not> i then ret None else validate)) (work_ready E c0) (failed E c0) c"
    unfolding wp_bindp by (rule wp_mono) (auto simp: val wp_basic work_ready_def split: if_splits)
  with True show ?thesis unfolding message_establish_def init_def validate_def hold_def by simp
qed

lemma rank_open: "StateNotValidated < s \<Longrightarrow> state_rank s \<le> state_rank t \<Longrightarrow> StateNotValidated < t"
  by (cases s; cases t) (simp_all add: state_order)

lemma work_weight_sent: "wSent w = [] \<Longrightarrow> work_weight (w\<lparr>wSent := cbs\<rparr>) = work_weight w + of_bool (cbs \<noteq> [])"
  by (simp add: work_weight_def work_callbacks_def)

lemma wp_message_parse:
  assumes g: "good E c0 c" "StateNotValidated < cState c0" "StateNotValidated < cState c" "cState c < StateClosed"
    and op: "opRead ready \<longrightarrow> at_end (cReadBuf c)" "opWrite ready \<longrightarrow> at_end (cWriteBuf c)" and env: "plain_env E"
  shows "wp (message_parse E old operation ready new) (work_ready E c0) R c"
proof -
  define finish where "finish op w n = (\<lambda>(op2, cbs).
           let newOp = op_or new (op_or op op2) in
           seqp (withp (\<lambda>c. whenp (cState c < StateClosed)
                   (seqp (scheduleTimeout E newOp) (pool_update operation newOp))))
             (ret (Some (w\<lparr>wSent := cbs\<rparr>, if cbs \<noteq> [] then n + 1 else n)) :: (work \<times> ice_int) option cm))" for op w n
  have fin: "wp (finish op w n (op2, cbs)) (work_ready E c0) R c2"
    if "good E c0 c2" "n = word_of_nat (work_weight w)" "wSent w = []"
      "wInvokeNum w \<noteq> 0 \<longrightarrow> cState c2 < StateClosing \<or> StateClosed \<le> cState c2" for op w n op2 cbs c2
  proof -
    have "StateNotValidated < cState c2" using that(1) g(2) rank_open by (auto simp: good_def advanced_def)
    moreover have "(if cbs \<noteq> [] then n + 1 else n) = word_of_nat (work_weight (w\<lparr>wSent := cbs\<rparr>))"
      using that(2,3) by (simp add: work_weight_sent)
    ultimately have k: "work_ready E c0 (Some (w\<lparr>wSent := cbs\<rparr>, if cbs \<noteq> [] then n + 1 else n)) c3"
      if "good E c0 c3" "cState c3 = cState c2" for c3
      using that \<open>wInvokeNum w \<noteq> 0 \<longrightarrow> _\<close> by (simp add: work_ready_def)
    have "wp (scheduleTimeout E nw) (\<lambda>_. wp (seqp (pool_update operation nw)
       (ret (Some (w\<lparr>wSent := cbs\<rparr>, if cbs \<noteq> [] then n + 1 else n)))) (work_ready E c0) R) R c2" for nw
      by (rule wp_scheduleTimeout) (use that(1) k in \<open>simp add: wp_seqp wp_basic pool_update_def Let_def\<close>)
    with k that(1) show ?thesis
      by (simp add: finish_def Let_def wp_seqp wp_basic wp_whenp del: good_timeouts)
  qed
  have send: "wp (bindp (if opWrite ready then sendNextMessage E else ret (OpNone, [])) (finish op w n)) (work_ready E c0) R c1"
    if "parsed E c0 c w n c1" for op w n c1
  proof -
    have c1: "good E c0 c1" "same_out c c1" "wSent w = []" "n = word_of_nat (work_weight w)"
      "wInvokeNum w \<noteq> 0 \<longrightarrow> cState c1 < StateClosing" "awaits E c1" using that by (simp_all add: parsed_def)
    show ?thesis
    proof (cases "opWrite ready")
      case True
      have "wp (sendNextMessage E) (\<lambda>x. wp (finish op w n x) (work_ready E c0) R) R c1"
      proof (rule wp_sendNextMessage [OF c1(1,6)])
        show "cSendStreams c1 \<noteq> [] \<longrightarrow> bBytes (cWriteBuf c1) \<noteq> [] \<and> at_end (cWriteBuf c1)"
          using c1(2) good_inv_groups(3) [OF g(1)] g(4) op(2) True by (simp add: same_out_def inv_queue_def)
      qed (use c1 in \<open>auto intro!: fin simp: still_open_def\<close>)
      with True show ?thesis by (simp add: wp_bindp)
    next
      case False
      with c1 show ?thesis by (auto simp: wp_bindp wp_basic intro!: fin)
    qed
  qed
  have "wp (if opRead ready then parseMessage E old else ret (OpNone, no_work, 0))
     (\<lambda>(op, w, n) c'. parsed E c0 c w n c') (\<lambda>_ _. False) c"
    using wp_parseMessage [OF g(1,3,4) _ env] op(1) g(1) good_awaits [OF g(1,4)]
    by (simp add: wp_basic parsed_def same_out_def)
  then have "wp (if opRead ready then parseMessage E old else ret (OpNone, no_work, 0))
     (\<lambda>x. wp (case x of (op, w, n) \<Rightarrow> bindp (if opWrite ready then sendNextMessage E else ret (OpNone, [])) (finish op w n))
        (work_ready E c0) R) R c"
    by (rule wp_weaken) (auto intro: send split del: if_split)
  moreover have "cState c \<le> StateClosingPending" using g(4) by (simp add: state_order)
  ultimately show ?thesis
    unfolding message_parse_def wp_seqp wp_basic(6) wp_bindp [where m = "if opRead _ then _ else _"] finish_def by simp
qed

lemma wp_add_work:
  assumes "work_ready E c0 (Some (w, n)) c"
  shows "wp (seqp touch
     (whenp (n \<noteq> 0) (modify (\<lambda>c. c\<lparr>cDispatchCount := cDispatchCount c + n, cWork := cWork c @ [w]\<rparr>)))) (\<lambda>_. good E c0) R c"
proof -
  have a: "good E c0 (c1\<lparr>cDispatchCount := cDispatchCount c1 + n, cWork := cWork c1 @ [w]\<rparr>)" if "work_ready E c0 (Some (w, n)) c1" for c1
    using that good_work [of E c0 c1 w] by (simp add: work_ready_def)
  have t: "work_ready E c0 (Some (w, n)) (c\<lparr>cAcmLast := k\<rparr>)" for k using assms by (simp add: work_ready_def)
  have "good E c0 c" using assms by (simp add: work_ready_def)
  with a [OF assms] a [OF t] show ?thesis by (simp add: touch_def wp_seqp wp_whenp wp_basic)
qed

lemma message_safe:
  assumes inv: "conn_inv c" "linked E c" and op: "operation \<noteq> OpNone" and env: "plain_env E"
  shows "safe E (conn_message E old operation) c"
proof (rule safeI [OF inv])
  assume g: "good E c c"
  show "wp (conn_message E old operation) (\<lambda>_. good E c) (failed E c) c"
  proof (cases "StateClosed \<le> cState c")
    case True
    with g show ?thesis by (simp add: conn_message_def wp_basic)
  next
    case False
    define deliver where "deliver = (\<lambda>r :: (work \<times> ice_int) option. case r of
             None \<Rightarrow> ret ()
           | Some (w, n) \<Rightarrow>
               seqp touch
                 (whenp (n \<noteq> 0)
                   (modify (\<lambda>c. c\<lparr>cDispatchCount := cDispatchCount c + n, cWork := cWork c @ [w]\<rparr>))))"
    define turn where "turn = (\<lambda>(ready, new). withp (\<lambda>c. if cState c \<le> StateNotValidated then message_establish E operation new
                           else message_parse E old operation ready new))"
    have d: "wp (deliver r) (\<lambda>_. good E c) (failed E c) c1" if r: "work_ready E c r c1" for r c1
    proof (cases r)
      case None
      with r show ?thesis by (simp add: deliver_def wp_basic work_ready_def)
    next
      case (Some a)
      with r show ?thesis by (cases a) (simp add: deliver_def wp_add_work)
    qed
    have t: "wp (turn (ready, new)) (work_ready E c) (failed E c) c1"
      if c1: "good E c c1" "cState c1 = cState c" "opRead ready \<longrightarrow> at_end (cReadBuf c1)" "opWrite ready \<longrightarrow> at_end (cWriteBuf c1)"
      for ready new c1
      using wp_message_establish [OF c1(1)] wp_message_parse [OF c1(1) _ _ _ c1(3,4) env] c1(2) False
      by (simp add: turn_def wp_basic(5) not_le)
    have "wp (message_io E operation) (\<lambda>x. wp (bindp (turn x) deliver) (\<lambda>_. good E c) (failed E c)) (failed E c) c"
      by (rule wp_message_io [OF g op]) (auto simp: wp_bindp intro: wp_mono [OF t] d)
    then have "wp (bindp (message_io E operation) (\<lambda>x. bindp (turn x) deliver)) (\<lambda>_. good E c) (failed E c) c"
      by (simp add: wp_bindp)
    then have "wp (catchp (bindp (message_io E operation) (\<lambda>x. bindp (turn x) deliver)) (message_failed E))
       (\<lambda>_. good E c) (failed E c) c"
      unfolding wp_catchp by (rule wp_mono) (auto intro: wp_message_failed)
    moreover have "(\<lambda>(readyOp, newOp). bindp (withp (\<lambda>c. if cState c \<le> StateNotValidated then message_establish E operation newOp
                           else message_parse E old operation readyOp newOp)) deliver) = (\<lambda>x. bindp (turn x) deliver)"
      by (simp add: turn_def fun_eq_iff)
    ultimately show ?thesis using False
      unfolding conn_message_def deliver_def [symmetric] by (simp add: wp_basic(5))
  qed
qed

subsection \<open>A turn of the pool: dispatch and finished\<close>

text \<open>The work that a thread takes: its invocations become outstanding, its callbacks are counted until they return.\<close>

definition took_work :: "nat \<Rightarrow> conn \<Rightarrow> conn" where
  "took_work i c = c\<lparr>cWork := take i (cWork c) @ drop (Suc i) (cWork c),
     cOutstanding := cOutstanding c + unat (wInvokeNum (cWork c ! i)), cLog := cLog c @ work_events (cWork c ! i),
     cDispatchCount := cDispatchCount c - word_of_nat (work_callbacks (cWork c ! i))\<rparr>"

lemma sum_list_without:
  fixes f :: "'a \<Rightarrow> nat"
  assumes "i < length xs"
  shows "sum_list (map f xs) = sum_list (map f (take i xs @ drop (Suc i) xs)) + f (xs ! i)"
proof -
  have "map f xs = map f (take i xs) @ f (xs ! i) # map f (drop (Suc i) xs)"
    by (metis id_take_nth_drop [OF assms] list.simps(9) map_append)
  then show ?thesis by simp
qed

lemma pending_took:
  "i < length (cWork c) \<Longrightarrow> pending c = pending (took_work i c) + work_callbacks (cWork c ! i)"
  using sum_list_without [of i "cWork c" work_weight] by (simp add: pending_def took_work_def work_weight_def)

lemma good_took:
  assumes g: "good E c0 c" and i: "i < length (cWork c)"
  shows "good E c0 (took_work i c)" (is "good E c0 ?d")
proof (rule good_step [OF g])
  have sub: "set (cWork ?d) \<subseteq> set (cWork c)" by (auto simp: took_work_def dest: in_set_takeD in_set_dropD)
  have w: "cWork c ! i \<in> set (cWork c)" using i by simp
  have d: "inv_dispatch c" using good_inv_groups(6) [OF g] .
  have "cDispatchCount c = word_of_nat (pending ?d + work_callbacks (cWork c ! i))"
    using d pending_took [OF i] by (simp only: inv_dispatch_def)
  moreover have "cDispatchCount ?d = cDispatchCount c - word_of_nat (work_callbacks (cWork c ! i))"
    by (simp add: took_work_def)
  ultimately have "cDispatchCount ?d = word_of_nat (pending ?d)" by (simp only: of_nat_add add_diff_cancel_right')
  moreover have "no_invocations c \<Longrightarrow> no_invocations ?d"
    using sub w by (auto simp: no_invocations_def) (simp_all add: took_work_def)
  moreover have "cState ?d = cState c" "cShutdownInitiated ?d = cShutdownInitiated c" by (simp_all add: took_work_def)
  moreover have "cState c > StateNotValidated" using d i by (auto simp: inv_dispatch_def not_le [symmetric])
  ultimately have "inv_dispatch ?d" using d by (simp add: inv_dispatch_def not_le [symmetric])
  then show "conn_inv ?d"
    using good_inv_groups [OF g]
    by (simp add: conn_inv_def) (simp add: took_work_def inv_state_def inv_errors_def inv_queue_def inv_requests_def inv_read_def)
  have "settled E r c \<Longrightarrow> settled E r ?d" for r
    using settled_log [of E r c "work_events (cWork c ! i)"] by (simp add: settled_def in_progress_def completed_def took_work_def)
  moreover have "linked E c \<Longrightarrow> linked E ?d"
    unfolding linked_def paired_def awaits_def completed_def took_work_def by (simp add: bex_Un) blast
  ultimately show "advanced E c ?d" by (simp add: advanced_def) (simp add: took_work_def)
qed

lemma dispatch_safe:
  assumes inv: "conn_inv c" "linked E c" and p: "pending c < 2 ^ 31" and i: "i < length (cWork c)"
  shows "safe E (conn_dispatch E i) c"
proof (rule safeI [OF inv])
  assume g: "good E c c"
  let ?k = "work_callbacks (cWork c ! i)"
  let ?d = "took_work i c"
  have gd: "good E c ?d" by (rule good_took [OF g i])
  have pd: "pending ?d < 2 ^ 31" using pending_took [OF i] p by simp
  have s: "wp (catchp (initiateShutdown E) (setStateEx E StateClosed)) (\<lambda>_. good E c) (failed E c) ?d"
    if "cState ?d = StateClosing" "cDispatchCount ?d = 0"
    unfolding wp_catchp by (rule wp_shutdown_good [OF gd that pd]) (auto intro!: wp_close_good)
  have r: "wp conn_reap (\<lambda>_. good E c) (failed E c) ?d" by (rule wp_reap [OF gd])
  have e: "wp (withp (\<lambda>c. whenp (cDispatchCount c = 0)
            (if cState c = StateClosing then catchp (initiateShutdown E) (setStateEx E StateClosed)
             else whenp (cState c = StateFinished) conn_reap))) (\<lambda>_. good E c) (failed E c) ?d"
    using gd s r by (simp add: wp_basic(5) wp_whenp wp_if)
  define c1 where "c1 = c\<lparr>cWork := take i (cWork c) @ drop (Suc i) (cWork c),
     cOutstanding := cOutstanding c + unat (wInvokeNum (cWork c ! i)), cLog := cLog c @ work_events (cWork c ! i)\<rparr>"
  have c1: "c1\<lparr>cDispatchCount := cDispatchCount c1 - word_of_nat ?k\<rparr> = ?d" "?k = 0 \<Longrightarrow> c1 = ?d"
    by (simp_all add: c1_def took_work_def)
  have "wp (end_dispatch E ?k) (\<lambda>_. good E c) (failed E c) c1"
  proof (cases "?k > 0")
    case True
    with e show ?thesis unfolding end_dispatch_def wp_whenp wp_seqp wp_basic(4) c1(1) by (simp only: if_True)
  next
    case False
    with gd c1(2) show ?thesis by (simp add: end_dispatch_def wp_whenp)
  qed
  then show "wp (conn_dispatch E i) (\<lambda>_. good E c) (failed E c) c"
    by (simp add: conn_dispatch_def start_work_def Let_def wp_bindp wp_seqp wp_basic c1_def)
qed

subsection \<open>The end\<close>

lemma wp_notify_exception:
  assumes "\<And>l. \<exists>ev \<in> set l. completes E out ev \<Longrightarrow> Q () (c\<lparr>cLog := cLog c @ l\<rparr>)"
  shows "wp (notify_exception E ex out) Q R c"
  using assms [of "[EvException out ex]"] assms [of "[EvException out ex, EvInvokeException out]"]
  by (simp add: notify_exception_def emit_def wp_simps completes_def)

lemma wp_complete_messages:
  assumes link: "\<forall>x \<in> set ms. omRequestId x \<noteq> 0 \<longrightarrow> (\<forall>v. (omRequestId x, v) \<in> set (cAsyncRequests c) \<longrightarrow> omAsync x = Some v)"
    and Q: "\<And>l m. \<lbrakk>\<And>r. Some r \<in> omAsync ` set ms \<Longrightarrow> \<exists>ev \<in> set l. completes E r ev;
        \<And>p. p \<in> set (cAsyncRequests c) \<Longrightarrow> p \<in> set m \<or> (\<exists>ev \<in> set l. completes E (snd p) ev)\<rbrakk>
      \<Longrightarrow> Q () (c\<lparr>cLog := cLog c @ l, cAsyncRequests := m\<rparr>)"
  shows "wp (complete_messages E ex ms) Q R c"
  using assms
proof (induction ms arbitrary: c Q)
  case Nil
  have "Q () (c\<lparr>cLog := cLog c @ [], cAsyncRequests := cAsyncRequests c\<rparr>)" by (rule Nil.prems(2)) simp_all
  then show ?case by (simp add: wp_basic)
next
  case (Cons x ms)
  let ?m = "if omRequestId x \<noteq> 0 then om_erase (omRequestId x) (cAsyncRequests c) else cAsyncRequests c"
  have rest: "wp (seqp (whenp (omRequestId x \<noteq> 0) (modify (erase_request (omRequestId x)))) (complete_messages E ex ms)) Q R
      (c\<lparr>cLog := cLog c @ l\<rparr>)" if l: "\<And>r. omAsync x = Some r \<Longrightarrow> \<exists>ev \<in> set l. completes E r ev" for l
  proof -
    let ?c = "c\<lparr>cLog := cLog c @ l, cAsyncRequests := ?m\<rparr>"
    have "wp (complete_messages E ex ms) Q R ?c"
    proof (rule Cons.IH)
      show "\<forall>x \<in> set ms. omRequestId x \<noteq> 0 \<longrightarrow> (\<forall>v. (omRequestId x, v) \<in> set (cAsyncRequests ?c) \<longrightarrow> omAsync x = Some v)"
        using Cons.prems(1) by (auto simp: set_om_erase)
    next
      fix l' m
      assume a: "\<And>r. Some r \<in> omAsync ` set ms \<Longrightarrow> \<exists>ev \<in> set l'. completes E r ev"
        "\<And>p. p \<in> set (cAsyncRequests ?c) \<Longrightarrow> p \<in> set m \<or> (\<exists>ev \<in> set l'. completes E (snd p) ev)"
      have "Q () (c\<lparr>cLog := cLog c @ (l @ l'), cAsyncRequests := m\<rparr>)"
      proof (rule Cons.prems(2))
        fix r assume r: "Some r \<in> omAsync ` set (x # ms)"
        show "\<exists>ev \<in> set (l @ l'). completes E r ev"
        proof (cases "omAsync x = Some r")
          case True
          with l show ?thesis by auto
        next
          case False
          with r a(1) show ?thesis by auto
        qed
      next
        fix p assume p: "p \<in> set (cAsyncRequests c)"
        show "p \<in> set m \<or> (\<exists>ev \<in> set (l @ l'). completes E (snd p) ev)"
        proof (cases "omRequestId x \<noteq> 0 \<and> fst p = omRequestId x")
          case True
          then have "omAsync x = Some (snd p)" using Cons.prems(1) p by (cases p) auto
          with l show ?thesis by auto
        next
          case False
          then have "p \<in> set (cAsyncRequests ?c)" using p by (auto simp: set_om_erase)
          from a(2) [OF this] show ?thesis by auto
        qed
      qed
      then show "Q () (?c\<lparr>cLog := cLog ?c @ l', cAsyncRequests := m\<rparr>)" by simp
    qed
    then show ?thesis by (cases "omRequestId x = 0") (simp_all add: wp_seqp wp_whenp wp_basic erase_request_def)
  qed
  have "wp (msg_completed E ex x) (\<lambda>_. wp (seqp (whenp (omRequestId x \<noteq> 0) (modify (erase_request (omRequestId x))))
     (complete_messages E ex ms)) Q R) R c"
  proof (cases "omAsync x")
    case None
    with rest [of "[]"] show ?thesis by (simp add: msg_completed_def wp_basic)
  next
    case (Some out)
    with rest show ?thesis by (auto simp: msg_completed_def intro!: wp_notify_exception)
  qed
  then show ?case by (simp add: wp_seqp)
qed

lemma wp_fail_requests:
  assumes "\<And>l. (\<And>p. p \<in> set ps \<Longrightarrow> \<exists>ev \<in> set l. completes E (snd p) ev) \<Longrightarrow> Q () (c\<lparr>cLog := cLog c @ l\<rparr>)"
  shows "wp (fail_requests E ex ps) Q R c"
  using assms
proof (induction ps arbitrary: c)
  case Nil
  from Nil [of "[]"] show ?case by (simp add: wp_basic)
next
  case (Cons p ps)
  show ?case
    unfolding fail_requests.simps wp_seqp
  proof (rule wp_notify_exception, rule Cons.IH)
    fix l l' assume "\<exists>ev \<in> set l. completes E (snd p) ev" "\<And>q. q \<in> set ps \<Longrightarrow> \<exists>ev \<in> set l'. completes E (snd q) ev"
    then have "Q () (c\<lparr>cLog := cLog c @ (l @ l')\<rparr>)" by (intro Cons.prems) auto
    then show "Q () (c\<lparr>cLog := cLog c @ l, cLog := cLog (c\<lparr>cLog := cLog c @ l\<rparr>) @ l'\<rparr>)" by simp
  qed
qed

lemma return_stream_ids:
  "map omAsync (cSendStreams (return_stream c)) = map omAsync (cSendStreams c)"
  "map omRequestId (cSendStreams (return_stream c)) = map omRequestId (cSendStreams c)"
  "return_stream c = c\<lparr>cSendStreams := cSendStreams (return_stream c), cWriteBuf := cWriteBuf (return_stream c)\<rparr>"
  by (auto simp: return_stream_def split: list.split)

lemma link_ids:
  "(\<forall>x \<in> set q. omRequestId x \<noteq> 0 \<longrightarrow> (\<forall>v. (omRequestId x, v) \<in> M \<longrightarrow> omAsync x = Some v))
   \<longleftrightarrow> (\<forall>p \<in> set (zip (map omRequestId q) (map omAsync q)). fst p \<noteq> 0 \<longrightarrow> (\<forall>v. (fst p, v) \<in> M \<longrightarrow> snd p = Some v))"
  by (simp add: zip_map_map zip_same_conv_map)

lemma wp_fail_all:
  assumes e: "cException c = Some ex" and l: "link_ok (cSendStreams c) (cAsyncRequests c)"
    and Q: "\<And>l b. (\<And>r. in_progress r c \<Longrightarrow> \<exists>ev \<in> set l. completes E r ev)
      \<Longrightarrow> Q () (c\<lparr>cSendStreams := [], cWriteBuf := b, cLog := cLog c @ l, cAsyncRequests := []\<rparr>)"
  shows "wp (fail_all E) Q R c"
proof -
  define q b where "q = cSendStreams (return_stream c)" and "b = cWriteBuf (return_stream c)"
  define rest where "rest = seqp (withp (\<lambda>c.
        if cAsyncRequests c = [] then ret ()
        else bindp deref_exception (\<lambda>ex. fail_requests E ex (cAsyncRequests c))))
       (modify (\<lambda>c. c\<lparr>cAsyncRequests := []\<rparr>))"
  have rs: "return_stream c = c\<lparr>cSendStreams := q, cWriteBuf := b\<rparr>" unfolding q_def b_def by (rule return_stream_ids(3))
  have ids: "omAsync ` set q = omAsync ` set (cSendStreams c)"
    using arg_cong [OF return_stream_ids(1) [of c], of set] by (simp add: q_def)
  have link: "\<forall>x \<in> set q. omRequestId x \<noteq> 0 \<longrightarrow> (\<forall>v. (omRequestId x, v) \<in> set (cAsyncRequests c) \<longrightarrow> omAsync x = Some v)"
    using l unfolding link_ok_def link_ids q_def return_stream_ids(1,2) by blast
  have second: "wp rest Q R (c\<lparr>cSendStreams := [], cWriteBuf := b, cLog := cLog c @ l, cAsyncRequests := m\<rparr>)"
    if lm: "\<And>r. Some r \<in> omAsync ` set q \<Longrightarrow> \<exists>ev \<in> set l. completes E r ev"
      "\<And>p. p \<in> set (cAsyncRequests c) \<Longrightarrow> p \<in> set m \<or> (\<exists>ev \<in> set l. completes E (snd p) ev)" for l m
  proof -
    let ?c = "c\<lparr>cSendStreams := [], cWriteBuf := b, cLog := cLog c @ l, cAsyncRequests := m\<rparr>"
    have k: "Q () (?c\<lparr>cLog := cLog ?c @ l', cAsyncRequests := []\<rparr>)"
      if l': "\<And>p. p \<in> set m \<Longrightarrow> \<exists>ev \<in> set l'. completes E (snd p) ev" for l'
    proof -
      have "\<exists>ev \<in> set (l @ l'). completes E r ev" if "in_progress r c" for r
      proof (cases "Some r \<in> omAsync ` set q")
        case True
        with lm(1) show ?thesis by auto
      next
        case False
        then have "r \<in> snd ` set (cAsyncRequests c)" using that ids by (simp add: in_progress_def)
        then obtain p where "p \<in> set (cAsyncRequests c)" "snd p = r" by auto
        with lm(2) [of p] l' [of p] show ?thesis by auto
      qed
      then have "Q () (c\<lparr>cSendStreams := [], cWriteBuf := b, cLog := cLog c @ (l @ l'), cAsyncRequests := []\<rparr>)" by (rule Q)
      then show ?thesis by simp
    qed
    have "wp (fail_requests E ex m) (\<lambda>_. wp (modify (\<lambda>c. c\<lparr>cAsyncRequests := []\<rparr>)) Q R) R ?c"
      by (rule wp_fail_requests) (use k in \<open>simp add: wp_basic(4)\<close>)
    moreover have "Q () (?c\<lparr>cAsyncRequests := []\<rparr>)" if "m = []" using k [of "[]"] that by simp
    ultimately show ?thesis using e by (simp add: rest_def wp_seqp wp_basic wp_bindp deref_exception_def)
  qed
  have first: "wp (withp (\<lambda>c. if cSendStreams c = [] then ret ()
        else bindp deref_exception (\<lambda>ex.
          seqp (complete_messages E ex (cSendStreams c)) (modify (\<lambda>c. c\<lparr>cSendStreams := []\<rparr>)))))
     (\<lambda>_. wp rest Q R) R (c\<lparr>cSendStreams := q, cWriteBuf := b\<rparr>)"
  proof (cases "q = []")
    case True
    have "c\<lparr>cSendStreams := q, cWriteBuf := b\<rparr> = c\<lparr>cSendStreams := [], cWriteBuf := b, cLog := cLog c @ [], cAsyncRequests := cAsyncRequests c\<rparr>"
      using True by simp
    then show ?thesis using True second [of "[]" "cAsyncRequests c"] by (simp add: wp_basic)
  next
    case False
    have "wp (complete_messages E ex q) (\<lambda>_. wp (modify (\<lambda>c. c\<lparr>cSendStreams := []\<rparr>)) (\<lambda>_. wp rest Q R) R) R (c\<lparr>cSendStreams := q, cWriteBuf := b\<rparr>)"
    proof (rule wp_complete_messages)
      fix l m assume "\<And>r. Some r \<in> omAsync ` set q \<Longrightarrow> \<exists>ev \<in> set l. completes E r ev"
        "\<And>p. p \<in> set (cAsyncRequests (c\<lparr>cSendStreams := q, cWriteBuf := b\<rparr>)) \<Longrightarrow> p \<in> set m \<or> (\<exists>ev \<in> set l. completes E (snd p) ev)"
      then have "wp rest Q R (c\<lparr>cSendStreams := [], cWriteBuf := b, cLog := cLog c @ l, cAsyncRequests := m\<rparr>)"
        by (intro second) simp_all
      moreover have "c\<lparr>cSendStreams := [], cWriteBuf := b, cLog := cLog c @ l, cAsyncRequests := m\<rparr>
          = c\<lparr>cSendStreams := q, cWriteBuf := b, cLog := cLog (c\<lparr>cSendStreams := q, cWriteBuf := b\<rparr>) @ l, cAsyncRequests := m,
              cSendStreams := []\<rparr>" by simp
      ultimately show "wp (modify (\<lambda>c. c\<lparr>cSendStreams := []\<rparr>)) (\<lambda>_. wp rest Q R) R
          (c\<lparr>cSendStreams := q, cWriteBuf := b, cLog := cLog (c\<lparr>cSendStreams := q, cWriteBuf := b\<rparr>) @ l, cAsyncRequests := m\<rparr>)"
        by (simp only: wp_basic(4))
    qed (use link in simp)
    with False e show ?thesis
      by (simp add: wp_basic(5) wp_bindp deref_exception_def wp_basic(1) wp_seqp [where m = "complete_messages _ _ _"])
  qed
  then show ?thesis by (simp add: fail_all_def rest_def [symmetric] wp_seqp [where m = "seqp _ _"] wp_seqp [where m = "modify return_stream"] wp_basic(4) rs)
qed

text \<open>\<open>finished\<close> leaves a connection that has completed every request.\<close>

definition ends_as :: "conn_env \<Rightarrow> conn \<Rightarrow> conn \<Rightarrow> bool" where
  "ends_as E c c' \<longleftrightarrow> cState c' = StateFinished \<and> \<not> cPoolFinished c' \<and> cSendStreams c' = [] \<and> cAsyncRequests c' = []
     \<and> cWriteBuf c' = empty_buf \<and> cReadBuf c' = empty_buf \<and> cException c' = cException c \<and> cAnswers c' = cAnswers c
     \<and> cShutdownInitiated c' = cShutdownInitiated c \<and> cDispatchCount c' = cDispatchCount c \<and> cWork c' = cWork c
     \<and> cOutstanding c' = cOutstanding c
     \<and> (\<exists>l. cLog c' = cLog c @ l \<and> (\<forall>r. in_progress r c \<longrightarrow> (\<exists>ev \<in> set l. completes E r ev)))"

lemma ends_as_good:
  assumes g: "good E c0 c" and st: "cState c = StateClosed" and f: "ends_as E c c'"
  shows "good E c0 c'"
proof (rule good_step [OF g])
  have "inv_queue c'" "inv_read c'" using f by (simp_all add: ends_as_def inv_queue_def queue_ok_def inv_read_def)
  moreover have "inv_state c'" "inv_errors c'" "inv_requests c'" "inv_dispatch c'"
    using good_inv_groups [OF g] st f
    by (simp_all add: ends_as_def inv_state_def inv_errors_def inv_requests_def inv_dispatch_def pending_def no_invocations_def state_order)
  ultimately show "conn_inv c'" by (simp add: conn_inv_def)
  obtain l where l: "cLog c' = cLog c @ l" "\<And>r. in_progress r c \<Longrightarrow> \<exists>ev \<in> set l. completes E r ev"
    using f by (auto simp: ends_as_def)
  have "settled E r c'" if s: "settled E r c" for r
  proof (cases "in_progress r c")
    case True
    then show ?thesis using l by (auto simp: settled_def completed_def)
  next
    case False
    with s show ?thesis by (auto simp: settled_def completed_def l)
  qed
  moreover have "paired E c'" using f by (simp add: ends_as_def paired_def link_ok_def queued_outs_def List.map_filter_def)
  ultimately show "advanced E c c'" using st f by (simp add: ends_as_def advanced_def linked_def state_order)
qed

lemma wp_setState_Finished:
  "cState c = StateClosed \<Longrightarrow> wp (setState E StateFinished) Q R c \<longleftrightarrow> Q () (c\<lparr>cState := StateFinished\<rparr>)"
  by (simp add: state_defs wp_simps state_order)

definition finish_rest :: "conn_env \<Rightarrow> unit cm" where
  "finish_rest E = seqp (modify (\<lambda>c. c\<lparr>cWriteBuf := empty_buf, cReadBuf := empty_buf\<rparr>))
             (seqp (withp (\<lambda>c. whenp (cCloseCallback c)
                (seqp (emit EvCloseCallback) (modify (\<lambda>c. c\<lparr>cCloseCallback := False\<rparr>)))))
               (seqp (modify (\<lambda>c. c\<lparr>cHeartbeatCallback := False\<rparr>))
                 (seqp (setState E StateFinished)
                   (withp (\<lambda>c. whenp (cDispatchCount c = 0) conn_reap)))))"

lemma conn_finish_rest:
  "conn_finish E close =
     seqp (whenp close (emit EvTransceiverClose))
       (seqp (withp (\<lambda>c. whenp (cStartCallback c)
          (seqp (assertp (\<lambda>c. cException c \<noteq> None))
            (bindp deref_exception (\<lambda>ex.
              seqp (emit (EvStartFailed ex)) (modify (\<lambda>c. c\<lparr>cStartCallback := False\<rparr>)))))))
         (seqp (fail_all E) (finish_rest E)))"
  by (simp add: conn_finish_def finish_rest_def)

lemma wp_finish:
  assumes g: "good E c0 c" and st: "cState c = StateClosed"
    and c1: "cState c1 = StateClosed" "cException c1 = cException c" "cAnswers c1 = cAnswers c"
      "cShutdownInitiated c1 = cShutdownInitiated c" "cDispatchCount c1 = cDispatchCount c" "cWork c1 = cWork c"
      "cOutstanding c1 = cOutstanding c" "cSendStreams c1 = cSendStreams c" "cAsyncRequests c1 = cAsyncRequests c"
      "\<not> cPoolFinished c1" "\<exists>l. cLog c1 = cLog c @ l"
  shows "wp (seqp (fail_all E) (finish_rest E)) (\<lambda>_. ends_as E c) R c1"
  unfolding wp_seqp
proof -
  have "cException c \<noteq> None" using good_inv_groups(1) [OF g] st by (simp add: inv_state_def state_order)
  then obtain ex where ex: "cException c1 = Some ex" using c1(2) by auto
  have link: "link_ok (cSendStreams c1) (cAsyncRequests c1)" using g c1 by (simp add: good_def linked_def paired_def)
  have prog: "in_progress r c1 = in_progress r c" for r using c1 by (simp add: in_progress_def)
  show "wp (fail_all E) (\<lambda>_. wp (finish_rest E) (\<lambda>_. ends_as E c) R) R c1"
  proof (rule wp_fail_all [OF ex link])
    fix l b assume l: "\<And>r. in_progress r c1 \<Longrightarrow> \<exists>ev \<in> set l. completes E r ev"
    let ?c = "c1\<lparr>cSendStreams := [], cWriteBuf := b, cLog := cLog c1 @ l, cAsyncRequests := []\<rparr>"
    obtain l0 where l0: "cLog c1 = cLog c @ l0" using c1 by blast
    have e: "ends_as E c c'"
      if "cState c' = StateFinished" "cSendStreams c' = []" "cAsyncRequests c' = []" "cWriteBuf c' = empty_buf" "cReadBuf c' = empty_buf"
        "cException c' = cException c1" "cAnswers c' = cAnswers c1" "cShutdownInitiated c' = cShutdownInitiated c1"
        "cDispatchCount c' = cDispatchCount c1" "cWork c' = cWork c1" "cOutstanding c' = cOutstanding c1" "\<not> cPoolFinished c'"
        "cLog c' = cLog c1 @ l @ l2" for c' l2
    proof -
      have "cLog c' = cLog c @ (l0 @ l @ l2)" using l0 that by simp
      moreover have "\<forall>r. in_progress r c \<longrightarrow> (\<exists>ev \<in> set (l0 @ l @ l2). completes E r ev)"
        using l unfolding prog by auto
      ultimately show ?thesis using that c1 unfolding ends_as_def by (intro conjI exI [of _ "l0 @ l @ l2"]) simp_all
    qed
    show "wp (finish_rest E) (\<lambda>_. ends_as E c) R ?c"
      using c1(1,10)
      by (auto simp: finish_rest_def wp_seqp wp_basic wp_whenp emit_def conn_reap_def wp_setState_Finished intro!: e)
  qed
qed

lemma finished_ends:
  assumes inv: "conn_inv c" "linked E c" and st: "cState c = StateClosed"
  shows "wp (conn_finished E) (\<lambda>_. ends_as E c) R c"
proof -
  have g: "good E c c" using inv by (simp add: good_refl)
  have "cException c \<noteq> None" using inv(1) st by (simp add: conn_inv_def inv_state_def state_order)
  then obtain ex where ex: "cException c = Some ex" by auto
  define tail where "tail = seqp (fail_all E) (finish_rest E)"
  have t: "wp tail (\<lambda>_. ends_as E c) R c1"
    if "cState c1 = StateClosed" "cException c1 = cException c" "cAnswers c1 = cAnswers c"
      "cShutdownInitiated c1 = cShutdownInitiated c" "cDispatchCount c1 = cDispatchCount c" "cWork c1 = cWork c"
      "cOutstanding c1 = cOutstanding c" "cSendStreams c1 = cSendStreams c" "cAsyncRequests c1 = cAsyncRequests c"
      "\<not> cPoolFinished c1" "\<exists>l. cLog c1 = cLog c @ l" for c1
    unfolding tail_def by (rule wp_finish [OF g st that])
  show ?thesis
    unfolding conn_finished_def conn_finish_rest tail_def [symmetric]
    using st ex by (auto simp: wp_simps emit_def unscheduleTimeout_def deref_exception_def intro!: t)
qed

subsection \<open>Histories\<close>

lemma finished_safe:
  assumes inv: "conn_inv c" "linked E c" and ready: "cPoolFinished c"
  shows "safe E (conn_finished E) c"
proof -
  have st: "cState c = StateClosed" using inv(1) ready by (simp add: conn_inv_def inv_state_def)
  show ?thesis
    unfolding safe_def
    by (rule wp_weaken [OF finished_ends [OF inv st]]) (rule ends_as_good [OF good_refl [OF inv] st])
qed

lemma passes_safe:
  assumes inv: "conn_inv c" "linked E c" and ready: "call_ready E c (Passes now answers)"
  shows "safe E (modify (\<lambda>c. c\<lparr>cNow := max now (cNow c), cAnswers := answers\<rparr>)) c"
proof -
  let ?c = "c\<lparr>cNow := max now (cNow c), cAnswers := answers\<rparr>"
  have "inv_errors c" using inv(1) by (simp add: conn_inv_def)
  then have "inv_errors ?c" using ready by (fastforce simp: inv_errors_def split: tx_answer.splits)
  then have "conn_inv ?c"
    using inv(1) by (simp add: conn_inv_def) (simp add: inv_state_def inv_queue_def inv_requests_def inv_read_def inv_dispatch_def
        pending_def no_invocations_def)
  moreover have "advanced E c ?c" by (simp add: advanced_def linked_defs)
  ultimately have "good E c ?c" using good_step [OF good_refl [OF inv]] by blast
  then show ?thesis by (simp add: safe_def wp_basic)
qed

text \<open>Every call that is ready is safe.\<close>

lemma run_call_safe:
  assumes inv: "conn_inv c" "linked E c" and p: "pending c < 2 ^ 31" and env: "plain_env E" and ready: "call_ready E c call"
  shows "safe E (run_call E call) c"
proof (cases call)
  case (CallSend out os canceled compress response n)
  have "wp (sendAsyncRequest E out os canceled compress response n) (\<lambda>_ c'. wp (ret ()) (\<lambda>_. good E c) (failed E c) c') (failed E c) c"
    by (rule wp_mono [OF send_safe [OF inv env ready [unfolded CallSend]]]) (simp_all add: wp_basic)
  with CallSend show ?thesis by (simp add: safe_def wp_bindp)
next
  case (CallSendResponse os flag)
  with ready finish_invocation_safe [OF inv p, of "Some (os, flag)"] show ?thesis by (simp add: sendResponse_def)
next
  case CallSendNoResponse
  with ready finish_invocation_safe [OF inv p, of None] show ?thesis by (simp add: sendNoResponse_def)
next
  case (Passes now answers)
  with passes_safe [OF inv] ready show ?thesis by simp
qed (use assms start_safe in \<open>simp_all add: activate_safe hold_safe destroy_safe close_safe monitor_safe cancel_safe invokeException_safe
  message_safe dispatch_safe finished_safe timedOut_safe exception_safe setACM_safe callbacks_safe\<close>)

lemma after_good:
  assumes "conn_inv c" "linked E c" "pending c < 2 ^ 31" "plain_env E" "call_ready E c call"
  shows "good E c (after E call c)"
proof -
  have "wp (run_call E call) (\<lambda>_. good E c) (\<lambda>_. good E c) c"
    using run_call_safe [OF assms] unfolding safe_def by (rule wp_mono) simp_all
  then show ?thesis by (simp add: after_def wp_run)
qed

lemma steps_good:
  assumes "conn_steps E c calls c'" "plain_env E" "conn_inv c" "linked E c" "pending c < 2 ^ 31"
  shows "good E c c' \<and> pending c' < 2 ^ 31"
  using assms
proof (induction rule: conn_steps.induct)
  case start
  then show ?case by (simp add: good_refl)
next
  case (step calls c1 call c2)
  then have c1: "conn_inv c1" "linked E c1" "advanced E c c1" "pending c1 < 2 ^ 31" by (simp_all add: good_def)
  have c2: "call_ready E c1 call" "c2 = after E call c1" "pending c2 < 2 ^ 31"
    using step.hyps(2) unfolding conn_step_def by blast+
  have "good E c1 c2" using after_good [OF c1(1,2,4) step.prems(1) c2(1)] c2(2) by simp
  with c1(3) c2(3) show ?case using advanced_trans [of E c c1 c2] by (simp add: good_def)
qed

text \<open>A new connection is the start of such histories.\<close>

definition fresh_conn :: "conn_env \<Rightarrow> conn \<Rightarrow> bool" where
  "fresh_conn E c \<longleftrightarrow> (\<exists>adapter monitor batch now answers. c = connection_new E adapter monitor batch now answers
     \<and> (\<forall>e. Broken e \<in> set answers \<longrightarrow> \<not> fatal e))"

lemma fresh_good:
  assumes "fresh_conn E c"
  shows "conn_inv c" "linked E c" "pending c < 2 ^ 31"
  using assms by (auto simp: fresh_conn_def conn_inv_new)
    (simp_all add: connection_new_def linked_defs link_ok_def queued_outs_def List.map_filter_def pending_def)

definition reachable :: "conn_env \<Rightarrow> conn \<Rightarrow> bool" where
  "reachable E c \<longleftrightarrow> (\<exists>c0 calls. fresh_conn E c0 \<and> conn_steps E c0 calls c)"

lemma reachable_good:
  assumes "reachable E c" "plain_env E"
  shows "conn_inv c" "linked E c" "pending c < 2 ^ 31"
proof -
  obtain c0 calls where c0: "fresh_conn E c0" "conn_steps E c0 calls c" using assms(1) by (auto simp: reachable_def)
  from steps_good [OF c0(2) assms(2) fresh_good [OF c0(1)]]
  show "conn_inv c" "linked E c" "pending c < 2 ^ 31" by (simp_all add: good_def)
qed

lemma reachable_new: "fresh_conn E c \<Longrightarrow> reachable E c"
  using conn_steps.start [of E c] by (auto simp: reachable_def)

lemma reachable_step: "reachable E c \<Longrightarrow> conn_step E c call c' \<Longrightarrow> reachable E c'"
  unfolding reachable_def using conn_steps.step by blast

end
