(* ===== verification/ConnProps.thy ===== *)
theory ConnProps
  imports ConnTurns
begin

section \<open>Connections: properties\<close>

text \<open>
  What the invariant gives for every history of a connection.  The examples of the witnesses run on \<open>demo_env\<close>, a TCP
  client whose compression is the identity, in which request 7 waits for a reply and the others do not.
\<close>

subsection \<open>Running operations on given states\<close>

text \<open>
  Rewriting with \<open>run_simps\<close> under the congruence rules \<open>run_congs\<close> runs an operation: only the next step is
  simplified, never the operations that wait under a binder.
\<close>

fun then_run :: "'a result \<times> 's \<Rightarrow> ('a \<Rightarrow> ('s, 'b) prog) \<Rightarrow> 'b result \<times> 's" where
  "then_run (Inl e, s) f = (Inl e, s)"
| "then_run (Inr x, s) f = f x s"

fun else_run :: "'a result \<times> 's \<Rightarrow> (ice_error \<Rightarrow> ('s, 'a) prog) \<Rightarrow> 'a result \<times> 's" where
  "else_run (Inl e, s) h = (if fatal e then (Inl e, s) else h e s)"
| "else_run (Inr x, s) h = (Inr x, s)"

lemma run_simps:
  "ret x s = (Inr x, s)"
  "throw e s = (Inl e, s)"
  "bindp m f s = then_run (m s) f"
  "seqp m n s = then_run (m s) (\<lambda>_. n)"
  "reads g s = (Inr (g s), s)"
  "modify k s = (Inr (), k s)"
  "lift r s = (r, s)"
  "withp h s = h s s"
  "whenp True a s = a s"
  "whenp False a s = (Inr (), s)"
  "assertp P s = (if P s then (Inr (), s) else (Inl AssertFailed, s))"
  "catchp m j s = else_run (m s) j"
  by (simp_all add: ret_def throw_def bindp_def seqp_def reads_def modify_def lift_def withp_def whenp_def assertp_def catchp_def
      split: prod.split sum.split)

lemma run_congs:
  "bindp m f = bindp m f"
  "seqp m n = seqp m n"
  "withp h = withp h"
  "modify k = modify k"
  "catchp m j = catchp m j"
  "assertp P = assertp P"
  "r = r' \<Longrightarrow> then_run r f = then_run r' f"
  "r = r' \<Longrightarrow> else_run r j = else_run r' j"
  "b = b' \<Longrightarrow> whenp b a = whenp b' a"
  by simp_all

subsection \<open>An example\<close>

definition demo_env :: conn_env where
  "demo_env = \<lparr>eDatagram = False, eTimeout = 60, eConnectTimeout = None, eCloseTimeout = None, eMessageSizeMax = 1048576,
     eClosing = (\<lambda>initiator. if initiator then OpRead else OpNone), eCheckSendSize = (\<lambda>_. None), eCloseNow = False,
     eBzCompress = Some, eBzDecompress = (\<lambda>_. Some), eIsOutgoingAsync = (\<lambda>_. True), eTwoway = (\<lambda>out. out = 7),
     eWantsSent = (\<lambda>_. False), eWantsException = (\<lambda>_ _. False), eWantsResponse = (\<lambda>_ _. True)\<rparr>"

text \<open>The connection before and after \<open>start\<close>, and with a request whose first three bytes are sent.\<close>

definition demo_conn :: conn where
  "demo_conn = connection_new demo_env False None (batch_queue_new 0 False None) 5
     [InitOp OpNone, Got validate_message, Moved 3]"

definition demo_request :: "byte list" where
  "demo_request = requestHdr @ [1, 2, 3]"

definition demo_send :: conn_call where
  "demo_send = CallSend 7 demo_request None False True 0"

definition demo_ready :: conn where
  "demo_ready = after demo_env CallStart demo_conn"

definition demo_sending :: conn where
  "demo_sending = after demo_env demo_send demo_ready"

lemma demo_sel [simp]:
  "\<not> eDatagram demo_env" "eTimeout demo_env = 60" "eConnectTimeout demo_env = None" "eCheckSendSize demo_env bs = None"
  "eTwoway demo_env out = (out = 7)" "eIsOutgoingAsync demo_env out" "\<not> eCloseNow demo_env" "\<not> eWantsSent demo_env out"
  "\<not> eWantsException demo_env out e" "eClosing demo_env False = OpNone" "eBzCompress demo_env bs = Some bs"
  "eBzDecompress demo_env n bs = Some bs" "eMessageSizeMax demo_env = 1048576" "eCloseTimeout demo_env = None"
  by (simp_all add: demo_env_def)

lemma demo_validated: "check_validation validate_message = Inr ()"
  by code_simp

lemma length_demo_request [simp]: "length demo_request = 21" "length validate_message = 14"
  by code_simp+

lemmas demo_run = after_def run_simps then_run.simps else_run.simps state_defs state_order Let_def
  conn_start_def conn_initialize_def tx_initialize_def pop_answer_def conn_validate_def tx_read_def resize_buf_def buf_pos_def
  at_end_def headerSize_def end_validate_def poke_def demo_validated empty_buf_def op_none_iff op_defs pool_register_def
  pool_update_def

lemma demo_ready_eq:
  "demo_ready = \<lparr>cState = StateHolding, cException = None, cShutdownInitiated = False, cInitialized = True,
     cValidated = True, cHasAdapter = False, cDispatchCount = 0, cNextRequestId = 1, cAsyncRequests = [],
     cHint = None, cSendStreams = [], cReadBuf = \<lparr>bBytes = validate_message, bPos = Some 0\<rparr>, cReadHeader = True,
     cWriteBuf = \<lparr>bBytes = [], bPos = Some 0\<rparr>, cBatch = batch_queue_new 0 False None, cMonitor = None, cAcmLast = 0,
     cStartCallback = False, cCloseCallback = False, cHeartbeatCallback = False, cReadTimeout = False,
     cWriteTimeout = False, cNow = 5, cRegistered = OpNone, cPoolFinished = False, cWork = [], cOutstanding = 0,
     cAnswers = [Moved 3], cWire = [], cLog = [EvStartCompleted]\<rparr>"
  by (simp add: demo_ready_def demo_conn_def connection_new_def demo_run cong: run_congs)

lemma demo_sending_eq:
  "demo_sending = \<lparr>cState = StateHolding, cException = None, cShutdownInitiated = False, cInitialized = True,
     cValidated = True, cHasAdapter = False, cDispatchCount = 0, cNextRequestId = 2, cAsyncRequests = [(1, 7)],
     cHint = Some 1,
     cSendStreams = [\<lparr>omStream = Some \<lparr>bBytes = [], bPos = Some 0\<rparr>, omAsync = Some 7, omCompress = False,
       omRequestId = 1, omAdopted = False\<rparr>],
     cReadBuf = \<lparr>bBytes = validate_message, bPos = Some 0\<rparr>, cReadHeader = True,
     cWriteBuf = \<lparr>bBytes = take 10 demo_request @ le_bytes 4 (21 :: ice_int) @ le_bytes 4 (1 :: ice_int) @ drop 18 demo_request,
       bPos = Some 3\<rparr>,
     cBatch = batch_queue_new 0 False None, cMonitor = None, cAcmLast = 0, cStartCallback = False,
     cCloseCallback = False, cHeartbeatCallback = False, cReadTimeout = False, cWriteTimeout = True, cNow = 5,
     cRegistered = OpWrite, cPoolFinished = False, cWork = [], cOutstanding = 0, cAnswers = [],
     cWire = take 3 demo_request, cLog = [EvStartCompleted]\<rparr>"
  by (simp add: demo_sending_def demo_ready_eq demo_send_def sendAsyncRequest_def allocate_id_def next_request_id_def
    fill_request_def sendMessage_def mk_msg_def msg_bytes_def write_or_queue_def fill_size_def mark_compress_def tx_write_def
    adopt_def scheduleTimeout_def sched_timeout_value_def demo_run cong: run_congs)

lemma demo_sent: "fst (sendAsyncRequest demo_env 7 demo_request None False True 0 demo_ready) = Inr AsyncQueued"
  by (simp add: demo_ready_eq sendAsyncRequest_def allocate_id_def next_request_id_def
    fill_request_def sendMessage_def mk_msg_def msg_bytes_def write_or_queue_def fill_size_def mark_compress_def tx_write_def
    adopt_def scheduleTimeout_def sched_timeout_value_def demo_run cong: run_congs)

lemma plain_demo: "plain_env demo_env"
  by (simp add: plain_env_def)

lemma fresh_demo: "fresh_conn demo_env demo_conn"
  unfolding fresh_conn_def demo_conn_def by (intro exI conjI, rule refl) simp

lemma demo_steps:
  "conn_step demo_env demo_conn CallStart demo_ready"
  "conn_step demo_env demo_ready demo_send demo_sending"
proof -
  show "conn_step demo_env demo_conn CallStart demo_ready"
    unfolding conn_step_def demo_ready_def [symmetric] by (simp add: demo_ready_eq pending_def demo_conn_def connection_new_def)
  have "call_ready demo_env demo_ready demo_send"
    by (simp add: demo_ready_eq demo_send_def headerSize_def in_progress_def id_free_def state_order)
  then show "conn_step demo_env demo_ready demo_send demo_sending"
    unfolding conn_step_def demo_sending_def [symmetric] by (simp add: demo_sending_eq pending_def)
qed

lemma demo_reachable: "reachable demo_env demo_ready" "reachable demo_env demo_sending"
  using reachable_step [OF _ demo_steps(1)] reachable_step [OF _ demo_steps(2)] reachable_new [OF fresh_demo] by blast+

subsection \<open>What every history keeps\<close>



text \<open>
  C5: the state of a connection fits together.  It has an exception exactly when it is closing or closed; the pool
  will call \<open>finished\<close> exactly when it is closed; both streams' iterators are inside their buffers; while the
  connection is open the stream being written belongs to the first message of the queue and there is none without
  messages; no request is in the queue or in the map twice; the cached iterator stands on an entry of the map.
\<close>

theorem conn_well_formed:
  assumes "plain_env E" "reachable E c"
  shows "(cException c \<noteq> None \<longleftrightarrow> StateClosing \<le> cState c) \<and> (cPoolFinished c \<longleftrightarrow> cState c = StateClosed)
    \<and> (\<exists>p \<le> length (bBytes (cReadBuf c)). bPos (cReadBuf c) = Some p)
    \<and> (\<exists>p \<le> length (bBytes (cWriteBuf c)). bPos (cWriteBuf c) = Some p)
    \<and> (StateNotValidated < cState c \<and> cState c < StateClosed \<longrightarrow> (cSendStreams c = [] \<longleftrightarrow> bBytes (cWriteBuf c) = []))
    \<and> distinct (List.map_filter omAsync (cSendStreams c)) \<and> distinct (map fst (cAsyncRequests c))
    \<and> distinct (map snd (cAsyncRequests c))
    \<and> (cState c < StateFinished \<longrightarrow> (\<forall>k. cHint c = Some k \<longrightarrow> k \<in> fst ` set (cAsyncRequests c)))"
proof -
  note g = reachable_good [OF assms(2,1)]
  have i: "inv_state c" "inv_queue c" "inv_read c" "inv_requests c" using g(1) by (simp_all add: conn_inv_def)
  have "distinct (map fst (cAsyncRequests c))" using i(4) om_wf_distinct by (auto simp: inv_requests_def)
  moreover have "distinct (List.map_filter omAsync (cSendStreams c))" "distinct (map snd (cAsyncRequests c))"
    using g(2) by (simp_all add: linked_def paired_def link_ok_def queued_outs_def)
  moreover have "(cException c \<noteq> None \<longleftrightarrow> StateClosing \<le> cState c) \<and> (cPoolFinished c \<longleftrightarrow> cState c = StateClosed)"
    using i(1) by (simp only: inv_state_def simp_thms)
  moreover have "valid_pos (cReadBuf c)" "valid_pos (cWriteBuf c)"
    using i(2,3) by (simp_all only: inv_queue_def inv_read_def)
  moreover have "StateNotValidated < cState c \<and> cState c < StateClosed \<longrightarrow> (cSendStreams c = [] \<longleftrightarrow> bBytes (cWriteBuf c) = [])"
    using i(2) unfolding inv_queue_def by blast
  moreover have "cState c < StateFinished \<longrightarrow> (\<forall>k. cHint c = Some k \<longrightarrow> k \<in> fst ` set (cAsyncRequests c))"
    using i(4) unfolding inv_requests_def by blast
  ultimately show ?thesis unfolding valid_pos_def by blast
qed

theorem conn_well_formed_witness:
  "cException demo_sending = None \<and> cSendStreams demo_sending \<noteq> [] \<and> bBytes (cWriteBuf demo_sending) \<noteq> []"
  using conn_well_formed [OF plain_demo demo_reachable(2)] by (simp add: demo_sending_eq state_order)

text \<open>
  C4: the dispatch count is exactly the number of callbacks and invocations that are not finished, so that
  \<open>waitUntilFinished\<close> returns when and only when the connection is finished and none is left; and a graceful closure sends
  the close message only when no invocation is in progress, and none starts after it.
\<close>

theorem conn_dispatch_count:
  assumes "plain_env E" "reachable E c"
  shows "unat (cDispatchCount c) = pending c
    \<and> (finished_reached c \<longleftrightarrow> cState c = StateFinished \<and> pending c = 0)
    \<and> (cShutdownInitiated c \<and> cState c < StateClosed \<longrightarrow> cOutstanding c = 0 \<and> (\<forall>w \<in> set (cWork c). wInvokeNum w = 0))"
proof -
  note g = reachable_good [OF assms(2,1)]
  have i: "inv_dispatch c" using g(1) by (simp add: conn_inv_def)
  then have d: "cDispatchCount c = word_of_nat (pending c)" by (simp add: inv_dispatch_def)
  have u: "unat (cDispatchCount c) = pending c" using d g(3) by (simp add: unat_of_nat)
  have "sint (cDispatchCount c) = int (pending c)"
    using g(3) by (simp add: d signed_of_nat signed_take_bit_int_eq_self)
  then have "0 <s cDispatchCount c \<longleftrightarrow> pending c \<noteq> 0" by (simp add: word_sless_alt)
  then have "finished_reached c \<longleftrightarrow> cState c = StateFinished \<and> pending c = 0"
    by (auto simp: finished_reached_def) (cases "cState c"; simp add: state_order)+
  with u i show ?thesis by (simp add: inv_dispatch_def no_invocations_def)
qed

theorem conn_dispatch_count_witness: "unat (cDispatchCount demo_sending) = pending demo_sending"
  using conn_dispatch_count [OF plain_demo demo_reachable(2)] by simp

text \<open>
  C6: a connection goes through its states in one direction only, active and holding apart: once it is closing it is
  never open again, and once closed it stays closed.
\<close>

theorem conn_state_one_way:
  assumes "plain_env E" "reachable E c" "conn_steps E c calls c'"
  shows "state_rank (cState c) \<le> state_rank (cState c')"
  using steps_good [OF assms(3,1) reachable_good [OF assms(2,1)]] by (simp add: good_def advanced_def)

theorem conn_state_one_way_witness: "state_rank (cState demo_ready) \<le> state_rank (cState demo_sending)"
  using conn_state_one_way [OF plain_demo demo_reachable(1) conn_steps.step [OF conn_steps.start demo_steps(2)]] .

text \<open>
  C2: no request is lost.  A request that \<open>sendAsyncRequest\<close> has accepted is, after any further calls, still in the queue or
  in the map, or has been notified: of its reply, of an exception, or, without a reply, of being sent; and when
  the connection is finished it has been notified.
\<close>

theorem conn_requests_not_lost:
  assumes "plain_env E" "reachable E c" "conn_step E c (CallSend out os canceled compress response n) c1"
    and "fst (sendAsyncRequest E out os canceled compress response n c) = Inr status" "conn_steps E c1 calls c'"
  shows "(in_progress out c' \<or> completed E out c') \<and> (cState c' = StateFinished \<longrightarrow> completed E out c')"
proof -
  note g = reachable_good [OF assms(2,1)]
  let ?call = "CallSend out os canceled compress response n"
  have ready: "call_ready E c ?call" and c1: "c1 = after E ?call c" using assms(3) by (simp_all only: conn_step_def)
  have "settled E out (snd (sendAsyncRequest E out os canceled compress response n c))"
    using send_safe [OF g(1,2) assms(1) ready] assms(4) by (cases rule: wp_cases) auto
  moreover have "c1 = snd (sendAsyncRequest E out os canceled compress response n c)"
    using assms(4) by (simp add: c1 after_def bindp_def ret_def split: prod.split sum.split)
  ultimately have s: "settled E out c1" by simp
  note g1 = reachable_good [OF reachable_step [OF assms(2,3)] assms(1)]
  have g': "good E c1 c'" using steps_good [OF assms(5,1) g1] by simp
  then have s': "settled E out c'" using s by (simp add: good_def advanced_def)
  have "\<not> in_progress out c'" if "cState c' = StateFinished"
    using good_inv_groups(3,4) [OF g'] that by (auto simp: inv_queue_def inv_requests_def in_progress_def)
  with s' show ?thesis by (auto simp: settled_def)
qed

theorem conn_requests_not_lost_witness: "in_progress 7 demo_sending \<or> completed demo_env 7 demo_sending"
  using conn_requests_not_lost [OF plain_demo demo_reachable(1) demo_steps(2) [unfolded demo_send_def] demo_sent conn_steps.start]
  by simp

text \<open>
  C3: closing ends everything.  From every state of a connection that is not finished, \<open>close(Forcefully)\<close> and the
  call of \<open>finished\<close> that the pool then owes make the connection finished, and every request it had taken is completed.
\<close>

theorem conn_close_completes:
  assumes "plain_env E" "reachable E c" "cState c \<noteq> StateFinished"
  shows "call_ready E (after E (CallClose Forcefully) c) CallFinished
    \<and> cState (after E CallFinished (after E (CallClose Forcefully) c)) = StateFinished
    \<and> (\<forall>out. in_progress out c \<or> completed E out c \<longrightarrow>
         completed E out (after E CallFinished (after E (CallClose Forcefully) c)))"
proof -
  note g = reachable_good [OF assms(2,1)]
  define c1 where "c1 = after E (CallClose Forcefully) c"
  define c2 where "c2 = after E CallFinished c1"
  have "wp (setStateEx E StateClosed (ConnectionManuallyClosed False)) (\<lambda>_ c'. good E c c' \<and> StateClosed \<le> cState c'
     \<and> closed_by (ConnectionManuallyClosed False) c c') (\<lambda>_ _. False) c"
    by (rule wp_close_good [OF good_refl [OF g(1,2)]]) simp_all
  then have c1: "good E c c1" "StateClosed \<le> cState c1" "closed_by (ConnectionManuallyClosed False) c c1"
    by (cases rule: wp_cases; simp add: c1_def after_def conn_close_def)+
  then have st1: "cState c1 = StateClosed" using assms(3) by (cases "cState c") (auto simp: closed_by_def state_order)
  then have r: "cPoolFinished c1" using good_inv_groups(1) [OF c1(1)] by (simp add: inv_state_def)
  have i1: "conn_inv c1" "linked E c1" using c1(1) by (simp_all add: good_def)
  have "wp (conn_finished E) (\<lambda>_. ends_as E c1) (\<lambda>_ _. False) c1" by (rule finished_ends [OF i1 st1])
  then have e: "ends_as E c1 c2" by (cases rule: wp_cases) (simp_all add: c2_def after_def)
  have g2: "good E c1 c2" by (rule ends_as_good [OF good_refl [OF i1] st1 e])
  have "completed E out c2" if "settled E out c" for out
  proof -
    have "settled E out c2" using that c1(1) g2 by (simp add: good_def advanced_def)
    moreover have "\<not> in_progress out c2" using e by (simp add: ends_as_def in_progress_def)
    ultimately show ?thesis by (simp add: settled_def)
  qed
  moreover have "cState c2 = StateFinished" using e by (simp add: ends_as_def)
  ultimately show ?thesis using r unfolding c2_def c1_def by (simp add: settled_def)
qed

theorem conn_close_completes_witness:
  "completed demo_env 7 (after demo_env CallFinished (after demo_env (CallClose Forcefully) demo_sending))"
  using conn_close_completes [OF plain_demo demo_reachable(2)] by (simp add: demo_sending_eq in_progress_def)

subsection \<open>Loops\<close>

text \<open>The second round of the read loop reads a body: it returns or throws in any case.\<close>

lemma tx_read_positions:
  assumes "valid_pos b"
  shows "wp (tx_read E b) (\<lambda>(op, b') c'. valid_pos b' \<and> (\<not> opRead op \<longrightarrow> at_end b') \<and> cReadHeader c' = cReadHeader c) (\<lambda>_ _. True) c"
proof -
  obtain p where p: "bPos b = Some p" "p \<le> length (bBytes b)" using assms by (auto simp: valid_pos_def)
  have l: "length (poke (bBytes b) p (take (length (bBytes b) - p) bs)) = length (bBytes b)" for bs
    using p by (intro length_poke) (auto simp: min_def)
  show ?thesis
  proof (cases "cAnswers c")
    case Nil
    with p show ?thesis by (auto simp: tx_read_def wp_simps buf_pos_def pop_answer_def Let_def valid_pos_def at_end_def)
  next
    case (Cons a as)
    with p l show ?thesis
      by (cases a) (auto simp: tx_read_def wp_simps buf_pos_def pop_answer_def Let_def valid_pos_def at_end_def min_def
          simp del: length_poke)
  qed
qed

lemma read_header_clears: "wp (read_header E) (\<lambda>_ c'. \<not> cReadHeader c' \<and> valid_pos (cReadBuf c')) (\<lambda>_ _. True) c" if "valid_pos (cReadBuf c)"
  using that by (auto simp: read_header_def wp_simps Let_def valid_pos_def split: sum.split)

text \<open>One round, with what is done when the buffer is not full yet.\<close>

definition read_round :: "conn_env \<Rightarrow> sockop option cm \<Rightarrow> sockop option cm" where
  "read_round E next = withp (\<lambda>c.
     bindp (tx_read E (cReadBuf c)) (\<lambda>(op, b).
       seqp (modify (\<lambda>c. c\<lparr>cReadBuf := b\<rparr>))
         (if opRead op then ret (Some op)
          else seqp (whenp (cReadHeader c) (read_header E))
            (withp (\<lambda>c.
              if \<not> at_end (cReadBuf c)
              then if eDatagram E then throw DatagramLimit else next
              else ret (Some op))))))"

lemma read_loop_round: "read_loop E (Suc n) = read_round E (read_loop E n)"
  by (simp add: read_round_def)

lemma read_round_body:
  assumes "valid_pos (cReadBuf c)" "\<not> cReadHeader c"
  shows "wp (read_round E next) (\<lambda>r _. r \<noteq> None) (\<lambda>_ _. True) c" "read_round E next c = read_round E next' c"
proof -
  have w: "wp (tx_read E (cReadBuf c)) (\<lambda>(op, b') c'. valid_pos b' \<and> (\<not> opRead op \<longrightarrow> at_end b') \<and> \<not> cReadHeader c') (\<lambda>_ _. True) c"
    by (rule wp_mono [OF tx_read_positions [OF assms(1)]]) (use assms(2) in auto)
  show "wp (read_round E next) (\<lambda>r _. r \<noteq> None) (\<lambda>_ _. True) c"
    unfolding read_round_def wp_basic(5) wp_bindp
    by (rule wp_mono [OF w]) (use assms(2) in \<open>auto simp: wp_seqp wp_basic wp_whenp\<close>)
  show "read_round E next c = read_round E next' c"
    using w assms(2)
    by (cases rule: wp_cases) (auto simp: read_round_def run_simps whenp_def split: prod.splits)
qed

lemma read_round_cong:
  assumes v: "valid_pos (cReadBuf c)" and n: "\<And>c1. valid_pos (cReadBuf c1) \<Longrightarrow> \<not> cReadHeader c1 \<Longrightarrow> next c1 = next' c1"
  shows "read_round E next c = read_round E next' c"
proof (cases "cReadHeader c")
  case False
  then show ?thesis by (rule read_round_body(2) [OF v])
next
  case True
  from tx_read_positions [OF v, of E c] show ?thesis
  proof (cases rule: wp_cases)
    case (throws e c1)
    then show ?thesis by (simp add: read_round_def run_simps)
  next
    case (returns x c1)
    obtain op b where x: "x = (op, b)" by (cases x)
    have b: "valid_pos b" using returns(2) x by simp
    obtain r c2 where h: "read_header E (c1\<lparr>cReadBuf := b\<rparr>) = (r, c2)" by fastforce
    have h2: "next c2 = next' c2" if "r = Inr u" for u
      using read_header_clears [of "c1\<lparr>cReadBuf := b\<rparr>" E] b h that by (intro n) (auto simp: wp_def)
    have "(if opRead op then ret (Some op)
          else seqp (whenp (cReadHeader c) (read_header E))
            (withp (\<lambda>c. if \<not> at_end (cReadBuf c) then if eDatagram E then throw DatagramLimit else next else ret (Some op)))) (c1\<lparr>cReadBuf := b\<rparr>)
       = (if opRead op then ret (Some op)
          else seqp (whenp (cReadHeader c) (read_header E))
            (withp (\<lambda>c. if \<not> at_end (cReadBuf c) then if eDatagram E then throw DatagramLimit else next' else ret (Some op)))) (c1\<lparr>cReadBuf := b\<rparr>)"
      using returns x True h2 h by (cases r) (simp_all add: run_simps)
    with returns(1) x show ?thesis by (simp only: read_round_def run_simps then_run.simps prod.case)
  qed
qed

lemma read_round_value:
  assumes "\<And>c. fst (next c) \<noteq> Inr None"
  shows "fst (read_round E next c) \<noteq> Inr None"
proof -
  have n: "wp next (\<lambda>r _. r \<noteq> None) (\<lambda>_ _. True) c1" for c1
    using assms [of c1] by (auto simp: wp_def split: prod.split sum.split)
  define rest where "rest op = withp (\<lambda>c. if \<not> at_end (cReadBuf c) then if eDatagram E then throw DatagramLimit else next
     else ret (Some op))" for op
  have r: "wp (rest op) (\<lambda>r _. r \<noteq> None) (\<lambda>_ _. True) c1" for op c1
    using n by (simp add: rest_def wp_basic)
  have h: "wp (read_header E) (\<lambda>_. wp (rest op) (\<lambda>r _. r \<noteq> None) (\<lambda>_ _. True)) (\<lambda>_ _. True) c1" for op c1
    by (rule wp_mono [OF wp_true]) (rule r, rule TrueI)
  have "wp (read_round E next) (\<lambda>r _. r \<noteq> None) (\<lambda>_ _. True) c"
    unfolding read_round_def rest_def [symmetric] wp_basic(5) wp_bindp
    by (rule wp_mono [OF wp_true]) (use h r in \<open>auto simp: wp_seqp wp_basic wp_whenp\<close>)
  then show ?thesis by (cases rule: wp_cases) auto
qed

lemma read_loop_bound:
  assumes v: "valid_pos (cReadBuf c)"
  shows "read_loop E (Suc (Suc n)) c = read_loop E 2 c" "fst (read_loop E 2 c) \<noteq> Inr None"
proof -
  have "read_loop E (Suc (Suc n)) c = read_loop E (Suc (Suc m)) c" for m
    unfolding read_loop_round [of E "Suc _"]
    by (rule read_round_cong [OF v]) (simp only: read_loop_round, rule read_round_body(2))
  then show "read_loop E (Suc (Suc n)) c = read_loop E 2 c" by (simp only: numeral_2_eq_2)
  have two: "read_loop E 2 = read_round E (read_loop E 1)"
    by (simp add: numeral_2_eq_2 read_loop_round del: read_loop.simps)
  define nxt where "nxt = (\<lambda>c. if fst (read_loop E 1 c) = Inr None then (Inl ConnectionLost, c) else read_loop E 1 c)"
  have "read_loop E 1 c1 = nxt c1" if "valid_pos (cReadBuf c1)" "\<not> cReadHeader c1" for c1
  proof -
    have "wp (read_loop E 1) (\<lambda>r _. r \<noteq> None) (\<lambda>_ _. True) c1"
      unfolding One_nat_def read_loop_round by (rule read_round_body(1) [OF that])
    then show ?thesis unfolding nxt_def by (cases rule: wp_cases) (simp_all del: read_loop.simps One_nat_def)
  qed
  then have "read_loop E 2 c = read_round E nxt c"
    unfolding two by (rule read_round_cong [OF v])
  moreover have "fst (nxt c1) \<noteq> Inr None" for c1 by (simp add: nxt_def)
  ultimately show "fst (read_loop E 2 c) \<noteq> Inr None" using read_round_value [of nxt E c] by simp
qed

lemma start_next_length:
  "wp (start_next E n ns) (\<lambda>_ c'. length (cSendStreams c') = Suc (length ns)) (\<lambda>_ _. True) c"
proof -
  have tx: "wp (tx_write b) (\<lambda>_ c'. cSendStreams c' = cSendStreams c1) (\<lambda>_ _. True) c1" for b c1
    by (auto simp: tx_write_def wp_simps pop_answer_def Let_def split: list.split tx_answer.split)
  have s: "wp (bindp (tx_write b) (\<lambda>(op, b). seqp (modify (\<lambda>c. c\<lparr>cWriteBuf := b\<rparr>)) (ret op)))
     (\<lambda>_ c'. length (cSendStreams c') = Suc (length ns)) (\<lambda>_ _. True) c1" if "length (cSendStreams c1) = Suc (length ns)" for b c1
    unfolding wp_bindp by (rule wp_mono [OF tx]) (use that in \<open>auto simp: wp_seqp wp_basic\<close>)
  show ?thesis
    unfolding start_next_def wp_seqp [where m = "assertp _"] wp_basic(6) wp_bindp [where m = "lift _"] wp_lift
    by (auto simp: wp_seqp [where m = "modify _"] wp_basic(4) s split: sum.split)
qed

lemma then_run_cong: "m = m' \<Longrightarrow> (\<And>x s. m' = (Inr x, s) \<Longrightarrow> f x s = g x s) \<Longrightarrow> then_run m f = then_run m' g"
  by (cases m'; cases "fst m'") auto

lemma send_loop_bound:
  "length (cSendStreams c) \<le> n \<Longrightarrow> send_loop E cbs n c = send_loop E cbs (length (cSendStreams c)) c"
proof (induction n arbitrary: c cbs)
  case 0
  then show ?case by simp
next
  case (Suc n)
  show ?case
  proof (cases "cSendStreams c")
    case Nil
    then show ?thesis by (simp add: run_simps)
  next
    case (Cons m ms)
    have l: "send_loop E cbs n c1 = send_loop E cbs (length ms) c1" if "length (cSendStreams c1) = length ms" for cbs c1
      using Suc.IH [of c1 cbs] that Suc.prems Cons by simp
    define part where "part k = (\<lambda>cbs. case ms of
                [] \<Rightarrow> ret (AllSent, cbs)
              | n # ns \<Rightarrow> withp (\<lambda>c.
                  if StateClosingPending \<le> cState c then ret (LoopStops OpNone, cbs)
                  else bindp (catchp (bindp (start_next E n ns) (\<lambda>op. ret (Inr op))) (\<lambda>e. ret (Inl e)))
                    (\<lambda>r. case r of
                       Inl e \<Rightarrow> ret (LoopFails e, cbs)
                     | Inr op \<Rightarrow> if op \<noteq> OpNone then ret (LoopStops op, cbs) else send_loop E cbs k)))" for k
    have p: "part n cbs c1 = part (length ms) cbs c1" for cbs c1
    proof (cases ms)
      case Nil
      then show ?thesis by (simp add: part_def)
    next
      case ms: (Cons x xs)
      have "then_run (catchp (bindp (start_next E x xs) (\<lambda>op. ret (Inr op))) (\<lambda>e. ret (Inl e)) c1)
           (\<lambda>r. case r of Inl e \<Rightarrow> ret (LoopFails e, cbs)
              | Inr op \<Rightarrow> if op \<noteq> OpNone then ret (LoopStops op, cbs) else send_loop E cbs n)
         = then_run (catchp (bindp (start_next E x xs) (\<lambda>op. ret (Inr op))) (\<lambda>e. ret (Inl e)) c1)
           (\<lambda>r. case r of Inl e \<Rightarrow> ret (LoopFails e, cbs)
              | Inr op \<Rightarrow> if op \<noteq> OpNone then ret (LoopStops op, cbs) else send_loop E cbs (length ms))"
      proof (rule then_run_cong [OF refl])
        fix r s assume r: "catchp (bindp (start_next E x xs) (\<lambda>op. ret (Inr op))) (\<lambda>e. ret (Inl e)) c1 = (Inr r, s)"
        have "length (cSendStreams s) = length ms" if "r = Inr op" for op
          using start_next_length [of E x xs c1] r that ms
          by (cases rule: wp_cases) (auto simp: run_simps split: if_splits)
        then show "(case r of Inl e \<Rightarrow> ret (LoopFails e, cbs)
              | Inr op \<Rightarrow> if op \<noteq> OpNone then ret (LoopStops op, cbs) else send_loop E cbs n) s
           = (case r of Inl e \<Rightarrow> ret (LoopFails e, cbs)
              | Inr op \<Rightarrow> if op \<noteq> OpNone then ret (LoopStops op, cbs) else send_loop E cbs (length ms)) s"
          using l by (cases r) (simp_all del: send_loop.simps)
      qed
      then show ?thesis unfolding part_def ms list.case run_simps by (simp only: if_distribR run_simps)
    qed
    have "send_loop E cbs (Suc k) c = then_run (notify_sent E m cbs c) (\<lambda>cbs. seqp (modify (\<lambda>c. c\<lparr>cSendStreams := ms\<rparr>)) (part k cbs))" for k
      unfolding send_loop.simps part_def by (simp add: Cons run_simps(3,8))
    moreover have "seqp (modify (\<lambda>c. c\<lparr>cSendStreams := ms\<rparr>)) (part n cbs) = seqp (modify (\<lambda>c. c\<lparr>cSendStreams := ms\<rparr>)) (part (length ms) cbs)" for cbs
      by (rule ext) (simp add: run_simps p)
    ultimately show ?thesis by (simp only: Cons list.size add_0_right add_Suc_right)
  qed
qed

text \<open>
  C17: the loops end.  The loop that reads needs two rounds at most, the header and the body, so that a larger bound
  changes nothing and it never runs out; the loop that writes the queue needs one round for every message.
\<close>

theorem conn_loops_end:
  assumes "plain_env E" "reachable E c"
  shows "read_loop E (n + 2) c = read_loop E 2 c \<and> fst (read_loop E 2 c) \<noteq> Inr None
    \<and> send_loop E cbs (length (cSendStreams c) + n) c = send_loop E cbs (length (cSendStreams c)) c"
proof -
  have "valid_pos (cReadBuf c)" using reachable_good(1) [OF assms(2,1)] by (simp add: conn_inv_def inv_read_def)
  from read_loop_bound [OF this] show ?thesis
    using send_loop_bound [of c "length (cSendStreams c) + n"] unfolding add_2_eq_Suc' by simp
qed

theorem conn_loops_end_witness: "read_loop demo_env (7 + 2) demo_sending = read_loop demo_env 2 demo_sending"
  by (rule conn_loops_end [OF plain_demo demo_reachable(2), THEN conjunct1])

subsection \<open>Messages\<close>

text \<open>
  C18: the header of an incoming message is accepted exactly when its magic number is right, its protocol and encoding
  versions are supported and its size is at least the header's and at most \<open>Ice.MessageSizeMax\<close>; every other
  header is refused with the exception that names the first thing wrong.
\<close>

theorem header_checked:
  assumes "length (bBytes b) \<ge> headerSize" "bPos b = Some p" "p \<ge> headerSize" "eMessageSizeMax E < 2 ^ 31"
  shows "parse_header E b =
    (let h = bBytes b; size = sint (le_word (take 4 (drop 10 h)) :: ice_int) in
     if take 4 h \<noteq> magic then Inl (BadMagic (take 4 h))
     else if h ! 4 \<noteq> 1 \<or> h ! 5 \<noteq> 0 then Inl UnsupportedProtocol
     else if h ! 6 \<noteq> 1 \<or> h ! 7 \<noteq> 0 then Inl UnsupportedEncoding
     else if size < int headerSize then Inl IllegalMessageSize
     else if size > int (eMessageSizeMax E) then Inl MemoryLimit
     else Inr (nat size))"
proof -
  let ?h = "bBytes b"
  have l: "14 \<le> length ?h" and p: "\<not> buf_pos b < headerSize" using assms by (simp_all add: headerSize_def buf_pos_def)
  have z: "x \<le> 0 \<longleftrightarrow> x = 0" for x :: byte by (simp add: word_le_nat_alt unat_eq_0)
  have m: "sint (word_of_nat (eMessageSizeMax E) :: ice_int) = int (eMessageSizeMax E)"
    using assms(4) by (simp add: signed_of_nat signed_take_bit_int_eq_self)
  have n: "unat size = nat (sint size)" if "\<not> sint size < int headerSize" for size :: ice_int
  proof -
    have "0 \<le> sint size" using that by simp
    then have "sint size = int (unat size)" using sint_lt [of size] by (simp add: uint_sint take_bit_int_eq_self)
    then show ?thesis by simp
  qed
  show ?thesis
    using l p m n z by (simp add: parse_header_def check_magic_def istream_init_def read_raw_def read_version_def read_byte_def read_int_def
      checkSupportedProtocol_def checkSupportedProtocolEncoding_def isSupported_def version_consts Let_def)
qed

theorem header_checked_witness:
  "parse_header demo_env \<lparr>bBytes = validate_message, bPos = Some 14\<rparr> = Inr 14"
  using header_checked [of "\<lparr>bBytes = validate_message, bPos = Some 14\<rparr>" 14 demo_env]
  by (simp add: headerSize_def validate_message_def control_message_def magic_def version_consts Let_def)

subsection \<open>Request identifiers\<close>

text \<open>The ids that a connection gives to its next \<open>k\<close> requests.\<close>

fun request_ids :: "nat \<Rightarrow> ice_int \<Rightarrow> ice_int list" where
  "request_ids 0 n = []"
| "request_ids (Suc k) n = (case next_request_id n of (rid, nxt) \<Rightarrow> rid # request_ids k nxt)"

lemma next_id_small: "0 < m \<Longrightarrow> m < 2 ^ 31 \<Longrightarrow> next_request_id (word_of_nat m) = (word_of_nat m, word_of_nat (Suc m))"
  by (simp add: next_request_id_def word_sle_eq signed_of_nat signed_take_bit_int_eq_self)

lemma next_id_wraps: "next_request_id 2147483648 = (1, 2)"
proof -
  have "(2147483648 :: ice_int) \<le>s 0" by code_simp
  then show ?thesis by (simp add: next_request_id_def)
qed

lemma request_ids_from:
  "0 < m \<Longrightarrow> m \<le> 2 ^ 31 \<Longrightarrow> i < k \<Longrightarrow> request_ids k (word_of_nat m) ! i = word_of_nat ((m - 1 + i) mod (2 ^ 31 - 1) + 1)"
proof (induction k arbitrary: m i)
  case 0
  then show ?case by simp
next
  case (Suc k)
  define M :: nat where "M = 2 ^ 31 - 1"
  have M: "M > 1" by (simp add: M_def)
  show ?case
  proof (cases "m < 2 ^ 31")
    case True
    then have m: "m - 1 < M" using Suc.prems(1) by (simp add: M_def)
    show ?thesis
    proof (cases i)
      case 0
      with m True Suc.prems show ?thesis unfolding M_def [symmetric] by (simp add: next_id_small)
    next
      case (Suc j)
      then have j: "j < k" "m + j = m - 1 + i" using Suc.prems by simp_all
      have "request_ids k (word_of_nat (Suc m)) ! j = word_of_nat ((Suc m - 1 + j) mod (2 ^ 31 - 1) + 1)"
        using True j by (intro Suc.IH) simp_all
      with Suc j True Suc.prems show ?thesis by (simp add: next_id_small)
    qed
  next
    case False
    then have m: "m = 2 ^ 31" using Suc.prems by simp
    then have m1: "m - 1 = M" by (simp add: M_def)
    show ?thesis
    proof (cases i)
      case 0
      then show ?thesis unfolding M_def [symmetric] m1 unfolding m by (simp add: next_id_wraps)
    next
      case (Suc j)
      then have j: "j < k" using Suc.prems by simp
      have "request_ids k (word_of_nat 2) ! j = word_of_nat ((2 - 1 + j) mod (2 ^ 31 - 1) + 1)"
        using j by (intro Suc.IH) simp_all
      moreover have "(M + Suc j) mod M = Suc j mod M" "Suc (M + j) mod M = Suc j mod M"
        using mod_add_self1 [of M "Suc j"] by simp_all
      ultimately show ?thesis using Suc unfolding M_def [symmetric] m1 unfolding m by (simp add: next_id_wraps)
    qed
  qed
qed

text \<open>
  C19: the requests of a connection get the ids 1, 2, 3 and so on up to \<open>2 ^ 31 - 1\<close>, then 1 again: ids are always positive
  (0 and the negative ones mean no reply) and an id comes back after \<open>2 ^ 31 - 1\<close> requests only.
\<close>

theorem request_ids_cycle:
  assumes "i < k"
  shows "sint (request_ids k (cNextRequestId (connection_new E adapter monitor batch now answers)) ! i)
    = int (i mod (2 ^ 31 - 1)) + 1"
proof -
  define j where "j = i mod (2 ^ 31 - 1) + 1"
  have j: "j < 2 ^ 31" using mod_less_divisor [of "2 ^ 31 - 1" i] by (simp add: j_def)
  have "request_ids k (word_of_nat 1) ! i = word_of_nat ((1 - 1 + i) mod (2 ^ 31 - 1) + 1)"
    using assms by (intro request_ids_from) simp_all
  then have "request_ids k 1 ! i = word_of_nat j" by (simp add: j_def)
  moreover have "sint (word_of_nat j :: ice_int) = int j"
    using j by (simp add: signed_of_nat signed_take_bit_int_eq_self)
  ultimately show ?thesis by (simp add: connection_new_def j_def)
qed

theorem request_ids_cycle_witness: "sint (request_ids 3 (cNextRequestId demo_conn) ! 2) = 3"
  using request_ids_cycle [of 2 3] by (simp add: demo_conn_def)

subsection \<open>Compression\<close>

text \<open>
  C20: a message that the sender compresses is restored by the receiver: the body exactly, and the header except for the
  size field, which keeps the size of the compressed message.  Libbz2 is assumed to give back what it has compressed.
\<close>

theorem compression_roundtrip:
  assumes "\<And>body z. eBzCompress E body = Some z \<Longrightarrow> eBzDecompress E (length body) z = Some body"
    and "headerSize < length bs" "length bs \<le> eMessageSizeMax E" "eMessageSizeMax E < 2 ^ 31"
    and "doCompress E bs = Inr sent"
  shows "doUncompress E sent = Inr (poke (take headerSize bs) 10 (le_bytes 4 (word_of_nat (length sent) :: ice_int)) @ drop headerSize bs)"
proof -
  let ?size = "word_of_nat (length bs) :: ice_int"
  obtain z where z: "eBzCompress E (drop headerSize bs) = Some z"
    and sent: "sent = poke (take headerSize bs) 10 (le_bytes 4 (word_of_nat (length sent) :: ice_int)) @ le_bytes 4 ?size @ z"
  proof -
    from assms(5) obtain z where "eBzCompress E (drop headerSize bs) = Some z"
      "sent = poke (take headerSize bs) 10 (le_bytes 4 (word_of_nat (headerSize + 4 + length z) :: ice_int)) @ le_bytes 4 ?size @ z"
      by (auto simp: doCompress_def Let_def split: option.splits)
    note c = this
    have l: "length sent = headerSize + 4 + length z" by (subst c(2)) (use assms(2) in \<open>simp add: headerSize_def\<close>)
    show thesis by (rule that [OF c(1)]) (subst l, rule c(2))
  qed
  define h where "h = poke (take headerSize bs) 10 (le_bytes 4 (word_of_nat (length sent) :: ice_int))"
  have h: "length h = headerSize" using assms(2) by (simp add: h_def headerSize_def)
  have s: "sent = h @ le_bytes 4 ?size @ z" using sent by (simp only: h_def)
  have n: "length bs < 2 ^ 31" using assms(3,4) by simp
  then have size: "sint ?size = int (length bs)" "unat ?size = length bs"
    by (simp_all add: signed_of_nat signed_take_bit_int_eq_self unat_of_nat)
  have max: "sint (word_of_nat (eMessageSizeMax E) :: ice_int) = int (eMessageSizeMax E)"
    using assms(4) by (simp add: signed_of_nat signed_take_bit_int_eq_self)
  have r: "\<exists>s'. read_int ((istream_init currentProtocolEncoding sent)\<lparr>ipos := headerSize\<rparr>) = Inr (?size, s')"
    using h by (simp add: s read_int_def read_raw_def istream_init_def)
  have d: "drop (headerSize + 4) sent = z" "take headerSize sent = h" using h by (simp_all add: s)
  have b: "eBzDecompress E (length bs - headerSize) z = Some (drop headerSize bs)"
    using assms(1) [OF z] by simp
  from r b assms(2,3) show ?thesis
    by (auto simp: doUncompress_def size max d Let_def h_def [symmetric])
qed

theorem compression_roundtrip_witness:
  "\<exists>sent. doCompress demo_env demo_request = Inr sent \<and>
     doUncompress demo_env sent = Inr (poke (take headerSize demo_request) 10 (le_bytes 4 (word_of_nat (length sent) :: ice_int))
       @ drop headerSize demo_request)"
proof -
  obtain sent where s: "doCompress demo_env demo_request = Inr sent" by (auto simp: doCompress_def Let_def)
  with compression_roundtrip [OF _ _ _ _ s] show ?thesis by (simp add: headerSize_def)
qed

subsection \<open>The cached iterator\<close>

text \<open>\<open>drop_hint\<close> is the connection without \<open>_asyncRequestsHint\<close>: the slower code then looks the request up in the map.\<close>

definition drop_hint :: "conn \<Rightarrow> conn" where
  "drop_hint c = c\<lparr>cHint := None\<rparr>"

lemma drop_hint_sel [simp]:
  "cState (drop_hint c) = cState c" "cSendStreams (drop_hint c) = cSendStreams c" "cHint (drop_hint c) = None"
  "cAsyncRequests (drop_hint c) = cAsyncRequests c" "\<not> hint_is E out (drop_hint c)"
  by (simp_all add: drop_hint_def hint_is_def)










end
