(* ===== verification/HttpParser.thy ===== *)
theory HttpParser
  imports OrderedMap StringUtil
begin

section \<open>HTTP messages of the web socket handshake\<close>

text \<open>
  \<open>HttpParser\<close> (Ice/HttpParser.h, HttpParser.cpp): the state machine that reads an HTTP request or response.  The
  bytes between \<open>begin\<close> and \<open>end\<close> are a string and the pointers \<open>p\<close> and \<open>start\<close> are indices into it, \<open>start\<close> null
  (\<open>None\<close>) at the beginning of every call.  One step handles one character in one state; \<open>True\<close> is a \<open>break\<close>, which
  goes on to the next character, \<open>False\<close> a \<open>continue\<close>, which looks at the same one again.
\<close>

datatype http_type = TypeUnknown | TypeRequest | TypeResponse

datatype http_state =
    StateInit | StateType | StateTypeCheck | StateRequest | StateRequestMethod | StateRequestMethodSP
  | StateRequestURI | StateRequestURISP | StateRequestLF | StateHeaderFieldStart | StateHeaderFieldContStart
  | StateHeaderFieldCont | StateHeaderFieldNameStart | StateHeaderFieldName | StateHeaderFieldNameEnd
  | StateHeaderFieldValueStart | StateHeaderFieldValue | StateHeaderFieldValueEnd | StateHeaderFieldLF
  | StateHeaderFieldEndLF | StateVersion | StateVersionH | StateVersionHT | StateVersionHTT | StateVersionHTTP
  | StateVersionMajor | StateVersionMinor | StateResponse | StateResponseVersionSP | StateResponseStatus
  | StateResponseReasonStart | StateResponseReason | StateResponseLF | StateComplete

text \<open>\<open>HeaderFields\<close> maps the name in lower case to the name as it came and the value.\<close>

record http_parser =
  hpType :: http_type
  hpMethod :: string
  hpUri :: string
  hpHeaders :: "(string \<times> string \<times> string) list"
  hpHeaderName :: string
  hpVersionMajor :: ice_int
  hpVersionMinor :: ice_int
  hpStatus :: ice_int
  hpReason :: string
  hpState :: http_state

definition http_parser_new :: http_parser where
  "http_parser_new = \<lparr>hpType = TypeUnknown, hpMethod = [], hpUri = [], hpHeaders = [], hpHeaderName = [],
     hpVersionMajor = 0, hpVersionMinor = 0, hpStatus = 0, hpReason = [], hpState = StateInit\<rparr>"

definition CR :: char where "CR = CHR 0x0D"
definition LF :: char where "LF = CHR 0x0A"

text \<open>\<open>isCompleteMessage\<close>: the length of the first message, with the line breaks in front of it.\<close>

fun skip_breaks :: "string \<Rightarrow> nat" where
  "skip_breaks [] = 0"
| "skip_breaks (c # cs) = (if c \<noteq> CR \<and> c \<noteq> LF then 0 else Suc (skip_breaks cs))"

fun find_blank_line :: "string \<Rightarrow> bool \<Rightarrow> nat option" where
  "find_blank_line [] seenFirst = None"
| "find_blank_line (c # cs) seenFirst =
     (if c = LF then (if seenFirst then Some 1 else map_option Suc (find_blank_line cs True))
      else map_option Suc (find_blank_line cs (if c \<noteq> CR then False else seenFirst)))"

definition isCompleteMessage :: "string \<Rightarrow> nat option" where
  "isCompleteMessage bs =
     (let n = skip_breaks bs in map_option (\<lambda>k. n + k) (find_blank_line (drop n bs) False))"

text \<open>The text between \<open>start\<close> and \<open>p\<close>; without \<open>start\<close> the pointer is null.\<close>

definition text_from :: "string \<Rightarrow> nat option \<Rightarrow> nat \<Rightarrow> string result" where
  "text_from bs start p =
     (case start of None \<Rightarrow> Inl MemoryError | Some k \<Rightarrow> Inr (take (p - k) (drop k bs)))"

text \<open>One decimal digit more.\<close>

definition add_digit :: "ice_int \<Rightarrow> char \<Rightarrow> ice_int" where
  "add_digit n c = (if n = -1 then 0 else n) * 10 + word_of_nat (ord c - 48)"

definition put_value :: "string \<Rightarrow> string \<Rightarrow> http_parser \<Rightarrow> http_parser" where
  "put_value name v hp =
     (case map_of (hpHeaders hp) name of
        Some (raw, old) \<Rightarrow> hp\<lparr>hpHeaders := om_put name (raw, v) (hpHeaders hp)\<rparr>
      | None \<Rightarrow> hp)"

abbreviation bad :: "string \<Rightarrow> 'a result" where
  "bad what \<equiv> Inl (WebSocketException (''malformed '' @ what))"

text \<open>A break or a continue into the state \<open>st\<close>.\<close>

definition advance :: "nat option \<Rightarrow> http_state \<Rightarrow> http_parser \<Rightarrow> (bool \<times> nat option \<times> http_parser) result" where
  "advance start st hp = Inr (True, start, hp\<lparr>hpState := st\<rparr>)"

definition again :: "nat option \<Rightarrow> http_state \<Rightarrow> http_parser \<Rightarrow> (bool \<times> nat option \<times> http_parser) result" where
  "again start st hp = Inr (False, start, hp\<lparr>hpState := st\<rparr>)"

definition start_message :: "http_parser \<Rightarrow> http_parser" where
  "start_message hp = hp\<lparr>hpMethod := [], hpUri := [], hpVersionMajor := -1, hpVersionMinor := -1, hpStatus := -1,
     hpReason := [], hpHeaders := []\<rparr>"

subsection \<open>Header fields\<close>

definition http_continuation :: "string \<Rightarrow> nat \<Rightarrow> nat option \<Rightarrow> char \<Rightarrow> http_parser \<Rightarrow> (bool \<times> nat option \<times> http_parser) result" where
  "http_continuation bs p start c hp =
     (if c \<noteq> CR \<and> c \<noteq> LF then advance start StateHeaderFieldCont hp
      else and_then (text_from bs start p) (\<lambda>txt.
        if txt \<noteq> [] then
          (if hpHeaderName hp = [] then bad ''header''
           else case map_of (hpHeaders hp) (hpHeaderName hp) of
               None \<Rightarrow> Inl AssertFailed
             | Some (raw, old) \<Rightarrow>
                 advance start (if c = CR then StateHeaderFieldLF else StateHeaderFieldStart)
                   (put_value (hpHeaderName hp) (old @ '' '' @ txt) hp))
        else advance start (if c = CR then StateHeaderFieldEndLF else StateComplete) hp))"

definition add_name :: "string \<Rightarrow> http_parser \<Rightarrow> http_parser" where
  "add_name txt hp =
     (let name = toLower txt in
      hp\<lparr>hpHeaderName := name,
         hpHeaders := (if map_of (hpHeaders hp) name = None then om_put name (txt, []) (hpHeaders hp) else hpHeaders hp)\<rparr>)"

definition http_name_end :: "string \<Rightarrow> nat \<Rightarrow> nat option \<Rightarrow> char \<Rightarrow> http_parser \<Rightarrow> (bool \<times> nat option \<times> http_parser) result" where
  "http_name_end bs p start c hp =
     and_then
       (if hpHeaderName hp = [] then and_then (text_from bs start p) (\<lambda>txt. Inr (add_name txt hp)) else Inr hp)
       (\<lambda>hp.
         if c = CHR '' '' then advance start StateHeaderFieldNameEnd hp
         else if c \<noteq> CHR '':'' \<or> start = Some p then bad ''header''
         else advance start StateHeaderFieldValueStart hp)"

definition http_value_end :: "string \<Rightarrow> nat \<Rightarrow> nat option \<Rightarrow> char \<Rightarrow> http_parser \<Rightarrow> (bool \<times> nat option \<times> http_parser) result" where
  "http_value_end bs p start c hp =
     (if c \<noteq> CR \<and> c \<noteq> LF then Inl AssertFailed
      else and_then (text_from bs start p) (\<lambda>txt.
        and_then
          (if txt = [] then Inr hp
           else case map_of (hpHeaders hp) (hpHeaderName hp) of
               None \<Rightarrow> bad ''header''
             | Some (raw, old) \<Rightarrow> Inr (put_value (hpHeaderName hp) (if old = [] then txt else old @ '', '' @ txt) hp))
          (\<lambda>hp. advance start (if c = CR then StateHeaderFieldLF else StateHeaderFieldStart) hp)))"

subsection \<open>Versions and the status line\<close>

definition expect :: "char \<Rightarrow> char \<Rightarrow> string \<Rightarrow> nat option \<Rightarrow> http_state \<Rightarrow> http_parser \<Rightarrow> (bool \<times> nat option \<times> http_parser) result" where
  "expect c wanted what start st hp = (if c \<noteq> wanted then bad what else advance start st hp)"

definition http_version_minor :: "nat option \<Rightarrow> char \<Rightarrow> http_parser \<Rightarrow> (bool \<times> nat option \<times> http_parser) result" where
  "http_version_minor start c hp =
     (if c = CR then
        (if hpVersionMinor hp = -1 \<or> hpType hp \<noteq> TypeRequest then bad ''version'' else advance start StateRequestLF hp)
      else if c = LF then
        (if hpVersionMinor hp = -1 \<or> hpType hp \<noteq> TypeRequest then bad ''version'' else advance start StateHeaderFieldStart hp)
      else if c = CHR '' '' then
        (if hpVersionMinor hp = -1 \<or> hpType hp \<noteq> TypeResponse then bad ''version'' else advance start StateResponseVersionSP hp)
      else if \<not> isDigit c then bad ''version''
      else advance start StateVersionMinor (hp\<lparr>hpVersionMinor := add_digit (hpVersionMinor hp) c\<rparr>))"

definition http_status :: "nat option \<Rightarrow> char \<Rightarrow> http_parser \<Rightarrow> (bool \<times> nat option \<times> http_parser) result" where
  "http_status start c hp =
     (if c = CR \<or> c = LF \<or> c = CHR '' '' then
        (if hpStatus hp = -1 then bad ''response status''
         else advance start (if c = CR then StateResponseLF else if c = LF then StateHeaderFieldStart
                             else StateResponseReasonStart) hp)
      else if \<not> isDigit c then bad ''response status''
      else advance start StateResponseStatus (hp\<lparr>hpStatus := add_digit (hpStatus hp) c\<rparr>))"

subsection \<open>The switch\<close>

definition http_step :: "string \<Rightarrow> nat \<Rightarrow> nat option \<Rightarrow> http_parser \<Rightarrow> (bool \<times> nat option \<times> http_parser) result" where
  "http_step bs p start hp =
     (let c = bs ! p; st = hpState hp in
      case st of
        StateInit \<Rightarrow> again start StateType (start_message hp)
      | StateType \<Rightarrow>
          if c = CR \<or> c = LF then advance start st hp
          else if c = CHR ''H'' then advance start StateTypeCheck hp
          else again start StateRequest hp
      | StateTypeCheck \<Rightarrow>
          if c = CHR ''T'' then advance start StateResponse hp
          else if c = CHR ''E'' then advance start StateRequest (hp\<lparr>hpMethod := hpMethod hp @ ''HE''\<rparr>)
          else bad ''request or response''
      | StateRequest \<Rightarrow> again start StateRequestMethod (hp\<lparr>hpType := TypeRequest\<rparr>)
      | StateRequestMethod \<Rightarrow>
          if c = CHR '' '' \<or> c = CR \<or> c = LF then again start StateRequestMethodSP hp
          else advance start st (hp\<lparr>hpMethod := hpMethod hp @ [c]\<rparr>)
      | StateRequestMethodSP \<Rightarrow>
          if c = CHR '' '' then advance start st hp
          else if c = CR \<or> c = LF then bad ''request''
          else again start StateRequestURI hp
      | StateRequestURI \<Rightarrow>
          if c = CHR '' '' \<or> c = CR \<or> c = LF then again start StateRequestURISP hp
          else advance start st (hp\<lparr>hpUri := hpUri hp @ [c]\<rparr>)
      | StateRequestURISP \<Rightarrow>
          if c = CHR '' '' then advance start st hp
          else if c = CR \<or> c = LF then bad ''request''
          else again start StateVersion hp
      | StateRequestLF \<Rightarrow> expect c LF ''request'' start StateHeaderFieldStart hp
      | StateHeaderFieldStart \<Rightarrow>
          if c = CR then advance start StateHeaderFieldEndLF hp
          else if c = LF then advance start StateComplete hp
          else if c = CHR '' '' then advance start StateHeaderFieldContStart hp
          else again start StateHeaderFieldNameStart hp
      | StateHeaderFieldContStart \<Rightarrow>
          if c = CHR '' '' then advance start st hp else again (Some p) StateHeaderFieldCont hp
      | StateHeaderFieldCont \<Rightarrow> http_continuation bs p start c hp
      | StateHeaderFieldNameStart \<Rightarrow>
          if c = CHR '' '' then Inl AssertFailed
          else again (Some p) StateHeaderFieldName (hp\<lparr>hpHeaderName := []\<rparr>)
      | StateHeaderFieldName \<Rightarrow>
          if c = CHR '' '' \<or> c = CHR '':'' then again start StateHeaderFieldNameEnd hp
          else if c = CR \<or> c = LF then bad ''header''
          else advance start st hp
      | StateHeaderFieldNameEnd \<Rightarrow> http_name_end bs p start c hp
      | StateHeaderFieldValueStart \<Rightarrow>
          if c = CHR '' '' then advance start st hp
          else if c = CR then advance start StateHeaderFieldLF hp
          else if c = LF then advance start StateHeaderFieldStart hp
          else again (Some p) StateHeaderFieldValue hp
      | StateHeaderFieldValue \<Rightarrow>
          if c = CR \<or> c = LF then again start StateHeaderFieldValueEnd hp else advance start st hp
      | StateHeaderFieldValueEnd \<Rightarrow> http_value_end bs p start c hp
      | StateHeaderFieldLF \<Rightarrow> expect c LF ''header'' start StateHeaderFieldStart hp
      | StateHeaderFieldEndLF \<Rightarrow> expect c LF ''header'' start StateComplete hp
      | StateVersion \<Rightarrow> expect c (CHR ''H'') ''version'' start StateVersionH hp
      | StateVersionH \<Rightarrow> expect c (CHR ''T'') ''version'' start StateVersionHT hp
      | StateVersionHT \<Rightarrow> expect c (CHR ''T'') ''version'' start StateVersionHTT hp
      | StateVersionHTT \<Rightarrow> expect c (CHR ''P'') ''version'' start StateVersionHTTP hp
      | StateVersionHTTP \<Rightarrow> expect c (CHR ''/'') ''version'' start StateVersionMajor hp
      | StateVersionMajor \<Rightarrow>
          if c = CHR ''.'' then
            (if hpVersionMajor hp = -1 then bad ''version'' else advance start StateVersionMinor hp)
          else if \<not> isDigit c then bad ''version''
          else advance start st (hp\<lparr>hpVersionMajor := add_digit (hpVersionMajor hp) c\<rparr>)
      | StateVersionMinor \<Rightarrow> http_version_minor start c hp
      | StateResponse \<Rightarrow> again start StateVersionHT (hp\<lparr>hpType := TypeResponse\<rparr>)
      | StateResponseVersionSP \<Rightarrow>
          if c = CHR '' '' then advance start st hp else again start StateResponseStatus hp
      | StateResponseStatus \<Rightarrow> http_status start c hp
      | StateResponseReasonStart \<Rightarrow>
          if c = CHR '' '' then advance start st hp else again (Some p) StateResponseReason hp
      | StateResponseReason \<Rightarrow>
          if c \<noteq> CR \<and> c \<noteq> LF then advance start st hp
          else and_then (text_from bs start p) (\<lambda>txt.
            advance start (if c = CR then StateResponseLF else StateHeaderFieldStart)
              (if txt \<noteq> [] then hp\<lparr>hpReason := txt\<rparr> else hp))
      | StateResponseLF \<Rightarrow> expect c LF ''status line'' start StateHeaderFieldStart hp
      | StateComplete \<Rightarrow> Inl AssertFailed)"

text \<open>How often a character is looked at before the parser goes on: every \<open>continue\<close> lowers this number.\<close>

fun lookahead :: "http_state \<Rightarrow> nat" where
  "lookahead StateInit = 8"
| "lookahead StateType = 7"
| "lookahead StateRequest = 6"
| "lookahead StateRequestMethod = 5"
| "lookahead StateRequestMethodSP = 4"
| "lookahead StateRequestURI = 3"
| "lookahead StateRequestURISP = 2"
| "lookahead StateHeaderFieldStart = 3"
| "lookahead StateHeaderFieldNameStart = 2"
| "lookahead StateHeaderFieldName = 1"
| "lookahead StateHeaderFieldContStart = 1"
| "lookahead StateHeaderFieldValueStart = 2"
| "lookahead StateHeaderFieldValue = 1"
| "lookahead StateResponse = 1"
| "lookahead StateResponseVersionSP = 1"
| "lookahead StateResponseReasonStart = 1"
| "lookahead _ = 0"

lemmas step_defs = http_step_def advance_def again_def expect_def http_continuation_def http_name_end_def http_value_end_def
  http_version_minor_def http_status_def Let_def

lemma continue_lowers: "http_step bs p start hp = Inr (False, start', hp') \<Longrightarrow> lookahead (hpState hp') < lookahead (hpState hp)"
  by (cases "hpState hp") (auto simp: step_defs and_then_def split: if_splits sum.splits option.splits)

function http_loop :: "string \<Rightarrow> nat \<Rightarrow> nat option \<Rightarrow> http_parser \<Rightarrow> http_parser result" where
  "http_loop bs p start hp =
     (if p < length bs \<and> hpState hp \<noteq> StateComplete then
        (case http_step bs p start hp of
           Inl e \<Rightarrow> Inl e
         | Inr (True, start', hp') \<Rightarrow> http_loop bs (Suc p) start' hp'
         | Inr (False, start', hp') \<Rightarrow> http_loop bs p start' hp')
      else Inr hp)"
  by pat_completeness auto
termination
  by (relation "inv_image (less_than <*lex*> less_than) (\<lambda>(bs, p, start, hp). (length bs - p, lookahead (hpState hp)))")
    (auto dest: continue_lowers)

declare http_loop.simps [simp del]

text \<open>\<open>parse\<close> gives the parser and whether the message is complete.\<close>

definition http_parse :: "string \<Rightarrow> http_parser \<Rightarrow> (bool \<times> http_parser) result" where
  "http_parse bs hp =
     and_then (http_loop bs 0 None (if hpState hp = StateComplete then hp\<lparr>hpState := StateInit\<rparr> else hp))
       (\<lambda>hp. Inr (hpState hp = StateComplete, hp))"

subsection \<open>What the parser has read\<close>

definition http_method :: "http_parser \<Rightarrow> string result" where
  "http_method hp = (if hpType hp = TypeRequest then Inr (hpMethod hp) else Inl AssertFailed)"

definition http_uri :: "http_parser \<Rightarrow> string result" where
  "http_uri hp = (if hpType hp = TypeRequest then Inr (hpUri hp) else Inl AssertFailed)"

definition getHeader :: "string \<Rightarrow> bool \<Rightarrow> http_parser \<Rightarrow> string option" where
  "getHeader name lower hp =
     (case map_of (hpHeaders hp) (toLower name) of
        None \<Rightarrow> None
      | Some (raw, v) \<Rightarrow> Some (if lower then toLower (trim v) else trim v))"

definition getHeaders :: "http_parser \<Rightarrow> (string \<times> string) list" where
  "getHeaders hp = foldl (\<lambda>m (k, raw, v). om_insert raw (trim v) m) [] (hpHeaders hp)"

end
