(* ===== verification/HttpProps.thy ===== *)
theory HttpProps
  imports HttpParser
begin

section \<open>HTTP messages: properties\<close>

subsection \<open>The parser never fails an assertion\<close>

text \<open>
  What holds between two steps of \<open>parse\<close>: \<open>start\<close> is set and not behind \<open>p\<close> in the states that use it, the current
  header name is in the map, and two states are entered on certain characters only.
\<close>

definition needs_start :: "http_state \<Rightarrow> bool" where
  "needs_start st \<longleftrightarrow> st \<in> {StateHeaderFieldCont, StateHeaderFieldName, StateHeaderFieldNameEnd, StateHeaderFieldValue,
     StateHeaderFieldValueEnd, StateResponseReason}"

definition http_ok :: "string \<Rightarrow> nat \<Rightarrow> nat option \<Rightarrow> http_parser \<Rightarrow> bool" where
  "http_ok bs p start hp \<longleftrightarrow>
     om_wf (hpHeaders hp)
     \<and> (needs_start (hpState hp) \<longrightarrow> start \<noteq> None)
     \<and> (hpHeaderName hp \<noteq> [] \<longrightarrow> hpState hp \<noteq> StateInit \<and> map_of (hpHeaders hp) (hpHeaderName hp) \<noteq> None)
     \<and> (p < length bs \<longrightarrow> hpState hp = StateHeaderFieldNameStart \<longrightarrow> bs ! p \<noteq> CHR '' '')
     \<and> (p < length bs \<longrightarrow> hpState hp = StateHeaderFieldValueEnd \<longrightarrow> bs ! p = CR \<or> bs ! p = LF)"

fun step_ok :: "string \<Rightarrow> nat \<Rightarrow> (bool \<times> nat option \<times> http_parser) result \<Rightarrow> bool" where
  "step_ok bs p (Inl e) \<longleftrightarrow> e \<noteq> AssertFailed \<and> e \<noteq> MemoryError"
| "step_ok bs p (Inr (adv, start, hp)) \<longleftrightarrow> http_ok bs (if adv then Suc p else p) start hp"

lemma put_value_ok:
  assumes "om_wf (hpHeaders hp)"
  shows "om_wf (hpHeaders (put_value k v hp))" "map_of (hpHeaders hp) x \<noteq> None \<Longrightarrow> map_of (hpHeaders (put_value k v hp)) x \<noteq> None"
    "hpHeaderName (put_value k v hp) = hpHeaderName hp" "hpState (put_value k v hp) = hpState hp"
  using assms by (auto simp: put_value_def map_of_om_put split: option.split)

lemma add_name_ok:
  assumes "om_wf (hpHeaders hp)"
  shows "om_wf (hpHeaders (add_name txt hp))" "map_of (hpHeaders (add_name txt hp)) (hpHeaderName (add_name txt hp)) \<noteq> None"
    "hpState (add_name txt hp) = hpState hp"
  using assms by (auto simp: add_name_def Let_def map_of_om_put)

lemma text_from_ok: "start \<noteq> None \<Longrightarrow> \<exists>txt. text_from bs start p = Inr txt"
  by (auto simp: text_from_def)

lemma step_ok_advance:
  "step_ok bs p (advance start st hp) = http_ok bs (Suc p) start (hp\<lparr>hpState := st\<rparr>)"
  "step_ok bs p (again start st hp) = http_ok bs p start (hp\<lparr>hpState := st\<rparr>)"
  by (simp_all add: advance_def again_def)

lemma http_ok_state:
  assumes "om_wf (hpHeaders hp)" "hpHeaderName hp \<noteq> [] \<longrightarrow> map_of (hpHeaders hp) (hpHeaderName hp) \<noteq> None"
    and "st \<notin> {StateInit, StateHeaderFieldNameStart, StateHeaderFieldValueEnd}" "needs_start st \<longrightarrow> start \<noteq> None"
  shows "http_ok bs p start (hp\<lparr>hpState := st\<rparr>)"
  using assms by (simp add: http_ok_def)

lemma http_step_ok:
  assumes "http_ok bs p start hp" "p < length bs" "hpState hp \<noteq> StateComplete"
  shows "step_ok bs p (http_step bs p start hp)"
proof -
  have wf: "om_wf (hpHeaders hp)" and n: "hpHeaderName hp \<noteq> [] \<longrightarrow> map_of (hpHeaders hp) (hpHeaderName hp) \<noteq> None"
    using assms(1) by (simp_all add: http_ok_def)
  note k = put_value_ok [OF wf] add_name_ok [OF wf]
  have t: "\<exists>x. text_from bs start p = Inr x" if "needs_start (hpState hp)"
    using assms(1) that text_from_ok by (simp add: http_ok_def)
  have cont: "step_ok bs p (http_continuation bs p start c hp)" if st: "hpState hp = StateHeaderFieldCont" for c
  proof -
    obtain x where x: "text_from bs start p = Inr x" and "start \<noteq> None"
      using t st assms(1) by (auto simp: needs_start_def http_ok_def)
    with wf n k show ?thesis
      by (cases "map_of (hpHeaders hp) (hpHeaderName hp)")
        (auto simp: http_continuation_def step_ok_advance needs_start_def intro!: http_ok_state)
  qed
  have name: "step_ok bs p (http_name_end bs p start c hp)" if st: "hpState hp = StateHeaderFieldNameEnd" for c
  proof -
    obtain x where x: "text_from bs start p = Inr x" and s: "start \<noteq> None"
      using t st assms(1) by (auto simp: needs_start_def http_ok_def)
    show ?thesis
    proof (cases "hpHeaderName hp = []")
      case True
      with x s k show ?thesis
        by (auto simp: http_name_end_def step_ok_advance needs_start_def intro!: http_ok_state)
    next
      case False
      with wf n s show ?thesis
        by (auto simp: http_name_end_def step_ok_advance needs_start_def intro!: http_ok_state)
    qed
  qed
  have val: "step_ok bs p (http_value_end bs p start (bs ! p) hp)" if st: "hpState hp = StateHeaderFieldValueEnd"
  proof -
    obtain x where x: "text_from bs start p = Inr x" and s: "start \<noteq> None"
      using t st assms(1) by (auto simp: needs_start_def http_ok_def)
    have "bs ! p = CR \<or> bs ! p = LF" using assms(1,2) st by (simp add: http_ok_def)
    with x s wf n k show ?thesis
      by (cases "map_of (hpHeaders hp) (hpHeaderName hp)")
        (auto simp: http_value_end_def step_ok_advance needs_start_def intro!: http_ok_state)
  qed
  have reason: "step_ok bs p (http_step bs p start hp)" if st: "hpState hp = StateResponseReason"
  proof -
    obtain x where x: "text_from bs start p = Inr x" and s: "start \<noteq> None"
      using t st assms(1) by (auto simp: needs_start_def http_ok_def)
    with st wf n show ?thesis
      by (auto simp: http_step_def Let_def step_ok_advance needs_start_def intro!: http_ok_state)
  qed
  show ?thesis
  proof (cases "hpState hp \<in> {StateHeaderFieldCont, StateHeaderFieldNameEnd, StateHeaderFieldValueEnd, StateResponseReason}")
    case True
    with cont name val reason show ?thesis
      by (elim insertE) (simp_all add: http_step_def Let_def)
  next
    case False
    with assms wf n show ?thesis
      by (cases "hpState hp"; simp add: http_step_def expect_def http_version_minor_def http_status_def Let_def step_ok_advance;
          simp add: http_ok_def needs_start_def start_message_def)
  qed
qed

lemma http_loop_ok:
  "http_ok bs p start hp \<Longrightarrow> http_loop bs p start hp = Inl e \<Longrightarrow> e \<noteq> AssertFailed \<and> e \<noteq> MemoryError"
proof (induction bs p start hp rule: http_loop.induct)
  case (1 bs p start hp)
  show ?case
  proof (cases "p < length bs \<and> hpState hp \<noteq> StateComplete")
    case True
    then have ok: "step_ok bs p (http_step bs p start hp)" using http_step_ok [OF 1(3)] by simp
    show ?thesis
    proof (cases "http_step bs p start hp")
      case (Inl e')
      with True ok 1(4) show ?thesis by (simp add: http_loop.simps [of bs p])
    next
      case (Inr x)
      obtain adv start' hp' where x: "x = (adv, start', hp')" by (cases x) auto
      show ?thesis
        by (cases adv) (use 1 True ok Inr x in \<open>simp_all add: http_loop.simps [of bs p]\<close>)
    qed
  next
    case False
    with 1(4) show ?thesis by (auto simp: http_loop.simps [of bs p])
  qed
qed

subsection \<open>Scanning a message\<close>

text \<open>\<open>scan pre rest\<close> is the loop when \<open>pre\<close> has been read and \<open>rest\<close> is ahead.\<close>

definition scan :: "string \<Rightarrow> string \<Rightarrow> nat option \<Rightarrow> http_parser \<Rightarrow> http_parser result" where
  "scan pre rest start hp = http_loop (pre @ rest) (length pre) start hp"

lemma scan_step:
  "scan pre (c # cs) start hp =
     (if hpState hp = StateComplete then Inr hp
      else case http_step (pre @ c # cs) (length pre) start hp of
          Inl e \<Rightarrow> Inl e
        | Inr (True, start', hp') \<Rightarrow> scan (pre @ [c]) cs start' hp'
        | Inr (False, start', hp') \<Rightarrow> scan pre (c # cs) start' hp')"
  unfolding scan_def by (subst http_loop.simps) (simp split: sum.split prod.split bool.split)

lemma scan_complete: "hpState hp = StateComplete \<Longrightarrow> scan pre rest start hp = Inr hp"
  by (simp add: scan_def http_loop.simps)

lemma scan_break: "http_step (pre @ c # cs) (length pre) start hp = advance start' st hp' \<Longrightarrow> hpState hp \<noteq> StateComplete \<Longrightarrow>
    scan pre (c # cs) start hp = scan (pre @ [c]) cs start' (hp'\<lparr>hpState := st\<rparr>)"
  by (simp add: scan_step advance_def)

lemma scan_continue: "http_step (pre @ c # cs) (length pre) start hp = again start' st hp' \<Longrightarrow> hpState hp \<noteq> StateComplete \<Longrightarrow>
    scan pre (c # cs) start hp = scan pre (c # cs) start' (hp'\<lparr>hpState := st\<rparr>)"
  by (subst scan_step) (simp add: again_def)

definition no_chars :: "string \<Rightarrow> string \<Rightarrow> bool" where
  "no_chars cs s \<longleftrightarrow> (\<forall>c \<in> set s. c \<notin> set cs)"

lemma no_chars_simps [simp]: "no_chars cs []" "no_chars cs (c # s) \<longleftrightarrow> c \<notin> set cs \<and> no_chars cs s"
  by (auto simp: no_chars_def)

text \<open>The runs of ordinary characters in the method, the resource, a header's name and its value.\<close>

lemma scan_method:
  "no_chars [CHR '' '', CR, LF] m \<Longrightarrow> hpState hp = StateRequestMethod \<Longrightarrow>
     scan pre (m @ rest) start hp = scan (pre @ m) rest start (hp\<lparr>hpMethod := hpMethod hp @ m\<rparr>)"
proof (induction m arbitrary: pre hp)
  case (Cons c m)
  have "scan pre (c # m @ rest) start hp = scan (pre @ [c]) (m @ rest) start (hp\<lparr>hpMethod := hpMethod hp @ [c], hpState := StateRequestMethod\<rparr>)"
    by (rule scan_break) (use Cons.prems in \<open>simp_all add: http_step_def Let_def\<close>)
  moreover have "hp\<lparr>hpMethod := x, hpState := StateRequestMethod\<rparr> = hp\<lparr>hpMethod := x\<rparr>" for x using Cons.prems(2) by (cases hp) simp
  ultimately show ?case using Cons by simp
qed simp

lemma scan_uri:
  "no_chars [CHR '' '', CR, LF] u \<Longrightarrow> hpState hp = StateRequestURI \<Longrightarrow>
     scan pre (u @ rest) start hp = scan (pre @ u) rest start (hp\<lparr>hpUri := hpUri hp @ u\<rparr>)"
proof (induction u arbitrary: pre hp)
  case (Cons c u)
  have "scan pre (c # u @ rest) start hp = scan (pre @ [c]) (u @ rest) start (hp\<lparr>hpUri := hpUri hp @ [c], hpState := StateRequestURI\<rparr>)"
    by (rule scan_break) (use Cons.prems in \<open>simp_all add: http_step_def Let_def\<close>)
  moreover have "hp\<lparr>hpUri := x, hpState := StateRequestURI\<rparr> = hp\<lparr>hpUri := x\<rparr>" for x using Cons.prems(2) by (cases hp) simp
  ultimately show ?case using Cons by simp
qed simp

lemma scan_name:
  "no_chars [CHR '' '', CHR '':'', CR, LF] n \<Longrightarrow> hpState hp = StateHeaderFieldName \<Longrightarrow>
     scan pre (n @ rest) start hp = scan (pre @ n) rest start hp"
proof (induction n arbitrary: pre)
  case (Cons c n)
  have "scan pre (c # n @ rest) start hp = scan (pre @ [c]) (n @ rest) start (hp\<lparr>hpState := StateHeaderFieldName\<rparr>)"
    by (rule scan_break) (use Cons.prems in \<open>simp_all add: http_step_def Let_def\<close>)
  moreover have "hp\<lparr>hpState := StateHeaderFieldName\<rparr> = hp" using Cons.prems(2) by (cases hp) simp
  ultimately show ?case using Cons by simp
qed simp

lemma scan_value:
  "no_chars [CR, LF] v \<Longrightarrow> hpState hp = StateHeaderFieldValue \<Longrightarrow>
     scan pre (v @ rest) start hp = scan (pre @ v) rest start hp"
proof (induction v arbitrary: pre)
  case (Cons c v)
  have "scan pre (c # v @ rest) start hp = scan (pre @ [c]) (v @ rest) start (hp\<lparr>hpState := StateHeaderFieldValue\<rparr>)"
    by (rule scan_break) (use Cons.prems in \<open>simp_all add: http_step_def Let_def\<close>)
  moreover have "hp\<lparr>hpState := StateHeaderFieldValue\<rparr> = hp" using Cons.prems(2) by (cases hp) simp
  ultimately show ?case using Cons by simp
qed simp

text \<open>A header line, and what it does to the parser.\<close>

definition read_field :: "http_parser \<Rightarrow> string \<times> string \<Rightarrow> http_parser" where
  "read_field hp field =
     (case field of (n, v) \<Rightarrow>
        let hp = add_name n hp in
        if v = [] then hp
        else case map_of (hpHeaders hp) (hpHeaderName hp) of
            None \<Rightarrow> hp
          | Some (raw, old) \<Rightarrow> put_value (hpHeaderName hp) (if old = [] then v else old @ '', '' @ v) hp)"

definition header_line :: "string \<times> string \<Rightarrow> string" where
  "header_line field = fst field @ '': '' @ snd field @ [CR, LF]"

definition field_ok :: "string \<times> string \<Rightarrow> bool" where
  "field_ok field \<longleftrightarrow> fst field \<noteq> [] \<and> no_chars [CHR '' '', CHR '':'', CR, LF] (fst field)
     \<and> no_chars [CR, LF] (snd field) \<and> (snd field \<noteq> [] \<longrightarrow> hd (snd field) \<noteq> CHR '' '')"

lemma CR_LF [simp]: "CR \<noteq> LF" "LF \<noteq> CR" "CR \<noteq> CHR '' ''" "LF \<noteq> CHR '' ''" "CR \<noteq> CHR '':''" "LF \<noteq> CHR '':''"
  "CHR '' '' \<noteq> CR" "CHR '' '' \<noteq> LF" "CHR '':'' \<noteq> CR" "CHR '':'' \<noteq> LF"
  by (simp_all add: CR_def LF_def)

lemma add_name_state [simp]: "hpState (add_name n hp) = hpState hp" "add_name n (hp\<lparr>hpState := st\<rparr>) = (add_name n hp)\<lparr>hpState := st\<rparr>"
  "hpHeaderName (add_name n hp) = toLower n" "add_name n (hp\<lparr>hpHeaderName := k\<rparr>) = add_name n hp"
  by (simp_all add: add_name_def Let_def)

lemma put_value_state: "put_value k v (hp\<lparr>hpState := st\<rparr>) = (put_value k v hp)\<lparr>hpState := st\<rparr>"
  by (auto simp: put_value_def split: option.split)

lemma text_from_between: "text_from (pre @ s @ rest) (Some (length pre)) (length pre + length s) = Inr s"
  by (simp add: text_from_def)

lemma state_absorb: "hpState hp = st \<Longrightarrow> hp\<lparr>hpState := st\<rparr> = hp"
  by (cases hp) simp

lemma toLower_Nil [simp]: "toLower n = [] \<longleftrightarrow> n = []"
  by (simp add: toLower_def)

lemma scan_header_name:
  assumes n: "n \<noteq> []" "no_chars [CHR '' '', CHR '':'', CR, LF] n" and st: "hpState hp = StateHeaderFieldStart"
  shows "scan pre (n @ CHR '':'' # rest) start hp
    = scan (pre @ n @ '':'') rest (Some (length pre)) ((add_name n hp)\<lparr>hpState := StateHeaderFieldValueStart\<rparr>)"
proof -
  obtain c cs where c: "n = c # cs" using n(1) by (cases n) auto
  let ?r = "cs @ CHR '':'' # rest" and ?k = "Some (length pre)"
  have nc: "c \<noteq> CHR '' ''" "c \<noteq> CR" "c \<noteq> LF" "c \<noteq> CHR '':''" using n(2) c by auto
  have "scan pre (c # ?r) start hp = scan pre (c # ?r) start (hp\<lparr>hpState := StateHeaderFieldNameStart\<rparr>)"
    by (rule scan_continue) (use st nc in \<open>simp_all add: http_step_def Let_def\<close>)
  also have "\<dots> = scan pre (c # ?r) ?k (hp\<lparr>hpState := StateHeaderFieldNameStart, hpHeaderName := [], hpState := StateHeaderFieldName\<rparr>)"
    by (rule scan_continue) (use nc in \<open>simp_all add: http_step_def Let_def\<close>)
  also have "\<dots> = scan pre (n @ CHR '':'' # rest) ?k (hp\<lparr>hpHeaderName := [], hpState := StateHeaderFieldName\<rparr>)"
    by (simp add: c)
  also have "\<dots> = scan (pre @ n) (CHR '':'' # rest) ?k (hp\<lparr>hpHeaderName := [], hpState := StateHeaderFieldName\<rparr>)"
    by (rule scan_name [OF n(2)]) simp
  also have "\<dots> = scan (pre @ n) (CHR '':'' # rest) ?k (hp\<lparr>hpHeaderName := [], hpState := StateHeaderFieldName, hpState := StateHeaderFieldNameEnd\<rparr>)"
    by (rule scan_continue) (simp_all add: http_step_def Let_def)
  also have "\<dots> = scan ((pre @ n) @ [CHR '':'']) rest ?k ((add_name n hp)\<lparr>hpState := StateHeaderFieldNameEnd, hpState := StateHeaderFieldValueStart\<rparr>)"
    by (rule scan_break)
      (use n(1) text_from_between [of pre n "CHR '':'' # rest"] in \<open>simp_all add: http_step_def http_name_end_def Let_def\<close>)
  finally show ?thesis by (simp add: c)
qed

lemma scan_value_space:
  "hpState hp = StateHeaderFieldValueStart \<Longrightarrow> scan pre (CHR '' '' # rest) k hp = scan (pre @ '' '') rest k hp"
  using scan_break [of pre "CHR '' ''" rest k hp k StateHeaderFieldValueStart hp] by (simp add: http_step_def Let_def state_absorb)

lemma scan_LF:
  "hpState hp \<in> {StateHeaderFieldLF, StateRequestLF, StateResponseLF} \<Longrightarrow>
     scan pre (LF # rest) k hp = scan (pre @ [LF]) rest k (hp\<lparr>hpState := StateHeaderFieldStart\<rparr>)"
  by (rule scan_break) (auto simp: http_step_def expect_def)

lemma scan_header:
  assumes f: "field_ok (n, v)" and st: "hpState hp = StateHeaderFieldStart" and wf: "om_wf (hpHeaders hp)"
  shows "\<exists>start'. scan pre (header_line (n, v) @ rest) start hp = scan (pre @ header_line (n, v)) rest start' (read_field hp (n, v))"
proof -
  define P where "P = pre @ n @ '': ''"
  let ?hp = "add_name n hp" and ?k = "Some (length pre)" and ?pre = P
  have n: "n \<noteq> []" "no_chars [CHR '' '', CHR '':'', CR, LF] n" and v: "no_chars [CR, LF] v" using f by (simp_all add: field_ok_def)
  have wf1: "om_wf (hpHeaders ?hp)" and "map_of (hpHeaders ?hp) (toLower n) \<noteq> None"
    using add_name_ok [OF wf, of n] by simp_all
  then obtain raw old where old: "map_of (hpHeaders ?hp) (toLower n) = Some (raw, old)" by (cases "map_of (hpHeaders ?hp) (toLower n)") auto
  have "scan pre (n @ CHR '':'' # ('' '' @ v @ [CR, LF] @ rest)) start hp
     = scan (pre @ n @ '':'') ('' '' @ v @ [CR, LF] @ rest) ?k (?hp\<lparr>hpState := StateHeaderFieldValueStart\<rparr>)"
    by (rule scan_header_name [OF n st])
  also have "\<dots> = scan ?pre (v @ CR # LF # rest) ?k (?hp\<lparr>hpState := StateHeaderFieldValueStart\<rparr>)"
    using scan_value_space [of "?hp\<lparr>hpState := StateHeaderFieldValueStart\<rparr>" "pre @ n @ '':''" "v @ CR # LF # rest" ?k] by (simp add: P_def)
  finally have first: "scan pre (header_line (n, v) @ rest) start hp = scan ?pre (v @ CR # LF # rest) ?k (?hp\<lparr>hpState := StateHeaderFieldValueStart\<rparr>)"
    by (simp add: header_line_def)
  have "(\<exists>start'. scan ?pre (v @ CR # LF # rest) ?k (?hp\<lparr>hpState := StateHeaderFieldValueStart\<rparr>) = scan (?pre @ v) (CR # LF # rest) start' (?hp\<lparr>hpState := StateHeaderFieldValueStart\<rparr>)
     \<and> v = []) \<or> scan ?pre (v @ CR # LF # rest) ?k (?hp\<lparr>hpState := StateHeaderFieldValueStart\<rparr>) = scan (?pre @ v) (CR # LF # rest) (Some (length ?pre)) (?hp\<lparr>hpState := StateHeaderFieldValueEnd\<rparr>) \<and> v \<noteq> []"
  proof (cases v)
    case Nil
    then show ?thesis by auto
  next
    case (Cons c cs)
    then have c: "c \<noteq> CR" "c \<noteq> LF" "c \<noteq> CHR '' ''" using f by (auto simp: field_ok_def)
    let ?s = "Some (length ?pre)"
    have "scan ?pre (c # cs @ CR # LF # rest) ?k (?hp\<lparr>hpState := StateHeaderFieldValueStart\<rparr>)
       = scan ?pre (c # cs @ CR # LF # rest) ?s (?hp\<lparr>hpState := StateHeaderFieldValueStart, hpState := StateHeaderFieldValue\<rparr>)"
      by (rule scan_continue) (use c in \<open>simp_all add: http_step_def Let_def\<close>)
    also have "\<dots> = scan ?pre (v @ CR # LF # rest) ?s (?hp\<lparr>hpState := StateHeaderFieldValue\<rparr>)" by (simp add: Cons)
    also have "\<dots> = scan (?pre @ v) (CR # LF # rest) ?s (?hp\<lparr>hpState := StateHeaderFieldValue\<rparr>)"
      by (rule scan_value [OF v]) simp
    also have "\<dots> = scan (?pre @ v) (CR # LF # rest) ?s (?hp\<lparr>hpState := StateHeaderFieldValue, hpState := StateHeaderFieldValueEnd\<rparr>)"
      by (rule scan_continue) (simp_all add: http_step_def Let_def)
    finally show ?thesis using Cons by auto
  qed
  then obtain start' where "scan ?pre (v @ CR # LF # rest) ?k (?hp\<lparr>hpState := StateHeaderFieldValueStart\<rparr>)
       = scan (?pre @ v @ [CR]) (LF # rest) start' ((read_field hp (n, v))\<lparr>hpState := StateHeaderFieldLF\<rparr>)"
  proof (elim exE disjE conjE)
    fix start' assume a: "scan ?pre (v @ CR # LF # rest) ?k (?hp\<lparr>hpState := StateHeaderFieldValueStart\<rparr>)
      = scan (?pre @ v) (CR # LF # rest) start' (?hp\<lparr>hpState := StateHeaderFieldValueStart\<rparr>)" and v: "v = []"
    have "scan (?pre @ v) (CR # LF # rest) start' (?hp\<lparr>hpState := StateHeaderFieldValueStart\<rparr>)
      = scan ((?pre @ v) @ [CR]) (LF # rest) start' (?hp\<lparr>hpState := StateHeaderFieldValueStart, hpState := StateHeaderFieldLF\<rparr>)"
      by (rule scan_break) (simp_all add: http_step_def Let_def)
    with a v that [of start'] show thesis by (simp add: read_field_def)
  next
    assume a: "scan ?pre (v @ CR # LF # rest) ?k (?hp\<lparr>hpState := StateHeaderFieldValueStart\<rparr>)
      = scan (?pre @ v) (CR # LF # rest) (Some (length ?pre)) (?hp\<lparr>hpState := StateHeaderFieldValueEnd\<rparr>)" and v: "v \<noteq> []"
    have "scan (?pre @ v) (CR # LF # rest) (Some (length ?pre)) (?hp\<lparr>hpState := StateHeaderFieldValueEnd\<rparr>)
      = scan ((?pre @ v) @ [CR]) (LF # rest) (Some (length ?pre))
          ((put_value (toLower n) (if old = [] then v else old @ '', '' @ v) (?hp\<lparr>hpState := StateHeaderFieldValueEnd\<rparr>))\<lparr>hpState := StateHeaderFieldLF\<rparr>)"
      by (rule scan_break)
        (use v old text_from_between [of ?pre v "CR # LF # rest"] in \<open>simp_all add: http_step_def http_value_end_def Let_def\<close>)
    with a v old that [of "Some (length ?pre)"] show thesis by (simp add: read_field_def Let_def put_value_state)
  qed
  moreover note scan_LF [of "(read_field hp (n, v))\<lparr>hpState := StateHeaderFieldLF\<rparr>" "?pre @ v @ [CR]" rest start']
  moreover have "(read_field hp (n, v))\<lparr>hpState := StateHeaderFieldStart\<rparr> = read_field hp (n, v)"
    by (rule state_absorb) (use st old in \<open>simp add: read_field_def Let_def put_value_ok [OF wf1]\<close>)
  ultimately have "scan ?pre (v @ CR # LF # rest) ?k (?hp\<lparr>hpState := StateHeaderFieldValueStart\<rparr>)
     = scan (pre @ header_line (n, v)) rest start' (read_field hp (n, v))"
    by (simp add: header_line_def P_def)
  with first show ?thesis by auto
qed

text \<open>The version, character by character.\<close>

lemma scan_version:
  "hpState hp = StateVersion \<Longrightarrow> scan pre (CHR ''H'' # cs) k hp = scan (pre @ ''H'') cs k (hp\<lparr>hpState := StateVersionH\<rparr>)"
  "hpState hp = StateVersionH \<Longrightarrow> scan pre (CHR ''T'' # cs) k hp = scan (pre @ ''T'') cs k (hp\<lparr>hpState := StateVersionHT\<rparr>)"
  "hpState hp = StateVersionHT \<Longrightarrow> scan pre (CHR ''T'' # cs) k hp = scan (pre @ ''T'') cs k (hp\<lparr>hpState := StateVersionHTT\<rparr>)"
  "hpState hp = StateVersionHTT \<Longrightarrow> scan pre (CHR ''P'' # cs) k hp = scan (pre @ ''P'') cs k (hp\<lparr>hpState := StateVersionHTTP\<rparr>)"
  "hpState hp = StateVersionHTTP \<Longrightarrow> scan pre (CHR ''/'' # cs) k hp = scan (pre @ ''/'') cs k (hp\<lparr>hpState := StateVersionMajor\<rparr>)"
  "hpState hp = StateVersionMajor \<Longrightarrow> scan pre (CHR ''1'' # cs) k hp = scan (pre @ ''1'') cs k
     (hp\<lparr>hpVersionMajor := add_digit (hpVersionMajor hp) (CHR ''1''), hpState := StateVersionMajor\<rparr>)"
  "hpState hp = StateVersionMajor \<Longrightarrow> hpVersionMajor hp \<noteq> -1 \<Longrightarrow>
     scan pre (CHR ''.'' # cs) k hp = scan (pre @ ''.'') cs k (hp\<lparr>hpState := StateVersionMinor\<rparr>)"
  "hpState hp = StateVersionMinor \<Longrightarrow> scan pre (CHR ''1'' # cs) k hp = scan (pre @ ''1'') cs k
     (hp\<lparr>hpVersionMinor := add_digit (hpVersionMinor hp) (CHR ''1''), hpState := StateVersionMinor\<rparr>)"
  "hpState hp = StateVersionMinor \<Longrightarrow> hpVersionMinor hp \<noteq> -1 \<Longrightarrow> hpType hp = TypeRequest \<Longrightarrow>
     scan pre (CR # cs) k hp = scan (pre @ [CR]) cs k (hp\<lparr>hpState := StateRequestLF\<rparr>)"
  "hpState hp = StateVersionMinor \<Longrightarrow> hpVersionMinor hp \<noteq> -1 \<Longrightarrow> hpType hp = TypeResponse \<Longrightarrow>
     scan pre (CHR '' '' # cs) k hp = scan (pre @ '' '') cs k (hp\<lparr>hpState := StateResponseVersionSP\<rparr>)"
  by (rule scan_break; simp add: http_step_def expect_def http_version_minor_def isDigit_def CR_def LF_def Let_def)+

text \<open>The steps of a request line between its words.\<close>

lemma scan_words:
  "hpState hp = StateType \<Longrightarrow> c \<notin> {CR, LF, CHR ''H''} \<Longrightarrow>
     scan pre (c # cs) k hp = scan pre (c # cs) k (hp\<lparr>hpState := StateRequest\<rparr>)"
  "hpState hp = StateType \<Longrightarrow> scan pre (CHR ''H'' # cs) k hp = scan (pre @ ''H'') cs k (hp\<lparr>hpState := StateTypeCheck\<rparr>)"
  "hpState hp = StateTypeCheck \<Longrightarrow> scan pre (CHR ''E'' # cs) k hp
     = scan (pre @ ''E'') cs k (hp\<lparr>hpMethod := hpMethod hp @ ''HE'', hpState := StateRequest\<rparr>)"
  "hpState hp = StateTypeCheck \<Longrightarrow> scan pre (CHR ''T'' # cs) k hp = scan (pre @ ''T'') cs k (hp\<lparr>hpState := StateResponse\<rparr>)"
  "hpState hp = StateRequest \<Longrightarrow> scan pre (c # cs) k hp = scan pre (c # cs) k (hp\<lparr>hpType := TypeRequest, hpState := StateRequestMethod\<rparr>)"
  "hpState hp = StateRequestMethod \<Longrightarrow> scan pre (CHR '' '' # cs) k hp = scan pre (CHR '' '' # cs) k (hp\<lparr>hpState := StateRequestMethodSP\<rparr>)"
  "hpState hp = StateRequestMethodSP \<Longrightarrow> scan pre (CHR '' '' # cs) k hp = scan (pre @ '' '') cs k (hp\<lparr>hpState := StateRequestMethodSP\<rparr>)"
  "hpState hp = StateRequestMethodSP \<Longrightarrow> c \<notin> {CR, LF, CHR '' ''} \<Longrightarrow>
     scan pre (c # cs) k hp = scan pre (c # cs) k (hp\<lparr>hpState := StateRequestURI\<rparr>)"
  "hpState hp = StateRequestURI \<Longrightarrow> scan pre (CHR '' '' # cs) k hp = scan pre (CHR '' '' # cs) k (hp\<lparr>hpState := StateRequestURISP\<rparr>)"
  "hpState hp = StateRequestURISP \<Longrightarrow> scan pre (CHR '' '' # cs) k hp = scan (pre @ '' '') cs k (hp\<lparr>hpState := StateRequestURISP\<rparr>)"
  "hpState hp = StateRequestURISP \<Longrightarrow> scan pre (CHR ''H'' # cs) k hp = scan pre (CHR ''H'' # cs) k (hp\<lparr>hpState := StateVersion\<rparr>)"
  "hpState hp = StateResponse \<Longrightarrow> scan pre (c # cs) k hp = scan pre (c # cs) k (hp\<lparr>hpType := TypeResponse, hpState := StateVersionHT\<rparr>)"
  by ((rule scan_break scan_continue; simp add: http_step_def Let_def CR_def LF_def))+

lemma add_digit_1 [simp]: "add_digit (-1) (CHR ''1'') = 1"
  by code_simp

definition request_started :: "string \<Rightarrow> string \<Rightarrow> http_parser" where
  "request_started m u = (start_message http_parser_new)\<lparr>hpType := TypeRequest, hpMethod := m, hpUri := u,
     hpVersionMajor := 1, hpVersionMinor := 1, hpState := StateHeaderFieldStart\<rparr>"

definition method_ok :: "string \<Rightarrow> bool" where
  "method_ok m \<longleftrightarrow> m \<noteq> [] \<and> no_chars [CHR '' '', CR, LF] m \<and> (hd m = CHR ''H'' \<longrightarrow> take 2 m = ''HE'')"

lemma method_before_state: "hp\<lparr>hpState := st, hpMethod := m\<rparr> = hp\<lparr>hpMethod := m, hpState := st\<rparr>"
  by simp

lemma scan_request_method:
  assumes m: "method_ok m" and hp: "hpState hp = StateType" "hpMethod hp = []"
  shows "scan [] (m @ CHR '' '' # rest) None hp = scan m (CHR '' '' # rest) None (hp\<lparr>hpType := TypeRequest, hpState := StateRequestMethod, hpMethod := m\<rparr>)"
proof -
  obtain c cs where c: "m = c # cs" using m by (cases m) (auto simp: method_ok_def)
  have nc: "no_chars [CHR '' '', CR, LF] m" "c \<noteq> CR" "c \<noteq> LF" using m c by (auto simp: method_ok_def)
  show ?thesis
  proof (cases "c = CHR ''H''")
    case False
    then have "scan [] (m @ CHR '' '' # rest) None hp
      = scan [] (m @ CHR '' '' # rest) None (hp\<lparr>hpType := TypeRequest, hpState := StateRequestMethod\<rparr>)"
      using nc hp by (simp add: c scan_words)
    with scan_method [OF nc(1), of "hp\<lparr>hpType := TypeRequest, hpState := StateRequestMethod\<rparr>" "[]" "CHR '' '' # rest" None] hp
    show ?thesis by simp
  next
    case True
    then obtain ds where ds: "cs = CHR ''E'' # ds" using m c by (cases cs) (auto simp: method_ok_def)
    obtain x xs where x: "ds @ CHR '' '' # rest = x # xs" by (cases "ds @ CHR '' '' # rest") auto
    have "scan [] (m @ CHR '' '' # rest) None hp
      = scan ''HE'' (ds @ CHR '' '' # rest) None (hp\<lparr>hpMethod := ''HE'', hpType := TypeRequest, hpState := StateRequestMethod\<rparr>)"
      unfolding c ds True append_Cons x using hp by (simp add: scan_words)
    with scan_method [of ds "hp\<lparr>hpMethod := ''HE'', hpType := TypeRequest, hpState := StateRequestMethod\<rparr>" "''HE''" "CHR '' '' # rest" None]
      nc(1) c ds True show ?thesis by simp
  qed
qed

lemma scan_request_line:
  assumes m: "method_ok m" and u: "u \<noteq> []" "no_chars [CHR '' '', CR, LF] u"
  shows "scan [] (m @ '' '' @ u @ '' HTTP/1.1'' @ [CR, LF] @ rest) None http_parser_new
    = scan (m @ '' '' @ u @ '' HTTP/1.1'' @ [CR, LF]) rest None (request_started m u)"
proof -
  let ?r = "''HTTP/1.1'' @ [CR, LF] @ rest"
  define hp where "hp = (start_message http_parser_new)\<lparr>hpType := TypeRequest, hpMethod := m\<rparr>"
  obtain c cs where c: "u = c # cs" using u(1) by (cases u) auto
  have nc: "c \<notin> {CR, LF, CHR '' ''}" using u(2) c by auto
  have e: "hpUri hp = []" "hpVersionMajor hp = -1" "hpVersionMinor hp = -1" "hpType hp = TypeRequest"
    by (simp_all add: hp_def start_message_def)
  have "scan [] (m @ CHR '' '' # u @ CHR '' '' # ?r) None http_parser_new
     = scan [] (m @ CHR '' '' # u @ CHR '' '' # ?r) None ((start_message http_parser_new)\<lparr>hpState := StateType\<rparr>)"
    by (cases m) (auto simp: http_step_def Let_def http_parser_new_def intro: scan_continue)
  also have "\<dots> = scan m (CHR '' '' # u @ CHR '' '' # ?r) None (hp\<lparr>hpState := StateRequestMethod\<rparr>)"
    by (subst scan_request_method [OF m]) (simp_all add: start_message_def hp_def method_before_state)
  also have "\<dots> = scan (m @ '' '') (u @ CHR '' '' # ?r) None (hp\<lparr>hpState := StateRequestURI\<rparr>)"
    using nc by (simp add: scan_words c)
  also have "\<dots> = scan ((m @ '' '') @ u) (CHR '' '' # ?r) None (hp\<lparr>hpState := StateRequestURI, hpUri := u\<rparr>)"
    using scan_uri [OF u(2), of "hp\<lparr>hpState := StateRequestURI\<rparr>" "m @ '' ''" "CHR '' '' # ?r" None] e by simp
  also have "\<dots> = scan (m @ '' '' @ u @ '' HTTP/1.1'' @ [CR, LF]) rest None (request_started m u)"
    using e by (simp add: scan_words scan_version scan_LF) (simp add: request_started_def hp_def)
  finally show ?thesis by simp
qed

end
