(* ===== verification/HttpMessages.thy ===== *)
theory HttpMessages
  imports HttpProps
begin

section \<open>Whole HTTP messages\<close>

text \<open>
  What the parser reads from a message that was written the way the web socket transceiver writes one: the request or
  status line, a list of header lines, and a blank line.
\<close>

subsection \<open>The headers\<close>

lemma read_field_keeps:
  "hpState (read_field hp f) = hpState hp" "hpType (read_field hp f) = hpType hp" "hpMethod (read_field hp f) = hpMethod hp"
  "hpUri (read_field hp f) = hpUri hp" "hpVersionMajor (read_field hp f) = hpVersionMajor hp"
  "hpVersionMinor (read_field hp f) = hpVersionMinor hp" "hpStatus (read_field hp f) = hpStatus hp"
  "hpReason (read_field hp f) = hpReason hp"
  by (auto simp: read_field_def add_name_def put_value_def Let_def split: prod.split option.split)

lemma read_field_wf: "om_wf (hpHeaders hp) \<Longrightarrow> om_wf (hpHeaders (read_field hp f))"
  by (auto simp: read_field_def Let_def split: prod.split option.split intro!: put_value_ok add_name_ok)

lemma scan_headers:
  "\<forall>f \<in> set fs. field_ok f \<Longrightarrow> hpState hp = StateHeaderFieldStart \<Longrightarrow> om_wf (hpHeaders hp) \<Longrightarrow>
     \<exists>start'. scan pre (concat (map header_line fs) @ rest) start hp
       = scan (pre @ concat (map header_line fs)) rest start' (foldl read_field hp fs)"
proof (induction fs arbitrary: pre start hp)
  case Nil
  then show ?case by auto
next
  case (Cons f fs)
  obtain s where s: "scan pre (header_line f @ concat (map header_line fs) @ rest) start hp
      = scan (pre @ header_line f) (concat (map header_line fs) @ rest) s (read_field hp f)"
    using scan_header [of "fst f" "snd f" hp pre "concat (map header_line fs) @ rest" start] Cons.prems by auto
  with Cons.IH [of "read_field hp f" "pre @ header_line f" s] Cons.prems show ?case
    by (simp add: read_field_keeps read_field_wf)
qed

lemma scan_end:
  assumes "hpState hp = StateHeaderFieldStart"
  shows "scan pre ([CR, LF] @ rest) start hp = Inr (hp\<lparr>hpState := StateComplete\<rparr>)"
proof -
  have "scan pre (CR # LF # rest) start hp = scan (pre @ [CR]) (LF # rest) start (hp\<lparr>hpState := StateHeaderFieldEndLF\<rparr>)"
    by (rule scan_break) (use assms in \<open>simp_all add: http_step_def Let_def\<close>)
  also have "\<dots> = scan ((pre @ [CR]) @ [LF]) rest start (hp\<lparr>hpState := StateHeaderFieldEndLF, hpState := StateComplete\<rparr>)"
    by (rule scan_break) (simp_all only: http_step_def expect_def Let_def nth_append_length, simp_all)
  finally show ?thesis by (simp add: scan_complete)
qed

text \<open>The value of a header: its non-empty lines, joined.\<close>

definition header_values :: "string \<Rightarrow> (string \<times> string) list \<Rightarrow> string list" where
  "header_values k fs = filter (\<lambda>v. v \<noteq> []) (map snd (filter (\<lambda>f. toLower (fst f) = k) fs))"

lemma joinString_snoc: "joinString (vs @ [v]) d = (if vs = [] then v else joinString vs d @ d @ v)"
proof (induction vs)
  case (Cons x xs)
  then show ?case by (cases xs) auto
qed simp

lemma joinString_Nil: "[] \<notin> set vs \<Longrightarrow> joinString vs d = [] \<longleftrightarrow> vs = []"
  by (cases vs; cases "tl vs") auto

lemma read_field_lookup:
  assumes "om_wf (hpHeaders hp)"
  shows "map_option snd (map_of (hpHeaders (read_field hp (n, v))) k) =
    (if k = toLower n then
       (let old = (case map_of (hpHeaders hp) k of None \<Rightarrow> [] | Some x \<Rightarrow> snd x) in
        Some (if v = [] then old else if old = [] then v else old @ '', '' @ v))
     else map_option snd (map_of (hpHeaders hp) k))"
  using assms add_name_ok [OF assms, of n]
  by (auto simp: read_field_def Let_def put_value_def map_of_om_put add_name_def split: option.split)

lemma headers_lookup:
  assumes "hpHeaders hp = []"
  shows "map_option snd (map_of (hpHeaders (foldl read_field hp fs)) k) =
    (if \<exists>f \<in> set fs. toLower (fst f) = k then Some (joinString (header_values k fs) '', '') else None)
    \<and> om_wf (hpHeaders (foldl read_field hp fs))"
proof (induction fs rule: rev_induct)
  case Nil
  then show ?case using assms by simp
next
  case (snoc f fs)
  obtain n v where f: "f = (n, v)" by (cases f)
  let ?hp = "foldl read_field hp fs"
  have wf: "om_wf (hpHeaders ?hp)" using snoc by simp
  have old: "(case map_of (hpHeaders ?hp) k of None \<Rightarrow> [] | Some x \<Rightarrow> snd x) = joinString (header_values k fs) '', ''"
    using snoc by (cases "map_of (hpHeaders ?hp) k") (auto simp: header_values_def filter_empty_conv split: if_splits)
  have nil: "joinString (header_values k fs) '', '' = [] \<longleftrightarrow> header_values k fs = []"
    by (rule joinString_Nil) (auto simp: header_values_def)
  have "map_option snd (map_of (hpHeaders (read_field ?hp f)) k) =
     (if k = toLower n then Some (joinString (header_values k (fs @ [f])) '', '') else map_option snd (map_of (hpHeaders ?hp) k))"
    unfolding f read_field_lookup [OF wf] Let_def old nil by (auto simp: header_values_def joinString_snoc)
  then show ?case
    using snoc read_field_wf [OF wf, of f] by (auto simp: f header_values_def)
qed

lemma getHeader_fields:
  assumes "hpHeaders hp = []"
  shows "getHeader name lower ((foldl read_field hp fs)\<lparr>hpState := st\<rparr>) =
    (if \<exists>f \<in> set fs. toLower (fst f) = toLower name
     then (let v = trim (joinString (header_values (toLower name) fs) '', '') in Some (if lower then toLower v else v))
     else None)"
  using headers_lookup [OF assms, of fs "toLower name"]
  by (cases "map_of (hpHeaders (foldl read_field hp fs)) (toLower name)")
    (auto simp: getHeader_def Let_def split: if_splits)

subsection \<open>Requests\<close>

definition http_fields :: "(string \<times> string) list \<Rightarrow> string" where
  "http_fields fs = concat (map header_line fs) @ [CR, LF]"

definition http_request :: "string \<Rightarrow> string \<Rightarrow> (string \<times> string) list \<Rightarrow> string" where
  "http_request m u fs = m @ '' '' @ u @ '' HTTP/1.1'' @ [CR, LF] @ http_fields fs"

lemma scan_fields:
  assumes "\<forall>f \<in> set fs. field_ok f" "hpState hp = StateHeaderFieldStart" "om_wf (hpHeaders hp)"
  shows "scan pre (http_fields fs) start hp = Inr ((foldl read_field hp fs)\<lparr>hpState := StateComplete\<rparr>)"
proof -
  have k: "hpState (foldl read_field hp fs) = StateHeaderFieldStart"
    using assms(2) by (induction fs arbitrary: hp) (simp_all add: read_field_keeps)
  show ?thesis
    using scan_headers [OF assms, of pre "[CR, LF]" start] scan_end [OF k, of _ "[]"] by (auto simp: http_fields_def)
qed

lemma parse_request:
  assumes "method_ok m" "u \<noteq> []" "no_chars [CHR '' '', CR, LF] u" "\<forall>f \<in> set fs. field_ok f"
  shows "http_parse (http_request m u fs) http_parser_new
    = Inr (True, (foldl read_field (request_started m u) fs)\<lparr>hpState := StateComplete\<rparr>)"
proof -
  have "http_loop (http_request m u fs) 0 None http_parser_new = scan [] (http_request m u fs) None http_parser_new"
    by (simp add: scan_def)
  also have "\<dots> = Inr ((foldl read_field (request_started m u) fs)\<lparr>hpState := StateComplete\<rparr>)"
    unfolding http_request_def scan_request_line [OF assms(1-3)]
    by (rule scan_fields [OF assms(4)]) (simp_all add: request_started_def start_message_def)
  finally show ?thesis by (simp add: http_parse_def http_parser_new_def)
qed

subsection \<open>Responses\<close>

lemma scan_status:
  "hpState hp = StateResponseVersionSP \<Longrightarrow> c \<noteq> CHR '' '' \<Longrightarrow>
     scan pre (c # cs) k hp = scan pre (c # cs) k (hp\<lparr>hpState := StateResponseStatus\<rparr>)"
  "hpState hp = StateResponseStatus \<Longrightarrow> isDigit c \<Longrightarrow>
     scan pre (c # cs) k hp = scan (pre @ [c]) cs k (hp\<lparr>hpStatus := add_digit (hpStatus hp) c, hpState := StateResponseStatus\<rparr>)"
  "hpState hp = StateResponseStatus \<Longrightarrow> hpStatus hp \<noteq> -1 \<Longrightarrow>
     scan pre (CHR '' '' # cs) k hp = scan (pre @ '' '') cs k (hp\<lparr>hpState := StateResponseReasonStart\<rparr>)"
  "hpState hp = StateResponseReasonStart \<Longrightarrow> c \<noteq> CHR '' '' \<Longrightarrow>
     scan pre (c # cs) k hp = scan pre (c # cs) (Some (length pre)) (hp\<lparr>hpState := StateResponseReason\<rparr>)"
  by ((rule scan_break scan_continue; force simp: http_step_def http_status_def isDigit_def CR_def LF_def Let_def))+

lemma scan_reason:
  "no_chars [CR, LF] r \<Longrightarrow> hpState hp = StateResponseReason \<Longrightarrow>
     scan pre (r @ rest) start hp = scan (pre @ r) rest start hp"
proof (induction r arbitrary: pre)
  case (Cons c r)
  have "scan pre (c # r @ rest) start hp = scan (pre @ [c]) (r @ rest) start (hp\<lparr>hpState := StateResponseReason\<rparr>)"
    by (rule scan_break) (use Cons.prems in \<open>simp_all add: http_step_def Let_def\<close>)
  with Cons show ?case by (simp add: state_absorb)
qed simp

lemma scan_reason_end:
  assumes "hpState hp = StateResponseReason" "r \<noteq> []"
  shows "scan (pre @ r) (CR # rest) (Some (length pre)) hp
    = scan ((pre @ r) @ [CR]) rest (Some (length pre)) (hp\<lparr>hpReason := r, hpState := StateResponseLF\<rparr>)"
proof -
  have "text_from ((pre @ r) @ CR # rest) (Some (length pre)) (length (pre @ r)) = Inr r"
    using text_from_between [of pre r "CR # rest"] by simp
  moreover have "((pre @ r) @ CR # rest) ! length (pre @ r) = CR" by (rule nth_append_length)
  ultimately show ?thesis
    by (intro scan_break) (use assms in \<open>simp_all only: http_step_def Let_def\<close>, simp_all)
qed

definition response_started :: "string \<Rightarrow> http_parser" where
  "response_started r = (start_message http_parser_new)\<lparr>hpType := TypeResponse, hpVersionMajor := 1, hpVersionMinor := 1,
     hpStatus := 101, hpReason := r, hpState := StateHeaderFieldStart\<rparr>"

definition http_response :: "string \<Rightarrow> (string \<times> string) list \<Rightarrow> string" where
  "http_response r fs = ''HTTP/1.1 101 '' @ r @ [CR, LF] @ http_fields fs"

definition reason_ok :: "string \<Rightarrow> bool" where
  "reason_ok r \<longleftrightarrow> r \<noteq> [] \<and> hd r \<noteq> CHR '' '' \<and> no_chars [CR, LF] r"

lemma add_digit_101: "add_digit (add_digit 1 (CHR ''0'')) (CHR ''1'') = 101"
  by code_simp

lemma scan_status_line:
  assumes r: "reason_ok r"
  shows "scan [] (''HTTP/1.1 101 '' @ r @ [CR, LF] @ rest) None http_parser_new
    = scan (''HTTP/1.1 101 '' @ r @ [CR, LF]) rest (Some (length ''HTTP/1.1 101 '')) (response_started r)"
proof -
  let ?r = "r @ [CR, LF] @ rest" and ?pre = "''HTTP/1.1 101 ''"
  define hp where "hp = (start_message http_parser_new)\<lparr>hpType := TypeResponse\<rparr>"
  obtain c cs where c: "r = c # cs" using r by (cases r) (auto simp: reason_ok_def)
  have nc: "c \<noteq> CHR '' ''" "no_chars [CR, LF] r" using r c by (auto simp: reason_ok_def)
  have ne: "r \<noteq> []" by (simp add: c)
  have e: "hpVersionMajor hp = -1" "hpVersionMinor hp = -1" "hpType hp = TypeResponse" "hpStatus hp = -1"
    by (simp_all add: hp_def start_message_def)
  have "scan [] (?pre @ ?r) None http_parser_new
     = scan [] (?pre @ ?r) None ((start_message http_parser_new)\<lparr>hpState := StateType\<rparr>)"
    by (auto simp: http_step_def Let_def http_parser_new_def intro: scan_continue)
  also have "\<dots> = scan ''HT'' (''TP/1.1 101 '' @ ?r) None (hp\<lparr>hpState := StateVersionHT\<rparr>)"
    by (simp add: scan_words hp_def)
  also have "\<dots> = scan ?pre ?r None (hp\<lparr>hpVersionMajor := 1, hpVersionMinor := 1, hpStatus := 101, hpState := StateResponseReasonStart\<rparr>)"
    using e by (simp add: scan_version scan_status isDigit_def add_digit_101)
  also have "\<dots> = scan ?pre ?r (Some (length ?pre)) (hp\<lparr>hpVersionMajor := 1, hpVersionMinor := 1, hpStatus := 101, hpState := StateResponseReason\<rparr>)"
    unfolding c append_Cons by (subst scan_status(4)) (simp_all add: nc)
  finally have first: "scan [] (?pre @ ?r) None http_parser_new
     = scan ?pre ?r (Some (length ?pre)) (hp\<lparr>hpVersionMajor := 1, hpVersionMinor := 1, hpStatus := 101, hpState := StateResponseReason\<rparr>)" .
  have "scan pre ?r (Some (length pre)) (hp\<lparr>hpVersionMajor := 1, hpVersionMinor := 1, hpStatus := 101, hpState := StateResponseReason\<rparr>)
     = scan (pre @ r @ [CR, LF]) rest (Some (length pre)) (response_started r)" for pre
    by (simp add: scan_reason [OF nc(2)] scan_reason_end ne scan_LF)
      (simp add: hp_def response_started_def)
  from this [of ?pre] first show ?thesis by simp
qed

lemma parse_response:
  assumes "reason_ok r" "\<forall>f \<in> set fs. field_ok f"
  shows "http_parse (http_response r fs) http_parser_new
    = Inr (True, (foldl read_field (response_started r) fs)\<lparr>hpState := StateComplete\<rparr>)"
proof -
  have "http_loop (http_response r fs) 0 None http_parser_new = scan [] (http_response r fs) None http_parser_new"
    by (simp add: scan_def)
  also have "\<dots> = Inr ((foldl read_field (response_started r) fs)\<lparr>hpState := StateComplete\<rparr>)"
    unfolding http_response_def scan_status_line [OF assms(1)]
    by (rule scan_fields [OF assms(2)]) (simp_all add: response_started_def start_message_def)
  finally show ?thesis by (simp add: http_parse_def http_parser_new_def)
qed

end
