(* ===== verification/WSHandshake.thy ===== *)
theory WSHandshake
  imports HttpMessages Base64 "HOL-Library.Sublist"
begin

section \<open>The web socket handshake\<close>

text \<open>
  The upgrade request that \<open>WSTransceiver::initialize\<close> composes, \<open>handleRequest\<close> and \<open>handleResponse\<close>
  (cpp/src/Ice/WSTransceiver.cpp).  SHA-1 is a parameter: it comes with the operating system or OpenSSL.
\<close>

definition iceProtocol :: string where "iceProtocol = ''ice.zeroc.com''"
definition wsUUID :: string where "wsUUID = ''258EAFA5-E914-47DA-95CA-C5AB0DC85B11''"

definition crlf :: string where "crlf = [CR, LF]"

definition upgrade_request :: "string \<Rightarrow> string \<Rightarrow> string \<Rightarrow> string" where
  "upgrade_request resource host key =
     ''GET '' @ resource @ '' HTTP/1.1'' @ crlf @ ''Host: '' @ host @ crlf @ ''Upgrade: websocket'' @ crlf
       @ ''Connection: Upgrade'' @ crlf @ ''Sec-WebSocket-Protocol: '' @ iceProtocol @ crlf
       @ ''Sec-WebSocket-Version: 13'' @ crlf @ ''Sec-WebSocket-Key: '' @ key @ crlf @ crlf"

text \<open>The value of \<open>Sec-WebSocket-Accept\<close>.\<close>

definition accept_key :: "(byte list \<Rightarrow> byte list) \<Rightarrow> string \<Rightarrow> string" where
  "accept_key sha1 key = b64_encode (sha1 (bytes_of_string (key @ wsUUID)))"

definition ws_error :: "string \<Rightarrow> 'a result" where
  "ws_error reason = Inl (WebSocketException reason)"

definition invalid_value :: "string \<Rightarrow> string \<Rightarrow> 'a result" where
  "invalid_value v what = ws_error (''invalid value `'' @ v @ [CHR 0x27] @ '' for '' @ what)"

definition check :: "bool \<Rightarrow> unit result \<Rightarrow> unit result" where
  "check b e = (if b then Inr () else e)"

definition need_header :: "string \<Rightarrow> bool \<Rightarrow> string \<Rightarrow> http_parser \<Rightarrow> string result" where
  "need_header name lower what hp =
     (case getHeader name lower hp of None \<Rightarrow> ws_error (''missing value for '' @ what) | Some v \<Rightarrow> Inr v)"

text \<open>The checks that both sides make.\<close>

definition check_version :: "http_parser \<Rightarrow> unit result" where
  "check_version hp = check (hpVersionMajor hp = 1 \<and> hpVersionMinor hp = 1) (ws_error ''unsupported HTTP version'')"

definition check_upgrade :: "http_parser \<Rightarrow> unit result" where
  "check_upgrade hp =
     and_then (need_header ''Upgrade'' True ''Upgrade field'' hp) (\<lambda>v.
       and_then (check (v = ''websocket'') (invalid_value v ''Upgrade field'')) (\<lambda>_.
         and_then (need_header ''Connection'' True ''Connection field'' hp) (\<lambda>v.
           check (sublist ''upgrade'' v) (invalid_value v ''Connection field''))))"

fun check_protocols :: "string list \<Rightarrow> unit result" where
  "check_protocols [] = Inr ()"
| "check_protocols (p # ps) =
     (if trim p \<noteq> iceProtocol then ws_error (''unknown value `'' @ p @ [CHR 0x27] @ '' for WebSocket protocol'')
      else check_protocols ps)"

text \<open>The result is \<open>addProtocol\<close>: whether the request names the protocol at all.\<close>

definition offered_protocol :: "http_parser \<Rightarrow> bool result" where
  "offered_protocol hp =
     (case getHeader ''Sec-WebSocket-Protocol'' True hp of
        None \<Rightarrow> Inr False
      | Some v \<Rightarrow>
          (let (ok, protocols) = splitString v '','' in
           if \<not> ok then invalid_value v ''WebSocket protocol''
           else and_then (check_protocols protocols) (\<lambda>_. Inr (protocols \<noteq> []))))"

definition upgrade_response :: "(byte list \<Rightarrow> byte list) \<Rightarrow> bool \<Rightarrow> string \<Rightarrow> string" where
  "upgrade_response sha1 addProtocol key =
     ''HTTP/1.1 101 Switching Protocols'' @ crlf @ ''Upgrade: websocket'' @ crlf @ ''Connection: Upgrade'' @ crlf
       @ (if addProtocol then ''Sec-WebSocket-Protocol: '' @ iceProtocol @ crlf else [])
       @ ''Sec-WebSocket-Accept: '' @ accept_key sha1 key @ crlf @ crlf"

text \<open>\<open>handleRequest\<close> gives the resource that was asked for and the response.\<close>

definition handleRequest :: "(byte list \<Rightarrow> byte list) \<Rightarrow> http_parser \<Rightarrow> (string \<times> string) result" where
  "handleRequest sha1 hp =
     and_then (check_version hp) (\<lambda>_.
       and_then (check_upgrade hp) (\<lambda>_.
         and_then (need_header ''Sec-WebSocket-Version'' False ''WebSocket version'' hp) (\<lambda>v.
           and_then (check (v = ''13'') (ws_error (''unsupported WebSocket version `'' @ v @ [CHR 0x27]))) (\<lambda>_.
             and_then (offered_protocol hp) (\<lambda>addProtocol.
               and_then (need_header ''Sec-WebSocket-Key'' False ''WebSocket key'' hp) (\<lambda>key.
                 and_then (check (length (b64_decode key) = 16) (invalid_value key ''WebSocket key'')) (\<lambda>_.
                   and_then (http_uri hp) (\<lambda>uri.
                     Inr (uri, upgrade_response sha1 addProtocol key)))))))))"

text \<open>An integer as a stream prints it.\<close>

definition int_text :: "int \<Rightarrow> string" where
  "int_text n = (if n < 0 then CHR ''-'' # string_of_nat (nat (- n)) else string_of_nat (nat n))"

definition handleResponse :: "(byte list \<Rightarrow> byte list) \<Rightarrow> string \<Rightarrow> http_parser \<Rightarrow> unit result" where
  "handleResponse sha1 key hp =
     and_then (check_version hp) (\<lambda>_.
       and_then (check (hpStatus hp = 101)
           (ws_error (''unexpected status value '' @ int_text (sint (hpStatus hp))
              @ (if hpReason hp \<noteq> [] then '':'' @ [LF] @ hpReason hp else [])))) (\<lambda>_.
         and_then (check_upgrade hp) (\<lambda>_.
           and_then (case getHeader ''Sec-WebSocket-Protocol'' True hp of
               None \<Rightarrow> Inr ()
             | Some v \<Rightarrow> check (v = iceProtocol) (invalid_value v ''WebSocket protocol'')) (\<lambda>_.
             and_then (need_header ''Sec-WebSocket-Accept'' False ''Sec-WebSocket-Accept'' hp) (\<lambda>v.
               check (v = accept_key sha1 key) (invalid_value v ''Sec-WebSocket-Accept''))))))"

subsection \<open>The two sides agree\<close>

definition request_fields :: "string \<Rightarrow> string \<Rightarrow> (string \<times> string) list" where
  "request_fields host key = [(''Host'', host), (''Upgrade'', ''websocket''), (''Connection'', ''Upgrade''),
     (''Sec-WebSocket-Protocol'', iceProtocol), (''Sec-WebSocket-Version'', ''13''), (''Sec-WebSocket-Key'', key)]"

definition response_fields :: "string \<Rightarrow> (string \<times> string) list" where
  "response_fields accept = [(''Upgrade'', ''websocket''), (''Connection'', ''Upgrade''),
     (''Sec-WebSocket-Protocol'', iceProtocol), (''Sec-WebSocket-Accept'', accept)]"

lemma request_is_http: "upgrade_request resource host key = http_request ''GET'' resource (request_fields host key)"
  by (simp add: upgrade_request_def http_request_def request_fields_def http_fields_def header_line_def crlf_def)

lemma response_is_http:
  "upgrade_response sha1 True key = http_response ''Switching Protocols'' (response_fields (accept_key sha1 key))"
  by (simp add: upgrade_response_def http_response_def response_fields_def http_fields_def header_line_def crlf_def)

lemma header_names:
  "toLower ''Host'' = ''host''" "toLower ''Upgrade'' = ''upgrade''" "toLower ''Connection'' = ''connection''"
  "toLower ''Sec-WebSocket-Protocol'' = ''sec-websocket-protocol''"
  "toLower ''Sec-WebSocket-Version'' = ''sec-websocket-version''" "toLower ''Sec-WebSocket-Key'' = ''sec-websocket-key''"
  "toLower ''Sec-WebSocket-Accept'' = ''sec-websocket-accept''"
  by code_simp+

lemma header_texts:
  "toLower (trim ''websocket'') = ''websocket''" "toLower (trim ''Upgrade'') = ''upgrade''" "trim ''13'' = ''13''"
  "toLower (trim iceProtocol) = iceProtocol" "splitString iceProtocol '','' = (True, [iceProtocol])" "trim iceProtocol = iceProtocol"
  "sublist ''upgrade'' ''upgrade''" "iceProtocol \<noteq> []" "toLower iceProtocol = iceProtocol"
  by code_simp+

lemma trim_id: "\<forall>c \<in> set v. \<not> is_blank c \<Longrightarrow> trim v = v"
proof (cases v)
  case (Cons c cs)
  moreover assume "\<forall>c \<in> set v. \<not> is_blank c"
  ultimately have "\<not> is_blank c" "\<not> is_blank (last v)" by auto
  moreover obtain d ds where d: "rev v = d # ds" using Cons by (cases "rev v") auto
  moreover have "d = last v" using d by (metis hd_rev list.sel(1))
  ultimately have "find_char_if (\<lambda>c. \<not> is_blank c) v 0 = Some 0" "find_last_if (\<lambda>c. \<not> is_blank c) v = Some (length v - 1)"
    using Cons by (simp_all add: find_char_if_def find_last_if_def Let_def del: last.simps)
  with Cons show ?thesis by (simp add: trim_def)
qed (simp add: trim_def find_char_if_def)

lemma b64_short:
  assumes "length bs \<le> 57" "bs \<noteq> []"
  shows "\<forall>c \<in> set (b64_encode bs). isBase64 c" "b64_encode bs \<noteq> []"
proof -
  have "length (b64_groups bs) \<le> 4 * ((length bs + 2) div 3)" for bs
  proof (induction bs rule: b64_groups.induct)
    case (4 a b c bs)
    have "(length (a # b # c # bs) + 2) div 3 = (length bs + 2) div 3 + 1" by simp
    with 4 show ?case by simp
  qed auto
  then have "length (b64_groups bs) \<le> 4 * ((length bs + 2) div 3)" .
  also have "\<dots> \<le> 4 * 19" using assms(1) by (intro mult_le_mono) (simp_all add: div_le_mono)
  finally have "b64_encode bs = b64_groups bs" using assms(2) by (simp add: b64_encode_def b64_lines.simps)
  with groups_alphabet [of _ bs] assms(2) show "\<forall>c \<in> set (b64_encode bs). isBase64 c" "b64_encode bs \<noteq> []"
    by (auto elim: b64_groups.elims)
qed

lemma isBase64_plain: "isBase64 c \<Longrightarrow> \<not> is_blank c \<and> c \<noteq> CHR '' '' \<and> c \<noteq> CR \<and> c \<noteq> LF"
  by (auto simp: isBase64_def is_blank_def CR_def LF_def Let_def)

lemma plain_field: "\<forall>c \<in> set v. isBase64 c \<Longrightarrow> v \<noteq> [] \<Longrightarrow> trim v = v \<and> no_chars [CR, LF] v \<and> hd v \<noteq> CHR '' ''"
  using isBase64_plain hd_in_set [of v] by (auto simp: no_chars_def intro!: trim_id)

lemma request_headers:
  fixes st host and hp :: http_parser
  assumes "hpHeaders hp = []" and k: "\<forall>c \<in> set key. isBase64 c" "key \<noteq> []"
  defines "hp' \<equiv> (foldl read_field hp (request_fields host key))\<lparr>hpState := st\<rparr>"
  shows "getHeader ''Upgrade'' True hp' = Some ''websocket''" "getHeader ''Connection'' True hp' = Some ''upgrade''"
    "getHeader ''Sec-WebSocket-Protocol'' True hp' = Some iceProtocol" "getHeader ''Sec-WebSocket-Version'' False hp' = Some ''13''"
    "getHeader ''Sec-WebSocket-Key'' False hp' = Some key"
  using plain_field [OF k] k(2)
  unfolding hp'_def getHeader_fields [OF assms(1)]
  by (simp_all add: request_fields_def header_names header_values_def header_texts)

lemma response_headers:
  fixes st and hp :: http_parser
  assumes "hpHeaders hp = []" and k: "\<forall>c \<in> set key. isBase64 c" "key \<noteq> []"
  defines "hp' \<equiv> (foldl read_field hp (response_fields key))\<lparr>hpState := st\<rparr>"
  shows "getHeader ''Upgrade'' True hp' = Some ''websocket''" "getHeader ''Connection'' True hp' = Some ''upgrade''"
    "getHeader ''Sec-WebSocket-Protocol'' True hp' = Some iceProtocol" "getHeader ''Sec-WebSocket-Accept'' False hp' = Some key"
  using plain_field [OF k] k(2)
  unfolding hp'_def getHeader_fields [OF assms(1)]
  by (simp_all add: response_fields_def header_names header_values_def header_texts)

lemma fold_read_field_keeps:
  "hpUri (foldl read_field hp fs) = hpUri hp" "hpType (foldl read_field hp fs) = hpType hp"
  "hpVersionMajor (foldl read_field hp fs) = hpVersionMajor hp" "hpVersionMinor (foldl read_field hp fs) = hpVersionMinor hp"
  "hpStatus (foldl read_field hp fs) = hpStatus hp" "hpMethod (foldl read_field hp fs) = hpMethod hp"
  by (induction fs arbitrary: hp) (simp_all add: read_field_keeps)

lemma request_fields_ok:
  assumes "no_chars [CR, LF] host" "host \<noteq> [] \<longrightarrow> hd host \<noteq> CHR '' ''" "\<forall>c \<in> set key. isBase64 c" "key \<noteq> []"
  shows "\<forall>f \<in> set (request_fields host key). field_ok f"
  using assms plain_field [OF assms(3,4)]
  by (auto simp: request_fields_def field_ok_def iceProtocol_def CR_def LF_def)

lemma response_fields_ok:
  assumes "\<forall>c \<in> set key. isBase64 c" "key \<noteq> []"
  shows "\<forall>f \<in> set (response_fields key). field_ok f"
  using assms plain_field [OF assms]
  by (auto simp: response_fields_def field_ok_def iceProtocol_def CR_def LF_def)

text \<open>The server finds the end of the request whatever follows it.\<close>

lemma find_blank_line_line:
  "no_chars [CR, LF] line \<Longrightarrow> line \<noteq> [] \<Longrightarrow>
     find_blank_line (line @ [CR, LF] @ rest) seen = map_option (\<lambda>k. length line + 2 + k) (find_blank_line rest True)"
proof (induction line arbitrary: seen)
  case (Cons c cs)
  then show ?case
    by (cases "cs = []") (auto simp: option.map_comp comp_def)
qed simp

lemma find_blank_line_fields:
  "\<forall>f \<in> set fs. field_ok f \<Longrightarrow> find_blank_line (http_fields fs @ rest) True = Some (length (http_fields fs))"
proof (induction fs)
  case Nil
  then show ?case by (simp add: http_fields_def)
next
  case (Cons f fs)
  have fields: "http_fields (f # fs) = (fst f @ '': '' @ snd f) @ [CR, LF] @ http_fields fs"
    by (simp add: http_fields_def header_line_def)
  have line: "no_chars [CR, LF] (fst f @ '': '' @ snd f)" "fst f @ '': '' @ snd f \<noteq> []"
  proof -
    have "field_ok f" using Cons.prems by simp
    then show "no_chars [CR, LF] (fst f @ '': '' @ snd f)" "fst f @ '': '' @ snd f \<noteq> []"
      by (auto simp: field_ok_def no_chars_def)
  qed
  have "find_blank_line (http_fields (f # fs) @ rest) True
     = map_option (\<lambda>k. length (fst f @ '': '' @ snd f) + 2 + k) (find_blank_line (http_fields fs @ rest) True)"
    unfolding fields append_assoc [of _ _ rest] append_assoc [of "[CR, LF]" _ rest]
    by (rule find_blank_line_line [OF line])
  also have "find_blank_line (http_fields fs @ rest) True = Some (length (http_fields fs))"
    by (rule Cons.IH) (use Cons.prems in simp)
  finally show ?case by (simp add: fields)
qed

lemma request_is_complete:
  assumes "method_ok m" "no_chars [CHR '' '', CR, LF] u" "\<forall>f \<in> set fs. field_ok f"
  shows "isCompleteMessage (http_request m u fs @ rest) = Some (length (http_request m u fs))"
proof -
  let ?line = "m @ '' '' @ u @ '' HTTP/1.1''"
  have l: "no_chars [CR, LF] ?line" "?line \<noteq> []" using assms(1,2)
    by (auto simp: method_ok_def no_chars_def CR_def LF_def)
  obtain c cs where c: "m = c # cs" "c \<noteq> CR" "c \<noteq> LF" using assms(1) by (cases m) (auto simp: method_ok_def)
  have whole: "http_request m u fs @ rest = ?line @ [CR, LF] @ http_fields fs @ rest" by (simp add: http_request_def)
  have "skip_breaks (?line @ [CR, LF] @ http_fields fs @ rest) = 0" using c by simp
  then show ?thesis
    unfolding whole isCompleteMessage_def Let_def drop_0
    using find_blank_line_line [OF l, of "http_fields fs @ rest" False] find_blank_line_fields [OF assms(3), of rest]
    by (simp only: drop_0 option.map) (simp add: http_request_def)
qed

text \<open>
  C10: the upgrade request of a client with any resource and host and any key of 16 bytes is found complete, parsed
  and accepted by a server, which learns the resource; the server's response is parsed and accepted by that client.
\<close>

theorem ws_handshake_agrees:
  assumes resource: "resource \<noteq> []" "no_chars [CHR '' '', CR, LF] resource"
    and host: "no_chars [CR, LF] host" "host \<noteq> [] \<longrightarrow> hd host \<noteq> CHR '' ''"
    and key: "length rnd = 16" and sha1: "\<And>bs. length (sha1 bs) = 20"
  defines "key \<equiv> b64_encode rnd"
  shows "\<exists>server client response.
     isCompleteMessage (upgrade_request resource host key @ rest) = Some (length (upgrade_request resource host key))
     \<and> http_parse (upgrade_request resource host key) http_parser_new = Inr (True, server)
     \<and> handleRequest sha1 server = Inr (resource, response)
     \<and> http_parse response http_parser_new = Inr (True, client)
     \<and> handleResponse sha1 key client = Inr ()"
proof -
  let ?accept = "accept_key sha1 key"
  have k: "\<forall>c \<in> set key. isBase64 c" "key \<noteq> []" using b64_short [of rnd] key unfolding key_def by fastforce+
  have a: "\<forall>c \<in> set ?accept. isBase64 c" "?accept \<noteq> []"
    using b64_short [of "sha1 (bytes_of_string (key @ wsUUID))"] sha1 [of "bytes_of_string (key @ wsUUID)"]
    by (fastforce simp: accept_key_def)+
  have get: "method_ok ''GET''" "reason_ok ''Switching Protocols''"
    by (simp_all add: method_ok_def reason_ok_def CR_def LF_def)
  note fok = request_fields_ok [OF host k] response_fields_ok [OF a]
  have "handleRequest sha1 ((foldl read_field (request_started ''GET'' resource) (request_fields host key))\<lparr>hpState := StateComplete\<rparr>)
     = Inr (resource, upgrade_response sha1 True key)"
    using request_headers [OF _ k, where hp = "request_started ''GET'' resource" and host = host and st = StateComplete]
    by (simp add: handleRequest_def check_version_def check_upgrade_def need_header_def check_def header_texts offered_protocol_def
        fold_read_field_keeps request_started_def start_message_def http_uri_def b64_decode_encode key_def [symmetric])
      (simp add: key_def b64_decode_encode key)
  moreover have "handleResponse sha1 key ((foldl read_field (response_started ''Switching Protocols'') (response_fields ?accept))\<lparr>hpState := StateComplete\<rparr>)
     = Inr ()"
    using response_headers [OF _ a, where hp = "response_started ''Switching Protocols''" and st = StateComplete]
    by (simp add: handleResponse_def check_version_def check_upgrade_def need_header_def check_def header_texts
        fold_read_field_keeps response_started_def start_message_def)
  ultimately show ?thesis
    using request_is_complete [OF get(1) resource(2) fok(1), of rest] parse_request [OF get(1) resource fok(1)] parse_response [OF get(2) fok(2)]
    unfolding request_is_http response_is_http by blast
qed

theorem ws_handshake_agrees_witness:
  "\<exists>server client response.
     isCompleteMessage (upgrade_request ''/chat'' ''localhost'' (b64_encode (replicate 16 0)) @ [])
       = Some (length (upgrade_request ''/chat'' ''localhost'' (b64_encode (replicate 16 0))))
     \<and> http_parse (upgrade_request ''/chat'' ''localhost'' (b64_encode (replicate 16 0))) http_parser_new = Inr (True, server)
     \<and> handleRequest (\<lambda>_. replicate 20 0) server = Inr (''/chat'', response)
     \<and> http_parse response http_parser_new = Inr (True, client)
     \<and> handleResponse (\<lambda>_. replicate 20 0) (b64_encode (replicate 16 0)) client = Inr ()"
  by (rule ws_handshake_agrees) (simp_all add: CR_def LF_def)

text \<open>
  C11: whatever bytes arrive, a new parser ends without failing an assertion and without reading through its null
  \<open>start\<close> pointer.
\<close>

theorem http_parse_safe: "http_parse bs http_parser_new \<notin> {Inl AssertFailed, Inl MemoryError}"
proof -
  have "http_ok bs 0 None http_parser_new" by (simp add: http_ok_def http_parser_new_def needs_start_def)
  with http_loop_ok [of bs 0 None http_parser_new] show ?thesis
    by (cases "http_loop bs 0 None http_parser_new") (auto simp: http_parse_def http_parser_new_def)
qed

text \<open>
  The accessor does not throw: a client that sends a response with the headers of an upgrade request makes a server
  fail the assertion of \<open>HttpParser::uri\<close>, since \<open>handleRequest\<close> does not look at the type of the message.
\<close>

theorem response_to_server_asserts:
  "\<exists>hp. http_parse (http_response ''OK'' (request_fields ''h'' (b64_encode (replicate 16 0)))) http_parser_new = Inr (True, hp)
     \<and> handleRequest sha1 hp = Inl AssertFailed"
proof -
  let ?key = "b64_encode (replicate 16 0)"
  have k: "\<forall>c \<in> set ?key. isBase64 c" "?key \<noteq> []" using b64_short [of "replicate 16 0"] by fastforce+
  have "\<forall>f \<in> set (request_fields ''h'' ?key). field_ok f"
    by (rule request_fields_ok [OF _ _ k]) (simp_all add: CR_def LF_def)
  moreover have "reason_ok ''OK''" by (simp add: reason_ok_def CR_def LF_def)
  moreover have "handleRequest sha1 ((foldl read_field (response_started ''OK'') (request_fields ''h'' ?key))\<lparr>hpState := StateComplete\<rparr>)
     = Inl AssertFailed"
    using request_headers [OF _ k, where hp = "response_started ''OK''" and host = "''h''" and st = StateComplete]
    by (simp add: handleRequest_def check_version_def check_upgrade_def need_header_def check_def header_texts offered_protocol_def
        fold_read_field_keeps response_started_def start_message_def http_uri_def b64_decode_encode)
  ultimately show ?thesis using parse_response by blast
qed

end
