(* ===== verification/StreamSocket.thy ===== *)
theory StreamSocket
  imports ConnState
begin

section \<open>Stream sockets\<close>

text \<open>
  \<open>IceInternal::StreamSocket\<close> (cpp/src/Ice/StreamSocket.cpp) on a polled TCP socket without a proxy: the loops
  around \<open>recv\<close> and \<open>send\<close>.  The kernel is the environment: its answers to the calls, in order.  \<open>Recv bs\<close> says
  that \<open>bs\<close> is ready; what a call has no room for is left for the next one.  When the answers are used up the call
  would block.
\<close>

record buffer =
  bufB :: "byte list"
  bufI :: nat

definition no_buffer :: buffer where "no_buffer = \<lparr>bufB = [], bufI = 0\<rparr>"

datatype recv_answer = Recv "byte list" | RecvInterrupted | RecvNoBuffers | RecvWouldBlock | RecvLost | RecvFailed nat

datatype send_answer = Sent nat | SendInterrupted | SendNoBuffers | SendWouldBlock | SendLost | SendFailed nat

text \<open>The number of \<open>ENOBUFS\<close>.\<close>

definition noBuffersErrno :: nat where "noBuffersErrno = 105"

definition recv_more :: "byte list \<Rightarrow> nat \<Rightarrow> recv_answer list \<Rightarrow> recv_answer list" where
  "recv_more bs n as = (if n < length bs then Recv (drop n bs) # as else as)"

definition answers_size :: "recv_answer list \<Rightarrow> nat" where
  "answers_size as = sum_list (map (\<lambda>a. case a of Recv bs \<Rightarrow> Suc (length bs) | _ \<Rightarrow> 1) as)"

lemma answers_size_simps [simp]:
  "answers_size [] = 0"
  "answers_size (a # as) = (case a of Recv bs \<Rightarrow> Suc (length bs) | _ \<Rightarrow> 1) + answers_size as"
  "answers_size (recv_more bs n as) = (if n < length bs then Suc (length bs - n) else 0) + answers_size as"
  by (simp_all add: answers_size_def recv_more_def)

text \<open>\<open>read(char*, size_t)\<close>: \<open>got\<close> is what has been read, \<open>length\<close> what is left to read.\<close>

function sock_read :: "recv_answer list \<Rightarrow> nat \<Rightarrow> nat \<Rightarrow> byte list \<Rightarrow> byte list result \<times> recv_answer list" where
  "sock_read [] len packetSize got = (Inr got, [])"
| "sock_read (a # as) len packetSize got =
     (if len = 0 then (Inr got, a # as)
      else case a of
          RecvWouldBlock \<Rightarrow> (Inr got, as)
        | RecvInterrupted \<Rightarrow> sock_read as len packetSize got
        | RecvNoBuffers \<Rightarrow>
            if packetSize > 1024 then sock_read as len (packetSize div 2) got
            else (Inl (SocketError noBuffersErrno), as)
        | RecvLost \<Rightarrow> (Inl ConnectionLost, as)
        | RecvFailed n \<Rightarrow> (Inl (SocketError n), as)
        | Recv bs \<Rightarrow>
            (let n = min packetSize (length bs); rest = len - n in
             if n = 0 then (Inl ConnectionLost, as)
             else sock_read (recv_more bs n as) rest (if packetSize > rest then rest else packetSize) (got @ take n bs)))"
  by pat_completeness auto
termination
  by (relation "measure (\<lambda>(as, len, packetSize, got). answers_size as)") (auto simp: Let_def min_def split: if_splits)

text \<open>\<open>write(const char*, size_t)\<close>: \<open>sent\<close> is what the kernel has taken, also when an exception follows.\<close>

fun sock_write :: "send_answer list \<Rightarrow> byte list \<Rightarrow> nat \<Rightarrow> byte list \<Rightarrow> unit result \<times> byte list \<times> send_answer list" where
  "sock_write [] todo packetSize sent = (Inr (), sent, [])"
| "sock_write (a # as) todo packetSize sent =
     (if todo = [] then (Inr (), sent, a # as)
      else case a of
          SendWouldBlock \<Rightarrow> (Inr (), sent, as)
        | SendInterrupted \<Rightarrow> sock_write as todo packetSize sent
        | SendNoBuffers \<Rightarrow>
            if packetSize > 1024 then sock_write as todo (packetSize div 2) sent
            else (Inl (SocketError noBuffersErrno), sent, as)
        | SendLost \<Rightarrow> (Inl ConnectionLost, sent, as)
        | SendFailed n \<Rightarrow> (Inl (SocketError n), sent, as)
        | Sent k \<Rightarrow>
            (let n = min packetSize (min k (length todo)); rest = length todo - n in
             if n = 0 then (Inl ConnectionLost, sent, as)
             else sock_write as (drop n todo) (if packetSize > rest then rest else packetSize) (sent @ take n todo)))"

text \<open>\<open>read(Buffer&)\<close> and \<open>write(Buffer&)\<close> of a connected socket.\<close>

definition stream_read :: "recv_answer list \<Rightarrow> buffer \<Rightarrow> (sockop \<times> buffer) result \<times> recv_answer list" where
  "stream_read as b =
     (let room = length (bufB b) - bufI b in
      case sock_read as room room [] of
        (Inl e, as') \<Rightarrow> (Inl e, as')
      | (Inr bs, as') \<Rightarrow>
          (let b' = b\<lparr>bufB := poke (bufB b) (bufI b) bs, bufI := bufI b + length bs\<rparr> in
           (Inr (if bufI b' \<noteq> length (bufB b') then OpRead else OpNone, b'), as')))"

definition stream_write :: "send_answer list \<Rightarrow> buffer \<Rightarrow> (sockop \<times> buffer) result \<times> byte list \<times> send_answer list" where
  "stream_write as b =
     (let todo = drop (bufI b) (bufB b) in
      case sock_write as todo (length todo) [] of
        (Inl e, sent, as') \<Rightarrow> (Inl e, sent, as')
      | (Inr _, sent, as') \<Rightarrow>
          (let b' = b\<lparr>bufI := bufI b + length sent\<rparr> in
           (Inr (if bufI b' \<noteq> length (bufB b') then OpWrite else OpNone, b'), sent, as')))"

subsection \<open>Connecting\<close>

datatype socket_state = SockNeedConnect | SockConnectPending | SockConnected

text \<open>\<open>connect\<close>: \<open>finish\<close> is the outcome of \<open>doFinishConnect\<close>; connecting is waited for as writing is.\<close>

definition stream_connect :: "ice_error option \<Rightarrow> socket_state \<Rightarrow> sockop result \<times> socket_state" where
  "stream_connect finish st =
     (case st of
        SockNeedConnect \<Rightarrow> (Inr OpWrite, SockConnectPending)
      | SockConnectPending \<Rightarrow> (case finish of Some e \<Rightarrow> (Inl e, st) | None \<Rightarrow> (Inr OpNone, SockConnected))
      | SockConnected \<Rightarrow> (Inr OpNone, st))"

subsection \<open>What the loops move\<close>

definition arriving :: "recv_answer list \<Rightarrow> byte list" where
  "arriving as = concat (map (\<lambda>a. case a of Recv bs \<Rightarrow> bs | _ \<Rightarrow> []) as)"

lemma arriving_simps [simp]:
  "arriving [] = []" "arriving (a # as) = (case a of Recv bs \<Rightarrow> bs | _ \<Rightarrow> []) @ arriving as"
  "arriving (recv_more bs n as) = drop n bs @ arriving as"
  by (simp_all add: arriving_def recv_more_def)

lemma sock_read_moves:
  "sock_read as len packetSize got = (Inr bs, as') \<Longrightarrow> packetSize \<le> len \<Longrightarrow>
     \<exists>ds. bs = got @ ds \<and> length ds \<le> len \<and> ds @ arriving as' = arriving as"
proof (induction as len packetSize got rule: sock_read.induct)
  case (2 a as len packetSize got)
  show ?case
  proof (cases a)
    case (Recv cs)
    let ?n = "min packetSize (length cs)"
    show ?thesis
    proof (cases "len = 0")
      case False
      have n: "?n \<noteq> 0" using False "2.prems"(1) Recv by (cases "?n = 0") (simp_all add: Let_def)
      have run: "sock_read (recv_more cs ?n as) (len - ?n) (if packetSize > len - ?n then len - ?n else packetSize) (got @ take ?n cs) = (Inr bs, as')"
        using False "2.prems"(1) Recv n by (simp add: Let_def)
      have le: "(if packetSize > len - ?n then len - ?n else packetSize) \<le> len - ?n" by simp
      obtain ds where ds: "bs = (got @ take ?n cs) @ ds" "length ds \<le> len - ?n" "ds @ arriving as' = drop ?n cs @ arriving as"
        using "2.IH"(1) [OF False Recv refl refl n run le] by auto
      have "?n \<le> len" using "2.prems"(2) by simp
      with ds show ?thesis
        by (intro exI [of _ "take ?n cs @ ds"]) (auto simp: Recv)
    qed (use "2.prems"(1) in auto)
  qed (use 2 in \<open>auto split: if_splits\<close>)
qed simp

text \<open>An exception of the socket is one of the kernel's errors.\<close>

lemma sock_read_error:
  "sock_read as len packetSize got = (Inl e, as') \<Longrightarrow> e = ConnectionLost \<or> (\<exists>n. e = SocketError n)"
  by (induction as len packetSize got rule: sock_read.induct) (auto simp: Let_def split: if_splits recv_answer.splits)

lemma sock_write_moves:
  "sock_write as todo packetSize sent = (r, sent', as') \<Longrightarrow>
     (\<exists>ds. sent' = sent @ ds \<and> (\<exists>rest. todo = ds @ rest)) \<and> (r = Inr () \<or> r = Inl ConnectionLost \<or> (\<exists>n. r = Inl (SocketError n)))"
proof (induction as todo packetSize sent rule: sock_write.induct)
  case (2 a as todo packetSize sent)
  show ?case
  proof (cases a)
    case (Sent k)
    let ?n = "min packetSize (min k (length todo))"
    show ?thesis
    proof (cases "todo = [] \<or> ?n = 0")
      case False
      then have n: "todo \<noteq> []" "?n \<noteq> 0" by blast+
      have run: "sock_write as (drop ?n todo)
          (if packetSize > length todo - ?n then length todo - ?n else packetSize) (sent @ take ?n todo) = (r, sent', as')"
        using "2.prems"(1) unfolding Sent sock_write.simps Let_def send_answer.case if_not_P [OF n(1)] if_not_P [OF n(2)] .
      obtain ds rest where ds: "sent' = (sent @ take ?n todo) @ ds" "drop ?n todo = ds @ rest"
          and r: "r = Inr () \<or> r = Inl ConnectionLost \<or> (\<exists>n. r = Inl (SocketError n))"
        using "2.IH"(1) [OF n(1) Sent refl refl n(2) run] by auto
      have "todo = (take ?n todo @ ds) @ rest" using ds(2) by (metis append.assoc append_take_drop_id)
      with ds(1) r show ?thesis by (metis append.assoc)
    next
      case True
      with "2.prems"(1) Sent show ?thesis by (cases "todo = []") (auto simp: Let_def)
    qed
  qed (use 2 in \<open>auto split: if_splits\<close>)
qed auto

end
