(* ===== verification/WebSocket.thy ===== *)
theory WebSocket
  imports WSHandshake StreamSocket
begin

section \<open>The web socket transceiver\<close>

text \<open>
  \<open>IceInternal::WSTransceiver\<close> (cpp/src/Ice/WSTransceiver.h, WSTransceiver.cpp) over a TCP socket, on the platforms
  that poll (\<open>_readPending\<close> and \<open>_writePending\<close> belong to the others and stay false).  The message buffers of the
  running \<open>read\<close> and \<open>write\<close> are part of the state, since they are passed by reference.  Tracing is left out.
\<close>

subsection \<open>Frames\<close>

definition OP_CONT :: nat where "OP_CONT = 0"
definition OP_TEXT :: nat where "OP_TEXT = 1"
definition OP_DATA :: nat where "OP_DATA = 2"
definition OP_CLOSE :: nat where "OP_CLOSE = 8"
definition OP_PING :: nat where "OP_PING = 9"
definition OP_PONG :: nat where "OP_PONG = 10"
definition FLAG_FINAL :: byte where "FLAG_FINAL = 0x80"
definition FLAG_MASKED :: byte where "FLAG_MASKED = 0x80"

definition CLOSURE_NORMAL :: nat where "CLOSURE_NORMAL = 1000"
definition CLOSURE_SHUTDOWN :: nat where "CLOSURE_SHUTDOWN = 1001"
definition CLOSURE_PROTOCOL_ERROR :: nat where "CLOSURE_PROTOCOL_ERROR = 1002"
definition CLOSURE_TOO_BIG :: nat where "CLOSURE_TOO_BIG = 1009"

lemmas op_codes = OP_CONT_def OP_TEXT_def OP_DATA_def OP_CLOSE_def OP_PING_def OP_PONG_def

text \<open>Integers in network order.\<close>

definition htons :: "nat \<Rightarrow> byte list" where
  "htons n = [word_of_nat (n div 256), word_of_nat n]"

definition ntohs :: "byte list \<Rightarrow> nat" where
  "ntohs bs = 256 * unat (bs ! 0) + unat (bs ! 1)"

definition ice_htonll :: "ice_long \<Rightarrow> byte list" where
  "ice_htonll v = map (\<lambda>k. ucast (drop_bit (8 * k) v)) [7, 6, 5, 4, 3, 2, 1, 0]"

definition ice_nlltoh :: "byte list \<Rightarrow> ice_long" where
  "ice_nlltoh src = foldl (\<lambda>v b. push_bit 8 v OR ucast b) 0 (take 8 src)"

subsection \<open>The transceiver's state\<close>

datatype ws_state =
    WsInitializeDelegate | WsConnected | WsUpgradeRequestPending | WsUpgradeResponsePending | WsOpened
  | WsPingPending | WsPongPending | WsClosingRequestPending | WsClosingResponsePending | WsClosed

fun ws_state_num :: "ws_state \<Rightarrow> nat" where
  "ws_state_num WsInitializeDelegate = 0"
| "ws_state_num WsConnected = 1"
| "ws_state_num WsUpgradeRequestPending = 2"
| "ws_state_num WsUpgradeResponsePending = 3"
| "ws_state_num WsOpened = 4"
| "ws_state_num WsPingPending = 5"
| "ws_state_num WsPongPending = 6"
| "ws_state_num WsClosingRequestPending = 7"
| "ws_state_num WsClosingResponsePending = 8"
| "ws_state_num WsClosed = 9"

instantiation ws_state :: linorder
begin

definition less_eq_ws_state :: "ws_state \<Rightarrow> ws_state \<Rightarrow> bool" where
  "a \<le> b \<longleftrightarrow> ws_state_num a \<le> ws_state_num b"

definition less_ws_state :: "ws_state \<Rightarrow> ws_state \<Rightarrow> bool" where
  "a < b \<longleftrightarrow> ws_state_num a < ws_state_num b"

instance
proof
  fix a b :: ws_state
  show "a \<le> b \<Longrightarrow> b \<le> a \<Longrightarrow> a = b"
    by (cases a; cases b) (simp_all add: less_eq_ws_state_def)
qed (auto simp: less_eq_ws_state_def less_ws_state_def)

end

lemmas ws_order = less_eq_ws_state_def less_ws_state_def

datatype ws_read_state = ReadStateOpcode | ReadStateHeader | ReadStateControlFrame | ReadStatePayload

datatype ws_write_state = WriteStateHeader | WriteStatePayload | WriteStateControlFrame

text \<open>\<open>_readStart\<close> points into the buffer of the caller or into \<open>_readBuffer\<close>.\<close>

datatype ws_ptr = InMessage nat | InReadBuffer nat

text \<open>The constants of the object and its surroundings; \<open>xRandom\<close> are the bytes of the random source,
  \<open>xConnect\<close> the outcome of connecting the socket.\<close>

record ws_env =
  xIncoming :: bool
  xHost :: string
  xSha1 :: "byte list \<Rightarrow> byte list"
  xRandom :: "nat \<Rightarrow> byte"
  xMessageSizeMax :: nat
  xConnect :: "ice_error option"

definition readBufferSize :: nat where "readBufferSize = 1024"

definition writeBufferSize :: "ws_env \<Rightarrow> nat" where
  "writeBufferSize E = (if xIncoming E then 1024 else 16 * 1024)"

record ws =
  wState :: ws_state
  wNextState :: ws_state
  wParser :: http_parser
  wKey :: string
  wResource :: string
  wReadState :: ws_read_state
  wReadBuffer :: buffer
  wReadI :: nat
  wReadLastFrame :: bool
  wReadOpCode :: nat
  wReadHeaderLength :: nat
  wReadPayloadLength :: nat
  wReadStart :: ws_ptr
  wReadFrameStart :: nat
  wReadMask :: "byte list"
  wWriteState :: ws_write_state
  wWriteBuffer :: buffer
  wWriteMask :: "byte list"
  wWritePayloadLength :: nat
  wClosingInitiator :: bool
  wClosingReason :: nat
  wPingPayload :: "byte list"
  wIn :: buffer
  wOut :: buffer
  wSocket :: socket_state
  wArriving :: "recv_answer list"
  wKernel :: "send_answer list"
  wWire :: "byte list"
  wReady :: bool
  wDrawn :: nat

type_synonym 'a wm = "(ws, 'a) prog"

text \<open>The constructors do not initialise \<open>_nextState\<close>, the masks and the iterators; \<open>initialize\<close> and the first frame do.\<close>

definition ws_new :: "string \<Rightarrow> socket_state \<Rightarrow> recv_answer list \<Rightarrow> send_answer list \<Rightarrow> ws" where
  "ws_new resource sock answers takes =
     \<lparr>wState = WsInitializeDelegate, wNextState = WsInitializeDelegate, wParser = http_parser_new, wKey = [],
      wResource = resource, wReadState = ReadStateOpcode, wReadBuffer = no_buffer, wReadI = 0, wReadLastFrame = True,
      wReadOpCode = 0, wReadHeaderLength = 0, wReadPayloadLength = 0, wReadStart = InReadBuffer 0, wReadFrameStart = 0,
      wReadMask = [0, 0, 0, 0], wWriteState = WriteStateHeader, wWriteBuffer = no_buffer, wWriteMask = [0, 0, 0, 0],
      wWritePayloadLength = 0, wClosingInitiator = False, wClosingReason = CLOSURE_NORMAL, wPingPayload = [],
      wIn = no_buffer, wOut = no_buffer, wSocket = sock, wArriving = answers, wKernel = takes, wWire = [],
      wReady = False, wDrawn = 0\<rparr>"

definition resized :: "nat \<Rightarrow> byte list \<Rightarrow> byte list" where
  "resized n bs = take n bs @ replicate (n - length bs) 0"

definition random_bytes :: "ws_env \<Rightarrow> nat \<Rightarrow> byte list wm" where
  "random_bytes E n = withp (\<lambda>w. seqp (modify (\<lambda>w. w\<lparr>wDrawn := wDrawn w + n\<rparr>))
     (ret (map (\<lambda>k. xRandom E (wDrawn w + k)) [0..<n])))"

subsection \<open>The delegate\<close>

definition delegate_read :: "(ws \<Rightarrow> buffer) \<Rightarrow> (buffer \<Rightarrow> ws \<Rightarrow> ws) \<Rightarrow> sockop wm" where
  "delegate_read get put = withp (\<lambda>w.
     case stream_read (wArriving w) (get w) of
       (Inl e, as) \<Rightarrow> seqp (modify (\<lambda>w. w\<lparr>wArriving := as\<rparr>)) (throw e)
     | (Inr (op, b), as) \<Rightarrow> seqp (modify (\<lambda>w. put b (w\<lparr>wArriving := as\<rparr>))) (ret op))"

definition delegate_write :: "(ws \<Rightarrow> buffer) \<Rightarrow> (buffer \<Rightarrow> ws \<Rightarrow> ws) \<Rightarrow> sockop wm" where
  "delegate_write get put = withp (\<lambda>w.
     case stream_write (wKernel w) (get w) of
       (Inl e, sent, as) \<Rightarrow> seqp (modify (\<lambda>w. w\<lparr>wKernel := as, wWire := wWire w @ sent\<rparr>)) (throw e)
     | (Inr (op, b), sent, as) \<Rightarrow>
         seqp (modify (\<lambda>w. put b (w\<lparr>wKernel := as, wWire := wWire w @ sent\<rparr>))) (ret op))"

definition read_to_buffer :: "sockop wm" where
  "read_to_buffer = delegate_read wReadBuffer (\<lambda>b w. w\<lparr>wReadBuffer := b\<rparr>)"

definition read_to_message :: "sockop wm" where
  "read_to_message = delegate_read wIn (\<lambda>b w. w\<lparr>wIn := b\<rparr>)"

definition write_from_buffer :: "sockop wm" where
  "write_from_buffer = delegate_write wWriteBuffer (\<lambda>b w. w\<lparr>wWriteBuffer := b\<rparr>)"

definition write_from_message :: "sockop wm" where
  "write_from_message = delegate_write wOut (\<lambda>b w. w\<lparr>wOut := b\<rparr>)"

definition set_ready :: "bool \<Rightarrow> unit wm" where
  "set_ready b = modify (\<lambda>w. w\<lparr>wReady := b\<rparr>)"

subsection \<open>Reading frames\<close>

definition readBuffered :: "nat \<Rightarrow> bool wm" where
  "readBuffered sz =
     seqp (modify (\<lambda>w.
        let b = bufB (wReadBuffer w); i = bufI (wReadBuffer w); available = i - wReadI w in
        if wReadI w = i then
          w\<lparr>wReadBuffer := \<lparr>bufB = resized readBufferSize b, bufI = 0\<rparr>, wReadI := 0\<rparr>
        else if available < sz then
          w\<lparr>wReadBuffer := \<lparr>bufB = resized (max readBufferSize sz) (poke b 0 (take available (drop (wReadI w) b))),
              bufI = available\<rparr>, wReadI := 0\<rparr>
        else w))
     (seqp (modify (\<lambda>w. w\<lparr>wReadStart := InReadBuffer (bufI (wReadBuffer w))\<rparr>))
       (withp (\<lambda>w.
          if bufI (wReadBuffer w) < wReadI w + sz then ret False
          else seqp (assertp (\<lambda>w. wReadI w < bufI (wReadBuffer w))) (ret True))))"

definition next_byte :: "byte wm" where
  "next_byte = withp (\<lambda>w. seqp (modify (\<lambda>w. w\<lparr>wReadI := wReadI w + 1\<rparr>)) (ret (bufB (wReadBuffer w) ! wReadI w)))"

definition next_bytes :: "nat \<Rightarrow> byte list wm" where
  "next_bytes n = withp (\<lambda>w. seqp (modify (\<lambda>w. w\<lparr>wReadI := wReadI w + n\<rparr>)) (ret (take n (drop (wReadI w) (bufB (wReadBuffer w))))))"

definition protocol_error :: "string \<Rightarrow> 'a wm" where
  "protocol_error what = throw (ProtocolException what)"

text \<open>
  The parts of \<open>preRead\<close>'s loop.  \<open>Some b\<close> is \<open>return b\<close>, \<open>None\<close> goes on.  First the two bytes with the opcode and
  the length.
\<close>

definition set_last_frame :: "byte \<Rightarrow> unit wm" where
  "set_last_frame ch = withp (\<lambda>w.
     if wReadOpCode w = OP_DATA then
       (if \<not> wReadLastFrame w then protocol_error ''invalid data frame, no FIN on previous frame''
        else modify (\<lambda>w. w\<lparr>wReadLastFrame := (ch AND FLAG_FINAL = FLAG_FINAL)\<rparr>))
     else if wReadOpCode w = OP_CONT then
       (if wReadLastFrame w then protocol_error ''invalid continuation frame, previous frame FIN set''
        else modify (\<lambda>w. w\<lparr>wReadLastFrame := (ch AND FLAG_FINAL = FLAG_FINAL)\<rparr>))
     else ret ())"

definition take_opcode :: "ws_env \<Rightarrow> unit wm" where
  "take_opcode E =
     bindp next_byte (\<lambda>ch.
       seqp (modify (\<lambda>w. w\<lparr>wReadOpCode := unat (ch AND 0xf)\<rparr>))
         (seqp (set_last_frame ch)
           (bindp next_byte (\<lambda>ch.
             let masked = (ch AND FLAG_MASKED = FLAG_MASKED); len = unat (ch AND 0x7f) in
             if masked \<noteq> xIncoming E then protocol_error ''invalid masking''
             else modify (\<lambda>w. w\<lparr>wReadPayloadLength := len,
                   wReadHeaderLength := (if len < 126 then 0 else if len = 126 then 2 else 8) + (if masked then 4 else 0),
                   wReadState := ReadStateHeader\<rparr>)))))"

definition preRead_opcode :: "ws_env \<Rightarrow> bool option wm" where
  "preRead_opcode E =
     bindp (readBuffered 2) (\<lambda>enough. if \<not> enough then ret (Some True) else seqp (take_opcode E) (ret None))"

text \<open>The longer lengths, the mask, and what the opcode asks for.\<close>

definition read_length :: "unit wm" where
  "read_length = withp (\<lambda>w.
     if wReadPayloadLength w = 126 then
       bindp (next_bytes 2) (\<lambda>bs. modify (\<lambda>w. w\<lparr>wReadPayloadLength := ntohs bs\<rparr>))
     else if wReadPayloadLength w = 127 then
       bindp (next_bytes 8) (\<lambda>bs.
         let l = ice_nlltoh bs in
         if l <s 0 \<or> 2147483647 <s l then protocol_error (''invalid WebSocket payload length: '' @ int_text (sint l))
         else modify (\<lambda>w. w\<lparr>wReadPayloadLength := unat l\<rparr>))
     else ret ())"

definition read_mask :: "ws_env \<Rightarrow> unit wm" where
  "read_mask E =
     (if xIncoming E then
        seqp (assertp (\<lambda>w. 4 \<le> bufI (wReadBuffer w) - wReadI w))
          (bindp (next_bytes 4) (\<lambda>bs. modify (\<lambda>w. w\<lparr>wReadMask := bs\<rparr>)))
      else ret ())"

definition close_received :: "bool option wm" where
  "close_received = withp (\<lambda>w.
     let s = (if wNextState w = WsOpened then wState w else wNextState w) in
     if s = WsClosingRequestPending then
       seqp (modify (\<lambda>w. w\<lparr>wClosingInitiator := True\<rparr>))
         (seqp (modify (\<lambda>w. if wState w = WsClosingRequestPending then w\<lparr>wState := WsClosingResponsePending\<rparr>
                             else w\<lparr>wNextState := WsClosingResponsePending\<rparr>))
           (ret (Some False)))
     else throw ConnectionLost)"

definition frame_opcode :: "bool option wm" where
  "frame_opcode = withp (\<lambda>w.
     if wReadOpCode w = OP_TEXT then protocol_error ''text frames not supported''
     else if wReadOpCode w = OP_DATA \<or> wReadOpCode w = OP_CONT then
       (if wReadPayloadLength w \<le> 0 then protocol_error ''payload length is 0''
        else seqp (modify (\<lambda>w. w\<lparr>wReadState := ReadStatePayload\<rparr>))
          (seqp (assertp (\<lambda>w. bufI (wIn w) \<noteq> length (bufB (wIn w))))
            (seqp (modify (\<lambda>w. w\<lparr>wReadFrameStart := bufI (wIn w)\<rparr>)) (ret None))))
     else if wReadOpCode w = OP_CLOSE then close_received
     else if wReadOpCode w = OP_PING \<or> wReadOpCode w = OP_PONG then
       seqp (modify (\<lambda>w. w\<lparr>wReadState := ReadStateControlFrame\<rparr>)) (ret None)
     else protocol_error (''unsupported opcode: '' @ string_of_nat (wReadOpCode w)))"

definition preRead_header :: "ws_env \<Rightarrow> bool option wm" where
  "preRead_header E = withp (\<lambda>w.
     bindp (if wReadHeaderLength w > 0 then readBuffered (wReadHeaderLength w) else ret True) (\<lambda>enough.
       if \<not> enough then ret (Some True)
       else seqp read_length (seqp (read_mask E) frame_opcode)))"

definition take_control :: "unit wm" where
  "take_control = withp (\<lambda>w.
     seqp (modify (\<lambda>w.
            if wReadPayloadLength w > 0 \<and> wReadOpCode w = OP_PING
            then w\<lparr>wPingPayload := take (wReadPayloadLength w) (drop (wReadI w) (bufB (wReadBuffer w)))\<rparr> else w))
       (seqp (modify (\<lambda>w. w\<lparr>wReadI := wReadI w + wReadPayloadLength w, wReadPayloadLength := 0\<rparr>))
         (seqp (modify (\<lambda>w.
              if wReadOpCode w = OP_PING then
                (if wState w = WsOpened then w\<lparr>wState := WsPongPending\<rparr>
                 else if wNextState w < WsPongPending then w\<lparr>wNextState := WsPongPending\<rparr> else w)
              else w))
           (modify (\<lambda>w. w\<lparr>wReadState := ReadStateOpcode\<rparr>)))))"

definition preRead_control :: "bool option wm" where
  "preRead_control = withp (\<lambda>w.
     bindp (if wReadPayloadLength w > 0 then readBuffered (wReadPayloadLength w) else ret True) (\<lambda>enough.
       if \<not> enough then ret (Some True) else seqp take_control (ret None)))"

definition preRead_payload :: "bool option wm" where
  "preRead_payload =
     seqp (modify (\<lambda>w. w\<lparr>wReadStart := InMessage (bufI (wIn w))\<rparr>))
       (withp (\<lambda>w.
          if bufB (wIn w) = [] \<or> bufI (wIn w) = length (bufB (wIn w)) then ret (Some False)
          else
            let n = min (min (bufI (wReadBuffer w) - wReadI w) (length (bufB (wIn w)) - bufI (wIn w))) (wReadPayloadLength w) in
            seqp (modify (\<lambda>w. w\<lparr>
                wIn := \<lparr>bufB = poke (bufB (wIn w)) (bufI (wIn w)) (take n (drop (wReadI w) (bufB (wReadBuffer w)))),
                        bufI = bufI (wIn w) + n\<rparr>,
                wReadI := wReadI w + n\<rparr>))
              (withp (\<lambda>w. ret (Some (bufI (wIn w) < length (bufB (wIn w)) \<and> n < wReadPayloadLength w))))))"

text \<open>A part that runs in its state only.\<close>

definition in_read_state :: "ws_read_state \<Rightarrow> bool option wm \<Rightarrow> bool option wm" where
  "in_read_state st m = withp (\<lambda>w. if wReadState w = st then m else ret None)"

definition or_return :: "bool option wm \<Rightarrow> bool option wm \<Rightarrow> bool option wm" where
  "or_return m n = bindp m (\<lambda>r. case r of Some b \<Rightarrow> ret (Some b) | None \<Rightarrow> n)"

definition preRead_round :: "ws_env \<Rightarrow> bool option wm" where
  "preRead_round E =
     or_return (in_read_state ReadStateOpcode (preRead_opcode E))
       (or_return (in_read_state ReadStateHeader (preRead_header E))
         (or_return (in_read_state ReadStateControlFrame preRead_control)
           (in_read_state ReadStatePayload preRead_payload)))"

text \<open>The loop, with a bound on its rounds.\<close>

fun preRead_loop :: "ws_env \<Rightarrow> nat \<Rightarrow> bool wm" where
  "preRead_loop E 0 = throw MemoryError"
| "preRead_loop E (Suc fuel) =
     bindp (preRead_round E) (\<lambda>r. case r of Some b \<Rightarrow> ret b | None \<Rightarrow> preRead_loop E fuel)"

text \<open>Each round but the last takes a frame of at least two bytes from \<open>_readBuffer\<close>.\<close>

definition preRead :: "ws_env \<Rightarrow> bool wm" where
  "preRead E = withp (\<lambda>w. preRead_loop E (bufI (wReadBuffer w) - wReadI w + 2))"

text \<open>The data between \<open>p\<close> and \<open>q\<close>, unmasked; \<open>k\<close> is how far into the frame \<open>p\<close> is.\<close>

fun mask_from :: "byte list \<Rightarrow> nat \<Rightarrow> byte list \<Rightarrow> byte list" where
  "mask_from key k [] = []"
| "mask_from key k (b # bs) = (b XOR key ! (k mod 4)) # mask_from key (k + 1) bs"

text \<open>
  \<open>_readStart - _readFrameStart\<close> as the mask uses it, modulo 4.  When the caller's buffer has been reallocated or
  exchanged since, \<open>_readFrameStart\<close> points into the old block; blocks are aligned to 4 bytes.
\<close>

definition frame_offset :: "nat \<Rightarrow> nat \<Rightarrow> nat" where
  "frame_offset frameStart start = nat ((int start - int frameStart) mod 4)"

definition postRead :: "ws_env \<Rightarrow> bool wm" where
  "postRead E = withp (\<lambda>w.
     if wReadState w \<noteq> ReadStatePayload then
       (case wReadStart w of
          InReadBuffer s \<Rightarrow> ret (s < bufI (wReadBuffer w))
        | InMessage _ \<Rightarrow> throw MemoryError)
     else case wReadStart w of
         InReadBuffer _ \<Rightarrow> throw MemoryError
       | InMessage s \<Rightarrow>
           if s = bufI (wIn w) then ret False
           else seqp (assertp (\<lambda>w. s < bufI (wIn w)))
             (seqp (modify (\<lambda>w.
                  if xIncoming E
                  then w\<lparr>wIn := (wIn w)\<lparr>bufB := poke (bufB (wIn w)) s
                         (mask_from (wReadMask w) (frame_offset (wReadFrameStart w) s) (take (bufI (wIn w) - s) (drop s (bufB (wIn w)))))\<rparr>\<rparr>
                  else w))
               (seqp (modify (\<lambda>w. w\<lparr>wReadPayloadLength := wReadPayloadLength w - (bufI (wIn w) - s),
                    wReadStart := InMessage (bufI (wIn w))\<rparr>))
                 (seqp (modify (\<lambda>w. if wReadPayloadLength w = 0 then w\<lparr>wReadState := ReadStateOpcode\<rparr> else w))
                   (reads (\<lambda>w. bufI (wIn w) \<noteq> length (bufB (wIn w))))))))"

subsection \<open>Writing frames\<close>

definition length_bytes :: "nat \<Rightarrow> byte list" where
  "length_bytes n =
     (if n \<le> 125 then [word_of_nat n]
      else if n \<le> 65535 then 126 # htons n
      else 127 # ice_htonll (word_of_nat n))"

definition prepareWriteHeader :: "ws_env \<Rightarrow> nat \<Rightarrow> nat \<Rightarrow> unit wm" where
  "prepareWriteHeader E opCode payloadLength =
     (let hdr = (word_of_nat opCode OR FLAG_FINAL) # length_bytes payloadLength in
      seqp (modify (\<lambda>w. w\<lparr>wWriteBuffer :=
           \<lparr>bufB = poke (resized (writeBufferSize E) (bufB (wWriteBuffer w))) 0 hdr, bufI = length hdr\<rparr>\<rparr>))
        (if xIncoming E then ret ()
         else bindp (random_bytes E 4) (\<lambda>key. modify (\<lambda>w. w\<lparr>
             wWriteMask := key,
             wWriteBuffer := (let b = bufB (wWriteBuffer w); i = bufI (wWriteBuffer w) in
                \<lparr>bufB = poke (b[1 := b ! 1 OR FLAG_MASKED]) i key, bufI = i + 4\<rparr>)\<rparr>))))"

text \<open>Writing bytes at the iterator of the write buffer, and cutting the buffer off there.\<close>

definition put_bytes :: "byte list \<Rightarrow> unit wm" where
  "put_bytes bs = modify (\<lambda>w. w\<lparr>wWriteBuffer :=
     \<lparr>bufB = poke (bufB (wWriteBuffer w)) (bufI (wWriteBuffer w)) bs, bufI = bufI (wWriteBuffer w) + length bs\<rparr>\<rparr>)"

definition cut_buffer :: "unit wm" where
  "cut_buffer = modify (\<lambda>w. w\<lparr>wWriteBuffer := (wWriteBuffer w)\<lparr>bufB := take (bufI (wWriteBuffer w)) (bufB (wWriteBuffer w))\<rparr>\<rparr>)"

definition rewind_buffer :: "unit wm" where
  "rewind_buffer = modify (\<lambda>w. w\<lparr>wWriteBuffer := (wWriteBuffer w)\<lparr>bufI := 0\<rparr>\<rparr>)"

definition set_write_state :: "ws_write_state \<Rightarrow> unit wm" where
  "set_write_state st = modify (\<lambda>w. w\<lparr>wWriteState := st\<rparr>)"

text \<open>A close frame is due: ours before the peer's, or the answer to the peer's.\<close>

definition close_due :: "ws \<Rightarrow> bool" where
  "close_due w \<longleftrightarrow> wState w = WsClosingRequestPending \<and> \<not> wClosingInitiator w
     \<or> wState w = WsClosingResponsePending \<and> wClosingInitiator w"

text \<open>The reason is written in network order; two bytes with the mask of the frame.\<close>

definition write_control :: "ws_env \<Rightarrow> unit wm" where
  "write_control E = withp (\<lambda>w.
     seqp
       (if wState w = WsPingPending then prepareWriteHeader E OP_PING 0
        else if wState w = WsPongPending then
          seqp (prepareWriteHeader E OP_PONG (length (wPingPayload w)))
            (seqp (modify (\<lambda>w. let i = bufI (wWriteBuffer w); n = length (wPingPayload w) in
                if n > length (bufB (wWriteBuffer w)) - i
                then w\<lparr>wWriteBuffer := \<lparr>bufB = resized (i + n) (bufB (wWriteBuffer w)), bufI = i\<rparr>\<rparr> else w))
              (seqp (put_bytes (wPingPayload w)) (modify (\<lambda>w. w\<lparr>wPingPayload := []\<rparr>))))
        else
          seqp (prepareWriteHeader E OP_CLOSE 2)
            (withp (\<lambda>w. let r = htons (wClosingReason w) in
               put_bytes (if xIncoming E then r else [r ! 0 XOR wWriteMask w ! 0, r ! 1 XOR wWriteMask w ! 1]))))
       (seqp cut_buffer (seqp (set_write_state WriteStateControlFrame) rewind_buffer)))"

text \<open>The next piece of the message goes to the write buffer: masked, or the first piece of an unmasked message.\<close>

definition fill_masked :: "unit wm" where
  "fill_masked =
     seqp (modify (\<lambda>w. if bufI (wWriteBuffer w) = length (bufB (wWriteBuffer w))
                       then w\<lparr>wWriteBuffer := (wWriteBuffer w)\<lparr>bufI := 0\<rparr>\<rparr> else w))
       (seqp (withp (\<lambda>w.
          let n = bufI (wOut w); m = bufB (wOut w);
              k = min (length m - n) (length (bufB (wWriteBuffer w)) - bufI (wWriteBuffer w)) in
          seqp (put_bytes (mask_from (wWriteMask w) n (take k (drop n m))))
            (modify (\<lambda>w. w\<lparr>wWritePayloadLength := n + k\<rparr>))))
         (seqp cut_buffer rewind_buffer))"

definition fill_plain :: "unit wm" where
  "fill_plain =
     seqp (withp (\<lambda>w.
       let n = min (length (bufB (wWriteBuffer w)) - bufI (wWriteBuffer w)) (length (bufB (wOut w)) - bufI (wOut w)) in
       seqp (put_bytes (take n (drop (bufI (wOut w)) (bufB (wOut w)))))
         (modify (\<lambda>w. w\<lparr>wOut := (wOut w)\<lparr>bufI := bufI (wOut w) + n\<rparr>, wWritePayloadLength := n\<rparr>))))
       (seqp cut_buffer rewind_buffer)"

definition preWrite_header :: "ws_env \<Rightarrow> bool option wm" where
  "preWrite_header E = withp (\<lambda>w.
     if wState w = WsOpened then
       (if bufB (wOut w) = [] \<or> bufI (wOut w) = length (bufB (wOut w)) then ret (Some False)
        else seqp (assertp (\<lambda>w. bufI (wOut w) = 0))
          (seqp (prepareWriteHeader E OP_DATA (length (bufB (wOut w))))
            (seqp (set_write_state WriteStatePayload)
              (seqp (modify (\<lambda>w. w\<lparr>wWritePayloadLength := 0\<rparr>)) (ret None)))))
     else if wState w = WsPingPending \<or> wState w = WsPongPending \<or> close_due w then
       seqp (write_control E) (seqp (modify (\<lambda>w. w\<lparr>wWritePayloadLength := 0\<rparr>)) (ret None))
     else seqp (assertp (\<lambda>w. wState w \<noteq> WsClosed)) (ret (Some False)))"

definition preWrite :: "ws_env \<Rightarrow> bool wm" where
  "preWrite E = withp (\<lambda>w.
     bindp (if wWriteState w = WriteStateHeader then preWrite_header E else ret None) (\<lambda>r.
       case r of
         Some b \<Rightarrow> ret b
       | None \<Rightarrow> withp (\<lambda>w.
           if wWriteState w = WriteStatePayload then
             seqp (if \<not> xIncoming E \<and> (wWritePayloadLength w = 0 \<or> bufI (wWriteBuffer w) = length (bufB (wWriteBuffer w)))
                   then fill_masked
                   else if wWritePayloadLength w = 0 then fill_plain
                   else ret ())
               (ret True)
           else ret (bufI (wWriteBuffer w) < length (bufB (wWriteBuffer w))))))"

text \<open>The end of a control frame: \<open>Some b\<close> is \<open>return b\<close>.\<close>

definition control_sent :: "bool option wm" where
  "control_sent = withp (\<lambda>w.
     if WsOpened < wState w \<and> wWriteState w = WriteStateControlFrame then
       (if bufI (wWriteBuffer w) = length (bufB (wWriteBuffer w)) then
          (if close_due w then
             (if wState w = WsClosingRequestPending \<and> \<not> wClosingInitiator w then
                seqp (set_write_state WriteStateHeader)
                  (seqp (modify (\<lambda>w. w\<lparr>wState := WsClosingResponsePending\<rparr>)) (ret (Some False)))
              else throw ConnectionLost)
           else if wState w = WsClosed then ret (Some False)
           else seqp (modify (\<lambda>w. w\<lparr>wState := wNextState w, wNextState := WsOpened, wWriteState := WriteStateHeader\<rparr>))
             (ret None))
        else ret (Some True))
     else ret None)"

definition postWrite :: "ws_env \<Rightarrow> bool wm" where
  "postWrite E =
     bindp control_sent (\<lambda>r.
       case r of
         Some b \<Rightarrow> ret b
       | None \<Rightarrow>
           seqp (modify (\<lambda>w.
              if (\<not> xIncoming E \<or> bufI (wOut w) = 0) \<and> wWritePayloadLength w > 0
                 \<and> bufI (wWriteBuffer w) = length (bufB (wWriteBuffer w))
              then w\<lparr>wOut := (wOut w)\<lparr>bufI := wWritePayloadLength w\<rparr>\<rparr> else w))
             (withp (\<lambda>w.
                if bufB (wOut w) = [] \<or> bufI (wOut w) = length (bufB (wOut w)) then
                  seqp (set_write_state WriteStateHeader)
                    (ret (wState w = WsPingPending \<or> wState w = WsPongPending \<or> close_due w))
                else ret (wState w = WsOpened))))"

subsection \<open>The operations of the transceiver\<close>

text \<open>The loop of \<open>write\<close>; \<open>Some op\<close> is an early \<open>return\<close>.\<close>

definition write_round :: "ws_env \<Rightarrow> sockop option wm" where
  "write_round E =
     bindp (preWrite E) (\<lambda>more.
       if more then withp (\<lambda>w.
         bindp
           (if bufI (wWriteBuffer w) < length (bufB (wWriteBuffer w)) then write_from_buffer
            else if xIncoming E \<and> bufB (wOut w) \<noteq> [] \<and> wWriteState w = WriteStatePayload then write_from_message
            else ret OpNone)
           (\<lambda>s. ret (if s \<noteq> OpNone then Some s else None)))
       else ret None)"

fun write_loop :: "ws_env \<Rightarrow> nat \<Rightarrow> sockop option wm" where
  "write_loop E 0 = throw MemoryError"
| "write_loop E (Suc fuel) =
     bindp (write_round E) (\<lambda>r.
       case r of
         Some s \<Rightarrow> ret (Some s)
       | None \<Rightarrow> bindp (postWrite E) (\<lambda>again. if again then write_loop E fuel else ret None))"

text \<open>Every round sends a byte of the message or a control frame; at most two of these follow one another.\<close>

definition write_fuel :: "ws \<Rightarrow> nat" where
  "write_fuel w = length (bufB (wOut w)) + 4"

definition ws_write :: "ws_env \<Rightarrow> sockop wm" where
  "ws_write E = withp (\<lambda>w.
     if wState w < WsOpened then
       (if wState w < WsConnected then write_from_message else write_from_buffer)
     else bindp (write_loop E (write_fuel w)) (\<lambda>r.
       case r of
         Some s \<Rightarrow> ret s
       | None \<Rightarrow> withp (\<lambda>w.
           ret (if wState w = WsClosingResponsePending \<and> \<not> wClosingInitiator w then OpRead else OpNone))))"

text \<open>No more than the payload is read into the message: the buffer is made smaller for the call.\<close>

definition read_payload :: "sockop wm" where
  "read_payload = withp (\<lambda>w.
     let s = (case wReadStart w of InMessage s \<Rightarrow> s | InReadBuffer s \<Rightarrow> s);
         readSz = wReadPayloadLength w - (bufI (wIn w) - s); b = bufB (wIn w); size = length b in
     if size - bufI (wIn w) > readSz then
       seqp (modify (\<lambda>w. w\<lparr>wIn := (wIn w)\<lparr>bufB := take (bufI (wIn w) + readSz) b\<rparr>\<rparr>))
         (bindp read_to_message (\<lambda>r.
           seqp (modify (\<lambda>w. w\<lparr>wIn := (wIn w)\<lparr>bufB := resized size (bufB (wIn w))\<rparr>\<rparr>))
             (ret r)))
     else read_to_message)"

definition read_round :: "ws_env \<Rightarrow> sockop option wm" where
  "read_round E =
     bindp (preRead E) (\<lambda>more.
       if more then
         bindp (withp (\<lambda>w. if wReadState w = ReadStatePayload then read_payload else read_to_buffer)) (\<lambda>s.
           if s = OpWrite then bindp (postRead E) (\<lambda>_. ret (Some s)) else ret None)
       else ret None)"

fun ws_read_loop :: "ws_env \<Rightarrow> nat \<Rightarrow> sockop option wm" where
  "ws_read_loop E 0 = throw MemoryError"
| "ws_read_loop E (Suc fuel) =
     bindp (read_round E) (\<lambda>r.
       case r of
         Some s \<Rightarrow> ret (Some s)
       | None \<Rightarrow> bindp (postRead E) (\<lambda>again. if again then ws_read_loop E fuel else ret None))"

text \<open>Every round but the last moves bytes: out of the socket or out of \<open>_readBuffer\<close>.\<close>

definition read_fuel :: "ws \<Rightarrow> nat" where
  "read_fuel w = 2 * length (arriving (wArriving w)) + bufI (wReadBuffer w) - wReadI w + 2"

definition data_buffered :: "unit wm" where
  "data_buffered = withp (\<lambda>w. if wReadI w < bufI (wReadBuffer w) then set_ready True else ret ())"

definition ws_read :: "ws_env \<Rightarrow> sockop wm" where
  "ws_read E = withp (\<lambda>w.
     if wState w < WsOpened then
       (if wState w < WsConnected then read_to_message
        else bindp read_to_buffer (\<lambda>s. ret (if s = OpWrite then OpWrite else OpNone)))
     else if bufI (wIn w) = length (bufB (wIn w)) then seqp data_buffered (ret OpNone)
     else bindp (ws_read_loop E (read_fuel w)) (\<lambda>r.
       case r of
         Some s \<Rightarrow> ret s
       | None \<Rightarrow> withp (\<lambda>w.
           bindp (if bufI (wIn w) = length (bufB (wIn w)) then seqp data_buffered (ret OpNone)
                  else seqp (set_ready False) (ret OpRead)) (\<lambda>s. withp (\<lambda>w.
             ret (if (close_due w \<or> wState w = WsPingPending \<or> wState w = WsPongPending) \<and> wWriteState w = WriteStateHeader
                  then op_or s OpWrite else s))))))"

text \<open>\<open>closing\<close>: the reason is looked at by its class; \<open>MemoryLimitException\<close> is a \<open>ProtocolException\<close> too.\<close>

fun is_protocol_exception :: "ice_error \<Rightarrow> bool" where
  "is_protocol_exception (BadMagic _) = True"
| "is_protocol_exception (ProtocolException _) = True"
| "is_protocol_exception (MarshalError _) = True"
| "is_protocol_exception e \<longleftrightarrow> e \<in> {UnsupportedProtocol, UnsupportedEncoding, UnknownMessage, ConnectionNotValidated,
     CloseConnection, IllegalMessageSize, CompressionError, DatagramLimit, UnmarshalOutOfBounds, MemoryLimit, StringConversion,
     EncapsulationError}"

definition closing_reason :: "ice_error \<Rightarrow> nat \<Rightarrow> nat" where
  "closing_reason e old =
     (if e = CloseConnection then CLOSURE_NORMAL
      else if e = ObjectAdapterDeactivated \<or> e = CommunicatorDestroyed then CLOSURE_SHUTDOWN
      else if is_protocol_exception e then CLOSURE_PROTOCOL_ERROR
      else if e = MemoryLimit then CLOSURE_TOO_BIG
      else old)"

definition ws_closing :: "bool \<Rightarrow> ice_error \<Rightarrow> sockop wm" where
  "ws_closing initiator reason = withp (\<lambda>w.
     let s = (if wNextState w = WsOpened then wState w else wNextState w) in
     if s = WsClosingRequestPending \<and> wClosingInitiator w then
       seqp (assertp (\<lambda>_. \<not> initiator))
         (seqp (modify (\<lambda>w. w\<lparr>wClosingInitiator := False\<rparr>)) (ret OpWrite))
     else if WsClosingRequestPending \<le> s then ret OpNone
     else
       seqp (modify (\<lambda>w. w\<lparr>wClosingInitiator := initiator, wClosingReason := closing_reason reason (wClosingReason w)\<rparr>))
         (if wState w = WsOpened then
            seqp (modify (\<lambda>w. w\<lparr>wState := WsClosingRequestPending\<rparr>)) (ret (if initiator then OpRead else OpWrite))
          else seqp (modify (\<lambda>w. w\<lparr>wNextState := WsClosingRequestPending\<rparr>)) (ret OpNone)))"

definition ws_close :: "unit wm" where
  "ws_close = modify (\<lambda>w. w\<lparr>wState := WsClosed, wWriteBuffer := no_buffer, wReadBuffer := no_buffer\<rparr>)"

subsection \<open>The handshake\<close>

definition delegate_initialize :: "ws_env \<Rightarrow> sockop wm" where
  "delegate_initialize E = withp (\<lambda>w.
     case stream_connect (xConnect E) (wSocket w) of
       (r, st) \<Rightarrow> seqp (modify (\<lambda>w. w\<lparr>wSocket := st\<rparr>)) (lift r))"

definition start_upgrade :: "ws_env \<Rightarrow> unit wm" where
  "start_upgrade E =
     seqp (modify (\<lambda>w. w\<lparr>wReadBuffer := \<lparr>bufB = resized readBufferSize (bufB (wReadBuffer w)), bufI = 0\<rparr>, wReadI := 0,
             wState := WsUpgradeRequestPending\<rparr>))
       (if xIncoming E then ret ()
        else bindp (random_bytes E 16) (\<lambda>key. modify (\<lambda>w. w\<lparr>wKey := b64_encode key,
          wWriteBuffer := \<lparr>bufB = bytes_of_string (upgrade_request (wResource w) (xHost E) (b64_encode key)), bufI = 0\<rparr>\<rparr>)))"

text \<open>What is left of the write buffer; \<open>Some s\<close> is \<open>return s\<close>.\<close>

definition flush_buffer :: "sockop option wm" where
  "flush_buffer = withp (\<lambda>w.
     if bufI (wWriteBuffer w) < length (bufB (wWriteBuffer w))
     then bindp write_from_buffer (\<lambda>s. ret (if s \<noteq> OpNone then Some s else None))
     else ret None)"

definition send_request :: "ws_env \<Rightarrow> sockop option wm" where
  "send_request E = withp (\<lambda>w.
     if wState w = WsUpgradeRequestPending \<and> \<not> xIncoming E then
       bindp flush_buffer (\<lambda>r.
         case r of
           Some s \<Rightarrow> ret (Some s)
         | None \<Rightarrow> seqp (assertp (\<lambda>w. bufI (wWriteBuffer w) = length (bufB (wWriteBuffer w))))
             (seqp (modify (\<lambda>w. w\<lparr>wState := WsUpgradeResponsePending\<rparr>)) (ret None)))
     else ret None)"

definition awaits_message :: "ws_env \<Rightarrow> ws \<Rightarrow> bool" where
  "awaits_message E w \<longleftrightarrow> wState w = WsUpgradeRequestPending \<and> xIncoming E \<or> wState w = WsUpgradeResponsePending \<and> \<not> xIncoming E"

fun receive_upgrade :: "ws_env \<Rightarrow> nat \<Rightarrow> sockop option wm" where
  "receive_upgrade E 0 = throw MemoryError"
| "receive_upgrade E (Suc fuel) = withp (\<lambda>w.
     bindp (if bufI (wReadBuffer w) < length (bufB (wReadBuffer w))
            then bindp read_to_buffer (\<lambda>s. reads (\<lambda>w. if s = OpWrite \<or> bufI (wReadBuffer w) = 0 then Some s else None))
            else ret None) (\<lambda>r.
       case r of
         Some s \<Rightarrow> ret (Some s)
       | None \<Rightarrow> withp (\<lambda>w.
           if \<not> awaits_message E w then ret None
           else let b = bufB (wReadBuffer w); i = bufI (wReadBuffer w) in
             case isCompleteMessage (string_of_bytes (take i b)) of
               Some n \<Rightarrow> seqp (modify (\<lambda>w. w\<lparr>wReadI := n\<rparr>)) (ret None)
             | None \<Rightarrow>
                 if i < length b then ret (Some OpRead)
                 else if i + 1024 > xMessageSizeMax E then throw MemoryLimit
                 else seqp (modify (\<lambda>w. w\<lparr>wReadBuffer := \<lparr>bufB = resized (i + 1024) b, bufI = i\<rparr>\<rparr>)) (receive_upgrade E fuel))))"

text \<open>The parser keeps what it has read; the message is what lies in front of \<open>_readI\<close>.\<close>

definition parse_message :: "string \<Rightarrow> unit wm" where
  "parse_message what = withp (\<lambda>w.
     bindp (lift (http_parse (string_of_bytes (take (wReadI w) (bufB (wReadBuffer w)))) (wParser w))) (\<lambda>(complete, hp).
       seqp (modify (\<lambda>w. w\<lparr>wParser := hp\<rparr>))
         (if complete then ret () else throw (ProtocolException (''incomplete '' @ what)))))"

definition server_request :: "ws_env \<Rightarrow> unit wm" where
  "server_request E =
     seqp (parse_message ''request message'')
       (withp (\<lambda>w. bindp (lift (handleRequest (xSha1 E) (wParser w))) (\<lambda>(resource, response).
          modify (\<lambda>w. w\<lparr>wResource := resource, wWriteBuffer := \<lparr>bufB = bytes_of_string response, bufI = 0\<rparr>,
            wState := WsUpgradeResponsePending\<rparr>))))"

definition finish_upgrade :: "ws_env \<Rightarrow> sockop option wm" where
  "finish_upgrade E = withp (\<lambda>w.
     seqp (if wState w = WsUpgradeRequestPending \<and> xIncoming E then server_request E else ret ())
       (withp (\<lambda>w.
          if wState w = WsUpgradeResponsePending then
            (if xIncoming E then flush_buffer
             else seqp (parse_message ''response message'')
               (withp (\<lambda>w. bindp (lift (handleResponse (xSha1 E) (wKey w) (wParser w))) (\<lambda>_. ret None))))
          else ret None)))"

definition ws_exception :: "ice_error \<Rightarrow> 'a wm" where
  "ws_exception e = throw (case e of WebSocketException reason \<Rightarrow> ProtocolException reason | e \<Rightarrow> e)"

definition or_else :: "sockop option wm \<Rightarrow> sockop wm \<Rightarrow> sockop wm" where
  "or_else m n = bindp m (\<lambda>r. case r of Some s \<Rightarrow> ret s | None \<Rightarrow> n)"

definition ws_initialize :: "ws_env \<Rightarrow> sockop wm" where
  "ws_initialize E =
     or_else
       (withp (\<lambda>w. if wState w = WsInitializeDelegate then
          bindp (delegate_initialize E) (\<lambda>op.
            if op \<noteq> OpNone then ret (Some op)
            else seqp (modify (\<lambda>w. w\<lparr>wState := WsConnected\<rparr>)) (ret None))
        else ret None))
       (seqp (withp (\<lambda>w. if wState w = WsConnected then start_upgrade E else ret ()))
         (or_else (send_request E)
           (or_else (withp (\<lambda>w. receive_upgrade E (length (arriving (wArriving w)) + 2)))
             (or_else (catchp (finish_upgrade E) ws_exception)
               (seqp (modify (\<lambda>w. w\<lparr>wState := WsOpened, wNextState := WsOpened\<rparr>))
                 (seqp data_buffered (ret OpNone)))))))"

end
