(* ===== verification/WSRead.thy ===== *)
theory WSRead
  imports WebSocket
begin

section \<open>Reading web socket frames\<close>

text \<open>
  The frame reader against its specification.  \<open>payload_of\<close> says which data bytes a stream of frames carries; the
  reader, which may stop anywhere and gets the stream in any pieces, hands over exactly these bytes.
\<close>

subsection \<open>The data in a stream of frames\<close>

datatype phase = AtOpcode | AtHeader nat nat | AtControl nat | AtPayload "byte list" nat nat

definition header_size :: "bool \<Rightarrow> nat \<Rightarrow> nat" where
  "header_size masked len = (if len < 126 then 0 else if len = 126 then 2 else 8) + (if masked then 4 else 0)"

definition frame_length :: "nat \<Rightarrow> byte list \<Rightarrow> nat" where
  "frame_length len bs = (if len = 126 then ntohs (take 2 bs) else if len = 127 then unat (ice_nlltoh (take 8 bs)) else len)"

definition frame_key :: "bool \<Rightarrow> nat \<Rightarrow> byte list \<Rightarrow> byte list" where
  "frame_key masked len bs = take 4 (drop (header_size masked len - 4) bs)"

definition unmask :: "bool \<Rightarrow> byte list \<Rightarrow> nat \<Rightarrow> byte list \<Rightarrow> byte list" where
  "unmask masked key k bs = (if masked then mask_from key k bs else bs)"

text \<open>A key counts only when the frames are masked.\<close>

fun phase_rank :: "phase \<Rightarrow> nat" where
  "phase_rank AtOpcode = 0"
| "phase_rank (AtPayload key k n) = 1"
| "phase_rank (AtControl n) = 2"
| "phase_rank (AtHeader op len) = 3"

function payload_of :: "bool \<Rightarrow> phase \<Rightarrow> byte list \<Rightarrow> byte list" where
  "payload_of masked AtOpcode bs =
     (if length bs < 2 then []
      else payload_of masked (AtHeader (unat (bs ! 0 AND 0xf)) (unat (bs ! 1 AND 0x7f))) (drop 2 bs))"
| "payload_of masked (AtHeader op len) bs =
     (if length bs < header_size masked len then []
      else if op = OP_DATA \<or> op = OP_CONT then
        payload_of masked (AtPayload (frame_key masked len bs) 0 (frame_length len bs)) (drop (header_size masked len) bs)
      else if op = OP_PING \<or> op = OP_PONG then
        payload_of masked (AtControl (frame_length len bs)) (drop (header_size masked len) bs)
      else [])"
| "payload_of masked (AtControl n) bs = (if length bs < n then [] else payload_of masked AtOpcode (drop n bs))"
| "payload_of masked (AtPayload key k n) bs =
     (if length bs < n then unmask masked key k bs
      else unmask masked key k (take n bs) @ payload_of masked AtOpcode (drop n bs))"
  by pat_completeness auto
termination
  by (relation "measure (\<lambda>(masked, st, bs). 4 * length bs + phase_rank st)") auto

declare payload_of.simps [simp del]

lemma mask_from_append: "mask_from key k (as @ bs) = mask_from key k as @ mask_from key (k + length as) bs"
  by (induction as arbitrary: k) auto

lemma length_mask_from [simp]: "length (mask_from key k bs) = length bs"
  by (induction bs arbitrary: k) auto

lemma mask_from_mod: "mask_from key (k mod 4) bs = mask_from key k bs"
proof (induction bs arbitrary: k)
  case (Cons b bs)
  have "mask_from key (k mod 4 + 1) bs = mask_from key ((k mod 4 + 1) mod 4) bs" by (rule Cons [symmetric])
  also have "(k mod 4 + 1) mod 4 = (k + 1) mod 4" by presburger
  also have "mask_from key ((k + 1) mod 4) bs = mask_from key (k + 1) bs" by (rule Cons)
  finally show ?case by simp
qed simp

lemma unmask_simps [simp]:
  "unmask masked key k [] = []" "length (unmask masked key k bs) = length bs"
  by (simp_all add: unmask_def)

lemma unmask_append: "unmask masked key k (as @ bs) = unmask masked key k as @ unmask masked key (k + length as) bs"
  by (simp add: unmask_def mask_from_append)

lemma payload_part:
  "length ds \<le> n \<Longrightarrow> payload_of masked (AtPayload key k n) (ds @ bs)
     = unmask masked key k ds @ payload_of masked (AtPayload key (k + length ds) (n - length ds)) bs"
  by (auto simp: payload_of.simps(4) unmask_append)

lemma payload_end: "payload_of masked (AtPayload key k 0) bs = payload_of masked AtOpcode bs"
  by (simp add: payload_of.simps(4))

subsection \<open>The reader's state\<close>

definition buffered :: "ws \<Rightarrow> byte list" where
  "buffered w = drop (wReadI w) (take (bufI (wReadBuffer w)) (bufB (wReadBuffer w)))"

definition incoming :: "ws \<Rightarrow> byte list" where
  "incoming w = buffered w @ arriving (wArriving w)"

definition offset :: "ws \<Rightarrow> nat" where
  "offset w = bufI (wIn w) - wReadFrameStart w"

definition phase_of :: "ws \<Rightarrow> phase" where
  "phase_of w = (case wReadState w of
     ReadStateOpcode \<Rightarrow> AtOpcode
   | ReadStateHeader \<Rightarrow> AtHeader (wReadOpCode w) (wReadPayloadLength w)
   | ReadStateControlFrame \<Rightarrow> AtControl (wReadPayloadLength w)
   | ReadStatePayload \<Rightarrow> AtPayload (wReadMask w) (offset w) (wReadPayloadLength w))"

definition got :: "ws \<Rightarrow> byte list" where
  "got w = take (bufI (wIn w)) (bufB (wIn w))"

text \<open>What the caller has and will get.\<close>

definition total :: "ws_env \<Rightarrow> ws \<Rightarrow> byte list" where
  "total E w = got w @ payload_of (xIncoming E) (phase_of w) (incoming w)"

definition buffers_ok :: "ws \<Rightarrow> bool" where
  "buffers_ok w \<longleftrightarrow> wReadI w \<le> bufI (wReadBuffer w) \<and> bufI (wReadBuffer w) \<le> length (bufB (wReadBuffer w))
     \<and> bufI (wIn w) \<le> length (bufB (wIn w))"

definition read_ok :: "ws_env \<Rightarrow> ws \<Rightarrow> bool" where
  "read_ok E w \<longleftrightarrow> buffers_ok w
     \<and> (wReadState w = ReadStateHeader \<longrightarrow> wReadPayloadLength w \<le> 127
          \<and> wReadHeaderLength w = header_size (xIncoming E) (wReadPayloadLength w)
          \<and> (wReadHeaderLength w = 0 \<longrightarrow> wReadStart w = InReadBuffer (bufI (wReadBuffer w))))
     \<and> (wReadState w = ReadStateControlFrame \<longrightarrow> wReadOpCode w = OP_PING \<or> wReadOpCode w = OP_PONG)
     \<and> (wReadState w = ReadStatePayload \<longrightarrow> 0 < wReadPayloadLength w \<and> wReadFrameStart w \<le> bufI (wIn w))"

text \<open>What stays the same while the buffered bytes are looked at.\<close>

definition same_sides :: "ws \<Rightarrow> ws \<Rightarrow> bool" where
  "same_sides w w' \<longleftrightarrow> wArriving w' = wArriving w \<and> length (bufB (wIn w')) = length (bufB (wIn w))"

lemma same_sides_trans: "same_sides w w' \<Longrightarrow> same_sides w' w'' \<Longrightarrow> same_sides w w''"
  by (simp add: same_sides_def)

lemma length_buffered: "buffers_ok w \<Longrightarrow> length (buffered w) = bufI (wReadBuffer w) - wReadI w"
  by (simp add: buffers_ok_def buffered_def)

lemma length_resized [simp]: "length (resized n bs) = n"
  by (simp add: resized_def)

lemma take_resized: "k \<le> n \<Longrightarrow> k \<le> length bs \<Longrightarrow> take k (resized n bs) = take k bs"
  by (simp add: resized_def min_def)

text \<open>\<open>readBuffered\<close> moves bytes within its buffer only, and makes room when there are too few.\<close>

lemma readBuffered_run:
  assumes "buffers_ok w" "0 < sz"
  shows "\<exists>rb ri. readBuffered sz w = (Inr (sz \<le> length (buffered w)),
           w\<lparr>wReadBuffer := rb, wReadI := ri, wReadStart := InReadBuffer (bufI rb)\<rparr>)
     \<and> ri \<le> bufI rb \<and> bufI rb \<le> length (bufB rb) \<and> drop ri (take (bufI rb) (bufB rb)) = buffered w
     \<and> (length (buffered w) < sz \<longrightarrow> bufI rb < length (bufB rb))"
proof -
  let ?b = "bufB (wReadBuffer w)" and ?i = "bufI (wReadBuffer w)" and ?r = "wReadI w"
  have ok: "?r \<le> ?i" "?i \<le> length ?b" using assms(1) by (simp_all add: buffers_ok_def)
  note len = length_buffered [OF assms(1)]
  consider (all) "?r = ?i" | (few) "?r \<noteq> ?i" "?i - ?r < sz" | (enough) "?r \<noteq> ?i" "sz \<le> ?i - ?r" by linarith
  then show ?thesis
  proof cases
    case all
    then have "buffered w = []" by (simp add: buffered_def)
    with all assms(2) len show ?thesis
      by (intro exI [of _ "\<lparr>bufB = resized readBufferSize ?b, bufI = 0\<rparr>"] exI [of _ 0])
        (simp add: readBuffered_def seqp_def bindp_def modify_def withp_def ret_def Let_def readBufferSize_def)
  next
    case few
    let ?n = "?i - ?r" and ?c = "poke ?b 0 (take (?i - ?r) (drop ?r ?b))"
    let ?rb = "\<lparr>bufB = resized (max readBufferSize sz) ?c, bufI = ?n\<rparr>"
    have k: "take ?n (resized (max readBufferSize sz) ?c) = buffered w"
    proof -
      have "take ?n (resized (max readBufferSize sz) ?c) = take ?n ?c"
        by (rule take_resized) (use few ok in \<open>simp_all add: poke_def\<close>)
      also have "\<dots> = take ?n (drop ?r ?b)" using ok by (simp add: poke_def)
      finally show ?thesis by (simp add: buffered_def drop_take)
    qed
    have "?n < max readBufferSize sz" using few by (simp add: less_max_iff_disj)
    then show ?thesis
      by (intro exI [of _ ?rb] exI [of _ 0])
        (use few ok len k in \<open>simp add: readBuffered_def seqp_def bindp_def modify_def withp_def ret_def Let_def\<close>)
  next
    case enough
    then show ?thesis
      by (intro exI [of _ "wReadBuffer w"] exI [of _ ?r])
        (use ok len assms(2) in \<open>simp add: readBuffered_def seqp_def bindp_def modify_def withp_def ret_def assertp_def Let_def buffered_def\<close>)
  qed
qed

lemma wp_readBuffered:
  assumes "buffers_ok w" "0 < sz"
    and "\<And>rb ri. ri \<le> bufI rb \<Longrightarrow> bufI rb \<le> length (bufB rb) \<Longrightarrow> drop ri (take (bufI rb) (bufB rb)) = buffered w \<Longrightarrow>
       (length (buffered w) < sz \<longrightarrow> bufI rb < length (bufB rb)) \<Longrightarrow>
       Q (sz \<le> length (buffered w)) (w\<lparr>wReadBuffer := rb, wReadI := ri, wReadStart := InReadBuffer (bufI rb)\<rparr>)"
  shows "wp (readBuffered sz) Q R w"
  using readBuffered_run [OF assms(1,2)] assms(3) by (auto simp: wp_def)

text \<open>The reader stops for want of bytes, or goes on with fewer.\<close>

definition waiting :: "ws_env \<Rightarrow> ws \<Rightarrow> ws \<Rightarrow> bool" where
  "waiting E w w' \<longleftrightarrow> read_ok E w' \<and> same_sides w w' \<and> total E w' = total E w \<and> wReadState w' \<noteq> ReadStatePayload
     \<and> wReadStart w' = InReadBuffer (bufI (wReadBuffer w')) \<and> bufI (wReadBuffer w') < length (bufB (wReadBuffer w'))
     \<and> length (buffered w') \<le> length (buffered w) \<and> wIn w' = wIn w
     \<and> (wReadState w' = ReadStateHeader \<longrightarrow> 0 < wReadHeaderLength w')"

definition going :: "ws_env \<Rightarrow> ws \<Rightarrow> ws \<Rightarrow> bool" where
  "going E w w' \<longleftrightarrow> read_ok E w' \<and> same_sides w w' \<and> wIn w' = wIn w \<and> total E w' = total E w \<and> length (buffered w') \<le> length (buffered w)"

lemma nth_buffered: "drop ri (take i b) = bs \<Longrightarrow> k < length bs \<Longrightarrow> b ! (ri + k) = bs ! k"
proof -
  assume a: "drop ri (take i b) = bs" "k < length bs"
  then have "ri + k < length (take i b)" by (auto simp del: length_take)
  then show "b ! (ri + k) = bs ! k" by (simp flip: a(1))
qed

lemma total_same:
  "wIn w' = wIn w \<Longrightarrow> wReadFrameStart w' = wReadFrameStart w \<Longrightarrow> wReadMask w' = wReadMask w \<Longrightarrow> wReadState w' = wReadState w \<Longrightarrow>
   wReadOpCode w' = wReadOpCode w \<Longrightarrow> wReadPayloadLength w' = wReadPayloadLength w \<Longrightarrow> wArriving w' = wArriving w \<Longrightarrow>
   buffered w' = buffered w \<Longrightarrow> total E w' = total E w"
  by (simp add: total_def got_def phase_of_def incoming_def offset_def split: ws_read_state.split)

lemma wp_set_last_frame:
  assumes "\<And>last. Q () (w\<lparr>wReadLastFrame := last\<rparr>)" "\<And>m. R (ProtocolException m) w"
  shows "wp (set_last_frame ch) Q R w"
  using assms assms(1) [of "wReadLastFrame w"] by (simp add: set_last_frame_def wp_simps protocol_error_def)

text \<open>Stopping: the buffer has been moved, nothing else.\<close>

lemma stops:
  assumes ok: "read_ok E w" "wReadState w \<noteq> ReadStatePayload" "wReadState w = ReadStateHeader \<longrightarrow> 0 < wReadHeaderLength w"
    and r: "ri \<le> bufI rb" "bufI rb \<le> length (bufB rb)" "drop ri (take (bufI rb) (bufB rb)) = buffered w" "bufI rb < length (bufB rb)"
  shows "waiting E w (w\<lparr>wReadBuffer := rb, wReadI := ri, wReadStart := InReadBuffer (bufI rb)\<rparr>)"
proof -
  let ?w = "w\<lparr>wReadBuffer := rb, wReadI := ri, wReadStart := InReadBuffer (bufI rb)\<rparr>"
  have "buffered ?w = buffered w" using r(3) by (simp add: buffered_def)
  moreover from this have "total E ?w = total E w" by (intro total_same) simp_all
  ultimately show ?thesis using ok r
    by (simp add: waiting_def read_ok_def same_sides_def buffers_ok_def)
qed

text \<open>The state after \<open>readBuffered\<close>, by what it means for the bytes ahead.\<close>

definition ready :: "ws_env \<Rightarrow> ws \<Rightarrow> nat \<Rightarrow> ws \<Rightarrow> bool" where
  "ready E w sz w' \<longleftrightarrow> read_ok E w' \<and> same_sides w w' \<and> total E w' = total E w \<and> buffered w' = buffered w
     \<and> sz \<le> length (buffered w') \<and> wReadState w' = wReadState w \<and> wReadPayloadLength w' = wReadPayloadLength w
     \<and> wReadOpCode w' = wReadOpCode w \<and> wIn w' = wIn w \<and> wReadHeaderLength w' = wReadHeaderLength w
     \<and> wReadStart w' = InReadBuffer (bufI (wReadBuffer w'))"

lemma wp_buffered:
  assumes ok: "read_ok E w" "wReadState w \<noteq> ReadStatePayload" "wReadState w = ReadStateHeader \<longrightarrow> 0 < wReadHeaderLength w" and sz: "0 < sz"
    and "\<And>w'. waiting E w w' \<Longrightarrow> Q False w'" "\<And>w'. ready E w sz w' \<Longrightarrow> Q True w'"
  shows "wp (readBuffered sz) Q R w"
proof (rule wp_readBuffered [OF _ sz])
  fix rb :: buffer and ri
  assume r: "ri \<le> bufI rb" "bufI rb \<le> length (bufB rb)" "drop ri (take (bufI rb) (bufB rb)) = buffered w"
    "length (buffered w) < sz \<longrightarrow> bufI rb < length (bufB rb)"
  let ?w = "w\<lparr>wReadBuffer := rb, wReadI := ri, wReadStart := InReadBuffer (bufI rb)\<rparr>"
  show "Q (sz \<le> length (buffered w)) ?w"
  proof (cases "sz \<le> length (buffered w)")
    case True
    have b: "buffered ?w = buffered w" using r(3) by (simp add: buffered_def)
    moreover have "total E ?w = total E w" by (rule total_same) (simp_all add: b)
    ultimately have "ready E w sz ?w"
      using True ok r by (simp add: ready_def read_ok_def same_sides_def buffers_ok_def)
    with True assms(6) show ?thesis by simp
  next
    case False
    with r(4) stops [OF ok r(1-3)] assms(5) show ?thesis by simp
  qed
qed (use ok in \<open>simp add: read_ok_def\<close>)

lemma ready_nth:
  assumes "ready E w sz w'" "k < sz"
  shows "bufB (wReadBuffer w') ! (wReadI w' + k) = buffered w ! k"
  by (rule nth_buffered [of _ "bufI (wReadBuffer w')"]) (use assms in \<open>auto simp: ready_def buffered_def [symmetric]\<close>)

lemma buffered_advance:
  "wReadBuffer w' = wReadBuffer w \<Longrightarrow> wReadI w' = wReadI w + k \<Longrightarrow> buffered w' = drop k (buffered w)"
  by (simp add: buffered_def add.commute)

lemma buffers_ok_advance:
  "buffers_ok w \<Longrightarrow> wReadBuffer w' = wReadBuffer w \<Longrightarrow> wReadI w' = wReadI w + k \<Longrightarrow> k \<le> length (buffered w) \<Longrightarrow> wIn w' = wIn w \<Longrightarrow>
     buffers_ok w'"
  using length_buffered [of w] by (auto simp: buffers_ok_def)

lemma small_length: "unat ((b :: byte) AND 0x7f) \<le> 127"
proof -
  have "unat (b AND 0x7f) \<le> unat (0x7f :: byte)" by (rule word_le_nat_alt [THEN iffD1]) (rule word_and_le1)
  then show ?thesis by simp
qed

lemma opcode_taken:
  assumes r: "ready E w 2 w1" and st: "wReadState w = ReadStateOpcode"
    and w': "wReadBuffer w' = wReadBuffer w1" "wReadI w' = wReadI w1 + 2" "wReadStart w' = wReadStart w1"
      "wReadOpCode w' = unat (bufB (wReadBuffer w1) ! wReadI w1 AND 0xf)"
      "wReadPayloadLength w' = unat (bufB (wReadBuffer w1) ! (wReadI w1 + 1) AND 0x7f)"
      "wReadHeaderLength w' = header_size (xIncoming E) (wReadPayloadLength w')" "wReadState w' = ReadStateHeader"
      "wIn w' = wIn w1" "wArriving w' = wArriving w1"
  shows "going E w w' \<and> wReadState w' = ReadStateHeader \<and> length (buffered w') + 2 \<le> length (buffered w)"
proof -
  have n: "bufB (wReadBuffer w1) ! wReadI w1 = buffered w ! 0" "bufB (wReadBuffer w1) ! (wReadI w1 + 1) = buffered w ! 1"
    using ready_nth [OF r, of 0] ready_nth [OF r, of 1] by simp_all
  have len: "2 \<le> length (buffered w)" "0 < length (buffered w)" "1 < length (buffered w)" and eq: "buffered w1 = buffered w" using r
    by (auto simp: ready_def)
  have bw: "buffered w' = drop 2 (buffered w)" using buffered_advance [OF w'(1,2)] eq by simp
  have "total E w' = total E w"
    unfolding total_def incoming_def bw using st len n r
    by (simp add: got_def phase_of_def w' payload_of.simps(1) nth_append ready_def same_sides_def)
  moreover have "buffers_ok w'"
    by (rule buffers_ok_advance [OF _ w'(1,2) _ w'(8)]) (use r len eq in \<open>simp_all add: ready_def read_ok_def\<close>)
  ultimately show ?thesis
    using bw w' len r small_length [of "bufB (wReadBuffer w1) ! (wReadI w1 + 1)"] by (simp add: going_def read_ok_def ready_def same_sides_def)
qed

lemma preRead_opcode_ok:
  assumes ok: "read_ok E w" and st: "wReadState w = ReadStateOpcode"
  shows "wp (preRead_opcode E)
     (\<lambda>r w'. case r of Some b \<Rightarrow> b \<and> waiting E w w'
       | None \<Rightarrow> going E w w' \<and> wReadState w' = ReadStateHeader \<and> length (buffered w') + 2 \<le> length (buffered w))
     (\<lambda>e _. \<not> fatal e) w"
proof -
  have taken: "wp (take_opcode E)
      (\<lambda>_ w'. going E w w' \<and> wReadState w' = ReadStateHeader \<and> length (buffered w') + 2 \<le> length (buffered w)) (\<lambda>e _. \<not> fatal e) w1"
    if "ready E w 2 w1" for w1
    unfolding take_opcode_def next_byte_def Let_def protocol_error_def
    apply (simp only: wp_simps)
    apply (rule wp_set_last_frame)
     apply (simp only: wp_simps split: if_split)
     apply (intro conjI impI; (rule opcode_taken [OF that st, THEN conjunct1] opcode_taken [OF that st, THEN conjunct2, THEN conjunct1]
         opcode_taken [OF that st, THEN conjunct2, THEN conjunct2])?)
                         apply (simp_all add: fatal_def header_size_def)
    done
  show ?thesis
    unfolding preRead_opcode_def wp_bindp
    by (rule wp_buffered [OF ok]) (use st taken in \<open>simp_all add: wp_simps\<close>)
qed

text \<open>The rest of the header.\<close>

definition extension :: "nat \<Rightarrow> nat" where
  "extension len = (if len < 126 then 0 else if len = 126 then 2 else 8)"

lemma header_size_extension: "header_size masked len = extension len + (if masked then 4 else 0)"
  by (simp add: header_size_def extension_def)

lemma taken_bytes:
  assumes "buffers_ok w" "k + n \<le> length (buffered w)"
  shows "take n (drop (wReadI w + k) (bufB (wReadBuffer w))) = take n (drop k (buffered w))"
proof -
  have "n \<le> bufI (wReadBuffer w) - (k + wReadI w)" using assms(2) length_buffered [OF assms(1)] by simp
  then show ?thesis by (simp add: buffered_def drop_take min_def add.commute)
qed

lemma wp_read_length:
  assumes ok: "buffers_ok w" "wReadPayloadLength w \<le> 127" "extension (wReadPayloadLength w) \<le> length (buffered w)"
    and Q: "Q () (w\<lparr>wReadI := wReadI w + extension (wReadPayloadLength w),
      wReadPayloadLength := frame_length (wReadPayloadLength w) (buffered w)\<rparr>)"
    and R: "\<And>m w'. R (ProtocolException m) w'"
  shows "wp read_length Q R w"
proof -
  let ?l = "wReadPayloadLength w"
  have b: "take n (drop (wReadI w) (bufB (wReadBuffer w))) = take n (buffered w)" if "n \<le> length (buffered w)" for n
    using taken_bytes [OF ok(1), of 0 n] that by simp
  consider "?l < 126" | "?l = 126" | "?l = 127" using ok(2) by linarith
  then show ?thesis
  proof cases
    case 1
    then have "w\<lparr>wReadI := wReadI w + extension ?l, wReadPayloadLength := frame_length ?l (buffered w)\<rparr> = w"
      by (simp add: extension_def frame_length_def)
    with 1 Q show ?thesis by (simp add: read_length_def wp_simps)
  next
    case 2
    with Q b [of 2] ok(3) show ?thesis
      by (simp add: read_length_def wp_simps next_bytes_def extension_def frame_length_def)
  next
    case 3
    with Q b [of 8] ok(3) R show ?thesis
      by (simp add: read_length_def wp_simps next_bytes_def extension_def frame_length_def Let_def protocol_error_def)
  qed
qed

lemma wp_read_mask:
  assumes "xIncoming E \<Longrightarrow> 4 \<le> bufI (wReadBuffer w) - wReadI w"
    and "Q () (if xIncoming E then w\<lparr>wReadI := wReadI w + 4, wReadMask := take 4 (drop (wReadI w) (bufB (wReadBuffer w)))\<rparr> else w)"
  shows "wp (read_mask E) Q R w"
  using assms by (cases "xIncoming E") (simp_all add: read_mask_def wp_simps next_bytes_def)

lemma payload_key: "payload_of False (AtPayload key k n) bs = payload_of False (AtPayload key' k' n) bs"
  by (simp add: payload_of.simps(4) unmask_def)

text \<open>A close frame has been seen: the reader is not used any more.\<close>

definition close_seen :: "ws \<Rightarrow> bool" where
  "close_seen w \<longleftrightarrow> wReadState w = ReadStateHeader \<and> wReadOpCode w = OP_CLOSE
     \<and> (wState w = WsClosingResponsePending \<or> wNextState w = WsClosingResponsePending)"

definition hungry :: "ws \<Rightarrow> bool" where
  "hungry w \<longleftrightarrow> bufI (wIn w) < length (bufB (wIn w))"

text \<open>What \<open>frame_opcode\<close> finds: \<open>w\<close> is the state at the header, \<open>w'\<close> the one behind it.\<close>

definition behind_header :: "ws_env \<Rightarrow> ws \<Rightarrow> ws \<Rightarrow> bool" where
  "behind_header E w w' \<longleftrightarrow> buffers_ok w' \<and> same_sides w w' \<and> wIn w' = wIn w \<and> wReadState w' = ReadStateHeader
     \<and> wReadOpCode w' = wReadOpCode w
     \<and> buffered w' = drop (header_size (xIncoming E) (wReadPayloadLength w)) (buffered w)
     \<and> header_size (xIncoming E) (wReadPayloadLength w) \<le> length (buffered w)
     \<and> wReadPayloadLength w' = frame_length (wReadPayloadLength w) (buffered w)
     \<and> (xIncoming E \<longrightarrow> wReadMask w' = frame_key True (wReadPayloadLength w) (buffered w))
     \<and> wReadStart w' = InReadBuffer (bufI (wReadBuffer w'))"

lemma frame_length_append: "extension len \<le> length bs \<Longrightarrow> frame_length len (bs @ cs) = frame_length len bs"
  by (auto simp: frame_length_def extension_def split: if_splits)

lemma frame_key_append:
  "header_size True len \<le> length bs \<Longrightarrow> frame_key True len (bs @ cs) = frame_key True len bs"
  by (auto simp: frame_key_def header_size_def split: if_splits)

lemma behind_header_total:
  assumes "behind_header E w w1" "wReadState w = ReadStateHeader"
    and w': "wReadBuffer w' = wReadBuffer w1" "wReadI w' = wReadI w1" "wIn w' = wIn w1" "wArriving w' = wArriving w1"
  shows "wReadOpCode w = OP_DATA \<or> wReadOpCode w = OP_CONT \<Longrightarrow> wReadState w' = ReadStatePayload \<Longrightarrow> wReadFrameStart w' = bufI (wIn w1) \<Longrightarrow>
      wReadMask w' = wReadMask w1 \<Longrightarrow> wReadPayloadLength w' = wReadPayloadLength w1 \<Longrightarrow> total E w' = total E w"
    and "wReadOpCode w = OP_PING \<or> wReadOpCode w = OP_PONG \<Longrightarrow> wReadState w' = ReadStateControlFrame \<Longrightarrow>
      wReadPayloadLength w' = wReadPayloadLength w1 \<Longrightarrow> total E w' = total E w"
    and "wReadOpCode w = OP_CLOSE \<Longrightarrow> wReadState w' = ReadStateHeader \<Longrightarrow> wReadOpCode w' = OP_CLOSE \<Longrightarrow> total E w' = total E w"
proof -
  let ?h = "header_size (xIncoming E) (wReadPayloadLength w)"
  have b: "buffered w' = drop ?h (buffered w)" "?h \<le> length (buffered w)" "extension (wReadPayloadLength w) \<le> length (buffered w)"
    using assms by (simp_all add: behind_header_def buffered_def header_size_extension)
  have i: "incoming w' = drop ?h (incoming w)" "?h \<le> length (incoming w)" "wIn w' = wIn w"
    using b assms by (simp_all add: incoming_def behind_header_def same_sides_def)
  have l: "frame_length (wReadPayloadLength w) (incoming w) = wReadPayloadLength w1"
    using assms(1) frame_length_append [OF b(3)] by (simp add: incoming_def behind_header_def)
  have k: "xIncoming E \<Longrightarrow> frame_key True (wReadPayloadLength w) (incoming w) = wReadMask w1"
    using assms(1) b(2) frame_key_append by (simp add: incoming_def behind_header_def)
  show "total E w' = total E w" if "wReadOpCode w = OP_DATA \<or> wReadOpCode w = OP_CONT" "wReadState w' = ReadStatePayload"
      "wReadFrameStart w' = bufI (wIn w1)" "wReadMask w' = wReadMask w1" "wReadPayloadLength w' = wReadPayloadLength w1"
  proof -
    have "total E w = got w @ payload_of (xIncoming E) (AtPayload (frame_key (xIncoming E) (wReadPayloadLength w) (incoming w)) 0
        (wReadPayloadLength w1)) (drop ?h (incoming w))"
      using that(1) i(2) assms(2) by (simp add: total_def phase_of_def payload_of.simps(2) l)
    also have "\<dots> = total E w'"
      using that i assms(3-) k payload_key by (cases "xIncoming E") (auto simp: total_def phase_of_def offset_def got_def)
    finally show ?thesis by simp
  qed
  show "total E w' = total E w" if "wReadOpCode w = OP_PING \<or> wReadOpCode w = OP_PONG" "wReadState w' = ReadStateControlFrame"
      "wReadPayloadLength w' = wReadPayloadLength w1"
    using that i assms(2) l by (auto simp: total_def phase_of_def got_def payload_of.simps(2) op_codes)
  show "total E w' = total E w" if "wReadOpCode w = OP_CLOSE" "wReadState w' = ReadStateHeader" "wReadOpCode w' = OP_CLOSE"
    using that i assms(2) by (simp add: total_def phase_of_def got_def payload_of.simps(2) op_codes)
qed

lemma wp_behind_header:
  assumes r: "ready E w (header_size (xIncoming E) (wReadPayloadLength w)) w1" and st: "wReadState w = ReadStateHeader"
    and len: "wReadPayloadLength w \<le> 127"
    and Q: "\<And>w'. behind_header E w w' \<Longrightarrow> wReadFrameStart w' = wReadFrameStart w1 \<Longrightarrow> Q () w'"
  shows "wp (seqp read_length (read_mask E)) Q (\<lambda>e _. \<not> fatal e) w1"
proof -
  let ?l = "wReadPayloadLength w" and ?h = "header_size (xIncoming E) (wReadPayloadLength w)"
  have b: "buffers_ok w1" "buffered w1 = buffered w" "wReadPayloadLength w1 = ?l"
    using r by (simp_all add: ready_def read_ok_def)
  have h: "?h \<le> length (buffered w)" using r unfolding ready_def by metis
  have ext: "extension ?l \<le> length (buffered w)"
    by (cases "xIncoming E") (use h in \<open>simp_all add: header_size_extension\<close>)
  have four: "xIncoming E \<Longrightarrow> extension ?l + 4 \<le> length (buffered w)"
    using h by (simp add: header_size_extension)
  note b = b h
  let ?w2 = "w1\<lparr>wReadI := wReadI w1 + extension ?l, wReadPayloadLength := frame_length ?l (buffered w)\<rparr>"
  let ?w3 = "?w2\<lparr>wReadI := wReadI ?w2 + 4, wReadMask := take 4 (drop (wReadI ?w2) (bufB (wReadBuffer ?w2)))\<rparr>"
  have avail: "length (buffered w) = bufI (wReadBuffer w1) - wReadI w1" using length_buffered [OF b(1)] b(2) by simp
  have b2: "buffers_ok ?w2" by (rule buffers_ok_advance [OF b(1), where k = "extension ?l"]) (use ext in \<open>simp_all add: b(2)\<close>)
  have d2: "buffered ?w2 = drop (extension ?l) (buffered w)" using buffered_advance [of ?w2 w1] b by simp
  have base: "same_sides w w1" "wIn w1 = wIn w" "wReadState w1 = ReadStateHeader" "wReadOpCode w1 = wReadOpCode w"
    "wReadStart w1 = InReadBuffer (bufI (wReadBuffer w1))"
    using r st by (simp_all add: ready_def)
  have plain: "behind_header E w ?w2" if "\<not> xIncoming E"
    using that base b b2 d2 by (simp add: behind_header_def header_size_extension same_sides_def)
  have masked: "behind_header E w ?w3" if "xIncoming E"
  proof -
    have "buffers_ok ?w3" by (rule buffers_ok_advance [OF b(1), where k = "extension ?l + 4"]) (use four that b in simp_all)
    moreover have "buffered ?w3 = drop (extension ?l + 4) (buffered w)" using buffered_advance [of ?w3 w1 "extension ?l + 4"] b by simp
    moreover have "take 4 (drop (wReadI ?w2) (bufB (wReadBuffer ?w2))) = frame_key True ?l (buffered w)"
      using taken_bytes [OF b(1), of "extension ?l" 4] four [OF that] b by (simp add: frame_key_def header_size_extension)
    ultimately show ?thesis using that base b by (simp add: behind_header_def header_size_extension same_sides_def)
  qed
  show ?thesis
    unfolding wp_seqp
  proof (rule wp_read_length [OF b(1)])
    show "wp (read_mask E) Q (\<lambda>e _. \<not> fatal e)
       (w1\<lparr>wReadI := wReadI w1 + extension (wReadPayloadLength w1), wReadPayloadLength := frame_length (wReadPayloadLength w1) (buffered w1)\<rparr>)"
      unfolding b(2,3)
      by (rule wp_read_mask) (use four avail plain masked in \<open>auto intro!: Q\<close>)
  qed (use b len ext in \<open>simp_all add: fatal_def\<close>)
qed

text \<open>How \<open>preRead\<close> may end: for want of bytes, with a close frame, or with bytes of the message.\<close>

definition mid_total :: "ws_env \<Rightarrow> ws \<Rightarrow> byte list" where
  "mid_total E w = (case wReadStart w of
     InReadBuffer _ \<Rightarrow> []
   | InMessage s \<Rightarrow> take s (bufB (wIn w)) @ unmask (xIncoming E) (wReadMask w) (s - wReadFrameStart w) (drop s (got w))
       @ payload_of (xIncoming E) (AtPayload (wReadMask w) (offset w) (wReadPayloadLength w - (bufI (wIn w) - s))) (incoming w))"

definition mid_ok :: "ws \<Rightarrow> bool" where
  "mid_ok w \<longleftrightarrow> buffers_ok w \<and> wReadState w = ReadStatePayload
     \<and> (\<exists>s. wReadStart w = InMessage s \<and> wReadFrameStart w \<le> s \<and> s \<le> bufI (wIn w)
          \<and> bufI (wIn w) - s \<le> wReadPayloadLength w \<and> 0 < wReadPayloadLength w)"

definition moved :: "ws_env \<Rightarrow> ws \<Rightarrow> bool \<Rightarrow> ws \<Rightarrow> bool" where
  "moved E w cont w' \<longleftrightarrow> mid_ok w' \<and> same_sides w w' \<and> mid_total E w' = total E w
     \<and> length (buffered w') + (case wReadStart w' of InMessage s \<Rightarrow> bufI (wIn w') - s | _ \<Rightarrow> 0) \<le> length (buffered w)
     \<and> (cont \<longrightarrow> hungry w' \<and> buffered w' = [])"

definition closed_by_peer :: "ws_env \<Rightarrow> ws \<Rightarrow> ws \<Rightarrow> bool" where
  "closed_by_peer E w w' \<longleftrightarrow> close_seen w' \<and> buffers_ok w' \<and> same_sides w w' \<and> total E w' = total E w
     \<and> wReadStart w' = InReadBuffer (bufI (wReadBuffer w'))"

definition returned :: "ws_env \<Rightarrow> ws \<Rightarrow> bool \<Rightarrow> ws \<Rightarrow> bool" where
  "returned E w b w' \<longleftrightarrow> b \<and> waiting E w w' \<or> \<not> b \<and> closed_by_peer E w w' \<or> moved E w b w'"

lemma wp_frame_opcode:
  assumes r: "behind_header E w w1" and st: "wReadState w = ReadStateHeader" and hungry: "hungry w"
  shows "wp frame_opcode
     (\<lambda>r w'. case r of Some b \<Rightarrow> returned E w b w'
       | None \<Rightarrow> going E w w' \<and> hungry w' \<and> wReadState w' \<in> {ReadStatePayload, ReadStateControlFrame})
     (\<lambda>e _. \<not> fatal e) w1"
proof -
  have r': "buffers_ok w1" "same_sides w w1" "wIn w1 = wIn w" "wReadOpCode w1 = wReadOpCode w" "wReadState w1 = ReadStateHeader"
    "wReadStart w1 = InReadBuffer (bufI (wReadBuffer w1))" "length (buffered w1) \<le> length (buffered w)"
    using r by (simp_all add: behind_header_def)
  have shorter: "length (buffered w') \<le> length (buffered w)" if "wReadBuffer w' = wReadBuffer w1" "wReadI w' = wReadI w1" for w'
    using that r'(7) by (simp add: buffered_def)
  consider (words) "wReadOpCode w = OP_TEXT" | (data) "wReadOpCode w = OP_DATA \<or> wReadOpCode w = OP_CONT" | (close) "wReadOpCode w = OP_CLOSE"
    | (ping) "wReadOpCode w = OP_PING \<or> wReadOpCode w = OP_PONG"
    | (other) "wReadOpCode w \<notin> {OP_TEXT, OP_DATA, OP_CONT, OP_CLOSE, OP_PING, OP_PONG}" by blast
  then show ?thesis
  proof cases
    case data
    let ?w = "w1\<lparr>wReadState := ReadStatePayload, wReadFrameStart := bufI (wIn w1)\<rparr>"
    have "total E ?w = total E w" by (rule behind_header_total(1) [OF r st]) (use data in simp_all)
    then have "going E w ?w \<and> hungry ?w" if "0 < wReadPayloadLength w1"
      using that r' hungry shorter [of ?w] by (simp add: going_def read_ok_def buffers_ok_def hungry_def same_sides_def)
    moreover have "wReadOpCode w1 \<noteq> OP_TEXT" using data r'(4) by (auto simp: op_codes)
    ultimately show ?thesis using data r' hungry
      by (auto simp: frame_opcode_def wp_simps protocol_error_def fatal_def hungry_def)
  next
    case close
    have "closed_by_peer E w w'" if "w' = w1\<lparr>wClosingInitiator := True, wState := WsClosingResponsePending\<rparr>
        \<or> w' = w1\<lparr>wClosingInitiator := True, wNextState := WsClosingResponsePending\<rparr>" for w'
    proof -
      have "total E w' = total E w"
        by (rule behind_header_total(3) [OF r st]) (use that close r' in auto)
      with that close r' show ?thesis
        by (auto simp: closed_by_peer_def close_seen_def same_sides_def buffers_ok_def)
    qed
    moreover have "wReadOpCode w1 \<notin> {OP_TEXT, OP_DATA, OP_CONT}" using close r'(4) by (simp add: op_codes)
    ultimately show ?thesis using close r'(4)
      by (simp add: frame_opcode_def close_received_def wp_simps fatal_def Let_def returned_def)
  next
    case ping
    let ?w = "w1\<lparr>wReadState := ReadStateControlFrame\<rparr>"
    have "total E ?w = total E w" by (rule behind_header_total(2) [OF r st]) (use ping in simp_all)
    then have "going E w ?w \<and> hungry ?w"
      using r' ping hungry shorter [of ?w] by (auto simp: going_def read_ok_def buffers_ok_def hungry_def same_sides_def)
    moreover have "wReadOpCode w1 \<notin> {OP_TEXT, OP_DATA, OP_CONT, OP_CLOSE}" using ping r'(4) by (auto simp: op_codes)
    ultimately show ?thesis using ping r'(4) by (simp add: frame_opcode_def wp_simps)
  qed (use r'(4) in \<open>simp_all add: frame_opcode_def wp_simps protocol_error_def fatal_def\<close>)
qed

lemma preRead_header_ok:
  assumes ok: "read_ok E w" and st: "wReadState w = ReadStateHeader" and hungry: "hungry w"
  shows "wp (preRead_header E)
     (\<lambda>r w'. case r of Some b \<Rightarrow> returned E w b w'
       | None \<Rightarrow> going E w w' \<and> hungry w' \<and> wReadState w' \<in> {ReadStatePayload, ReadStateControlFrame})
     (\<lambda>e _. \<not> fatal e) w"
proof -
  let ?h = "header_size (xIncoming E) (wReadPayloadLength w)"
  have h: "wReadHeaderLength w = ?h" "wReadPayloadLength w \<le> 127" using ok st by (simp_all add: read_ok_def)
  have go: "wp (seqp read_length (seqp (read_mask E) frame_opcode))
      (\<lambda>r w'. case r of Some b \<Rightarrow> returned E w b w'
         | None \<Rightarrow> going E w w' \<and> hungry w' \<and> wReadState w' \<in> {ReadStatePayload, ReadStateControlFrame}) (\<lambda>e _. \<not> fatal e) w1"
    if "ready E w ?h w1" for w1
    using wp_behind_header [OF that st h(2), of "\<lambda>_. wp frame_opcode (\<lambda>r w'. case r of Some b \<Rightarrow> returned E w b w'
         | None \<Rightarrow> going E w w' \<and> hungry w' \<and> wReadState w' \<in> {ReadStatePayload, ReadStateControlFrame}) (\<lambda>e _. \<not> fatal e)"]
      wp_frame_opcode [OF _ st hungry]
    by (simp add: wp_seqp)
  show ?thesis
  proof (cases "0 < ?h")
    case True
    show ?thesis
      unfolding preRead_header_def
      by (simp only: wp_simps h True if_True, rule wp_buffered [OF ok _ _ True])
        (use st go h True in \<open>simp_all add: wp_simps returned_def\<close>)
  next
    case False
    have "ready E w ?h w" using ok st False by (simp add: ready_def read_ok_def same_sides_def)
    with go False show ?thesis by (simp add: preRead_header_def wp_simps h)
  qed
qed

lemma control_taken:
  assumes ok: "read_ok E w" and st: "wReadState w = ReadStateControlFrame" and len: "wReadPayloadLength w \<le> length (buffered w)"
    and w': "wReadBuffer w' = wReadBuffer w" "wReadI w' = wReadI w + wReadPayloadLength w" "wReadState w' = ReadStateOpcode"
      "wIn w' = wIn w" "wArriving w' = wArriving w"
  shows "going E w w' \<and> wReadState w' = ReadStateOpcode \<and> wIn w' = wIn w"
proof -
  have b: "buffered w' = drop (wReadPayloadLength w) (buffered w)" by (rule buffered_advance [OF w'(1,2)])
  have "total E w' = total E w"
    unfolding total_def incoming_def b using st len by (simp add: phase_of_def w' payload_of.simps(3) got_def)
  moreover have "buffers_ok w'" by (rule buffers_ok_advance [OF _ w'(1,2) len w'(4)]) (use ok in \<open>simp add: read_ok_def\<close>)
  ultimately show ?thesis using b w' by (simp add: going_def read_ok_def same_sides_def)
qed

lemma wp_take_control:
  assumes ok: "read_ok E w" and st: "wReadState w = ReadStateControlFrame" and len: "wReadPayloadLength w \<le> length (buffered w)"
  shows "wp take_control (\<lambda>_ w'. going E w w' \<and> wReadState w' = ReadStateOpcode \<and> wIn w' = wIn w) R w"
  unfolding take_control_def wp_simps by (rule control_taken [OF ok st len]) simp_all

lemma going_trans: "going E w w1 \<Longrightarrow> going E w1 w2 \<Longrightarrow> going E w w2"
  by (simp add: going_def same_sides_def)

lemma preRead_control_ok:
  assumes ok: "read_ok E w" and st: "wReadState w = ReadStateControlFrame"
  shows "wp preRead_control
     (\<lambda>r w'. case r of Some b \<Rightarrow> b \<and> waiting E w w' | None \<Rightarrow> going E w w' \<and> wReadState w' = ReadStateOpcode \<and> wIn w' = wIn w)
     (\<lambda>e _. \<not> fatal e) w"
proof (cases "0 < wReadPayloadLength w")
  case True
  have "wp take_control (\<lambda>_ w'. going E w w' \<and> wReadState w' = ReadStateOpcode \<and> wIn w' = wIn w) (\<lambda>e _. \<not> fatal e) w1"
    if r: "ready E w (wReadPayloadLength w) w1" for w1
  proof -
    have "going E w w1" "wReadState w1 = ReadStateControlFrame" "wIn w1 = wIn w" and "wReadPayloadLength w1 \<le> length (buffered w1)"
      using r st by (simp_all add: ready_def going_def) (use r in \<open>auto simp: ready_def\<close>)
    moreover from this(1) have "read_ok E w1" by (simp add: going_def)
    ultimately show ?thesis
      using wp_mono [OF wp_take_control [of E w1 "\<lambda>e _. \<not> fatal e"], of "\<lambda>_ w'. going E w w' \<and> wReadState w' = ReadStateOpcode \<and> wIn w' = wIn w"]
        going_trans by fastforce
  qed
  with True show ?thesis
    by (simp only: preRead_control_def wp_simps if_True, intro wp_buffered [OF ok _ _ True]) (use st in \<open>simp_all add: wp_simps\<close>)
next
  case False
  with wp_take_control [OF ok st] show ?thesis by (simp add: preRead_control_def wp_simps)
qed

lemma got_moved:
  "n \<le> length bs \<Longrightarrow> bufI b + n \<le> length (bufB b) \<Longrightarrow> bufI b \<le> length (bufB b) \<Longrightarrow>
     take (bufI b + n) (poke (bufB b) (bufI b) (take n bs)) = take (bufI b) (bufB b) @ take n bs"
  by (simp add: poke_def)

lemma payload_moved:
  assumes ok: "read_ok E w" and st: "wReadState w = ReadStatePayload"
    and n: "n \<le> length (buffered w)" "n \<le> wReadPayloadLength w" "bufI (wIn w) + n \<le> length (bufB (wIn w))"
    and cont: "cont \<longrightarrow> bufI (wIn w) + n < length (bufB (wIn w)) \<and> n = length (buffered w)"
  shows "moved E w cont (w\<lparr>wReadStart := InMessage (bufI (wIn w)),
     wIn := \<lparr>bufB = poke (bufB (wIn w)) (bufI (wIn w)) (take n (drop (wReadI w) (bufB (wReadBuffer w)))), bufI = bufI (wIn w) + n\<rparr>,
     wReadI := wReadI w + n\<rparr>)"
proof -
  let ?bs = "take n (drop (wReadI w) (bufB (wReadBuffer w)))"
  let ?w = "w\<lparr>wReadStart := InMessage (bufI (wIn w)),
     wIn := \<lparr>bufB = poke (bufB (wIn w)) (bufI (wIn w)) ?bs, bufI = bufI (wIn w) + n\<rparr>, wReadI := wReadI w + n\<rparr>"
  have b: "buffers_ok w" and fs: "wReadFrameStart w \<le> bufI (wIn w)" and pos: "0 < wReadPayloadLength w"
    using ok st by (simp_all add: read_ok_def)
  have bs: "?bs = take n (buffered w)" using taken_bytes [OF b, of 0 n] n(1) by simp
  have len: "length ?bs = n" unfolding bs using n(1) by simp
  have bw: "buffered ?w = drop n (buffered w)" by (rule buffered_advance) simp_all
  have got: "got ?w = got w @ take n (buffered w)"
    using got_moved [of n "buffered w" "wIn w"] n b unfolding bs by (simp add: got_def buffers_ok_def)
  have room: "length (poke (bufB (wIn w)) (bufI (wIn w)) ?bs) = length (bufB (wIn w))" using n(3) len by simp
  have ok': "buffers_ok ?w"
    using b n room length_buffered [OF b] by (auto simp: buffers_ok_def)
  have "mid_total E ?w = total E w"
  proof -
    have inc: "incoming w = take n (buffered w) @ incoming ?w" by (simp add: incoming_def bw)
    have "total E w = got w @ payload_of (xIncoming E) (AtPayload (wReadMask w) (offset w) (wReadPayloadLength w)) (take n (buffered w) @ incoming ?w)"
      using st by (simp add: total_def phase_of_def inc)
    also have "\<dots> = got w @ unmask (xIncoming E) (wReadMask w) (offset w) (take n (buffered w))
        @ payload_of (xIncoming E) (AtPayload (wReadMask w) (offset w + n) (wReadPayloadLength w - n)) (incoming ?w)"
      using n(1,2) by (subst payload_part) (simp_all add: min_absorb2)
    also have "\<dots> = mid_total E ?w"
    proof -
      have g: "length (got w) = bufI (wIn w)" using b by (simp add: got_def buffers_ok_def)
      have "take (bufI (wIn w)) (bufB (wIn ?w)) = got w" using b by (simp add: got_def poke_def buffers_ok_def)
      moreover have "drop (bufI (wIn w)) (got ?w) = take n (buffered w)" unfolding got using g by simp
      moreover have "offset ?w = offset w + n" using fs by (simp add: offset_def)
      ultimately show ?thesis by (simp add: mid_total_def offset_def)
    qed
    finally show ?thesis by simp
  qed
  moreover have "hungry ?w \<and> buffered ?w = []" if cont
    unfolding bw using that cont room by (simp add: hungry_def)
  moreover have "mid_ok ?w" using ok' st fs n pos by (simp add: mid_ok_def)
  moreover have "same_sides w ?w" using room by (simp add: same_sides_def)
  ultimately show ?thesis using n(1) bw by (simp add: moved_def)
qed

lemma preRead_payload_ok:
  assumes ok: "read_ok E w" and st: "wReadState w = ReadStatePayload" and hungry: "hungry w"
  shows "wp preRead_payload (\<lambda>r w'. \<exists>b. r = Some b \<and> moved E w b w') R w"
proof -
  let ?a = "bufI (wReadBuffer w) - wReadI w" and ?r = "length (bufB (wIn w)) - bufI (wIn w)"
  define n where "n = min (min ?a ?r) (wReadPayloadLength w)"
  let ?c = "take n (drop (wReadI w) (bufB (wReadBuffer w)))"
  have b: "buffers_ok w" using ok by (simp add: read_ok_def)
  have "n = ?a \<or> n = ?r \<or> n = wReadPayloadLength w"
    unfolding n_def by (cases "?a \<le> ?r"; cases "?a \<le> wReadPayloadLength w"; cases "?r \<le> wReadPayloadLength w") simp_all
  then have least: "n = length (buffered w)" if "bufI (wIn w) + n < length (bufB (wIn w))" "n < wReadPayloadLength w"
    using that length_buffered [OF b] by auto
  have n: "n \<le> length (buffered w)" "n \<le> wReadPayloadLength w" "n \<le> ?r"
    unfolding n_def length_buffered [OF b] by (rule min.coboundedI1, rule min.cobounded1, rule min.cobounded2, rule min.coboundedI1, rule min.cobounded2)
  have room: "bufI (wIn w) + n \<le> length (bufB (wIn w))" using n(3) hungry unfolding hungry_def by linarith
  have "length ?c = n" using taken_bytes [OF b, of 0 n] n(1) by (simp del: length_take add: length_take [of n "buffered w"] min_absorb2)
  then have len: "length (poke (bufB (wIn w)) (bufI (wIn w)) ?c) = length (bufB (wIn w))" using room by simp
  have "moved E w (bufI (wIn w) + n < length (poke (bufB (wIn w)) (bufI (wIn w)) ?c) \<and> n < wReadPayloadLength w)
      (w\<lparr>wReadStart := InMessage (bufI (wIn w)),
         wIn := \<lparr>bufB = poke (bufB (wIn w)) (bufI (wIn w)) ?c, bufI = bufI (wIn w) + n\<rparr>, wReadI := wReadI w + n\<rparr>)"
    unfolding len by (intro payload_moved [OF ok st n(1,2) room] impI conjI least) blast+
  moreover have "bufB (wIn w) \<noteq> []" "bufI (wIn w) \<noteq> length (bufB (wIn w))" using hungry by (auto simp: hungry_def)
  ultimately show ?thesis
    unfolding preRead_payload_def wp_simps Let_def by (simp flip: n_def del: length_poke length_take)
qed

subsection \<open>One round and the loop\<close>

definition round_end :: "ws_env \<Rightarrow> ws \<Rightarrow> bool option \<Rightarrow> ws \<Rightarrow> bool" where
  "round_end E w r w' \<longleftrightarrow> (case r of Some b \<Rightarrow> returned E w b w' | None \<Rightarrow> going E w w' \<and> hungry w' \<and> wReadState w' = ReadStateOpcode)"

lemma returned_trans: "going E w w1 \<Longrightarrow> returned E w1 b w' \<Longrightarrow> returned E w b w'"
  by (auto simp: returned_def going_def waiting_def closed_by_peer_def moved_def same_sides_def)

lemma round_end_trans: "going E w w1 \<Longrightarrow> round_end E w1 r w' \<Longrightarrow> round_end E w r w'"
  using returned_trans going_trans by (fastforce simp: round_end_def split: option.splits)

lemma going_ok: "going E w w1 \<Longrightarrow> read_ok E w1"
  by (simp add: going_def)

lemma hungry_going: "going E w w1 \<Longrightarrow> hungry w \<Longrightarrow> hungry w1"
  by (simp add: hungry_def going_def)

lemma wp_or_return:
  "wp (or_return m n) Q R w = wp m (\<lambda>r w'. case r of Some b \<Rightarrow> Q (Some b) w' | None \<Rightarrow> wp n Q R w') R w"
  by (auto simp: or_return_def wp_bindp wp_basic wp_def ret_def split: option.splits prod.splits sum.splits)

lemma wp_in_read_state:
  "wp (in_read_state st m) Q R w = (if wReadState w = st then wp m Q R w else Q None w)"
  by (simp add: in_read_state_def wp_simps)

lemma from_payload:
  assumes "read_ok E w" "hungry w" "wReadState w = ReadStatePayload"
  shows "wp (in_read_state ReadStatePayload preRead_payload) (round_end E w) (\<lambda>e _. \<not> fatal e) w"
  unfolding wp_in_read_state if_P [OF assms(3)]
  by (rule wp_mono [OF preRead_payload_ok [OF assms(1,3,2)]]) (auto simp: round_end_def returned_def)

lemma from_control:
  assumes ok: "read_ok E w" "hungry w" and st: "wReadState w \<in> {ReadStatePayload, ReadStateControlFrame}"
  shows "wp (or_return (in_read_state ReadStateControlFrame preRead_control) (in_read_state ReadStatePayload preRead_payload))
    (round_end E w) (\<lambda>e _. \<not> fatal e) w"
proof (cases "wReadState w = ReadStatePayload")
  case True
  with from_payload [OF ok] show ?thesis by (simp add: wp_or_return wp_in_read_state)
next
  case False
  then have c: "wReadState w = ReadStateControlFrame" using st by simp
  show ?thesis
    unfolding wp_or_return wp_in_read_state if_P [OF c]
    by (rule wp_mono [OF preRead_control_ok [OF ok(1) c]])
      (use ok hungry_going in \<open>auto simp: round_end_def returned_def split: option.splits\<close>)
qed

lemma from_header:
  assumes ok: "read_ok E w" "hungry w" and st: "wReadState w \<noteq> ReadStateOpcode"
  shows "wp (or_return (in_read_state ReadStateHeader (preRead_header E))
      (or_return (in_read_state ReadStateControlFrame preRead_control) (in_read_state ReadStatePayload preRead_payload)))
    (round_end E w) (\<lambda>e _. \<not> fatal e) w"
proof (cases "wReadState w = ReadStateHeader")
  case False
  with st have "wReadState w \<in> {ReadStatePayload, ReadStateControlFrame}" by (cases "wReadState w") simp_all
  with False from_control [OF ok] show ?thesis by (simp add: wp_or_return [where m = "in_read_state ReadStateHeader _"] wp_in_read_state [where st = ReadStateHeader])
next
  case True
  show ?thesis
    unfolding wp_or_return [where m = "in_read_state ReadStateHeader _"] wp_in_read_state [where st = ReadStateHeader] if_P [OF True]
  proof (rule wp_mono [OF preRead_header_ok [OF ok(1) True ok(2)]])
    fix r w1
    assume r: "case r of Some b \<Rightarrow> returned E w b w1
      | None \<Rightarrow> going E w w1 \<and> hungry w1 \<and> wReadState w1 \<in> {ReadStatePayload, ReadStateControlFrame}"
    show "case r of Some b \<Rightarrow> round_end E w (Some b) w1
      | None \<Rightarrow> wp (or_return (in_read_state ReadStateControlFrame preRead_control) (in_read_state ReadStatePayload preRead_payload))
          (round_end E w) (\<lambda>e _. \<not> fatal e) w1"
    proof (cases r)
      case None
      with r have g: "going E w w1" and *: "hungry w1" "wReadState w1 \<in> {ReadStatePayload, ReadStateControlFrame}" by simp_all
      show ?thesis using None wp_mono [OF from_control [OF going_ok [OF g] *] round_end_trans [OF g]] by simp
    qed (use r in \<open>simp add: round_end_def\<close>)
  qed
qed

definition round_cost :: "ws \<Rightarrow> nat" where
  "round_cost w = (if wReadState w = ReadStateOpcode then 2 else 0)"

lemma preRead_round_ok:
  assumes ok: "read_ok E w" "hungry w"
  shows "wp (preRead_round E) (\<lambda>r w'. round_end E w r w' \<and> (r = None \<longrightarrow> length (buffered w') + round_cost w \<le> length (buffered w)))
     (\<lambda>e _. \<not> fatal e) w"
proof (cases "wReadState w = ReadStateOpcode")
  case False
  have "wp (preRead_round E) (round_end E w) (\<lambda>e _. \<not> fatal e) w"
    using False from_header [OF ok False]
    unfolding preRead_round_def wp_or_return [where m = "in_read_state ReadStateOpcode _"] wp_in_read_state [where st = ReadStateOpcode]
    by simp
  then show ?thesis
    by (rule wp_mono) (use False in \<open>auto simp: round_end_def going_def round_cost_def\<close>)
next
  case True
  show ?thesis
    unfolding preRead_round_def wp_or_return [where m = "in_read_state ReadStateOpcode _"] wp_in_read_state [where st = ReadStateOpcode]
      if_P [OF True]
  proof (rule wp_mono [OF preRead_opcode_ok [OF ok(1) True]])
    fix r w1
    assume r: "case r of Some b \<Rightarrow> b \<and> waiting E w w1
      | None \<Rightarrow> going E w w1 \<and> wReadState w1 = ReadStateHeader \<and> length (buffered w1) + 2 \<le> length (buffered w)"
    show "case r of Some b \<Rightarrow> round_end E w (Some b) w1 \<and> (Some b = None \<longrightarrow> length (buffered w1) + round_cost w \<le> length (buffered w))
      | None \<Rightarrow> wp (or_return (in_read_state ReadStateHeader (preRead_header E))
         (or_return (in_read_state ReadStateControlFrame preRead_control) (in_read_state ReadStatePayload preRead_payload)))
         (\<lambda>r w'. round_end E w r w' \<and> (r = None \<longrightarrow> length (buffered w') + round_cost w \<le> length (buffered w))) (\<lambda>e _. \<not> fatal e) w1"
    proof (cases r)
      case None
      with r ok hungry_going have g: "going E w w1" and *: "hungry w1" "wReadState w1 \<noteq> ReadStateOpcode"
        and l: "length (buffered w1) + 2 \<le> length (buffered w)" by auto
      have "round_end E w r' w' \<and> (r' = None \<longrightarrow> length (buffered w') + round_cost w \<le> length (buffered w))" if "round_end E w1 r' w'" for r' w'
        using round_end_trans [OF g that] that l True by (auto simp: round_end_def going_def round_cost_def)
      with None wp_mono [OF from_header [OF going_ok [OF g] *]] show ?thesis by simp
    qed (use r in \<open>simp add: round_end_def returned_def\<close>)
  qed
qed

lemma preRead_loop_ok:
  "read_ok E w \<Longrightarrow> hungry w \<Longrightarrow> length (buffered w) + 2 \<le> fuel + round_cost w div 2 \<Longrightarrow>
     wp (preRead_loop E fuel) (returned E w) (\<lambda>e _. \<not> fatal e) w"
proof (induction fuel arbitrary: w)
  case 0
  then show ?case by (simp add: round_cost_def split: if_splits)
next
  case (Suc fuel)
  have "wp (preRead_loop E fuel) (returned E w) (\<lambda>e _. \<not> fatal e) w1"
    if "round_end E w None w1" "length (buffered w1) + round_cost w \<le> length (buffered w)" for w1
  proof -
    have g: "going E w w1" "hungry w1" "wReadState w1 = ReadStateOpcode" using that(1) by (simp_all add: round_end_def)
    have "length (buffered w1) + 2 \<le> fuel + round_cost w1 div 2"
      using Suc.prems(3) that(2) g(3) by (auto simp: round_cost_def split: if_splits)
    from wp_mono [OF Suc.IH [OF going_ok [OF g(1)] g(2) this] returned_trans [OF g(1)]] show ?thesis by simp
  qed
  then show ?case
    unfolding preRead_loop.simps wp_bindp
    by (intro wp_mono [OF preRead_round_ok [OF Suc.prems(1,2)]]) (auto simp: wp_simps round_end_def split: option.splits)
qed

lemma preRead_ok:
  assumes "read_ok E w" "hungry w"
  shows "wp (preRead E) (returned E w) (\<lambda>e _. \<not> fatal e) w"
  unfolding preRead_def wp_simps
  by (rule preRead_loop_ok [OF assms]) (use length_buffered [of w] assms in \<open>simp add: read_ok_def\<close>)

subsection \<open>The socket\<close>

lemma stream_read_ok:
  assumes "stream_read as b = (r, as')" "bufI b \<le> length (bufB b)"
  shows "case r of Inl e \<Rightarrow> \<not> fatal e
    | Inr (op, b') \<Rightarrow> op \<noteq> OpWrite \<and> length (bufB b') = length (bufB b) \<and> bufI b' \<le> length (bufB b')
        \<and> (\<exists>ds. arriving as = ds @ arriving as' \<and> bufI b' = bufI b + length ds \<and> take (bufI b') (bufB b') = take (bufI b) (bufB b) @ ds)"
proof (cases "sock_read as (length (bufB b) - bufI b) (length (bufB b) - bufI b) []")
  case (Pair r1 as1)
  show ?thesis
  proof (cases r1)
    case (Inl e)
    with Pair assms(1) sock_read_error [of as _ _ "[]" e as1] show ?thesis
      by (auto simp: stream_read_def fatal_def)
  next
    case (Inr bs)
    with Pair sock_read_moves [of as _ _ "[]" bs as1] have m: "length bs \<le> length (bufB b) - bufI b" "bs @ arriving as1 = arriving as"
      by auto
    have "bufI b + length bs \<le> length (bufB b)" using m(1) assms(2) by linarith
    with m(2) Pair Inr assms show ?thesis
      by (auto simp: stream_read_def Let_def OpRead_def OpNone_def OpWrite_def poke_def split: if_splits)
  qed
qed

lemma wp_delegate_read:
  assumes "bufI (get w) \<le> length (bufB (get w))"
    and "\<And>op b as ds. op \<noteq> OpWrite \<Longrightarrow> length (bufB b) = length (bufB (get w)) \<Longrightarrow> bufI b \<le> length (bufB b) \<Longrightarrow>
       arriving (wArriving w) = ds @ arriving as \<Longrightarrow> bufI b = bufI (get w) + length ds \<Longrightarrow>
       take (bufI b) (bufB b) = take (bufI (get w)) (bufB (get w)) @ ds \<Longrightarrow> Q op (put b (w\<lparr>wArriving := as\<rparr>))"
    and "\<And>e as. \<not> fatal e \<Longrightarrow> R e (w\<lparr>wArriving := as\<rparr>)"
  shows "wp (delegate_read get put) Q R w"
proof (cases "stream_read (wArriving w) (get w)")
  case (Pair r as)
  from stream_read_ok [OF Pair assms(1)] assms(2,3) Pair show ?thesis
    by (cases r) (auto simp: delegate_read_def wp_simps)
qed

text \<open>How much there is to move.\<close>

definition ahead :: "ws \<Rightarrow> nat" where
  "ahead w = 2 * length (arriving (wArriving w)) + length (buffered w)"

text \<open>The state between the delegate's \<open>read\<close> and \<open>postRead\<close>.\<close>

definition fed :: "ws_env \<Rightarrow> ws \<Rightarrow> ws \<Rightarrow> bool" where
  "fed E w w' \<longleftrightarrow> length (bufB (wIn w')) = length (bufB (wIn w)) \<and> bufI (wIn w') \<le> length (bufB (wIn w')) \<and>
     (wReadState w' \<noteq> ReadStatePayload \<and> read_ok E w' \<and> total E w' = total E w \<and> hungry w'
        \<and> (\<exists>s. wReadStart w' = InReadBuffer s \<and> s \<le> bufI (wReadBuffer w') \<and> ahead w' + (bufI (wReadBuffer w') - s) \<le> ahead w)
      \<or> close_seen w' \<and> total E w' = total E w \<and> wReadStart w' = InReadBuffer (bufI (wReadBuffer w'))
      \<or> mid_ok w' \<and> mid_total E w' = total E w
        \<and> (\<exists>s. wReadStart w' = InMessage s \<and> ahead w' + (bufI (wIn w') - s) \<le> ahead w))"

lemma read_to_buffer_ok:
  assumes w: "waiting E w w1" and hungry: "hungry w"
  shows "wp read_to_buffer (\<lambda>s w'. s \<noteq> OpWrite \<and> fed E w w') (\<lambda>e _. \<not> fatal e) w1"
  unfolding read_to_buffer_def
proof (rule wp_delegate_read)
  have ok: "read_ok E w1" "buffers_ok w1" using w by (auto simp: waiting_def read_ok_def)
  then show "bufI (wReadBuffer w1) \<le> length (bufB (wReadBuffer w1))" by (simp add: buffers_ok_def)
  fix op :: sockop and b :: buffer and as ds
  assume op: "op \<noteq> OpWrite" and b: "length (bufB b) = length (bufB (wReadBuffer w1))" "bufI b \<le> length (bufB b)"
    and ds: "arriving (wArriving w1) = ds @ arriving as" "bufI b = bufI (wReadBuffer w1) + length ds"
      "take (bufI b) (bufB b) = take (bufI (wReadBuffer w1)) (bufB (wReadBuffer w1)) @ ds"
  let ?w = "w1\<lparr>wArriving := as, wReadBuffer := b\<rparr>"
  have bw: "buffered ?w = buffered w1 @ ds" using ok(2) ds(3) by (simp add: buffered_def buffers_ok_def)
  then have inc: "incoming ?w = incoming w1" using ds(1) by (simp add: incoming_def)
  have "total E ?w = total E w1"
    unfolding total_def inc by (simp add: got_def phase_of_def offset_def split: ws_read_state.split)
  then show "op \<noteq> OpWrite \<and> fed E w ?w"
    using op w ok b ds hungry bw
    by (auto simp: fed_def waiting_def same_sides_def hungry_def ahead_def read_ok_def buffers_ok_def)
qed simp

lemma mid_feed:
  assumes m: "moved E w True w1" and s: "wReadStart w1 = InMessage s"
    and ds: "arriving (wArriving w1) = ds @ arriving as" "length ds \<le> wReadPayloadLength w1 - (bufI (wIn w1) - s)"
    and b: "bufI b = bufI (wIn w1) + length ds" "take (bufI b) (bufB b) = got w1 @ ds" "length (bufB b) = length (bufB (wIn w1))"
      "bufI b \<le> length (bufB b)"
  shows "fed E w (w1\<lparr>wArriving := as, wIn := b\<rparr>)"
proof -
  let ?w = "w1\<lparr>wArriving := as, wIn := b\<rparr>"
  have ok: "buffers_ok w1" "wReadState w1 = ReadStatePayload" "wReadFrameStart w1 \<le> s" "s \<le> bufI (wIn w1)"
    "bufI (wIn w1) - s \<le> wReadPayloadLength w1" "0 < wReadPayloadLength w1" and e: "buffered w1 = []"
    using m s by (auto simp: moved_def mid_ok_def)
  have lg: "length (got w1) = bufI (wIn w1)" using ok(1) by (simp add: got_def buffers_ok_def)
  have g: "got ?w = got w1 @ ds" using b(2) by (simp add: got_def)
  have e': "buffered ?w = []" using e by (simp add: buffered_def)
  have pre: "take s (bufB b) = take s (bufB (wIn w1))"
  proof -
    have "take s (bufB b) = take s (take (bufI b) (bufB b))" using ok(4) b(1) by (simp add: min_def)
    also have "\<dots> = take s (got w1)" using lg ok(4) by (simp add: b(2))
    also have "\<dots> = take s (bufB (wIn w1))" using ok(4) by (simp add: got_def min_def)
    finally show ?thesis .
  qed
  have "mid_total E w1 = take s (bufB (wIn w1)) @ unmask (xIncoming E) (wReadMask w1) (s - wReadFrameStart w1) (drop s (got w1))
      @ payload_of (xIncoming E) (AtPayload (wReadMask w1) (offset w1) (wReadPayloadLength w1 - (bufI (wIn w1) - s))) (ds @ arriving as)"
    using s e ds(1) by (simp add: mid_total_def incoming_def)
  also have "\<dots> = mid_total E ?w"
  proof -
    have o1: "s - wReadFrameStart w1 + (length (got w1) - s) = offset w1" using ok(3,4) lg by (simp add: offset_def)
    have o2: "offset ?w = offset w1 + length ds" using ok(3,4) b(1) by (simp add: offset_def)
    have l: "wReadPayloadLength w1 - (bufI b - s) = wReadPayloadLength w1 - (bufI (wIn w1) - s) - length ds"
      using ok(4) b(1) by simp
    have d: "drop s (got ?w) = drop s (got w1) @ ds" using lg ok(4) by (simp add: g)
    show ?thesis
      using s by (simp add: mid_total_def payload_part [OF ds(2)] d unmask_append o1 o2 l pre incoming_def e')
  qed
  finally have t: "mid_total E ?w = mid_total E w1" by simp
  have "mid_ok ?w" using ok b ds(2) s by (auto simp: mid_ok_def buffers_ok_def)
  moreover have "ahead ?w + (bufI b - s) \<le> ahead w"
  proof -
    have "ahead ?w = 2 * length (arriving as)" using e' by (simp add: ahead_def)
    moreover have "ahead w = 2 * length ds + 2 * length (arriving as) + length (buffered w)"
      using m ds(1) by (simp add: ahead_def moved_def same_sides_def)
    moreover have "bufI (wIn w1) - s \<le> length (buffered w)" using m s by (simp add: moved_def)
    ultimately show ?thesis using b(1) ok(4) by linarith
  qed
  ultimately show ?thesis
    using m t s b(3,4) by (auto simp: fed_def moved_def same_sides_def)
qed

lemma wp_modify_fun: "wp (modify g) Q R = (\<lambda>w. Q () (g w))"
  by (simp add: fun_eq_iff wp_basic)

lemma read_payload_ok:
  assumes m: "moved E w True w1"
  shows "wp read_payload (\<lambda>s w'. s \<noteq> OpWrite \<and> fed E w w') (\<lambda>e _. \<not> fatal e) w1"
proof -
  obtain s where s: "wReadStart w1 = InMessage s" and ok: "s \<le> bufI (wIn w1)" "bufI (wIn w1) - s \<le> wReadPayloadLength w1" "buffers_ok w1"
    using m by (auto simp: moved_def mid_ok_def)
  have h: "bufI (wIn w1) < length (bufB (wIn w1))" using m by (simp add: moved_def hungry_def)
  let ?sz = "wReadPayloadLength w1 - (bufI (wIn w1) - s)" and ?i = "bufI (wIn w1)" and ?b = "bufB (wIn w1)"
  show ?thesis
  proof (cases "?sz < length ?b - ?i")
    case True
    have "wp read_to_message (\<lambda>r w'. r \<noteq> OpWrite \<and> fed E w (w'\<lparr>wIn := (wIn w')\<lparr>bufB := resized (length ?b) (bufB (wIn w'))\<rparr>\<rparr>)) (\<lambda>e _. \<not> fatal e)
        (w1\<lparr>wIn := (wIn w1)\<lparr>bufB := take (?i + ?sz) ?b\<rparr>\<rparr>)"
      unfolding read_to_message_def
    proof (rule wp_delegate_read)
      fix op :: sockop and b :: buffer and as ds
      assume r: "op \<noteq> OpWrite" "length (bufB b) = length (bufB (wIn (w1\<lparr>wIn := (wIn w1)\<lparr>bufB := take (?i + ?sz) ?b\<rparr>\<rparr>)))" "bufI b \<le> length (bufB b)"
        "arriving (wArriving (w1\<lparr>wIn := (wIn w1)\<lparr>bufB := take (?i + ?sz) ?b\<rparr>\<rparr>)) = ds @ arriving as"
        "bufI b = bufI (wIn (w1\<lparr>wIn := (wIn w1)\<lparr>bufB := take (?i + ?sz) ?b\<rparr>\<rparr>)) + length ds"
        "take (bufI b) (bufB b) = take (bufI (wIn (w1\<lparr>wIn := (wIn w1)\<lparr>bufB := take (?i + ?sz) ?b\<rparr>\<rparr>))) (bufB (wIn (w1\<lparr>wIn := (wIn w1)\<lparr>bufB := take (?i + ?sz) ?b\<rparr>\<rparr>))) @ ds"
      have lb: "length (bufB b) = ?i + ?sz" using r(2) True by simp
      let ?b' = "b\<lparr>bufB := resized (length ?b) (bufB b)\<rparr>"
      have "fed E w (w1\<lparr>wArriving := as, wIn := ?b'\<rparr>)"
      proof (rule mid_feed [OF m s])
        show "length ds \<le> ?sz" using r(3,5) lb by simp
        show "take (bufI ?b') (bufB ?b') = got w1 @ ds"
          using r lb True by (simp add: take_resized got_def)
      qed (use r lb True in simp_all)
      with r(1) show "op \<noteq> OpWrite \<and> fed E w ((w1\<lparr>wIn := (wIn w1)\<lparr>bufB := take (?i + ?sz) ?b\<rparr>, wArriving := as, wIn := b\<rparr>)
          \<lparr>wIn := (wIn (w1\<lparr>wIn := (wIn w1)\<lparr>bufB := take (?i + ?sz) ?b\<rparr>, wArriving := as, wIn := b\<rparr>))\<lparr>bufB := resized (length ?b)
             (bufB (wIn (w1\<lparr>wIn := (wIn w1)\<lparr>bufB := take (?i + ?sz) ?b\<rparr>, wArriving := as, wIn := b\<rparr>)))\<rparr>\<rparr>)"
        by simp
    qed (use h True in simp_all)
    then show ?thesis using True s by (simp add: read_payload_def wp_simps wp_modify_fun Let_def)
  next
    case False
    have "wp read_to_message (\<lambda>r w'. r \<noteq> OpWrite \<and> fed E w w') (\<lambda>e _. \<not> fatal e) w1"
      unfolding read_to_message_def
    proof (rule wp_delegate_read)
      fix op :: sockop and b :: buffer and as ds
      assume r: "op \<noteq> OpWrite" "length (bufB b) = length ?b" "bufI b \<le> length (bufB b)" "arriving (wArriving w1) = ds @ arriving as"
        "bufI b = ?i + length ds" "take (bufI b) (bufB b) = take ?i ?b @ ds"
      have "fed E w (w1\<lparr>wArriving := as, wIn := b\<rparr>)"
        by (rule mid_feed [OF m s]) (use r False h in \<open>simp_all add: got_def\<close>)
      with r(1) show "op \<noteq> OpWrite \<and> fed E w (w1\<lparr>wArriving := as, wIn := b\<rparr>)" by simp
    qed (use h in simp_all)
    then show ?thesis using False s by (simp add: read_payload_def wp_simps Let_def)
  qed
qed

lemma read_round_ok:
  assumes ok: "read_ok E w" and h: "hungry w"
  shows "wp (read_round E) (\<lambda>r w'. r = None \<and> fed E w w') (\<lambda>e _. \<not> fatal e) w"
  unfolding read_round_def wp_bindp
proof (rule wp_mono [OF preRead_ok [OF ok h]])
  fix more w1
  assume r: "returned E w more w1"
  have stop: "fed E w w1" if "closed_by_peer E w w1 \<or> moved E w False w1"
    using that by (auto simp: fed_def closed_by_peer_def moved_def same_sides_def ahead_def mid_ok_def buffers_ok_def)
  have more: "wp (withp (\<lambda>w. if wReadState w = ReadStatePayload then read_payload else read_to_buffer))
      (\<lambda>s w'. s \<noteq> OpWrite \<and> fed E w w') (\<lambda>e _. \<not> fatal e) w1" if m: "more"
  proof -
    consider (wait) "waiting E w w1" | (move) "moved E w True w1" using r m by (auto simp: returned_def)
    then show ?thesis
    proof cases
      case wait
      with read_to_buffer_ok [OF wait h] show ?thesis by (simp add: wp_simps waiting_def)
    next
      case move
      with read_payload_ok [OF move] show ?thesis by (simp add: wp_simps moved_def mid_ok_def)
    qed
  qed
  show "wp (if more then bindp (withp (\<lambda>w. if wReadState w = ReadStatePayload then read_payload else read_to_buffer))
        (\<lambda>s. if s = OpWrite then bindp (postRead E) (\<lambda>_. ret (Some s)) else ret None) else ret None)
      (\<lambda>r w'. r = None \<and> fed E w w') (\<lambda>e _. \<not> fatal e) w1"
  proof (cases more)
    case True
    show ?thesis
      unfolding if_P [OF True] wp_bindp by (rule wp_mono [OF more [OF True]]) (auto simp: wp_simps)
  next
    case False
    with r stop show ?thesis by (auto simp: wp_simps returned_def)
  qed
qed

subsection \<open>After the socket\<close>

definition settled :: "ws_env \<Rightarrow> ws \<Rightarrow> bool \<Rightarrow> ws \<Rightarrow> bool" where
  "settled E w b w' \<longleftrightarrow> length (bufB (wIn w')) = length (bufB (wIn w)) \<and> bufI (wIn w') \<le> length (bufB (wIn w')) \<and> total E w' = total E w
     \<and> (\<not> b \<and> close_seen w' \<or> read_ok E w' \<and> (b \<longrightarrow> hungry w' \<and> ahead w' < ahead w))"

lemma length_got: "buffers_ok w \<Longrightarrow> length (got w) = bufI (wIn w)"
  by (simp add: got_def buffers_ok_def)

lemma payload_settled:
  assumes m: "mid_ok w1" and s: "wReadStart w1 = InMessage s" "s < bufI (wIn w1)"
    and t: "mid_total E w1 = total E w" and l: "length (bufB (wIn w1)) = length (bufB (wIn w))"
      "ahead w1 + (bufI (wIn w1) - s) \<le> ahead w"
    and w': "bufB (wIn w') = (if xIncoming E then poke (bufB (wIn w1)) s
         (mask_from (wReadMask w1) (frame_offset (wReadFrameStart w1) s) (take (bufI (wIn w1) - s) (drop s (bufB (wIn w1))))) else bufB (wIn w1))"
      "bufI (wIn w') = bufI (wIn w1)" "wReadPayloadLength w' = wReadPayloadLength w1 - (bufI (wIn w1) - s)"
      "wReadState w' = (if wReadPayloadLength w' = 0 then ReadStateOpcode else ReadStatePayload)"
      "wReadFrameStart w' = wReadFrameStart w1" "wReadMask w' = wReadMask w1" "wArriving w' = wArriving w1"
      "wReadBuffer w' = wReadBuffer w1" "wReadI w' = wReadI w1"
    and more: "b = (bufI (wIn w') \<noteq> length (bufB (wIn w')))"
  shows "settled E w b w'"
proof -
  let ?i = "bufI (wIn w1)" and ?b = "bufB (wIn w1)"
  have ok: "buffers_ok w1" "wReadFrameStart w1 \<le> s" "s \<le> ?i" "?i - s \<le> wReadPayloadLength w1" using m s by (auto simp: mid_ok_def)
  have i: "?i \<le> length ?b" using ok(1) by (simp add: buffers_ok_def)
  have fo: "frame_offset (wReadFrameStart w1) s = (s - wReadFrameStart w1) mod 4"
  proof -
    have "(int s - int (wReadFrameStart w1)) mod 4 = int ((s - wReadFrameStart w1) mod 4)" using ok(2) by (simp add: of_nat_diff zmod_int)
    then show ?thesis by (simp only: frame_offset_def nat_int)
  qed
  have lb: "length (bufB (wIn w')) = length ?b" using w'(1) i ok(3) by simp
  have g: "got w' = take s ?b @ unmask (xIncoming E) (wReadMask w1) (s - wReadFrameStart w1) (drop s (got w1))"
  proof (cases "xIncoming E")
    case True
    have len: "length (take (?i - s) (drop s ?b)) = ?i - s" using i by simp
    show ?thesis using True w'(1,2) i ok(3) len
      by (simp add: got_def fo mask_from_mod unmask_def poke_def drop_take)
  next
    case False
    have "take ?i ?b = take s ?b @ drop s (take ?i ?b)"
      using append_take_drop_id [of s "take ?i ?b"] ok(3) by (simp add: min_def)
    with False w'(1,2) show ?thesis by (simp add: got_def unmask_def)
  qed
  have inc: "incoming w' = incoming w1" "buffered w' = buffered w1" using w' by (simp_all add: incoming_def buffered_def)
  have "total E w' = mid_total E w1"
  proof (cases "wReadPayloadLength w' = 0")
    case True
    with w'(3) have z: "wReadPayloadLength w1 - (?i - s) = 0" by simp
    show ?thesis using True w'(4) s(1) by (simp add: total_def mid_total_def g inc phase_of_def z payload_end)
  next
    case False
    then show ?thesis using w' s(1) by (simp add: total_def mid_total_def g inc phase_of_def offset_def)
  qed
  moreover have "read_ok E w'"
    using ok i lb w' m by (auto simp: read_ok_def buffers_ok_def mid_ok_def)
  moreover have "ahead w' < ahead w" using l(2) s(2) inc(2) w'(7) by (simp add: ahead_def)
  ultimately show ?thesis using t l(1) lb i w'(2) more by (auto simp: settled_def hungry_def)
qed

lemma postRead_ok:
  assumes f: "fed E w w1"
  shows "wp (postRead E) (settled E w) (\<lambda>e _. \<not> fatal e) w1"
proof (cases "mid_ok w1 \<and> mid_total E w1 = total E w \<and> (\<exists>s. wReadStart w1 = InMessage s \<and> ahead w1 + (bufI (wIn w1) - s) \<le> ahead w)")
  case False
  with f have "wReadState w1 \<noteq> ReadStatePayload" and "\<exists>s. wReadStart w1 = InReadBuffer s \<and> settled E w (s < bufI (wReadBuffer w1)) w1"
    by (auto simp: fed_def settled_def close_seen_def)
  then show ?thesis by (auto simp: postRead_def wp_simps)
next
  case True
  then obtain s where s: "wReadStart w1 = InMessage s" and m: "mid_ok w1" "mid_total E w1 = total E w"
    and a: "ahead w1 + (bufI (wIn w1) - s) \<le> ahead w" by blast
  have ok: "buffers_ok w1" "wReadState w1 = ReadStatePayload" "wReadFrameStart w1 \<le> s" "s \<le> bufI (wIn w1)" "0 < wReadPayloadLength w1"
    using m(1) s by (auto simp: mid_ok_def)
  have l: "length (bufB (wIn w1)) = length (bufB (wIn w))" using f by (simp add: fed_def)
  show ?thesis
  proof (cases "s = bufI (wIn w1)")
    case True
    have "total E w1 = mid_total E w1"
      using ok s True length_got [OF ok(1)] by (simp add: total_def mid_total_def phase_of_def got_def)
    then have "settled E w False w1" using m ok True l by (simp add: settled_def read_ok_def buffers_ok_def)
    with True s ok(2) show ?thesis by (simp add: postRead_def wp_simps)
  next
    case False
    then have lt: "s < bufI (wIn w1)" using ok(4) by simp
    show ?thesis
      using s ok(2) lt unfolding postRead_def
      by (simp add: wp_simps wp_modify_fun cong: if_cong) (intro conjI impI; rule payload_settled [OF m(1) s lt m(2) l a]; simp add: wp_simps)
  qed
qed


subsection \<open>The loop and the operation\<close>

lemma settled_trans:
  "settled E w True w1 \<Longrightarrow> settled E w1 b w' \<Longrightarrow> settled E w b w'"
  by (auto simp: settled_def)

lemma ws_read_loop_ok:
  "read_ok E w \<Longrightarrow> hungry w \<Longrightarrow> ahead w < fuel \<Longrightarrow>
     wp (ws_read_loop E fuel) (\<lambda>r w'. r = None \<and> settled E w False w') (\<lambda>e _. \<not> fatal e) w"
proof (induction fuel arbitrary: w)
  case (Suc fuel)
  have again: "wp (if b then ws_read_loop E fuel else ret None) (\<lambda>r w'. r = None \<and> settled E w False w') (\<lambda>e _. \<not> fatal e) w1"
    if "settled E w b w1" for b w1
  proof (cases b)
    case True
    with that have w1: "read_ok E w1" "hungry w1" "ahead w1 < ahead w" by (auto simp: settled_def)
    with Suc.prems(3) have "ahead w1 < fuel" by simp
    from wp_mono [OF Suc.IH [OF w1(1,2) this]] settled_trans [of E w w1] that True show ?thesis by simp
  next
    case False
    with that show ?thesis by (simp add: wp_simps)
  qed
  show ?case
    unfolding ws_read_loop.simps wp_bindp
  proof (rule wp_mono [OF read_round_ok [OF Suc.prems(1,2)]])
    fix r :: "sockop option" and w1
    assume r: "r = None \<and> fed E w w1"
    show "wp (case r of None \<Rightarrow> bindp (postRead E) (\<lambda>b. if b then ws_read_loop E fuel else ret None) | Some s \<Rightarrow> ret (Some s))
       (\<lambda>r w'. r = None \<and> settled E w False w') (\<lambda>e _. \<not> fatal e) w1"
    proof -
      have "fed E w w1" and n: "r = None" using r by simp_all
      show ?thesis
        unfolding n option.case wp_bindp by (rule wp_mono [OF postRead_ok [OF \<open>fed E w w1\<close>] again])
    qed
  qed
qed simp

lemma settled_same:
  assumes s: "settled E w False w1" and w': "wIn w' = wIn w1" "wReadFrameStart w' = wReadFrameStart w1" "wReadMask w' = wReadMask w1"
      "wReadState w' = wReadState w1" "wReadOpCode w' = wReadOpCode w1" "wReadPayloadLength w' = wReadPayloadLength w1"
      "wArriving w' = wArriving w1" "wReadBuffer w' = wReadBuffer w1" "wReadI w' = wReadI w1" "wReadHeaderLength w' = wReadHeaderLength w1"
      "wReadStart w' = wReadStart w1" "wState w' = wState w1" "wNextState w' = wNextState w1"
  shows "settled E w False w'"
proof -
  have "buffered w' = buffered w1" using w' by (simp add: buffered_def)
  then have "total E w' = total E w1" using w' by (intro total_same) simp_all
  moreover have "read_ok E w' = read_ok E w1" "close_seen w' = close_seen w1"
    using w' by (simp_all add: read_ok_def buffers_ok_def close_seen_def)
  ultimately show ?thesis using s w'(1) by (simp add: settled_def)
qed


lemma wp_data_buffered: "wp data_buffered Q R w = Q () (if wReadI w < bufI (wReadBuffer w) then w\<lparr>wReady := True\<rparr> else w)"
  by (simp add: data_buffered_def wp_simps set_ready_def)

text \<open>The state that the caller finds, with the status.\<close>

definition handed :: "ws_env \<Rightarrow> ws \<Rightarrow> sockop \<Rightarrow> ws \<Rightarrow> bool" where
  "handed E w s w' \<longleftrightarrow> length (bufB (wIn w')) = length (bufB (wIn w)) \<and> bufI (wIn w') \<le> length (bufB (wIn w')) \<and> total E w' = total E w
     \<and> (opRead s \<longleftrightarrow> bufI (wIn w') \<noteq> length (bufB (wIn w'))) \<and> (read_ok E w' \<or> close_seen w')"

lemma settled_handed:
  "settled E w False w' \<Longrightarrow> (opRead s \<longleftrightarrow> bufI (wIn w') \<noteq> length (bufB (wIn w'))) \<Longrightarrow> handed E w s w'"
  by (auto simp: settled_def handed_def)

lemma ws_read_handed:
  assumes ok: "read_ok E w" and opened: "WsOpened \<le> wState w"
  shows "wp (ws_read E) (handed E w) (\<lambda>e _. \<not> fatal e) w"
proof -
  have st: "\<not> wState w < WsOpened" using opened by simp
  have refl: "settled E w False w" using ok by (simp add: settled_def read_ok_def buffers_ok_def)
  have ready: "settled E w False (w'\<lparr>wReady := b\<rparr>)" if "settled E w False w'" for w' b
    by (rule settled_same [OF that]) simp_all
  show ?thesis
  proof (cases "bufI (wIn w) = length (bufB (wIn w))")
    case True
    with st refl ready [OF refl] show ?thesis
      by (auto simp: ws_read_def wp_simps wp_data_buffered op_defs intro!: settled_handed)
  next
    case False
    then have h: "hungry w" using ok by (simp add: hungry_def read_ok_def buffers_ok_def)
    have "wReadI w \<le> bufI (wReadBuffer w)" "buffers_ok w" using ok by (simp_all add: read_ok_def buffers_ok_def)
    then have a: "ahead w < read_fuel w" using length_buffered [of w] by (simp add: ahead_def read_fuel_def)
    show ?thesis
      unfolding ws_read_def wp_basic(5) if_not_P [OF st] if_not_P [OF False] wp_bindp
    proof (rule wp_mono [OF ws_read_loop_ok [OF ok h a]])
      fix r :: "sockop option" and w1
      assume r: "r = None \<and> settled E w False w1"
      then have s: "settled E w False w1" and n: "r = None" by simp_all
      show "wp (case r of None \<Rightarrow> withp (\<lambda>w.
           bindp (if bufI (wIn w) = length (bufB (wIn w)) then seqp data_buffered (ret OpNone)
                  else seqp (set_ready False) (ret OpRead)) (\<lambda>s. withp (\<lambda>w.
             ret (if (close_due w \<or> wState w = WsPingPending \<or> wState w = WsPongPending) \<and> wWriteState w = WriteStateHeader
                  then op_or s OpWrite else s)))) | Some s \<Rightarrow> ret s) (handed E w) (\<lambda>e _. \<not> fatal e) w1"
        using s ready [OF s] unfolding n
        by (auto simp: wp_simps wp_modify_fun set_ready_def wp_data_buffered op_defs intro!: settled_handed)
    qed
  qed
qed


subsection \<open>The properties\<close>

text \<open>
  C8: \<open>WSTransceiver::read\<close> after the handshake hands over exactly the data of the frames: what is in the message buffer
  and what is still to come (\<open>total\<close>: the bytes before the iterator, then the unmasked payloads of the data frames ahead,
  control frames skipped) is the same before and after the call, in whatever pieces the socket delivers the stream; so the
  bytes handed over are the first of these.  The buffer keeps its size, reading is asked for exactly when it is not full,
  and the call keeps the invariant of the reader unless the peer's close frame has arrived.  When it throws, it is not for
  a failed assertion, an access outside the buffers or a loop without end.
\<close>

theorem ws_read_exact:
  assumes "read_ok E w" "WsOpened \<le> wState w"
  shows "case ws_read E w of
      (Inl e, w') \<Rightarrow> \<not> fatal e
    | (Inr s, w') \<Rightarrow> length (bufB (wIn w')) = length (bufB (wIn w)) \<and> bufI (wIn w') \<le> length (bufB (wIn w')) \<and> total E w' = total E w
        \<and> take (bufI (wIn w')) (bufB (wIn w')) = take (bufI (wIn w')) (total E w)
        \<and> (opRead s \<longleftrightarrow> bufI (wIn w') \<noteq> length (bufB (wIn w'))) \<and> (read_ok E w' \<or> close_seen w')"
proof -
  have pre: "take (bufI (wIn w')) (bufB (wIn w')) = take (bufI (wIn w')) (total E w)"
    if "total E w' = total E w" "bufI (wIn w') \<le> length (bufB (wIn w'))" for w'
    unfolding that(1) [symmetric] using that(2) by (simp add: total_def got_def)
  from ws_read_handed [OF assms] show ?thesis
    by (auto simp: wp_def handed_def intro!: pre split: prod.splits sum.splits)
qed

text \<open>A server that gets a ping, and a masked message in two frames that arrive in three pieces.\<close>

definition wsd_env :: ws_env where
  "wsd_env = \<lparr>xIncoming = True, xHost = [], xSha1 = (\<lambda>_. []), xRandom = (\<lambda>_. 0), xMessageSizeMax = 1024, xConnect = None\<rparr>"

definition wsd :: ws where
  "wsd = (ws_new [] SockConnected
     [Recv [0x89, 0x80, 1, 2, 3, 4, 0x02, 0x82, 1, 2, 3], RecvInterrupted, Recv [4, 7 XOR 1, 8 XOR 2, 0x80, 0x81, 5, 6, 7, 8], Recv [9 XOR 5]] [])
     \<lparr>wState := WsOpened, wNextState := WsOpened, wIn := \<lparr>bufB = [0, 0, 0], bufI = 0\<rparr>\<rparr>"

theorem ws_read_exact_witness:
  "total wsd_env wsd = [7, 8, 9] \<and>
   (case ws_read wsd_env wsd of (Inl e, w') \<Rightarrow> False | (Inr s, w') \<Rightarrow> bufI (wIn w') = 3 \<and> bufB (wIn w') = [7, 8, 9] \<and> read_ok wsd_env w')"
proof -
  have "read_ok wsd_env wsd" "WsOpened \<le> wState wsd" by code_simp+
  note exact = ws_read_exact [OF this]
  have t: "total wsd_env wsd = [7, 8, 9]" by code_simp
  have r: "case ws_read wsd_env wsd of (Inl e, w') \<Rightarrow> False | (Inr s, w') \<Rightarrow> bufI (wIn w') = 3 \<and> wReadOpCode w' = OP_CONT"
    by code_simp
  have l: "length (bufB (wIn wsd)) = 3" by code_simp
  from exact t r l show ?thesis
    by (auto simp: close_seen_def op_codes split: prod.splits sum.splits)
qed

end
