(* ===== verification/WSWrite.thy ===== *)
theory WSWrite
  imports WSRead
begin

section \<open>Writing web socket frames\<close>

text \<open>
  The frame writer against its specification.  A message goes out as one final frame; \<open>unsent\<close> is what is still to come of
  it, and every call of \<open>write\<close> moves a piece of it to the wire.  The reader of the other side gets the message back.
\<close>

subsection \<open>The frame of a message\<close>

definition frame_header :: "bool \<Rightarrow> byte list \<Rightarrow> nat \<Rightarrow> nat \<Rightarrow> byte list" where
  "frame_header masked key op n = (word_of_nat op OR FLAG_FINAL) #
     (if masked then (hd (length_bytes n) OR FLAG_MASKED) # tl (length_bytes n) @ key else length_bytes n)"

definition frame :: "bool \<Rightarrow> byte list \<Rightarrow> nat \<Rightarrow> byte list \<Rightarrow> byte list" where
  "frame masked key op m = frame_header masked key op (length m) @ unmask masked key 0 m"

lemma mask_from_inverse: "mask_from key k (mask_from key k bs) = bs"
  by (induction bs arbitrary: k) (simp_all add: xor.assoc)

lemma unmask_inverse [simp]: "unmask masked key k (unmask masked key k bs) = bs"
  by (simp add: unmask_def mask_from_inverse)

lemma ntohs_htons: "n \<le> 65535 \<Longrightarrow> ntohs (htons n @ bs) = n"
  by (simp add: ntohs_def htons_def unat_of_nat)

lemma nlltoh_htonll: "ice_nlltoh (ice_htonll v @ bs) = v"
proof (rule bit_word_eqI)
  fix n
  assume n: "n < LENGTH(64)"
  then consider "n < 8" | "8 \<le> n" "n < 16" | "16 \<le> n" "n < 24" | "24 \<le> n" "n < 32" | "32 \<le> n" "n < 40" | "40 \<le> n" "n < 48"
    | "48 \<le> n" "n < 56" | "56 \<le> n" "n < 64" by fastforce
  then show "bit (ice_nlltoh (ice_htonll v @ bs)) n = bit v n"
    using n by cases (simp_all add: ice_nlltoh_def ice_htonll_def bit_simps, (cases "bit v n"; simp; presburger)+)
qed

lemma length_htonll [simp]: "length (ice_htonll v) = 8"
  by (simp add: ice_htonll_def)


definition length_code :: "nat \<Rightarrow> nat" where
  "length_code n = (if n \<le> 125 then n else if n \<le> 65535 then 126 else 127)"

lemma length_code_byte: "unat (hd (length_bytes n) AND 0x7f) = length_code n" "unat ((hd (length_bytes n) OR FLAG_MASKED) AND 0x7f) = length_code n"
proof -
  have m: "b AND 0x7f = take_bit 7 b" for b :: byte by (simp add: take_bit_eq_mask mask_eq_exp_minus_1)
  have *: "unat ((word_of_nat k :: byte) AND 0x7f) = k" if "k \<le> 127" for k
    using that by (simp add: m unsigned_take_bit_eq unat_of_nat take_bit_nat_eq_self)
  have "(b OR FLAG_MASKED) AND 0x7f = b AND 0x7f" for b :: byte
    by (simp add: m FLAG_MASKED_def)
  with * [of n] * [of 126] * [of 127] show "unat (hd (length_bytes n) AND 0x7f) = length_code n"
    "unat ((hd (length_bytes n) OR FLAG_MASKED) AND 0x7f) = length_code n"
    by (auto simp: length_bytes_def length_code_def)
qed

lemma length_code_ext:
  "header_size masked (length_code n) = length (tl (length_bytes n)) + (if masked then 4 else 0)"
  "n < 2 ^ 63 \<Longrightarrow> frame_length (length_code n) (tl (length_bytes n) @ bs) = n"
  "length key = 4 \<Longrightarrow> frame_key True (length_code n) (tl (length_bytes n) @ key @ bs) = key"
proof -
  show "header_size masked (length_code n) = length (tl (length_bytes n)) + (if masked then 4 else 0)"
    by (simp add: header_size_def length_code_def length_bytes_def htons_def)
  show "frame_length (length_code n) (tl (length_bytes n) @ bs) = n" if "n < 2 ^ 63"
  proof -
    have "unat (word_of_nat n :: ice_long) = n" using that by (simp add: unat_of_nat)
    then show ?thesis using ntohs_htons [of n "[]"] nlltoh_htonll [of _ "[]"]
      by (simp add: frame_length_def length_code_def length_bytes_def htons_def)
  qed
  show "frame_key True (length_code n) (tl (length_bytes n) @ key @ bs) = key" if "length key = 4"
    using that by (simp add: frame_key_def header_size_def length_code_def length_bytes_def htons_def)
qed

lemma opcode_byte: "op < 16 \<Longrightarrow> unat ((word_of_nat op OR FLAG_FINAL) AND 0xf :: byte) = op"
proof -
  assume "op < 16"
  have m: "b AND 0xf = take_bit 4 b" for b :: byte by (simp add: take_bit_eq_mask mask_eq_exp_minus_1)
  show ?thesis using \<open>op < 16\<close> by (simp add: m FLAG_FINAL_def unsigned_take_bit_eq unat_of_nat take_bit_nat_eq_self)
qed

lemma frame_phases:
  assumes "op < 16" "masked \<Longrightarrow> length key = 4" "n < 2 ^ 63"
  shows "payload_of masked AtOpcode (frame_header masked key op n @ bs) =
    (if op = OP_DATA \<or> op = OP_CONT then payload_of masked (AtPayload key 0 n) bs
     else if op = OP_PING \<or> op = OP_PONG then payload_of masked (AtControl n) bs else [])"
proof -
  let ?e = "tl (length_bytes n)" and ?k = "if masked then key else []"
  let ?b0 = "word_of_nat op OR FLAG_FINAL :: byte" and ?b1 = "if masked then hd (length_bytes n) OR FLAG_MASKED else hd (length_bytes n)"
  have h: "frame_header masked key op n @ bs = ?b0 # ?b1 # ?e @ ?k @ bs"
    by (simp add: frame_header_def length_bytes_def)
  have c: "unat (?b1 AND 0x7f) = length_code n" by (simp add: length_code_byte)
  have s: "header_size masked (length_code n) = length (?e @ ?k)" using assms(2) by (simp add: length_code_ext(1))
  have d: "drop (header_size masked (length_code n)) (?e @ ?k @ bs) = bs"
    "header_size masked (length_code n) \<le> length (?e @ ?k @ bs)"
    unfolding s by simp_all
  have l: "frame_length (length_code n) (?e @ ?k @ bs) = n" by (rule length_code_ext(2) [OF assms(3)])
  have p: "payload_of masked (AtPayload (frame_key masked (length_code n) (?e @ ?k @ bs)) 0 n) bs = payload_of masked (AtPayload key 0 n) bs"
  proof (cases masked)
    case True
    with length_code_ext(3) [of key n bs] assms(2) show ?thesis by simp
  next
    case False
    then have m: "masked = False" by simp
    show ?thesis unfolding m by (rule payload_key)
  qed
  have "payload_of masked AtOpcode (?b0 # ?b1 # ?e @ ?k @ bs) = payload_of masked (AtHeader op (length_code n)) (?e @ ?k @ bs)"
    unfolding payload_of.simps(1) using c opcode_byte [OF assms(1)] by simp
  then show ?thesis
    unfolding h payload_of.simps(2) [of masked op] l d(1) p using d(2) by (simp del: if_split)
qed

lemma frame_payload:
  assumes "masked \<Longrightarrow> length key = 4" "length m < 2 ^ 63"
  shows "payload_of masked AtOpcode (frame masked key OP_DATA m @ bs) = m @ payload_of masked AtOpcode bs"
    and "op = OP_PING \<or> op = OP_PONG \<Longrightarrow> payload_of masked AtOpcode (frame masked key op m @ bs) = payload_of masked AtOpcode bs"
  using assms by (auto simp: frame_def frame_phases payload_of.simps(3,4) op_codes)


subsection \<open>What is still to be sent\<close>

definition next_key :: "ws_env \<Rightarrow> ws \<Rightarrow> byte list" where
  "next_key E w = map (\<lambda>k. xRandom E (wDrawn w + k)) [0..<4]"

definition buffer_rest :: "buffer \<Rightarrow> byte list" where
  "buffer_rest b = drop (bufI b) (bufB b)"

definition unsent :: "ws_env \<Rightarrow> ws \<Rightarrow> byte list" where
  "unsent E w = (case wWriteState w of
     WriteStateHeader \<Rightarrow>
       if bufI (wOut w) = length (bufB (wOut w)) then [] else frame (\<not> xIncoming E) (next_key E w) OP_DATA (bufB (wOut w))
   | WriteStatePayload \<Rightarrow> buffer_rest (wWriteBuffer w) @
       (if xIncoming E then buffer_rest (wOut w)
        else mask_from (wWriteMask w) (wWritePayloadLength w) (drop (wWritePayloadLength w) (bufB (wOut w))))
   | WriteStateControlFrame \<Rightarrow> buffer_rest (wWriteBuffer w))"

text \<open>
  The writer is at the start of a message or in the middle of its frame.  A client that has sent its buffer has moved the
  iterator of the message behind the piece that was in it.
\<close>

definition write_ok :: "ws_env \<Rightarrow> ws \<Rightarrow> bool" where
  "write_ok E w \<longleftrightarrow> wState w = WsOpened \<and> bufI (wOut w) \<le> length (bufB (wOut w)) \<and>
     (case wWriteState w of
        WriteStateHeader \<Rightarrow> bufI (wOut w) = 0 \<and> bufB (wOut w) \<noteq> []
      | WriteStatePayload \<Rightarrow> 0 < wWritePayloadLength w \<and> wWritePayloadLength w \<le> length (bufB (wOut w))
          \<and> bufI (wWriteBuffer w) \<le> length (bufB (wWriteBuffer w))
          \<and> (if xIncoming E then 0 < bufI (wOut w)
             else bufB (wWriteBuffer w) \<noteq> [] \<and>
               (if bufI (wWriteBuffer w) = length (bufB (wWriteBuffer w))
                then bufI (wOut w) = wWritePayloadLength w \<and> bufI (wOut w) < length (bufB (wOut w))
                else bufI (wOut w) < wWritePayloadLength w))
      | WriteStateControlFrame \<Rightarrow> False)"

lemma length_next_key [simp]: "length (next_key E w) = 4"
  by (simp add: next_key_def)

lemma length_frame_header: "length key = 4 \<Longrightarrow> length (frame_header masked key op n) \<le> 14"
  by (simp add: frame_header_def length_bytes_def htons_def)

text \<open>The header in front of what is left of the buffer.\<close>

lemma wp_prepareWriteHeader:
  assumes Q: "\<And>pad. length (frame_header (\<not> xIncoming E) (next_key E w) op n) + length pad = writeBufferSize E \<Longrightarrow>
      Q () (w\<lparr>wWriteBuffer := \<lparr>bufB = frame_header (\<not> xIncoming E) (next_key E w) op n @ pad,
              bufI = length (frame_header (\<not> xIncoming E) (next_key E w) op n)\<rparr>,
            wWriteMask := (if xIncoming E then wWriteMask w else next_key E w),
            wDrawn := (if xIncoming E then wDrawn w else wDrawn w + 4)\<rparr>)"
  shows "wp (prepareWriteHeader E op n) Q R w"
proof -
  define b where "b = resized (writeBufferSize E) (bufB (wWriteBuffer w))"
  define hdr where "hdr = (word_of_nat op OR FLAG_FINAL) # length_bytes n"
  have lb: "length b = writeBufferSize E" by (simp add: b_def)
  have h: "hdr = (hdr ! 0) # (hdr ! 1) # drop 2 hdr" "length hdr \<le> 10" "2 \<le> length hdr"
    by (simp_all add: hdr_def length_bytes_def htons_def)
  show ?thesis
  proof (cases "xIncoming E")
    case True
    have "length hdr + length (drop (length hdr) b) = writeBufferSize E" using h True lb by (simp add: writeBufferSize_def)
    from Q [of "drop (length hdr) b"] this True show ?thesis
      by (simp add: prepareWriteHeader_def wp_simps Let_def frame_header_def hdr_def b_def poke_def)
  next
    case False
    let ?key = "next_key E w"
    have len: "length hdr + 4 \<le> length b" using h False lb by (simp add: writeBufferSize_def)
    have fh: "frame_header True ?key op n = hdr[1 := hdr ! 1 OR FLAG_MASKED] @ ?key"
      by (simp add: frame_header_def hdr_def length_bytes_def htons_def)
    have p: "poke ((poke b 0 hdr)[1 := (poke b 0 hdr) ! 1 OR FLAG_MASKED]) (length hdr) ?key = frame_header True ?key op n @ drop (length hdr + 4) b"
      using h len by (simp add: poke_def fh list_update_append nth_append add.commute [of 4])
    have "length (frame_header True ?key op n) + length (drop (length hdr + 4) b) = writeBufferSize E"
      using len lb by (simp add: fh)
    note Q' = Q [of "drop (length hdr + 4) b"]
    have key: "map (\<lambda>k. xRandom E (wDrawn w + k)) [0..<4] = ?key" by (simp add: next_key_def)
    have swap: "w\<lparr>wDrawn := d, wWriteMask := m, wWriteBuffer := c\<rparr> = w\<lparr>wWriteBuffer := c, wWriteMask := m, wDrawn := d\<rparr>" for d m c by simp
    from Q' \<open>length (frame_header True ?key op n) + _ = _\<close> p False show ?thesis
      by (simp add: prepareWriteHeader_def wp_simps Let_def random_bytes_def fh key swap flip: hdr_def b_def)
  qed
qed


lemma wp_fill_masked:
  assumes i: "bufI (wWriteBuffer w) \<le> length (bufB (wWriteBuffer w))" "bufI (wOut w) \<le> length (bufB (wOut w))"
    and h: "h = (if bufI (wWriteBuffer w) = length (bufB (wWriteBuffer w)) then [] else take (bufI (wWriteBuffer w)) (bufB (wWriteBuffer w)))"
    and Q: "\<And>k. k \<le> length (bufB (wOut w)) - bufI (wOut w) \<Longrightarrow>
       (0 < k \<or> bufI (wOut w) = length (bufB (wOut w)) \<or> bufB (wWriteBuffer w) = []) \<Longrightarrow>
       Q () (w\<lparr>wWriteBuffer := \<lparr>bufB = h @ mask_from (wWriteMask w) (bufI (wOut w)) (take k (drop (bufI (wOut w)) (bufB (wOut w)))), bufI = 0\<rparr>,
         wWritePayloadLength := bufI (wOut w) + k\<rparr>)"
  shows "wp fill_masked Q R w"
proof -
  let ?b = "bufB (wWriteBuffer w)" and ?m = "bufB (wOut w)" and ?n = "bufI (wOut w)"
  define k where "k = min (length ?m - ?n) (length ?b - length h)"
  have lh: "length h = (if bufI (wWriteBuffer w) = length ?b then 0 else bufI (wWriteBuffer w))" using i h by simp
  have k: "k \<le> length ?m - ?n" "length h + k \<le> length ?b"
    using i lh by (auto simp: k_def)
  have "0 < k \<or> ?n = length ?m \<or> ?b = []"
  proof (rule ccontr)
    assume "\<not> ?thesis"
    moreover from this have "?n < length ?m" "length h < length ?b" using i lh by auto
    ultimately show False by (simp add: k_def)
  qed
  note Q = Q [OF k(1) this]
  have t: "take (length h + k) (poke ?b (length h) (mask_from (wWriteMask w) ?n (take k (drop ?n ?m))))
      = h @ mask_from (wWriteMask w) ?n (take k (drop ?n ?m))"
  proof -
    have "length (mask_from (wWriteMask w) ?n (take k (drop ?n ?m))) = k" using k(1) by simp
    moreover have "take (length h) ?b = h" using i by (simp add: h min_absorb2)
    ultimately show ?thesis by (simp add: poke_def)
  qed
  have start: "wWriteBuffer (if bufI (wWriteBuffer w) = length ?b then w\<lparr>wWriteBuffer := (wWriteBuffer w)\<lparr>bufI := 0\<rparr>\<rparr> else w)
      = \<lparr>bufB = ?b, bufI = length h\<rparr>" by (simp add: lh)
  have lk: "length (take k (drop ?n ?m)) = k" using k(1) by simp
  have swap: "w\<lparr>wWritePayloadLength := p, wWriteBuffer := c\<rparr> = w\<lparr>wWriteBuffer := c, wWritePayloadLength := p\<rparr>" for p c by simp
  show ?thesis
    unfolding fill_masked_def wp_seqp wp_modify_fun wp_basic(5) Let_def put_bytes_def cut_buffer_def rewind_buffer_def start
    using t lk Q by (simp add: swap flip: k_def)
qed

lemma wp_fill_plain:
  assumes i: "bufI (wWriteBuffer w) \<le> length (bufB (wWriteBuffer w))" "bufI (wOut w) \<le> length (bufB (wOut w))"
    and Q: "\<And>k. k \<le> length (bufB (wOut w)) - bufI (wOut w) \<Longrightarrow>
       (0 < k \<or> bufI (wOut w) = length (bufB (wOut w)) \<or> bufI (wWriteBuffer w) = length (bufB (wWriteBuffer w))) \<Longrightarrow>
       Q () (w\<lparr>wWriteBuffer := \<lparr>bufB = take (bufI (wWriteBuffer w)) (bufB (wWriteBuffer w)) @ take k (drop (bufI (wOut w)) (bufB (wOut w))), bufI = 0\<rparr>,
         wOut := \<lparr>bufB = bufB (wOut w), bufI = bufI (wOut w) + k\<rparr>, wWritePayloadLength := k\<rparr>)"
  shows "wp fill_plain Q R w"
proof -
  let ?b = "bufB (wWriteBuffer w)" and ?m = "bufB (wOut w)" and ?n = "bufI (wOut w)" and ?j = "bufI (wWriteBuffer w)"
  define k where "k = min (length ?b - ?j) (length ?m - ?n)"
  have k: "k \<le> length ?m - ?n" "?j + k \<le> length ?b" using i by (auto simp: k_def)
  have "0 < k \<or> ?n = length ?m \<or> ?j = length ?b"
  proof (rule ccontr)
    assume "\<not> ?thesis"
    moreover from this have "?n < length ?m" "?j < length ?b" using i by auto
    ultimately show False by (simp add: k_def)
  qed
  note Q = Q [OF k(1) this]
  have lk: "length (take k (drop ?n ?m)) = k" using k(1) by simp
  have t: "take (?j + k) (poke ?b ?j (take k (drop ?n ?m))) = take ?j ?b @ take k (drop ?n ?m)"
    using lk i(1) by (simp add: poke_def)
  have swap: "w\<lparr>wOut := o', wWritePayloadLength := p, wWriteBuffer := c\<rparr> = w\<lparr>wWriteBuffer := c, wOut := o', wWritePayloadLength := p\<rparr>" for o' p c
    by simp
  have out: "(wOut w)\<lparr>bufI := i\<rparr> = \<lparr>bufB = ?m, bufI = i\<rparr>" for i by (cases "wOut w") simp
  show ?thesis
    unfolding fill_plain_def wp_seqp wp_modify_fun wp_basic(5) Let_def put_bytes_def cut_buffer_def rewind_buffer_def
    using t lk Q by (simp add: swap out flip: k_def)
qed


subsection \<open>Filling the buffer\<close>

definition loaded :: "ws_env \<Rightarrow> ws \<Rightarrow> ws \<Rightarrow> bool" where
  "loaded E w w' \<longleftrightarrow> write_ok E w' \<and> wWriteState w' = WriteStatePayload \<and> unsent E w' = unsent E w \<and> wWire w' = wWire w
     \<and> bufB (wOut w') = bufB (wOut w)
     \<and> (if xIncoming E then wWriteState w = WriteStatePayload \<longrightarrow> wWriteBuffer w' = wWriteBuffer w
        else bufI (wWriteBuffer w') < length (bufB (wWriteBuffer w')) \<and> bufI (wOut w') = bufI (wOut w))"

lemma mask_pieces: "k \<le> length m \<Longrightarrow> mask_from key n (take k m) @ mask_from key (n + k) (drop k m) = mask_from key n m"
  using mask_from_append [of key n "take k m" "drop k m"] by (simp add: min_absorb2)

lemma fill_masked_ok:
  assumes c: "\<not> xIncoming E" and st: "wWriteState w = WriteStatePayload" "wState w = WsOpened"
    and i: "bufI (wWriteBuffer w) \<le> length (bufB (wWriteBuffer w))" "bufI (wOut w) < length (bufB (wOut w))" "bufB (wWriteBuffer w) \<noteq> []"
    and h: "h = (if bufI (wWriteBuffer w) = length (bufB (wWriteBuffer w)) then [] else take (bufI (wWriteBuffer w)) (bufB (wWriteBuffer w)))"
    and u: "unsent E w0 = h @ mask_from (wWriteMask w) (bufI (wOut w)) (drop (bufI (wOut w)) (bufB (wOut w)))"
    and w0: "wWire w = wWire w0" "wOut w = wOut w0"
  shows "wp fill_masked (\<lambda>_ w'. loaded E w0 w') R w"
proof (rule wp_fill_masked [OF i(1) less_imp_le [OF i(2)] h])
  let ?m = "bufB (wOut w)" and ?n = "bufI (wOut w)"
  fix k
  assume k: "k \<le> length ?m - ?n" "0 < k \<or> ?n = length ?m \<or> bufB (wWriteBuffer w) = []"
  let ?w = "w\<lparr>wWriteBuffer := \<lparr>bufB = h @ mask_from (wWriteMask w) ?n (take k (drop ?n ?m)), bufI = 0\<rparr>, wWritePayloadLength := ?n + k\<rparr>"
  have "0 < k" using k i by auto
  moreover from this have "length (mask_from (wWriteMask w) ?n (take k (drop ?n ?m))) \<noteq> 0" using k(1) by simp
  then have "mask_from (wWriteMask w) ?n (take k (drop ?n ?m)) \<noteq> []" by (simp only: length_0_conv not_False_eq_True)
  moreover have "mask_from (wWriteMask w) ?n (take k (drop ?n ?m)) @ mask_from (wWriteMask w) (?n + k) (drop (?n + k) ?m)
      = mask_from (wWriteMask w) ?n (drop ?n ?m)"
    using mask_pieces [of k "drop ?n ?m" "wWriteMask w" ?n] k(1) by (simp add: add.commute)
  ultimately show "loaded E w0 ?w"
    using k(1) c st i u w0 by (auto simp: loaded_def write_ok_def unsent_def buffer_rest_def)
qed

lemma fill_plain_ok:
  assumes c: "xIncoming E" and st: "wWriteState w = WriteStatePayload" "wState w = WsOpened" "wWriteState w0 = WriteStateHeader"
    and i: "bufI (wWriteBuffer w) < length (bufB (wWriteBuffer w))" "bufI (wOut w) = 0" "bufB (wOut w) \<noteq> []"
    and u: "unsent E w0 = take (bufI (wWriteBuffer w)) (bufB (wWriteBuffer w)) @ bufB (wOut w)"
    and w0: "wWire w = wWire w0" "wOut w = wOut w0"
  shows "wp fill_plain (\<lambda>_ w'. loaded E w0 w') R w"
  by (rule wp_fill_plain) (use assms in \<open>auto simp: loaded_def write_ok_def unsent_def buffer_rest_def\<close>)

lemma preWrite_ok:
  assumes ok: "write_ok E w"
  shows "wp (preWrite E) (\<lambda>more w'. more \<and> loaded E w w') R w"
proof (cases "wWriteState w")
  case WriteStateControlFrame
  with ok show ?thesis by (simp add: write_ok_def)
next
  case WriteStatePayload
  note st = this
  show ?thesis
  proof (cases "\<not> xIncoming E \<and> bufI (wWriteBuffer w) = length (bufB (wWriteBuffer w))")
    case True
    have "wp fill_masked (\<lambda>_ w'. loaded E w w') R w"
      by (rule fill_masked_ok [where h = "[]"]) (use ok st True in \<open>auto simp: write_ok_def unsent_def buffer_rest_def\<close>)
    with st True show ?thesis by (simp add: preWrite_def wp_simps)
  next
    case False
    with ok st have "loaded E w w" "0 < wWritePayloadLength w"
      by (auto simp: loaded_def write_ok_def)
    then show ?thesis unfolding preWrite_def using st False by (auto simp: wp_simps)
  qed
next
  case WriteStateHeader
  note st = this
  let ?hdr = "frame_header (\<not> xIncoming E) (next_key E w) OP_DATA (length (bufB (wOut w)))"
  have i: "bufI (wOut w) = 0" "bufB (wOut w) \<noteq> []" "wState w = WsOpened" using ok st by (simp_all add: write_ok_def)
  have short: "length ?hdr \<le> 14" by (rule length_frame_header) simp
  have fill: "wp (if xIncoming E then fill_plain else fill_masked) (\<lambda>_ w'. loaded E w w') R
     (w\<lparr>wWriteBuffer := \<lparr>bufB = ?hdr @ pad, bufI = length ?hdr\<rparr>,
        wWriteMask := (if xIncoming E then wWriteMask w else next_key E w),
        wDrawn := (if xIncoming E then wDrawn w else wDrawn w + 4), wWriteState := WriteStatePayload, wWritePayloadLength := 0\<rparr>)"
    if l: "length ?hdr + length pad = writeBufferSize E" for pad
  proof -
    have "14 < writeBufferSize E" by (simp add: writeBufferSize_def)
    with l short have "0 < length pad" by linarith
    then have "pad \<noteq> []" by simp
    then show ?thesis
    proof (cases "xIncoming E")
      case True
      then show ?thesis
        unfolding if_P [OF True] by (intro fill_plain_ok) (use i st \<open>pad \<noteq> []\<close> in \<open>simp_all add: unsent_def frame_def unmask_def\<close>)
    next
      case False
      then show ?thesis
        unfolding if_not_P [OF False] by (intro fill_masked_ok [where h = ?hdr]) (use i st \<open>pad \<noteq> []\<close> in \<open>simp_all add: unsent_def frame_def unmask_def\<close>)
    qed
  qed
  have "wp (preWrite_header E) (\<lambda>r. wp (case r of Some b \<Rightarrow> ret b | None \<Rightarrow> withp (\<lambda>w.
           if wWriteState w = WriteStatePayload then
             seqp (if \<not> xIncoming E \<and> (wWritePayloadLength w = 0 \<or> bufI (wWriteBuffer w) = length (bufB (wWriteBuffer w)))
                   then fill_masked else if wWritePayloadLength w = 0 then fill_plain else ret ())
               (ret True)
           else ret (bufI (wWriteBuffer w) < length (bufB (wWriteBuffer w))))) (\<lambda>more w'. more \<and> loaded E w w') R) R w"
    unfolding preWrite_header_def wp_basic(5) if_P [OF i(3)] wp_if wp_seqp
    using i fill by (auto simp: wp_simps wp_modify_fun set_write_state_def intro!: wp_prepareWriteHeader)
  then show ?thesis by (simp add: preWrite_def wp_bindp wp_basic(5) st)
qed


subsection \<open>The socket\<close>

lemma stream_write_ok:
  assumes "stream_write as b = (r, sent, as')" "bufI b \<le> length (bufB b)"
  shows "(\<exists>rest. buffer_rest b = sent @ rest) \<and>
    (case r of Inl e \<Rightarrow> \<not> fatal e
     | Inr (op, b') \<Rightarrow> bufB b' = bufB b \<and> bufI b' \<le> length (bufB b) \<and> bufI b \<le> bufI b' \<and> buffer_rest b = sent @ buffer_rest b'
         \<and> op = (if bufI b' = length (bufB b) then OpNone else OpWrite))"
proof -
  let ?todo = "buffer_rest b"
  obtain r1 where run: "sock_write as ?todo (length ?todo) [] = (r1, sent, as')"
    and r: "r = (case r1 of Inl e \<Rightarrow> Inl e | Inr _ \<Rightarrow>
       Inr (if bufI b + length sent \<noteq> length (bufB b) then OpWrite else OpNone, b\<lparr>bufI := bufI b + length sent\<rparr>))"
    using assms(1) by (cases "sock_write as ?todo (length ?todo) []")
      (auto simp: stream_write_def buffer_rest_def Let_def split: sum.splits)
  obtain rest where rest: "?todo = sent @ rest" and e: "r1 = Inr () \<or> r1 = Inl ConnectionLost \<or> (\<exists>n. r1 = Inl (SocketError n))"
    using sock_write_moves [OF run] by auto
  have "length sent \<le> length ?todo" by (simp add: rest)
  then have l: "bufI b + length sent \<le> length (bufB b)" using assms(2) by (simp add: buffer_rest_def)
  have "buffer_rest (b\<lparr>bufI := bufI b + length sent\<rparr>) = drop (length sent) ?todo"
    by (simp add: buffer_rest_def add.commute)
  then have "?todo = sent @ buffer_rest (b\<lparr>bufI := bufI b + length sent\<rparr>)" by (simp add: rest)
  with rest e l show ?thesis by (auto simp: r fatal_def)
qed

lemma wp_delegate_write:
  assumes "bufI (get w) \<le> length (bufB (get w))"
    and "\<And>i sent as. bufI (get w) \<le> i \<Longrightarrow> i \<le> length (bufB (get w)) \<Longrightarrow> buffer_rest (get w) = sent @ buffer_rest ((get w)\<lparr>bufI := i\<rparr>) \<Longrightarrow>
       Q (if i = length (bufB (get w)) then OpNone else OpWrite) (put ((get w)\<lparr>bufI := i\<rparr>) (w\<lparr>wKernel := as, wWire := wWire w @ sent\<rparr>))"
    and "\<And>e sent rest as. \<not> fatal e \<Longrightarrow> buffer_rest (get w) = sent @ rest \<Longrightarrow> R e (w\<lparr>wKernel := as, wWire := wWire w @ sent\<rparr>)"
  shows "wp (delegate_write get put) Q R w"
proof (cases "stream_write (wKernel w) (get w)")
  case (fields r sent as)
  note ok = stream_write_ok [OF fields assms(1)]
  show ?thesis
  proof (cases r)
    case (Inl e)
    with ok fields assms(3) show ?thesis by (auto simp: delegate_write_def wp_simps)
  next
    case (Inr p)
    obtain op b where p: "p = (op, b)" by (cases p)
    have b: "b = (get w)\<lparr>bufI := bufI b\<rparr>" using ok by (cases b; cases "get w") (simp add: Inr p)
    have "Q op (put b (w\<lparr>wKernel := as, wWire := wWire w @ sent\<rparr>))"
      using ok assms(2) [of "bufI b" sent as] by (simp add: Inr p flip: b)
    with fields show ?thesis by (simp add: delegate_write_def wp_simps Inr p)
  qed
qed

text \<open>Nothing is lost or made up: the wire and what is still to come make the same bytes.\<close>

definition keeps :: "ws_env \<Rightarrow> ws \<Rightarrow> ws \<Rightarrow> bool" where
  "keeps E w w' \<longleftrightarrow> wWire w' @ unsent E w' = wWire w @ unsent E w \<and> bufB (wOut w') = bufB (wOut w) \<and> wState w' = WsOpened"

text \<open>A round has sent what was in the buffer.\<close>

definition flushed :: "ws_env \<Rightarrow> ws \<Rightarrow> ws \<Rightarrow> bool" where
  "flushed E w w' \<longleftrightarrow> keeps E w w' \<and> wWriteState w' = WriteStatePayload
     \<and> bufI (wWriteBuffer w') = length (bufB (wWriteBuffer w'))
     \<and> 0 < wWritePayloadLength w' \<and> wWritePayloadLength w' \<le> length (bufB (wOut w')) \<and> bufI (wOut w') \<le> length (bufB (wOut w'))
     \<and> (if xIncoming E then 0 < bufI (wOut w') \<and>
          (bufI (wOut w') = length (bufB (wOut w')) \<or> wWriteState w \<noteq> WriteStatePayload \<or> bufI (wWriteBuffer w) \<noteq> length (bufB (wWriteBuffer w)))
        else bufB (wWriteBuffer w') \<noteq> [] \<and> bufI (wOut w') = bufI (wOut w) \<and> bufI (wOut w') < wWritePayloadLength w')"

lemma send_buffer_ok:
  assumes l: "loaded E w w1" and i: "bufI (wWriteBuffer w1) < length (bufB (wWriteBuffer w1))"
  shows "wp write_from_buffer (\<lambda>s w'. if s = OpNone then flushed E w w' else s = OpWrite \<and> write_ok E w' \<and> keeps E w w') (\<lambda>e _. \<not> fatal e) w1"
  unfolding write_from_buffer_def
  by (rule wp_delegate_write)
    (use assms in \<open>auto simp: loaded_def write_ok_def flushed_def keeps_def unsent_def op_defs buffer_rest_def split: if_splits\<close>)

lemma send_message_ok:
  assumes l: "loaded E w w1" and i: "bufI (wWriteBuffer w1) = length (bufB (wWriteBuffer w1))" and s: "xIncoming E"
  shows "wp write_from_message (\<lambda>s w'. if s = OpNone then flushed E w w' else s = OpWrite \<and> write_ok E w' \<and> keeps E w w') (\<lambda>e _. \<not> fatal e) w1"
  unfolding write_from_message_def
  by (rule wp_delegate_write)
    (use assms in \<open>auto simp: loaded_def write_ok_def flushed_def keeps_def unsent_def op_defs buffer_rest_def split: if_splits\<close>)


lemma write_round_ok:
  assumes ok: "write_ok E w"
  shows "wp (write_round E) (\<lambda>r w'. case r of None \<Rightarrow> flushed E w w' | Some s \<Rightarrow> s = OpWrite \<and> write_ok E w' \<and> keeps E w w')
    (\<lambda>e _. \<not> fatal e) w"
  unfolding write_round_def wp_bindp
proof (rule wp_mono [OF preWrite_ok [OF ok, of "\<lambda>_ _. False"]])
  let ?Q = "\<lambda>r w'. case r of None \<Rightarrow> flushed E w w' | Some s \<Rightarrow> s = OpWrite \<and> write_ok E w' \<and> keeps E w w'"
  fix more w1
  assume "more \<and> loaded E w w1"
  then have m: "more" and l: "loaded E w w1" by simp_all
  have result: "?Q (if s \<noteq> OpNone then Some s else None) w'"
    if "if s = OpNone then flushed E w w' else s = OpWrite \<and> write_ok E w' \<and> keeps E w w'" for s w'
    using that by (simp split: if_splits)
  have ne: "bufB (wOut w1) \<noteq> []" and pay: "wWriteState w1 = WriteStatePayload" using l by (auto simp: loaded_def write_ok_def)
  show "wp (if more then withp (\<lambda>w. bindp
           (if bufI (wWriteBuffer w) < length (bufB (wWriteBuffer w)) then write_from_buffer
            else if xIncoming E \<and> bufB (wOut w) \<noteq> [] \<and> wWriteState w = WriteStatePayload then write_from_message
            else ret OpNone)
           (\<lambda>s. ret (if s \<noteq> OpNone then Some s else None))) else ret None) ?Q (\<lambda>e _. \<not> fatal e) w1"
  proof (cases "bufI (wWriteBuffer w1) < length (bufB (wWriteBuffer w1))")
    case True
    show ?thesis
      unfolding if_P [OF m] wp_basic(5) if_P [OF True] wp_bindp wp_basic(1)
      by (rule wp_mono [OF send_buffer_ok [OF l True]]) (rule result)
  next
    case False
    then have e: "bufI (wWriteBuffer w1) = length (bufB (wWriteBuffer w1))" and s: "xIncoming E"
      using l by (auto simp: loaded_def write_ok_def split: if_splits)
    have c: "xIncoming E \<and> bufB (wOut w1) \<noteq> [] \<and> wWriteState w1 = WriteStatePayload" using s ne pay by simp
    show ?thesis
      unfolding if_P [OF m] wp_basic(5) if_not_P [OF False] if_P [OF c] wp_bindp wp_basic(1)
      by (rule wp_mono [OF send_message_ok [OF l e s]]) (rule result)
  qed
qed simp

subsection \<open>After the socket\<close>

definition rounds :: "ws_env \<Rightarrow> ws \<Rightarrow> nat" where
  "rounds E w = (if xIncoming E
     then (if wWriteState w = WriteStatePayload \<and> bufI (wWriteBuffer w) = length (bufB (wWriteBuffer w)) then 1 else 2)
     else Suc (length (bufB (wOut w)) - bufI (wOut w)))"

definition all_sent :: "ws \<Rightarrow> bool" where
  "all_sent w \<longleftrightarrow> wWriteState w = WriteStateHeader \<and> bufI (wOut w) = length (bufB (wOut w))"

lemma all_sent_unsent: "all_sent w \<Longrightarrow> unsent E w = []"
  by (simp add: all_sent_def unsent_def)

lemma postWrite_ok:
  assumes f: "flushed E w w1"
  shows "wp (postWrite E) (\<lambda>again w'. keeps E w w' \<and> (if again then write_ok E w' \<and> rounds E w' < rounds E w else all_sent w')) R w1"
proof -
  have st: "\<not> WsOpened < wState w1" "wState w1 = WsOpened" using f by (simp_all add: flushed_def keeps_def)
  have "wp (postWrite E) Q R w1 = wp (withp (\<lambda>w.
                if bufB (wOut w) = [] \<or> bufI (wOut w) = length (bufB (wOut w)) then
                  seqp (set_write_state WriteStateHeader)
                    (ret (wState w = WsPingPending \<or> wState w = WsPongPending \<or> close_due w))
                else ret (wState w = WsOpened))) Q R
      (if xIncoming E then w1 else w1\<lparr>wOut := (wOut w1)\<lparr>bufI := wWritePayloadLength w1\<rparr>\<rparr>)" for Q
    using f by (auto simp: postWrite_def control_sent_def wp_simps wp_modify_fun st flushed_def)
  then show ?thesis
    using f st
    by (auto simp: wp_simps wp_modify_fun set_write_state_def flushed_def keeps_def all_sent_def unsent_def buffer_rest_def
      write_ok_def rounds_def close_due_def)
qed


subsection \<open>The loop and the operation\<close>

lemma keeps_trans: "keeps E w w1 \<Longrightarrow> keeps E w1 w' \<Longrightarrow> keeps E w w'"
  by (simp add: keeps_def)

definition written :: "ws_env \<Rightarrow> ws \<Rightarrow> sockop option \<Rightarrow> ws \<Rightarrow> bool" where
  "written E w r w' \<longleftrightarrow> keeps E w w' \<and> (case r of None \<Rightarrow> all_sent w' | Some s \<Rightarrow> s = OpWrite \<and> write_ok E w')"

lemma written_trans: "keeps E w w1 \<Longrightarrow> written E w1 r w' \<Longrightarrow> written E w r w'"
  using keeps_trans by (auto simp: written_def)

lemma write_loop_ok:
  "write_ok E w \<Longrightarrow> rounds E w \<le> fuel \<Longrightarrow> wp (write_loop E fuel) (written E w) (\<lambda>e _. \<not> fatal e) w"
proof (induction fuel arbitrary: w)
  case 0
  then show ?case by (simp add: rounds_def split: if_splits)
next
  case (Suc fuel)
  have again: "wp (if b then write_loop E fuel else ret None) (written E w) (\<lambda>e _. \<not> fatal e) w1"
    if "keeps E w w1 \<and> (if b then write_ok E w1 \<and> rounds E w1 < rounds E w else all_sent w1)" for b w1
  proof (cases b)
    case True
    with that have w1: "write_ok E w1" "rounds E w1 \<le> fuel" and k: "keeps E w w1" using Suc.prems(2) by auto
    show ?thesis unfolding if_P [OF True] by (rule wp_mono [OF Suc.IH [OF w1] written_trans [OF k]])
  next
    case False
    with that show ?thesis by (simp add: wp_simps written_def)
  qed
  show ?case
    unfolding write_loop.simps wp_bindp
  proof (rule wp_mono [OF write_round_ok [OF Suc.prems(1)]])
    fix r w1
    assume r: "case r of None \<Rightarrow> flushed E w w1 | Some s \<Rightarrow> s = OpWrite \<and> write_ok E w1 \<and> keeps E w w1"
    show "wp (case r of None \<Rightarrow> bindp (postWrite E) (\<lambda>again. if again then write_loop E fuel else ret None) | Some s \<Rightarrow> ret (Some s))
       (written E w) (\<lambda>e _. \<not> fatal e) w1"
    proof (cases r)
      case None
      with r have "flushed E w w1" by simp
      from wp_mono [OF postWrite_ok [OF this, of "\<lambda>e _. \<not> fatal e"] again] None show ?thesis by (simp add: wp_bindp)
    next
      case (Some s)
      with r show ?thesis by (simp add: wp_simps written_def)
    qed
  qed
qed

lemma ws_write_ok:
  assumes ok: "write_ok E w"
  shows "wp (ws_write E) (\<lambda>s w'. keeps E w w' \<and> (s = OpNone \<and> all_sent w' \<or> s = OpWrite \<and> write_ok E w')) (\<lambda>e _. \<not> fatal e) w"
proof -
  have st: "\<not> wState w < WsOpened" using ok by (simp add: write_ok_def)
  have fuel: "rounds E w \<le> write_fuel w" by (auto simp: rounds_def write_fuel_def intro: le_trans [OF diff_le_self])
  show ?thesis
    unfolding ws_write_def wp_basic(5) if_not_P [OF st] wp_bindp
    by (rule wp_mono [OF write_loop_ok [OF ok fuel]])
      (auto simp: written_def wp_simps keeps_def split: option.splits)
qed


subsection \<open>Several calls\<close>

text \<open>The state stays at or behind \<open>StateOpened\<close> while frames are read.\<close>

definition stays_open :: "'a wm \<Rightarrow> bool" where
  "stays_open m \<longleftrightarrow> (\<forall>w. WsOpened \<le> wState w \<longrightarrow> WsOpened \<le> wState (snd (m w)))"

lemma stays_open_basic:
  "stays_open (ret x)" "stays_open (throw e)" "stays_open (reads f)" "stays_open (assertp P)" "stays_open (lift r)"
  by (simp_all add: stays_open_def ret_def throw_def reads_def assertp_def lift_def)

lemma stays_open_modify: "(\<And>w. WsOpened \<le> wState w \<Longrightarrow> WsOpened \<le> wState (g w)) \<Longrightarrow> stays_open (modify g)"
  by (simp add: stays_open_def modify_def)

lemma stays_open_bindp: "stays_open m \<Longrightarrow> (\<And>x. stays_open (f x)) \<Longrightarrow> stays_open (bindp m f)"
  unfolding stays_open_def bindp_def by (force split: prod.splits sum.splits)

lemma stays_open_withp: "(\<And>w. stays_open (h w)) \<Longrightarrow> stays_open (withp h)"
  by (simp add: stays_open_def withp_def)

lemma stays_open_seqp: "stays_open m \<Longrightarrow> stays_open n \<Longrightarrow> stays_open (seqp m n)"
  by (simp add: seqp_def stays_open_bindp)

lemmas stays_open_rules = stays_open_basic stays_open_modify stays_open_bindp stays_open_withp stays_open_seqp

lemma stays_open_if: "(b \<Longrightarrow> stays_open m) \<Longrightarrow> (\<not> b \<Longrightarrow> stays_open n) \<Longrightarrow> stays_open (if b then m else n)"
  by simp

lemma stays_open_option: "stays_open n \<Longrightarrow> (\<And>x. stays_open (m x)) \<Longrightarrow> stays_open (case r of None \<Rightarrow> n | Some x \<Rightarrow> m x)"
  by (cases r) simp_all

lemma stays_open_ptr: "(\<And>s. stays_open (m s)) \<Longrightarrow> (\<And>s. stays_open (n s)) \<Longrightarrow> stays_open (case p of InMessage s \<Rightarrow> m s | InReadBuffer s \<Rightarrow> n s)"
  by (cases p) simp_all

lemma stays_open_delegate:
  assumes "\<And>b w. wState (put b w) = wState w"
  shows "stays_open (delegate_read get put)"
  unfolding delegate_read_def
proof (rule stays_open_withp)
  fix w
  show "stays_open (case stream_read (wArriving w) (get w) of
       (Inl e, as) \<Rightarrow> seqp (modify (\<lambda>w. w\<lparr>wArriving := as\<rparr>)) (throw e)
     | (Inr (op, b), as) \<Rightarrow> seqp (modify (\<lambda>w. put b (w\<lparr>wArriving := as\<rparr>))) (ret op))"
    using assms by (auto intro!: stays_open_rules split: prod.splits sum.splits)
qed

lemmas stays_open_all = stays_open_rules stays_open_if stays_open_option stays_open_ptr

lemma stays_open_readBuffered: "stays_open (readBuffered n)"
  unfolding readBuffered_def Let_def by (intro stays_open_all) simp_all

lemma stays_open_preRead_round: "stays_open (preRead_round E)"
proof -
  have "stays_open (take_opcode E)"
    unfolding take_opcode_def next_byte_def set_last_frame_def protocol_error_def Let_def by (intro stays_open_all) simp_all
  moreover have "stays_open read_length" "stays_open (read_mask E)"
    unfolding read_length_def read_mask_def next_bytes_def protocol_error_def Let_def by (intro stays_open_all; simp)+
  moreover have "stays_open frame_opcode"
    unfolding frame_opcode_def close_received_def protocol_error_def Let_def by (intro stays_open_all) (simp_all add: ws_order)
  moreover have "stays_open take_control"
    unfolding take_control_def by (intro stays_open_all) (simp_all add: ws_order)
  moreover have "stays_open preRead_payload"
    unfolding preRead_payload_def Let_def by (intro stays_open_all) simp_all
  ultimately show ?thesis
    unfolding preRead_round_def or_return_def in_read_state_def preRead_opcode_def preRead_header_def preRead_control_def
    by (intro stays_open_all stays_open_readBuffered)
qed

lemma stays_open_preRead: "stays_open (preRead E)"
proof -
  have "stays_open (preRead_loop E n)" for n
    by (induction n) (auto intro!: stays_open_all stays_open_preRead_round)
  then show ?thesis unfolding preRead_def by (intro stays_open_withp)
qed

lemma stays_open_postRead: "stays_open (postRead E)"
  unfolding postRead_def by (intro stays_open_all) simp_all

lemma stays_open_ws_read_loop: "stays_open (ws_read_loop E n)"
proof -
  have "stays_open (read_round E)"
    unfolding read_round_def read_payload_def read_to_buffer_def read_to_message_def Let_def
    by (intro stays_open_all stays_open_delegate stays_open_preRead stays_open_postRead) simp_all
  then show ?thesis
    by (induction n) (auto intro!: stays_open_all stays_open_postRead)
qed

lemma ws_read_open: "WsOpened \<le> wState w \<Longrightarrow> WsOpened \<le> wState (snd (ws_read E w))"
proof -
  have "stays_open (ws_read E)"
    unfolding ws_read_def data_buffered_def set_ready_def read_to_message_def read_to_buffer_def
    by (intro stays_open_all stays_open_delegate stays_open_ws_read_loop) simp_all
  then show "WsOpened \<le> wState w \<Longrightarrow> WsOpened \<le> wState (snd (ws_read E w))" by (simp add: stays_open_def)
qed


text \<open>The caller of \<open>write\<close> and \<open>read\<close> calls again when it is told to wait: at most \<open>n\<close> times here.\<close>

fun ws_send :: "ws_env \<Rightarrow> nat \<Rightarrow> sockop wm" where
  "ws_send E 0 = ret OpWrite"
| "ws_send E (Suc n) = bindp (ws_write E) (\<lambda>s. if opWrite s then ws_send E n else ret s)"

fun ws_receive :: "ws_env \<Rightarrow> nat \<Rightarrow> sockop wm" where
  "ws_receive E 0 = ret OpRead"
| "ws_receive E (Suc n) = bindp (ws_read E) (\<lambda>s. if opRead s then ws_receive E n else ret s)"

lemma ws_send_ok:
  "write_ok E w \<Longrightarrow> wp (ws_send E n) (\<lambda>s w'. keeps E w w' \<and> (s = OpNone \<and> all_sent w' \<or> s = OpWrite \<and> write_ok E w')) (\<lambda>e _. \<not> fatal e) w"
proof (induction n arbitrary: w)
  case 0
  then show ?case by (simp add: wp_simps keeps_def write_ok_def)
next
  case (Suc n)
  show ?case
    unfolding ws_send.simps wp_bindp
  proof (rule wp_mono [OF ws_write_ok [OF Suc.prems]])
    fix s w1
    assume s: "keeps E w w1 \<and> (s = OpNone \<and> all_sent w1 \<or> s = OpWrite \<and> write_ok E w1)"
    show "wp (if opWrite s then ws_send E n else ret s)
       (\<lambda>s w'. keeps E w w' \<and> (s = OpNone \<and> all_sent w' \<or> s = OpWrite \<and> write_ok E w')) (\<lambda>e _. \<not> fatal e) w1"
    proof (cases "opWrite s")
      case True
      with s have "write_ok E w1" and k: "keeps E w w1" by (auto simp: op_defs)
      from wp_mono [OF Suc.IH [OF this(1)]] keeps_trans [OF k] True show ?thesis by simp
    next
      case False
      with s show ?thesis by (auto simp: op_defs wp_simps)
    qed
  qed
qed

lemma close_seen_total: "close_seen w \<Longrightarrow> total E w = got w"
  by (simp add: close_seen_def total_def phase_of_def payload_of.simps(2) op_codes)

lemma ws_receive_ok:
  "read_ok E w \<Longrightarrow> WsOpened \<le> wState w \<Longrightarrow> length (bufB (wIn w)) \<le> length (total E w) \<Longrightarrow>
     wp (ws_receive E n) (\<lambda>s w'. length (bufB (wIn w')) = length (bufB (wIn w)) \<and> bufI (wIn w') \<le> length (bufB (wIn w'))
       \<and> total E w' = total E w \<and> (\<not> opRead s \<longrightarrow> bufI (wIn w') = length (bufB (wIn w')))) (\<lambda>e _. \<not> fatal e) w"
proof (induction n arbitrary: w)
  case 0
  then show ?case by (simp add: wp_simps read_ok_def buffers_ok_def op_defs)
next
  case (Suc n)
  have open1: "wp (ws_read E) (\<lambda>_ w'. WsOpened \<le> wState w') (\<lambda>_ w'. WsOpened \<le> wState w') w"
    using ws_read_open [OF Suc.prems(2)] by (simp add: wp_run)
  show ?case
    unfolding ws_receive.simps wp_bindp
  proof (rule wp_mono [OF wp_conj [OF ws_read_handed [OF Suc.prems(1,2)] open1]])
    fix s w1
    assume s: "handed E w s w1 \<and> WsOpened \<le> wState w1"
    show "wp (if opRead s then ws_receive E n else ret s)
       (\<lambda>s w'. length (bufB (wIn w')) = length (bufB (wIn w)) \<and> bufI (wIn w') \<le> length (bufB (wIn w'))
         \<and> total E w' = total E w \<and> (\<not> opRead s \<longrightarrow> bufI (wIn w') = length (bufB (wIn w')))) (\<lambda>e _. \<not> fatal e) w1"
    proof (cases "opRead s")
      case True
      have "\<not> close_seen w1"
      proof
        assume "close_seen w1"
        from close_seen_total [OF this] s Suc.prems(3) have "length (bufB (wIn w1)) \<le> length (got w1)" by (simp add: handed_def)
        with s True show False by (simp add: handed_def got_def)
      qed
      with s have "read_ok E w1" "WsOpened \<le> wState w1" "length (bufB (wIn w1)) \<le> length (total E w1)"
        using Suc.prems(3) by (auto simp: handed_def)
      from wp_mono [OF Suc.IH [OF this]] s True show ?thesis by (simp add: handed_def)
    next
      case False
      with s show ?thesis by (simp add: wp_simps handed_def)
    qed
  qed auto
qed

subsection \<open>The properties\<close>

text \<open>
  C9: \<open>WSTransceiver::write\<close> of a message on an open connection with no control frame due puts exactly the frame of the
  message on the wire: the bytes on the wire and those still to come make the same bytes before and after each call,
  whatever the socket takes, so nothing is lost, repeated or mixed.  The call returns \<open>SocketOperationNone\<close> when the
  message has been sent completely and asks for writing otherwise; when it throws, it is not for a failed assertion or a
  loop without end.
\<close>

theorem ws_write_exact:
  assumes "write_ok E w"
  shows "case ws_write E w of
      (Inl e, w') \<Rightarrow> \<not> fatal e
    | (Inr s, w') \<Rightarrow> wWire w' @ unsent E w' = wWire w @ unsent E w \<and> bufB (wOut w') = bufB (wOut w)
        \<and> (s = OpNone \<and> unsent E w' = [] \<and> bufI (wOut w') = length (bufB (wOut w')) \<and> wWriteState w' = WriteStateHeader
           \<or> s = OpWrite \<and> write_ok E w')"
  using ws_write_ok [OF assms] all_sent_unsent by (auto simp: wp_def keeps_def all_sent_def split: prod.splits sum.splits)

text \<open>
  C7: a message that one side writes is the message that the other side reads.  The writer has called \<open>write\<close> until it was
  complete; the bytes it has put on the wire, and anything behind them, arrive at a reader that is between two frames, in
  whatever pieces.  What the reader has put into its buffer is then the beginning of the message, and the message when it
  is not told to wait: length, mask and frame boundaries are those of the writer, from a client to a server and back.
\<close>

theorem ws_message_delivered:
  assumes "write_ok E w" "wWriteState w = WriteStateHeader" "ws_send E k w = (Inr OpNone, w')"
    and "read_ok E' r" "WsOpened \<le> wState r" "xIncoming E' \<longleftrightarrow> \<not> xIncoming E"
    and "wReadState r = ReadStateOpcode" "wReadI r = bufI (wReadBuffer r)" "bufI (wIn r) = 0"
    and "length (bufB (wIn r)) = length (bufB (wOut w))" "length (bufB (wOut w)) < 2 ^ 63"
    and "wWire w @ arriving (wArriving r) = wWire w' @ behind"
    and "ws_receive E' n r = (Inr s, r')"
  shows "take (bufI (wIn r')) (bufB (wIn r')) = take (bufI (wIn r')) (bufB (wOut w))
    \<and> (\<not> opRead s \<longrightarrow> bufB (wIn r') = bufB (wOut w))"
proof -
  let ?m = "bufB (wOut w)" and ?f = "frame (\<not> xIncoming E) (next_key E w) OP_DATA (bufB (wOut w))"
  have ne: "?m \<noteq> []" "bufI (wOut w) = 0" using assms(1,2) by (simp_all add: write_ok_def)
  have "wWire w' = wWire w @ unsent E w"
    using ws_send_ok [OF assms(1), of k] assms(3) all_sent_unsent by (auto simp: wp_def keeps_def op_defs)
  then have "arriving (wArriving r) = ?f @ behind" using assms(2,12) ne by (simp add: unsent_def)
  moreover have "payload_of (\<not> xIncoming E) AtOpcode (?f @ behind) = ?m @ payload_of (\<not> xIncoming E) AtOpcode behind"
    by (rule frame_payload(1)) (use assms(11) in simp_all)
  ultimately have t: "total E' r = ?m @ payload_of (\<not> xIncoming E) AtOpcode behind"
    using assms(6-9) by (simp add: total_def got_def phase_of_def incoming_def buffered_def)
  then have "length (bufB (wIn r)) \<le> length (total E' r)" using assms(10) by simp
  from ws_receive_ok [OF assms(4,5) this, of n] assms(13)
  have l: "length (bufB (wIn r')) = length ?m" "bufI (wIn r') \<le> length (bufB (wIn r'))" and t': "total E' r' = total E' r"
    and f: "\<not> opRead s \<longrightarrow> bufI (wIn r') = length (bufB (wIn r'))"
    using assms(10) by (simp_all add: wp_def)
  have "take (bufI (wIn r')) (bufB (wIn r')) = take (bufI (wIn r')) (total E' r')"
    using l(2) by (simp add: total_def got_def)
  also have "\<dots> = take (bufI (wIn r')) ?m" using l by (simp add: t' t)
  finally show ?thesis using f l by auto
qed


text \<open>A server sends three bytes, its socket takes four at first; the client gets them in two pieces.\<close>

definition wsd_writer :: ws where
  "wsd_writer = (ws_new [] SockConnected [] [Sent 4, SendWouldBlock, Sent 9])
     \<lparr>wState := WsOpened, wNextState := WsOpened, wOut := \<lparr>bufB = [7, 8, 9], bufI = 0\<rparr>\<rparr>"

definition wsd_client :: ws_env where
  "wsd_client = wsd_env\<lparr>xIncoming := False\<rparr>"

definition wsd_reader :: ws where
  "wsd_reader = (ws_new [] SockConnected [Recv [0x82, 3, 7], RecvWouldBlock, Recv [8, 9]] [])
     \<lparr>wState := WsOpened, wNextState := WsOpened, wIn := \<lparr>bufB = [0, 0, 0], bufI = 0\<rparr>\<rparr>"

theorem ws_write_exact_witness:
  "case ws_write wsd_env wsd_writer of (Inl e, w') \<Rightarrow> False
   | (Inr s, w') \<Rightarrow> s = OpWrite \<and> wWire w' = [0x82, 3, 7, 8] \<and> write_ok wsd_env w' \<and> wWire w' @ unsent wsd_env w' = [0x82, 3, 7, 8, 9]"
proof -
  have "write_ok wsd_env wsd_writer" by code_simp
  note exact = ws_write_exact [OF this]
  have u: "wWire wsd_writer @ unsent wsd_env wsd_writer = [0x82, 3, 7, 8, 9]" by code_simp
  have r: "case ws_write wsd_env wsd_writer of (Inl e, w') \<Rightarrow> False | (Inr s, w') \<Rightarrow> opWrite s \<and> wWire w' = [0x82, 3, 7, 8]"
    by code_simp
  from exact u r show ?thesis by (auto simp: op_defs split: prod.splits sum.splits)
qed

lemma wsd_sends:
  "case ws_send wsd_env 2 wsd_writer of (Inl e, w') \<Rightarrow> False
   | (Inr s, w') \<Rightarrow> \<not> opRead s \<and> \<not> opWrite s \<and> wWire w' = [0x82, 3, 7, 8, 9]"
  by code_simp

lemma wsd_receives:
  "case ws_receive wsd_client 2 wsd_reader of (Inl e, r') \<Rightarrow> False | (Inr s, r') \<Rightarrow> \<not> opRead s"
  by code_simp

theorem ws_message_delivered_witness:
  "case ws_send wsd_env 2 wsd_writer of (Inl e, w') \<Rightarrow> False
   | (Inr s, w') \<Rightarrow> s = OpNone \<and> wWire w' = arriving (wArriving wsd_reader)
   \<and> (case ws_receive wsd_client 2 wsd_reader of (Inl e, r') \<Rightarrow> False | (Inr s, r') \<Rightarrow> bufB (wIn r') = [7, 8, 9])"
proof -
  have s: "fst (ws_send wsd_env 2 wsd_writer) = Inr OpNone" "wWire (snd (ws_send wsd_env 2 wsd_writer)) = [0x82, 3, 7, 8, 9]"
    using wsd_sends by (auto simp: op_defs split: prod.splits sum.splits)
  note r = wsd_receives
  have a: "arriving (wArriving wsd_reader) = [0x82, 3, 7, 8, 9]" "wWire wsd_writer = []" "bufB (wOut wsd_writer) = [7, 8, 9]" by code_simp+
  show ?thesis
  proof (cases "ws_send wsd_env 2 wsd_writer"; cases "ws_receive wsd_client 2 wsd_reader")
    fix x w' y r'
    assume w: "ws_send wsd_env 2 wsd_writer = (x, w')" and r': "ws_receive wsd_client 2 wsd_reader = (y, r')"
    from r r' obtain t where y: "y = Inr t" "\<not> opRead t" by (auto split: sum.splits)
    have "take (bufI (wIn r')) (bufB (wIn r')) = take (bufI (wIn r')) (bufB (wOut wsd_writer))
        \<and> (\<not> opRead t \<longrightarrow> bufB (wIn r') = bufB (wOut wsd_writer))"
    proof (rule ws_message_delivered [where E = wsd_env and E' = wsd_client and k = 2 and n = 2 and r = wsd_reader and w' = w' and behind = "[]" and s = t])
      show "write_ok wsd_env wsd_writer" "wWriteState wsd_writer = WriteStateHeader" "read_ok wsd_client wsd_reader"
        "WsOpened \<le> wState wsd_reader" "xIncoming wsd_client \<longleftrightarrow> \<not> xIncoming wsd_env" "wReadState wsd_reader = ReadStateOpcode"
        "wReadI wsd_reader = bufI (wReadBuffer wsd_reader)" "bufI (wIn wsd_reader) = 0"
        "length (bufB (wIn wsd_reader)) = length (bufB (wOut wsd_writer))"
        by code_simp+
    qed (use w r' y s a in simp_all)
    with y s a w r' show ?thesis by simp
  qed
qed


text \<open>
  C12: a ping that arrives while a message is partly written cuts the message off.  A server with a piece of a message in
  its buffer and the rest behind it, whose state has become \<open>StatePongPending\<close> because of a ping, sends the piece;
  \<open>postWrite\<close> then ends the loop, because the state is not \<open>StateOpened\<close>, and \<open>write\<close> returns \<open>SocketOperationNone\<close> as
  if the message had been sent, with its iterator where it was.
\<close>

theorem ping_cuts_message:
  assumes "xIncoming E" "wState w = WsPongPending" "wWriteState w = WriteStatePayload" "0 < wWritePayloadLength w"
    and "bufI (wWriteBuffer w) < length (bufB (wWriteBuffer w))" "0 < bufI (wOut w)" "bufI (wOut w) < length (bufB (wOut w))"
    and "wKernel w = [Sent n]" "length (bufB (wWriteBuffer w)) \<le> n"
  shows "fst (ws_write E w) = Inr OpNone \<and> wOut (snd (ws_write E w)) = wOut w
    \<and> wWire (snd (ws_write E w)) = wWire w @ buffer_rest (wWriteBuffer w)"
proof -
  let ?b = "wWriteBuffer w"
  have "stream_write (wKernel w) ?b = (Inr (OpNone, ?b\<lparr>bufI := length (bufB ?b)\<rparr>), buffer_rest ?b, [])"
    using assms(5,8,9) by (simp add: stream_write_def Let_def buffer_rest_def)
  then have send: "wp write_from_buffer (\<lambda>s w'. s = OpNone \<and> w' = w\<lparr>wKernel := [], wWire := wWire w @ buffer_rest ?b,
      wWriteBuffer := ?b\<lparr>bufI := length (bufB ?b)\<rparr>\<rparr>) (\<lambda>_ _. False) w"
    by (simp add: write_from_buffer_def delegate_write_def wp_simps)
  have pre: "wp (preWrite E) Q R w = Q True w" for Q R
    using assms by (simp add: preWrite_def wp_simps)
  have fuel: "write_fuel w = Suc (length (bufB (wOut w)) + 3)" by (simp add: write_fuel_def)
  have st: "\<not> wState w < WsOpened" using assms(2) by (simp add: ws_order)
  have "wp (ws_write E) (\<lambda>s w'. s = OpNone \<and> wOut w' = wOut w \<and> wWire w' = wWire w @ buffer_rest ?b) (\<lambda>_ _. False) w"
    unfolding ws_write_def wp_basic(5) if_not_P [OF st] fuel write_loop.simps write_round_def wp_bindp pre if_True if_P [OF assms(5)]
    by (rule wp_mono [OF send])
      (use assms in \<open>auto simp: wp_simps wp_modify_fun postWrite_def control_sent_def\<close>)
  then show ?thesis by (auto simp: wp_def split: prod.splits sum.splits)
qed


definition wsd_cut :: ws where
  "wsd_cut = (ws_new [] SockConnected [] [Sent 9])
     \<lparr>wState := WsPongPending, wNextState := WsOpened, wOut := \<lparr>bufB = [7, 8, 9], bufI = 1\<rparr>, wWriteState := WriteStatePayload,
      wWriteBuffer := \<lparr>bufB = [0x82, 3, 7], bufI = 0\<rparr>, wWritePayloadLength := 1\<rparr>"

theorem ping_cuts_message_witness:
  "fst (ws_write wsd_env wsd_cut) = Inr OpNone \<and> bufI (wOut (snd (ws_write wsd_env wsd_cut))) < length (bufB (wOut wsd_cut))
     \<and> wWire (snd (ws_write wsd_env wsd_cut)) = [0x82, 3, 7]"
  using ping_cuts_message [of wsd_env wsd_cut 9] by (simp add: wsd_env_def wsd_cut_def ws_new_def no_buffer_def buffer_rest_def)

end
