(* ===== verification/Timer.thy ===== *)
theory Timer
  imports OrderedMap Effects "HOL-Library.Product_Lexorder"
begin

section \<open>The timer\<close>

text \<open>
  \<open>IceUtil::Timer\<close> (cpp/include/IceUtil/Timer.h, cpp/src/Ice/Timer.cpp).  Times are microseconds in 64 bits, whose sums
  wrap.  Tasks are numbers in the order of their addresses.  A critical section of the timer's thread is one step, and so is
  each call of another thread; what the thread does between two of its critical sections (it waits, or runs a task) is its
  position.  Waits may end at any time.
\<close>

definition time_plus :: "int \<Rightarrow> int \<Rightarrow> int" where
  "time_plus a b = signed_take_bit 63 (a + b)"

datatype timer_at = AtTop | InWait | InTimedWait int | InTask | Ended

text \<open>\<open>_tokens\<close> is ordered by time and task; \<open>tmToken\<close> is the variable \<open>token\<close> of \<open>run\<close>.\<close>

record timer_token =
  tkTime :: int
  tkDelay :: int
  tkTask :: "nat option"

record timer =
  tmDestroyed :: bool
  tmTokens :: "((int \<times> nat) \<times> int) list"
  tmTasks :: "(nat \<times> int) list"
  tmWakeUp :: int
  tmNotified :: bool
  tmToken :: timer_token
  tmAt :: timer_at

type_synonym 'a tm = "(timer, 'a) prog"

definition no_token :: timer_token where
  "no_token = \<lparr>tkTime = 0, tkDelay = 0, tkTask = None\<rparr>"

definition timer_new :: timer where
  "timer_new = \<lparr>tmDestroyed = False, tmTokens = [], tmTasks = [], tmWakeUp = 0, tmNotified = False, tmToken = no_token, tmAt = AtTop\<rparr>"

subsection \<open>The operations\<close>

text \<open>Joining the thread is left out.\<close>

definition timer_destroy :: "unit tm" where
  "timer_destroy = modify (\<lambda>t. if tmDestroyed t then t else t\<lparr>tmDestroyed := True, tmNotified := True, tmTasks := [], tmTokens := []\<rparr>)"

definition schedule_token :: "int \<Rightarrow> int \<Rightarrow> int \<Rightarrow> nat \<Rightarrow> unit tm" where
  "schedule_token now delay repeat task = withp (\<lambda>t.
     if tmDestroyed t then throw (IllegalArgument ''timer destroyed'')
     else let time = time_plus now delay in
       if 0 < delay \<and> time < now then throw (IllegalArgument ''invalid delay'')
       else if map_of (tmTasks t) task \<noteq> None then throw (IllegalArgument ''task is already scheduled'')
       else modify (\<lambda>t. t\<lparr>tmTasks := om_insert task time (tmTasks t), tmTokens := om_insert (time, task) repeat (tmTokens t),
           tmNotified := tmNotified t \<or> tmWakeUp t = 0 \<or> time < tmWakeUp t\<rparr>))"

definition timer_schedule :: "int \<Rightarrow> nat \<Rightarrow> int \<Rightarrow> unit tm" where
  "timer_schedule now task delay = schedule_token now delay 0 task"

definition timer_scheduleRepeated :: "int \<Rightarrow> nat \<Rightarrow> int \<Rightarrow> unit tm" where
  "timer_scheduleRepeated now task delay = schedule_token now delay delay task"

definition timer_cancel :: "nat \<Rightarrow> bool tm" where
  "timer_cancel task = withp (\<lambda>t.
     if tmDestroyed t then ret False
     else case map_of (tmTasks t) task of
         None \<Rightarrow> ret False
       | Some time \<Rightarrow> seqp (modify (\<lambda>t. t\<lparr>tmTokens := om_erase (time, task) (tmTokens t), tmTasks := om_erase task (tmTasks t)\<rparr>))
           (ret True))"

subsection \<open>The thread\<close>

text \<open>A repeated task that has run is scheduled again, unless it was cancelled.\<close>

definition reschedule :: "int \<Rightarrow> timer \<Rightarrow> timer" where
  "reschedule now t =
     (case tkTask (tmToken t) of
        Some task \<Rightarrow>
          if tkDelay (tmToken t) \<noteq> 0 \<and> map_of (tmTasks t) task \<noteq> None then
            let time = time_plus now (tkDelay (tmToken t)) in
            t\<lparr>tmTasks := om_put task time (tmTasks t), tmTokens := om_insert (time, task) (tkDelay (tmToken t)) (tmTokens t)\<rparr>
          else t
      | None \<Rightarrow> t)"

text \<open>The inner loop up to its next wait or to the task that is due.\<close>

definition next_token :: "int \<Rightarrow> timer \<Rightarrow> timer" where
  "next_token now t =
     (if tmDestroyed t then t\<lparr>tmAt := Ended\<rparr>
      else case tmTokens t of
          [] \<Rightarrow> t\<lparr>tmAt := AtTop\<rparr>
        | ((time, task), delay) # rest \<Rightarrow>
            if time \<le> now then
              t\<lparr>tmToken := \<lparr>tkTime = time, tkDelay = delay, tkTask = Some task\<rparr>, tmTokens := rest,
                tmTasks := (if delay = 0 then om_erase task (tmTasks t) else tmTasks t), tmAt := InTask\<rparr>
            else t\<lparr>tmWakeUp := time, tmAt := InTimedWait (time - now)\<rparr>)"

definition timer_top :: "int \<Rightarrow> timer \<Rightarrow> timer" where
  "timer_top now t =
     (if tmDestroyed t then t\<lparr>tmAt := Ended\<rparr>
      else let t = (reschedule now t)\<lparr>tmToken := no_token\<rparr> in
        if tmTokens t = [] then t\<lparr>tmWakeUp := 0, tmAt := InWait\<rparr> else next_token now t)"

text \<open>What the thread does next; \<open>InTask\<close> is the end of \<open>runTimerTask\<close>.\<close>

definition timer_turn :: "int \<Rightarrow> timer \<Rightarrow> timer" where
  "timer_turn now t =
     (case tmAt t of
        AtTop \<Rightarrow> timer_top now (t\<lparr>tmNotified := False\<rparr>)
      | InWait \<Rightarrow> next_token now (t\<lparr>tmNotified := False\<rparr>)
      | InTimedWait d \<Rightarrow> next_token now (t\<lparr>tmNotified := False\<rparr>)
      | InTask \<Rightarrow> t\<lparr>tmToken := (if tkDelay (tmToken t) = 0 then (tmToken t)\<lparr>tkTask := None\<rparr> else tmToken t), tmAt := AtTop\<rparr>
      | Ended \<Rightarrow> t)"


subsection \<open>Histories\<close>

datatype timer_call = Schedule int nat int | ScheduleRepeated int nat int | Cancel nat | Destroy | Turn int

fun timer_after :: "timer_call \<Rightarrow> timer \<Rightarrow> timer" where
  "timer_after (Schedule now task delay) t = snd (timer_schedule now task delay t)"
| "timer_after (ScheduleRepeated now task delay) t = snd (timer_scheduleRepeated now task delay t)"
| "timer_after (Cancel task) t = snd (timer_cancel task t)"
| "timer_after Destroy t = snd (timer_destroy t)"
| "timer_after (Turn now) t = timer_turn now t"

fun timer_run :: "timer_call list \<Rightarrow> timer \<Rightarrow> timer" where
  "timer_run [] t = t"
| "timer_run (c # cs) t = timer_run cs (timer_after c t)"

subsection \<open>The invariant\<close>

text \<open>The repeated task that the thread is running or has run and not yet looked at again.\<close>

definition repeating :: "timer \<Rightarrow> nat \<Rightarrow> bool" where
  "repeating t k \<longleftrightarrow> (tmAt t = InTask \<or> tmAt t = AtTop) \<and> tkTask (tmToken t) = Some k \<and> tkDelay (tmToken t) \<noteq> 0"

text \<open>The thread does not sleep past the first token: it is about to be woken, or the end of its wait is early enough.\<close>

definition awake :: "timer \<Rightarrow> bool" where
  "awake t \<longleftrightarrow> (case tmAt t of
     InWait \<Rightarrow> tkTask (tmToken t) = None \<and> tmWakeUp t = 0 \<and> (tmNotified t \<or> tmTokens t = [])
   | InTimedWait d \<Rightarrow> tkTask (tmToken t) = None \<and> (tmNotified t \<or> (\<forall>e \<in> set (tmTokens t). tmWakeUp t \<le> fst (fst e)))
   | _ \<Rightarrow> True)"

definition tasks_pending :: "timer \<Rightarrow> bool" where
  "tasks_pending t \<longleftrightarrow> (\<forall>k time. map_of (tmTasks t) k = Some time \<longrightarrow> map_of (tmTokens t) (time, k) \<noteq> None \<or> repeating t k)"

definition timer_ok :: "timer \<Rightarrow> bool" where
  "timer_ok t \<longleftrightarrow> om_wf (tmTokens t) \<and> om_wf (tmTasks t) \<and> tasks_pending t \<and> awake t
     \<and> (tmDestroyed t \<longrightarrow> tmTasks t = [] \<and> tmTokens t = [])"

lemma schedule_token_ok:
  assumes ok: "timer_ok t"
  shows "timer_ok (snd (schedule_token now delay repeat k t))"
proof (cases "fst (schedule_token now delay repeat k t)")
  case (Inl e)
  then have "snd (schedule_token now delay repeat k t) = t"
    by (auto simp: schedule_token_def withp_def throw_def modify_def Let_def split: if_splits)
  with ok show ?thesis by simp
next
  case (Inr u)
  let ?time = "time_plus now delay"
  let ?t = "t\<lparr>tmTasks := om_insert k ?time (tmTasks t), tmTokens := om_insert (?time, k) repeat (tmTokens t),
     tmNotified := tmNotified t \<or> tmWakeUp t = 0 \<or> ?time < tmWakeUp t\<rparr>"
  have t: "snd (schedule_token now delay repeat k t) = ?t" and new: "map_of (tmTasks t) k = None" "\<not> tmDestroyed t"
    using Inr by (auto simp: schedule_token_def withp_def throw_def modify_def Let_def split: if_splits)
  have wf: "om_wf (tmTokens t)" "om_wf (tmTasks t)" using ok by (simp_all add: timer_ok_def)
  have "tasks_pending ?t"
    using ok new unfolding timer_ok_def tasks_pending_def repeating_def
    by (auto simp: om.lookup_add wf split: if_splits)
  moreover have "awake ?t"
  proof (cases "tmAt t")
    case InWait
    with ok wf show ?thesis by (auto simp: timer_ok_def awake_def)
  next
    case (InTimedWait d)
    with ok wf set_om_insert [of "(?time, k)" repeat "tmTokens t"] show ?thesis by (fastforce simp: timer_ok_def awake_def)
  qed (auto simp: awake_def)
  ultimately show ?thesis unfolding t using wf new by (simp add: timer_ok_def)
qed


lemma timer_cancel_ok:
  assumes ok: "timer_ok t"
  shows "timer_ok (snd (timer_cancel k t))"
proof (cases "tmDestroyed t \<or> map_of (tmTasks t) k = None")
  case True
  with ok show ?thesis by (auto simp: timer_cancel_def withp_def ret_def split: option.splits)
next
  case False
  then obtain time where k: "map_of (tmTasks t) k = Some time" "\<not> tmDestroyed t" by auto
  let ?t = "t\<lparr>tmTokens := om_erase (time, k) (tmTokens t), tmTasks := om_erase k (tmTasks t)\<rparr>"
  have wf: "om_wf (tmTokens t)" "om_wf (tmTasks t)" using ok by (simp_all add: timer_ok_def)
  have sub: "set (tmTokens ?t) \<subseteq> set (tmTokens t)" by (auto simp: om_erase_def)
  have "tasks_pending ?t"
    using ok unfolding timer_ok_def tasks_pending_def repeating_def by (auto simp: om.lookup_erase wf split: if_splits)
  moreover have "awake ?t"
    using ok sub unfolding timer_ok_def awake_def by (cases "tmAt t") auto
  moreover have "snd (timer_cancel k t) = ?t"
    using k by (simp add: timer_cancel_def withp_def seqp_def bindp_def modify_def ret_def)
  ultimately show ?thesis using wf k(2) by (simp add: timer_ok_def)
qed

lemma timer_destroy_ok: "timer_ok t \<Longrightarrow> timer_ok (snd (timer_destroy t))"
  by (auto simp: timer_destroy_def modify_def timer_ok_def tasks_pending_def awake_def split: timer_at.split)

lemma next_token_ok:
  assumes n: "tkTask (tmToken t) = None" and d: "tmDestroyed t \<longrightarrow> tmTasks t = [] \<and> tmTokens t = []" and wf: "om_wf (tmTokens t)" "om_wf (tmTasks t)" and p: "\<forall>k time. map_of (tmTasks t) k = Some time \<longrightarrow> map_of (tmTokens t) (time, k) \<noteq> None"
  shows "timer_ok (next_token now t)"
proof (cases "tmDestroyed t \<or> tmTokens t = []")
  case True
  with wf p d show ?thesis by (auto simp: next_token_def timer_ok_def tasks_pending_def awake_def)
next
  case False
  then obtain time k delay rest where tok: "tmTokens t = ((time, k), delay) # rest" by (cases "tmTokens t") auto
  have wf': "om_wf rest" "\<forall>e \<in> set rest. (time, k) < fst e" using wf(1) by (simp_all add: tok om_wf_Cons)
  show ?thesis
  proof (cases "time \<le> now")
    case True
    let ?tasks = "if delay = 0 then om_erase k (tmTasks t) else tmTasks t"
    let ?t = "t\<lparr>tmToken := \<lparr>tkTime = time, tkDelay = delay, tkTask = Some k\<rparr>, tmTokens := rest, tmTasks := ?tasks, tmAt := InTask\<rparr>"
    have "tasks_pending ?t"
      unfolding tasks_pending_def repeating_def
    proof (intro allI impI)
      fix k' time'
      assume "map_of (tmTasks ?t) k' = Some time'"
      then have a: "map_of (tmTasks t) k' = Some time'" and n: "delay = 0 \<longrightarrow> k' \<noteq> k"
        by (auto simp: om.lookup_erase wf(2) split: if_splits)
      from p a have "map_of (tmTokens t) (time', k') \<noteq> None" by blast
      then show "map_of (tmTokens ?t) (time', k') \<noteq> None
          \<or> (tmAt ?t = InTask \<or> tmAt ?t = AtTop) \<and> tkTask (tmToken ?t) = Some k' \<and> tkDelay (tmToken ?t) \<noteq> 0"
        using n by (auto simp: tok split: if_splits)
    qed
    then show ?thesis using True False d wf wf' tok by (simp add: next_token_def timer_ok_def awake_def)
  next
    case late: False
    have "\<forall>e \<in> set rest. time \<le> fst (fst e)" using wf'(2) by (auto simp: less_prod_def)
    with late False n d wf p tok show ?thesis
      by (simp add: next_token_def timer_ok_def tasks_pending_def awake_def)
  qed
qed

lemma reschedule_destroyed [simp]: "tmDestroyed (reschedule now t) = tmDestroyed t"
  by (simp add: reschedule_def Let_def split: option.split)

lemma reschedule_pending:
  assumes ok: "timer_ok t"
  shows "om_wf (tmTokens (reschedule now t))" "om_wf (tmTasks (reschedule now t))"
    and "tmAt t = AtTop \<Longrightarrow> \<forall>k time. map_of (tmTasks (reschedule now t)) k = Some time \<longrightarrow> map_of (tmTokens (reschedule now t)) (time, k) \<noteq> None"
proof -
  have wf: "om_wf (tmTokens t)" "om_wf (tmTasks t)" using ok by (simp_all add: timer_ok_def)
  show "om_wf (tmTokens (reschedule now t))" "om_wf (tmTasks (reschedule now t))"
    using wf by (simp_all add: reschedule_def Let_def split: option.split)
  show "\<forall>k time. map_of (tmTasks (reschedule now t)) k = Some time \<longrightarrow> map_of (tmTokens (reschedule now t)) (time, k) \<noteq> None"
    if "tmAt t = AtTop"
  proof (intro allI impI)
    fix k time
    assume a: "map_of (tmTasks (reschedule now t)) k = Some time"
    have p: "map_of (tmTasks t) k = Some time \<Longrightarrow> map_of (tmTokens t) (time, k) \<noteq> None \<or> repeating t k" for k time
      using ok by (simp add: timer_ok_def tasks_pending_def)
    show "map_of (tmTokens (reschedule now t)) (time, k) \<noteq> None"
    proof (cases "\<exists>k'. tkTask (tmToken t) = Some k' \<and> tkDelay (tmToken t) \<noteq> 0 \<and> map_of (tmTasks t) k' \<noteq> None")
      case True
      then obtain k' where k': "tkTask (tmToken t) = Some k'" "tkDelay (tmToken t) \<noteq> 0" "map_of (tmTasks t) k' \<noteq> None" by blast
      show ?thesis
        using a k' p [of k time] by (auto simp: reschedule_def Let_def om.lookup_add om.lookup_assign wf repeating_def split: if_splits)
    next
      case False
      then have "reschedule now t = t" by (auto simp: reschedule_def split: option.splits)
      with a p [of k time] False show ?thesis by (auto simp: repeating_def)
    qed
  qed
qed

lemma timer_turn_ok:
  assumes ok: "timer_ok t"
  shows "timer_ok (timer_turn now t)"
proof (cases "tmAt t")
  case AtTop
  let ?t = "t\<lparr>tmNotified := False\<rparr>"
  have "timer_ok ?t" using ok AtTop by (simp add: timer_ok_def tasks_pending_def repeating_def awake_def)
  note r = reschedule_pending [OF this, of now]
  let ?r = "(reschedule now ?t)\<lparr>tmToken := no_token\<rparr>"
  have pending: "\<forall>k time. map_of (tmTasks ?r) k = Some time \<longrightarrow> map_of (tmTokens ?r) (time, k) \<noteq> None"
    using r(3) AtTop by simp
  show ?thesis
  proof (cases "tmDestroyed t")
    case True
    then have "timer_ok (?t\<lparr>tmAt := Ended\<rparr>)" using ok by (simp add: timer_ok_def tasks_pending_def awake_def)
    with True AtTop show ?thesis by (simp add: timer_turn_def timer_top_def)
  next
    case False
    have "timer_ok (?r\<lparr>tmWakeUp := 0, tmAt := InWait\<rparr>)" if "tmTokens ?r = []"
      using r pending that False by (simp add: no_token_def timer_ok_def tasks_pending_def awake_def)
    moreover have "timer_ok (next_token now ?r)"
      by (rule next_token_ok) (use r pending False in \<open>simp_all add: no_token_def\<close>)
    ultimately show ?thesis using False AtTop by (simp add: timer_turn_def timer_top_def Let_def)
  qed
next
  case InTask
  with ok show ?thesis by (auto simp: timer_turn_def timer_ok_def tasks_pending_def repeating_def awake_def)
next
  case Ended
  with ok show ?thesis by (simp add: timer_turn_def)
next
  case InWait
  have "timer_ok (next_token now (t\<lparr>tmNotified := False\<rparr>))"
    by (rule next_token_ok) (use ok InWait in \<open>auto simp: timer_ok_def tasks_pending_def repeating_def awake_def\<close>)
  with InWait show ?thesis by (simp add: timer_turn_def)
next
  case (InTimedWait d)
  have "timer_ok (next_token now (t\<lparr>tmNotified := False\<rparr>))"
    by (rule next_token_ok) (use ok InTimedWait in \<open>auto simp: timer_ok_def tasks_pending_def repeating_def awake_def\<close>)
  with InTimedWait show ?thesis by (simp add: timer_turn_def)
qed




lemma timer_new_ok: "timer_ok timer_new"
  by (simp add: timer_new_def timer_ok_def tasks_pending_def awake_def)


subsection \<open>Cancelled tasks\<close>

text \<open>
  When no task is scheduled again while the thread is running it as a repeated task, the tokens are exactly those of the
  scheduled tasks.
\<close>

fun orderly :: "timer_call \<Rightarrow> timer \<Rightarrow> bool" where
  "orderly (Schedule now k delay) t \<longleftrightarrow> \<not> repeating t k"
| "orderly (ScheduleRepeated now k delay) t \<longleftrightarrow> \<not> repeating t k"
| "orderly c t \<longleftrightarrow> True"

fun orderly_run :: "timer_call list \<Rightarrow> timer \<Rightarrow> bool" where
  "orderly_run [] t \<longleftrightarrow> True"
| "orderly_run (c # cs) t \<longleftrightarrow> orderly c t \<and> orderly_run cs (timer_after c t)"

definition exact :: "timer \<Rightarrow> bool" where
  "exact t \<longleftrightarrow> timer_ok t \<and> (\<forall>time k. map_of (tmTokens t) (time, k) \<noteq> None \<longrightarrow> map_of (tmTasks t) k = Some time \<and> \<not> repeating t k)"

lemma exactD: "exact t \<Longrightarrow> map_of (tmTokens t) (time, k) = Some d \<Longrightarrow> map_of (tmTasks t) k = Some time \<and> \<not> repeating t k"
  by (auto simp: exact_def)

lemma exact_none: "exact t \<Longrightarrow> map_of (tmTasks t) k = None \<Longrightarrow> map_of (tmTokens t) (time, k) = None"
  using exactD [of t time k] by (cases "map_of (tmTokens t) (time, k)") auto

lemma schedule_token_exact:
  assumes ok: "exact t" and o: "\<not> repeating t k"
  shows "exact (snd (schedule_token now delay repeat k t))"
proof (cases "fst (schedule_token now delay repeat k t)")
  case (Inl e)
  then have "snd (schedule_token now delay repeat k t) = t"
    by (auto simp: schedule_token_def withp_def throw_def modify_def Let_def split: if_splits)
  with ok show ?thesis by simp
next
  case (Inr u)
  let ?time = "time_plus now delay"
  let ?t = "t\<lparr>tmTasks := om_insert k ?time (tmTasks t), tmTokens := om_insert (?time, k) repeat (tmTokens t),
     tmNotified := tmNotified t \<or> tmWakeUp t = 0 \<or> ?time < tmWakeUp t\<rparr>"
  have t: "snd (schedule_token now delay repeat k t) = ?t" and new: "map_of (tmTasks t) k = None"
    using Inr by (auto simp: schedule_token_def withp_def throw_def modify_def Let_def split: if_splits)
  have wf: "om_wf (tmTokens t)" "om_wf (tmTasks t)" using ok by (simp_all add: exact_def timer_ok_def)
  have same: "repeating ?t k' = repeating t k'" for k' by (simp add: repeating_def)
  have "timer_ok ?t" using schedule_token_ok [of t now delay repeat k] ok t by (simp add: exact_def)
  then show ?thesis
    unfolding t exact_def same using exactD [OF ok] exact_none [OF ok new] new o by (auto simp: om.lookup_add wf)
qed

lemma timer_cancel_exact:
  assumes ok: "exact t"
  shows "exact (snd (timer_cancel k t))"
proof (cases "tmDestroyed t \<or> map_of (tmTasks t) k = None")
  case True
  with ok show ?thesis by (auto simp: timer_cancel_def withp_def ret_def split: option.splits)
next
  case False
  then obtain time where k: "map_of (tmTasks t) k = Some time" "\<not> tmDestroyed t" by auto
  let ?t = "t\<lparr>tmTokens := om_erase (time, k) (tmTokens t), tmTasks := om_erase k (tmTasks t)\<rparr>"
  have t: "snd (timer_cancel k t) = ?t"
    using k by (simp add: timer_cancel_def withp_def seqp_def bindp_def modify_def ret_def)
  have wf: "om_wf (tmTokens t)" "om_wf (tmTasks t)" using ok by (simp_all add: exact_def timer_ok_def)
  have same: "repeating ?t k' = repeating t k'" for k' by (simp add: repeating_def)
  have "timer_ok ?t" using timer_cancel_ok [of t k] ok t by (simp add: exact_def)
  then show ?thesis
    unfolding t exact_def same using exactD [OF ok] k(1) by (fastforce simp: om.lookup_erase wf split: if_splits)
qed

lemma next_token_exact:
  assumes ok: "timer_ok (next_token now t)" and wf: "om_wf (tmTokens t)" "om_wf (tmTasks t)"
    and x: "\<And>time k d. map_of (tmTokens t) (time, k) = Some d \<Longrightarrow> map_of (tmTasks t) k = Some time"
    and r: "tkTask (tmToken t) = None \<or> tmTokens t \<noteq> []"
  shows "exact (next_token now t)"
proof (cases "tmDestroyed t \<or> tmTokens t = []")
  case True
  with ok x r show ?thesis by (auto simp: next_token_def exact_def repeating_def)
next
  case False
  then obtain time k delay rest where tok: "tmTokens t = ((time, k), delay) # rest" by (cases "tmTokens t") auto
  have wf': "om_wf rest" "\<forall>e \<in> set rest. (time, k) < fst e" using wf(1) by (simp_all add: tok om_wf_Cons)
  have first: "map_of (tmTasks t) k = Some time" by (rule x [of time k delay]) (simp add: tok)
  show ?thesis
  proof (cases "time \<le> now")
    case True
    have gone: "map_of rest (time', k) = None" for time'
    proof (rule ccontr)
      assume "map_of rest (time', k) \<noteq> None"
      then obtain d where d: "map_of rest (time', k) = Some d" by auto
      then have "((time', k), d) \<in> set rest" by (rule map_of_SomeD)
      with wf'(2) have "(time, k) < (time', k)" by fastforce
      moreover from this have "map_of (tmTokens t) (time', k) = Some d" using d by (auto simp: tok)
      then have "time' = time" using x [of time' k d] first by simp
      ultimately show False by simp
    qed
    have others: "map_of (tmTasks t) k' = Some time' \<and> k' \<noteq> k" if "map_of rest (time', k') = Some d" for time' k' d
    proof -
      have "k' \<noteq> k" using that gone by auto
      with that x [of time' k' d] show ?thesis by (simp add: tok)
    qed
    show ?thesis
      using ok True False tok gone others unfolding exact_def
      by (auto simp: next_token_def repeating_def om.lookup_erase wf(2))
  next
    case late: False
    with ok False x tok show ?thesis by (auto simp: next_token_def exact_def repeating_def)
  qed
qed


lemma reschedule_exact:
  assumes ok: "exact t" and st: "tmAt t = AtTop"
    and k: "map_of (tmTokens (reschedule now (t\<lparr>tmNotified := False\<rparr>))) (time, k) = Some d"
  shows "map_of (tmTasks (reschedule now (t\<lparr>tmNotified := False\<rparr>))) k = Some time"
proof (cases "\<exists>k'. tkTask (tmToken t) = Some k' \<and> tkDelay (tmToken t) \<noteq> 0 \<and> map_of (tmTasks t) k' \<noteq> None")
  case True
  have wf: "om_wf (tmTokens t)" "om_wf (tmTasks t)" using ok by (simp_all add: exact_def timer_ok_def)
  from True obtain k' where k': "tkTask (tmToken t) = Some k'" "tkDelay (tmToken t) \<noteq> 0" "map_of (tmTasks t) k' \<noteq> None" by blast
  then have "repeating t k'" using st by (simp add: repeating_def)
  then have "map_of (tmTokens t) (time, k') = None" for time
    using exactD [OF ok, of time k'] by (cases "map_of (tmTokens t) (time, k')") auto
  with k k' exactD [OF ok] show ?thesis
    by (auto simp: reschedule_def Let_def om.lookup_add om.lookup_assign wf split: if_splits)
next
  case False
  then have "reschedule now (t\<lparr>tmNotified := False\<rparr>) = t\<lparr>tmNotified := False\<rparr>" by (auto simp: reschedule_def split: option.splits)
  with k exactD [OF ok, of time k d] show ?thesis by simp
qed

lemma reschedule_tasks:
  "om_wf (tmTasks t) \<Longrightarrow> map_of (tmTasks (reschedule now t)) k = None \<longleftrightarrow> map_of (tmTasks t) k = None"
  by (auto simp: reschedule_def Let_def om.lookup_assign split: option.split)

lemma timer_turn_exact:
  assumes ok: "exact t"
  shows "exact (timer_turn now t)"
proof -
  have tok: "timer_ok t" and turn: "timer_ok (timer_turn now t)" using ok timer_turn_ok by (simp_all add: exact_def)
  have wf: "om_wf (tmTokens t)" "om_wf (tmTasks t)" using tok by (simp_all add: timer_ok_def)
  show ?thesis
  proof (cases "tmAt t")
    case AtTop
    let ?t = "t\<lparr>tmNotified := False\<rparr>"
    let ?r = "(reschedule now ?t)\<lparr>tmToken := no_token\<rparr>"
    have "timer_ok ?t" using tok AtTop by (simp add: timer_ok_def tasks_pending_def repeating_def awake_def)
    note r = reschedule_pending(1,2) [OF this, of now]
    have x: "map_of (tmTasks ?r) k = Some time" if "map_of (tmTokens ?r) (time, k) = Some d" for time k d
      using reschedule_exact [OF ok AtTop, of now time k d] that by simp
    show ?thesis
    proof (cases "tmDestroyed t \<or> tmTokens ?r = []")
      case True
      then show ?thesis using AtTop turn tok
        by (auto simp: timer_turn_def timer_top_def Let_def exact_def repeating_def timer_ok_def)
    next
      case False
      then have e: "timer_turn now t = next_token now ?r" using AtTop by (simp add: timer_turn_def timer_top_def Let_def)
      show ?thesis unfolding e
        by (rule next_token_exact) (use turn e r x False in simp_all)
    qed
  next
    case InTask
    with ok turn show ?thesis by (auto simp: timer_turn_def exact_def repeating_def)
  next
    case InWait
    then have e: "timer_turn now t = next_token now (t\<lparr>tmNotified := False\<rparr>)" by (simp add: timer_turn_def)
    show ?thesis unfolding e
      by (rule next_token_exact) (use turn wf exactD [OF ok] e tok InWait in \<open>simp_all add: timer_ok_def awake_def\<close>)
  next
    case (InTimedWait d)
    then have e: "timer_turn now t = next_token now (t\<lparr>tmNotified := False\<rparr>)" by (simp add: timer_turn_def)
    show ?thesis unfolding e
      by (rule next_token_exact) (use turn wf exactD [OF ok] e tok InTimedWait in \<open>simp_all add: timer_ok_def awake_def\<close>)
  qed (use ok in \<open>simp add: timer_turn_def\<close>)
qed


lemma timer_after_exact: "exact t \<Longrightarrow> orderly c t \<Longrightarrow> exact (timer_after c t)"
proof (cases c)
  case Destroy
  assume "exact t"
  then have "timer_ok (snd (timer_destroy t))" by (simp add: exact_def timer_destroy_ok)
  with Destroy \<open>exact t\<close> show ?thesis by (auto simp: exact_def timer_destroy_def modify_def)
qed (simp_all add: timer_schedule_def timer_scheduleRepeated_def schedule_token_exact timer_cancel_exact timer_turn_exact)

lemma timer_run_exact: "exact t \<Longrightarrow> orderly_run cs t \<Longrightarrow> exact (timer_run cs t)"
  by (induction cs arbitrary: t) (simp_all add: timer_after_exact)

lemma timer_new_exact: "exact timer_new"
  using timer_new_ok by (simp add: exact_def) (simp add: timer_new_def)

text \<open>The task that a turn starts.\<close>

definition starts :: "timer \<Rightarrow> timer \<Rightarrow> nat option" where
  "starts t t' = (if tmAt t \<noteq> InTask \<and> tmAt t' = InTask then tkTask (tmToken t') else None)"

lemma first_scheduled: "exact t \<Longrightarrow> tmTokens t = ((time, k), d) # rest \<Longrightarrow> map_of (tmTasks t) k = Some time"
  using exactD [of t time k d] by simp

lemma next_token_starts:
  assumes "tmAt (next_token now t) = InTask" "om_wf (tmTokens t)" "tmAt t \<noteq> InTask"
  obtains time k d rest where "tmTokens t = ((time, k), d) # rest" "time \<le> now" "tkTask (tmToken (next_token now t)) = Some k"
    "tkTime (tmToken (next_token now t)) = time" "\<forall>e \<in> set (tmTokens t). time \<le> fst (fst e)"
proof -
  from assms(1,3) obtain time k d rest where tok: "tmTokens t = ((time, k), d) # rest" "time \<le> now"
      "tkTask (tmToken (next_token now t)) = Some k" "tkTime (tmToken (next_token now t)) = time"
    by (auto simp: next_token_def split: if_splits list.splits)
  moreover have "\<forall>e \<in> set (tmTokens t). time \<le> fst (fst e)"
    using assms(2) tok(1) by (auto simp: om_wf_Cons less_prod_def)
  ultimately show thesis by (rule that)
qed

subsection \<open>The properties\<close>



text \<open>
  C15: a task that has been cancelled is not started.  When nobody schedules a task again while the thread runs it as a
  repeated task, every task that a turn starts is scheduled at that moment, and its time has come; a task that \<open>cancel\<close>
  has removed is not.
\<close>

theorem timer_cancelled_not_started:
  assumes "orderly_run cs timer_new" "t = timer_run cs timer_new" "starts t (timer_turn now t) = Some k"
  shows "map_of (tmTasks t) k \<noteq> None \<and> tkTime (tmToken (timer_turn now t)) \<le> now"
proof -
  have ok: "exact t" unfolding assms(2) by (rule timer_run_exact [OF timer_new_exact assms(1)])
  then have wf: "om_wf (tmTokens t)" "om_wf (tmTasks t)" and tok: "timer_ok t" by (simp_all add: exact_def timer_ok_def)
  have st: "tmAt t \<noteq> InTask" "tmAt (timer_turn now t) = InTask" "tkTask (tmToken (timer_turn now t)) = Some k"
    using assms(3) by (auto simp: starts_def split: if_splits)
  show ?thesis
  proof (cases "tmAt t")
    case AtTop
    let ?t = "t\<lparr>tmNotified := False\<rparr>" and ?r = "(reschedule now (t\<lparr>tmNotified := False\<rparr>))\<lparr>tmToken := no_token\<rparr>"
    have e: "timer_turn now t = next_token now ?r"
      using AtTop st(2) by (auto simp: timer_turn_def timer_top_def Let_def split: if_splits)
    have "timer_ok ?t" using tok AtTop by (simp add: timer_ok_def tasks_pending_def repeating_def awake_def)
    from reschedule_pending(1) [OF this, of now] have w: "om_wf (tmTokens ?r)" by simp
    have at: "tmAt ?r \<noteq> InTask" using AtTop by (simp add: reschedule_def Let_def split: option.split)
    obtain time d rest where n: "tmTokens ?r = ((time, k), d) # rest" "time \<le> now" "tkTime (tmToken (next_token now ?r)) = time"
      by (rule next_token_starts [OF st(2) [unfolded e] w at]) (use st(3) e in auto)
    have "map_of (tmTasks ?r) k = Some time"
      using reschedule_exact [OF ok AtTop, of now time k d] n(1) by simp
    with reschedule_tasks [of ?t now k] wf n e show ?thesis by auto
  next
    case InTask
    with st show ?thesis by simp
  next
    case Ended
    with st show ?thesis by (simp add: timer_turn_def)
  next
    case InWait
    then have e: "timer_turn now t = next_token now (t\<lparr>tmNotified := False\<rparr>)" by (simp add: timer_turn_def)
    show ?thesis
      by (rule next_token_starts [of now "t\<lparr>tmNotified := False\<rparr>"]) (use st e wf first_scheduled [OF ok] in auto)
  next
    case (InTimedWait d)
    then have e: "timer_turn now t = next_token now (t\<lparr>tmNotified := False\<rparr>)" by (simp add: timer_turn_def)
    show ?thesis
      by (rule next_token_starts [of now "t\<lparr>tmNotified := False\<rparr>"]) (use st e wf first_scheduled [OF ok] in auto)
  qed
qed

theorem timer_cancelled_not_started_witness:
  "let t = timer_run [ScheduleRepeated 0 1 10, Schedule 0 2 5, Turn 1, Cancel 2] timer_new in
     starts t (timer_turn 12 t) = Some 1 \<and> map_of (tmTasks t) 1 \<noteq> None \<and> map_of (tmTasks t) 2 = None"
proof -
  have "orderly_run [ScheduleRepeated 0 1 10, Schedule 0 2 5, Turn 1, Cancel 2] timer_new" by code_simp
  moreover have s: "starts (timer_run [ScheduleRepeated 0 1 10, Schedule 0 2 5, Turn 1, Cancel 2] timer_new)
      (timer_turn 12 (timer_run [ScheduleRepeated 0 1 10, Schedule 0 2 5, Turn 1, Cancel 2] timer_new)) = Some 1" by code_simp
  ultimately have "map_of (tmTasks (timer_run [ScheduleRepeated 0 1 10, Schedule 0 2 5, Turn 1, Cancel 2] timer_new)) 1 \<noteq> None"
    using timer_cancelled_not_started by blast
  moreover have "map_of (tmTasks (timer_run [ScheduleRepeated 0 1 10, Schedule 0 2 5, Turn 1, Cancel 2] timer_new)) 2 = None" by code_simp
  ultimately show ?thesis using s by (simp add: Let_def)
qed


end
