(* ===== verification/ACM.thy ===== *)
theory ACM
  imports Timer Connection Properties
begin

section \<open>Active connection management\<close>

text \<open>
  The monitors of cpp/src/Ice/ACM.h and ACM.cpp over the timer: which connections have \<open>monitor\<close> called, and when.
  Connections are numbers.  Each method holds its mutex and is one step; \<open>runTimerTask\<close> is one step up to the calls of
  \<open>monitor\<close>, which it makes without the mutex.
\<close>

subsection \<open>Configuration\<close>

definition ACMConfig :: "bool \<Rightarrow> acm_config" where
  "ACMConfig server = \<lparr>acmTimeout = 60 * 1000000, acmHeartbeat = HeartbeatOnDispatch,
     acmClose = (if server then CloseOnInvocation else CloseOnInvocationAndIdle)\<rparr>"

fun acm_close_num :: "acm_close \<Rightarrow> int" where
  "acm_close_num CloseOff = 0"
| "acm_close_num CloseOnIdle = 1"
| "acm_close_num CloseOnInvocation = 2"
| "acm_close_num CloseOnInvocationAndIdle = 3"
| "acm_close_num CloseOnIdleForceful = 4"

fun acm_heartbeat_num :: "acm_heartbeat \<Rightarrow> int" where
  "acm_heartbeat_num HeartbeatOff = 0"
| "acm_heartbeat_num HeartbeatOnDispatch = 1"
| "acm_heartbeat_num HeartbeatOnIdle = 2"
| "acm_heartbeat_num HeartbeatAlways = 3"

definition acm_close_of :: "int \<Rightarrow> acm_close option" where
  "acm_close_of n = find (\<lambda>c. acm_close_num c = n) [CloseOff, CloseOnIdle, CloseOnInvocation, CloseOnInvocationAndIdle, CloseOnIdleForceful]"

definition acm_heartbeat_of :: "int \<Rightarrow> acm_heartbeat option" where
  "acm_heartbeat_of n = find (\<lambda>h. acm_heartbeat_num h = n) [HeartbeatOff, HeartbeatOnDispatch, HeartbeatOnIdle, HeartbeatAlways]"

definition invalid_acm :: "string \<Rightarrow> properties \<Rightarrow> properties" where
  "invalid_acm key = warning (''invalid value for property `'' @ key @ [CHR 0x27] @ '', default value will be used instead'')"

text \<open>The constructor that reads the properties; the logger is the one of the properties.\<close>

definition acm_timeout_property :: "string \<Rightarrow> properties \<Rightarrow> string \<times> properties" where
  "acm_timeout_property prefix p =
     (if prefix = ''Ice.ACM.Client'' \<or> prefix = ''Ice.ACM.Server'' then
        (case getProperty (prefix @ ''.Timeout'') p of
           (v, p) \<Rightarrow> (if v = [] then prefix else prefix @ ''.Timeout'', p))
      else (prefix @ ''.Timeout'', p))"

definition acm_config_from :: "string \<Rightarrow> acm_config \<Rightarrow> properties \<Rightarrow> acm_config \<times> properties" where
  "acm_config_from prefix dflt p =
     (case acm_timeout_property prefix p of
        (key, p) \<Rightarrow>
      (case getPropertyAsIntWithDefault key (int (acmTimeout dflt div 1000000)) p of
        (t, p) \<Rightarrow>
      (let p = (if 0 \<le> t then p else invalid_acm key p);
           timeout = (if 0 \<le> t then nat t * 1000000 else acmTimeout dflt) in
      (case getPropertyAsIntWithDefault (prefix @ ''.Heartbeat'') (acm_heartbeat_num (acmHeartbeat dflt)) p of
        (h, p) \<Rightarrow>
      (let p = (if acm_heartbeat_of h = None then invalid_acm (prefix @ ''.Heartbeat'') p else p);
           heartbeat = (case acm_heartbeat_of h of Some b \<Rightarrow> b | None \<Rightarrow> acmHeartbeat dflt) in
      (case getPropertyAsIntWithDefault (prefix @ ''.Close'') (acm_close_num (acmClose dflt)) p of
        (c, p) \<Rightarrow>
      (let p = (if acm_close_of c = None then invalid_acm (prefix @ ''.Close'') p else p);
           close = (case acm_close_of c of Some b \<Rightarrow> b | None \<Rightarrow> acmClose dflt) in
       (\<lparr>acmTimeout = timeout, acmHeartbeat = heartbeat, acmClose = close\<rparr>, p))))))))"

subsection \<open>The monitor of a connection factory\<close>

text \<open>The task of the monitor in the timer; others share the timer.\<close>

definition acm_task :: nat where "acm_task = 0"

text \<open>\<open>aEntered\<close>: the run of the timer task that is going on has left its critical section.\<close>

record acm =
  aInstance :: bool
  aConfig :: acm_config
  aChanges :: "(nat \<times> bool) list"
  aConnections :: "(nat \<times> unit) list"
  aReaped :: "nat list"
  aTimer :: timer
  aEntered :: bool

type_synonym 'a am = "(acm, 'a) prog"

definition acm_new :: "acm_config \<Rightarrow> timer \<Rightarrow> acm" where
  "acm_new config t = \<lparr>aInstance = True, aConfig = config, aChanges = [], aConnections = [], aReaped = [], aTimer = t, aEntered = False\<rparr>"

text \<open>A call of the timer through \<open>_instance\<close>.\<close>

definition on_timer :: "'a tm \<Rightarrow> 'a am" where
  "on_timer m = withp (\<lambda>s.
     if \<not> aInstance s then throw MemoryError
     else case m (aTimer s) of (r, t) \<Rightarrow> seqp (modify (\<lambda>s. s\<lparr>aTimer := t\<rparr>)) (lift r))"

definition acm_add :: "int \<Rightarrow> nat \<Rightarrow> unit am" where
  "acm_add now c = withp (\<lambda>s.
     if acmTimeout (aConfig s) = 0 then ret ()
     else if aConnections s = [] then
       seqp (modify (\<lambda>s. s\<lparr>aConnections := om_insert c () (aConnections s)\<rparr>))
         (on_timer (timer_scheduleRepeated now acm_task (int (acmTimeout (aConfig s) div 2))))
     else modify (\<lambda>s. s\<lparr>aChanges := aChanges s @ [(c, True)]\<rparr>))"

definition acm_remove :: "nat \<Rightarrow> unit am" where
  "acm_remove c = withp (\<lambda>s.
     if acmTimeout (aConfig s) = 0 then ret ()
     else seqp (assertp aInstance) (modify (\<lambda>s. s\<lparr>aChanges := aChanges s @ [(c, False)]\<rparr>)))"

definition acm_reap :: "nat \<Rightarrow> unit am" where
  "acm_reap c = modify (\<lambda>s. s\<lparr>aReaped := aReaped s @ [c]\<rparr>)"

definition swapReapedConnections :: "nat list \<Rightarrow> nat list am" where
  "swapReapedConnections cs = withp (\<lambda>s. seqp (modify (\<lambda>s. s\<lparr>aReaped := cs\<rparr>)) (ret (aReaped s)))"

text \<open>\<open>acm\<close>: the configuration of the new monitor of one connection.\<close>

definition acm_override :: "int option \<Rightarrow> acm_close option \<Rightarrow> acm_heartbeat option \<Rightarrow> acm_config am" where
  "acm_override timeout close heartbeat =
     seqp (assertp aInstance) (reads (\<lambda>s. override_acm timeout close heartbeat (aConfig s)))"

definition getACM :: "acm_config \<Rightarrow> nat \<times> acm_close \<times> acm_heartbeat" where
  "getACM a = (acmTimeout a div 1000000, acmClose a, acmHeartbeat a)"

definition apply_change :: "(nat \<times> unit) list \<Rightarrow> nat \<times> bool \<Rightarrow> (nat \<times> unit) list" where
  "apply_change cs ch = (if snd ch then om_insert (fst ch) () cs else om_erase (fst ch) cs)"

text \<open>\<open>runTimerTask\<close> up to the calls of \<open>monitor\<close>: the connections that are to be monitored.\<close>

definition acm_runTimerTask :: "nat list am" where
  "acm_runTimerTask = withp (\<lambda>s.
     if \<not> aInstance s then seqp (modify (\<lambda>s. s\<lparr>aConnections := []\<rparr>)) (ret [])
     else
       seqp (modify (\<lambda>s. s\<lparr>aConnections := foldl apply_change (aConnections s) (aChanges s), aChanges := []\<rparr>))
         (withp (\<lambda>s.
            if aConnections s = [] then seqp (on_timer (timer_cancel acm_task)) (ret [])
            else ret (map fst (aConnections s)))))"

text \<open>\<open>destroy\<close> up to its wait, which ends when the set of connections is empty.\<close>

definition acm_destroy :: "int \<Rightarrow> unit am" where
  "acm_destroy now = withp (\<lambda>s.
     if \<not> aInstance s then ret ()
     else
       seqp (if aConnections s \<noteq> [] then
               seqp (on_timer (timer_cancel acm_task)) (on_timer (timer_schedule now acm_task 0))
             else ret ())
         (modify (\<lambda>s. s\<lparr>aInstance := False, aChanges := []\<rparr>)))"

subsection \<open>The monitor of one connection\<close>

record connection_acm =
  caConfig :: acm_config
  caConnection :: "nat option"
  caTask :: nat
  caTimer :: timer

type_synonym 'a cam = "(connection_acm, 'a) prog"

definition on_own_timer :: "'a tm \<Rightarrow> 'a cam" where
  "on_own_timer m = withp (\<lambda>s. case m (caTimer s) of (r, t) \<Rightarrow> seqp (modify (\<lambda>s. s\<lparr>caTimer := t\<rparr>)) (lift r))"

definition connection_acm_add :: "int \<Rightarrow> nat \<Rightarrow> unit cam" where
  "connection_acm_add now c =
     seqp (assertp (\<lambda>s. caConnection s = None))
       (seqp (modify (\<lambda>s. s\<lparr>caConnection := Some c\<rparr>))
         (withp (\<lambda>s. if acmTimeout (caConfig s) \<noteq> 0
            then on_own_timer (timer_scheduleRepeated now (caTask s) (int (acmTimeout (caConfig s) div 2))) else ret ())))"

definition connection_acm_remove :: "nat \<Rightarrow> unit cam" where
  "connection_acm_remove c =
     seqp (assertp (\<lambda>s. caConnection s = Some c))
       (seqp (withp (\<lambda>s. if acmTimeout (caConfig s) \<noteq> 0
            then bindp (on_own_timer (timer_cancel (caTask s))) (\<lambda>_. ret ()) else ret ()))
         (modify (\<lambda>s. s\<lparr>caConnection := None\<rparr>)))"

text \<open>\<open>runTimerTask\<close>: the connection that is to be monitored.\<close>

definition connection_acm_run :: "nat option cam" where
  "connection_acm_run = reads caConnection"


subsection \<open>Histories\<close>

datatype acm_call = AAdd int nat | ARemove nat | AReap nat | ADestroy int | ARun | ATimer int | AOther timer_call

fun other_task :: "timer_call \<Rightarrow> bool" where
  "other_task (Schedule now k delay) \<longleftrightarrow> k \<noteq> acm_task"
| "other_task (ScheduleRepeated now k delay) \<longleftrightarrow> k \<noteq> acm_task"
| "other_task (Cancel k) \<longleftrightarrow> k \<noteq> acm_task"
| "other_task c \<longleftrightarrow> False"

text \<open>The timer's thread is in \<open>runTimerTask\<close> of the monitor and has not yet been through its critical section.\<close>

definition entering :: "acm \<Rightarrow> bool" where
  "entering s \<longleftrightarrow> tmAt (aTimer s) = InTask \<and> tkTask (tmToken (aTimer s)) = Some acm_task \<and> \<not> aEntered s"

fun acm_after :: "acm_call \<Rightarrow> acm \<Rightarrow> acm" where
  "acm_after (AAdd now c) s = snd (acm_add now c s)"
| "acm_after (ARemove c) s = snd (acm_remove c s)"
| "acm_after (AReap c) s = snd (acm_reap c s)"
| "acm_after (ADestroy now) s = snd (acm_destroy now s)"
| "acm_after ARun s = (if entering s then (snd (acm_runTimerTask s))\<lparr>aEntered := True\<rparr> else s)"
| "acm_after (ATimer now) s = (if entering s then s else s\<lparr>aTimer := timer_turn now (aTimer s), aEntered := False\<rparr>)"
| "acm_after (AOther c) s = (if other_task c then s\<lparr>aTimer := timer_after c (aTimer s)\<rparr> else s)"

fun acm_run :: "acm_call list \<Rightarrow> acm \<Rightarrow> acm" where
  "acm_run [] s = s"
| "acm_run (c # cs) s = acm_run cs (acm_after c s)"

text \<open>The connections that have been added and not removed.\<close>

definition active :: "acm \<Rightarrow> nat set" where
  "active s = fst ` set (foldl apply_change (aConnections s) (aChanges s))"

text \<open>Connections are removed by whom added them, before the monitor is destroyed, and times do not overflow.\<close>

fun acm_allowed :: "acm_call \<Rightarrow> acm \<Rightarrow> bool" where
  "acm_allowed (AAdd now c) s \<longleftrightarrow> aInstance s \<and> 0 \<le> now \<and> now + int (acmTimeout (aConfig s)) < 2 ^ 63"
| "acm_allowed (ARemove c) s \<longleftrightarrow> aInstance s \<and> c \<in> active s"
| "acm_allowed c s \<longleftrightarrow> True"

fun allowed_run :: "acm_call list \<Rightarrow> acm \<Rightarrow> bool" where
  "allowed_run [] s \<longleftrightarrow> True"
| "allowed_run (c # cs) s \<longleftrightarrow> acm_allowed c s \<and> allowed_run cs (acm_after c s)"

subsection \<open>The monitor's task in the timer\<close>

definition ticking :: "timer \<Rightarrow> bool" where
  "ticking t \<longleftrightarrow> timer_ok t \<and> \<not> tmDestroyed t \<and> (\<forall>time d. map_of (tmTokens t) (time, acm_task) = Some d \<longrightarrow> d \<noteq> 0)"

definition scheduled :: "timer \<Rightarrow> bool" where
  "scheduled t \<longleftrightarrow> map_of (tmTasks t) acm_task \<noteq> None"

lemma schedule_token_run:
  assumes "\<not> tmDestroyed t" "map_of (tmTasks t) k = None" "0 < delay \<longrightarrow> now \<le> time_plus now delay"
  shows "schedule_token now delay repeat k t = (Inr (), t\<lparr>tmTasks := om_insert k (time_plus now delay) (tmTasks t),
     tmTokens := om_insert (time_plus now delay, k) repeat (tmTokens t),
     tmNotified := tmNotified t \<or> tmWakeUp t = 0 \<or> time_plus now delay < tmWakeUp t\<rparr>)"
proof -
  have "\<not> (0 < delay \<and> time_plus now delay < now)" using assms(3) by auto
  then show ?thesis using assms(1,2) by (auto simp: schedule_token_def withp_def modify_def Let_def)
qed

lemma time_plus_small: "0 \<le> a \<Longrightarrow> 0 \<le> b \<Longrightarrow> a + b < 2 ^ 63 \<Longrightarrow> time_plus a b = a + b"
  by (simp add: time_plus_def signed_take_bit_int_eq_self)

lemma ticking_start:
  assumes t: "ticking t" "\<not> scheduled t" and d: "0 < delay" "0 \<le> now" "now + delay < 2 ^ 63"
  shows "fst (timer_scheduleRepeated now acm_task delay t) = Inr ()"
    and "ticking (snd (timer_scheduleRepeated now acm_task delay t))" "scheduled (snd (timer_scheduleRepeated now acm_task delay t))"
proof -
  have wf: "om_wf (tmTokens t)" "om_wf (tmTasks t)" using t by (simp_all add: ticking_def timer_ok_def)
  have run: "schedule_token now delay delay acm_task t = (Inr (), t\<lparr>tmTasks := om_insert acm_task (now + delay) (tmTasks t),
     tmTokens := om_insert (now + delay, acm_task) delay (tmTokens t),
     tmNotified := tmNotified t \<or> tmWakeUp t = 0 \<or> now + delay < tmWakeUp t\<rparr>)"
    using schedule_token_run [of t acm_task delay now delay] t d time_plus_small [of now delay] by (simp add: ticking_def scheduled_def)
  show "fst (timer_scheduleRepeated now acm_task delay t) = Inr ()" by (simp add: timer_scheduleRepeated_def run)
  show "ticking (snd (timer_scheduleRepeated now acm_task delay t))"
    using schedule_token_ok [of t now delay delay acm_task] t d(1) unfolding timer_scheduleRepeated_def run
    by (auto simp: ticking_def om.lookup_add wf split: option.splits)
  show "scheduled (snd (timer_scheduleRepeated now acm_task delay t))"
    unfolding timer_scheduleRepeated_def run by (simp add: scheduled_def om.lookup_add wf)
qed

lemma ticking_cancel:
  assumes t: "ticking t"
  shows "fst (timer_cancel acm_task t) = Inr (scheduled t) \<and> ticking (snd (timer_cancel acm_task t)) \<and> \<not> scheduled (snd (timer_cancel acm_task t))"
proof -
  have wf: "om_wf (tmTokens t)" "om_wf (tmTasks t)" using t by (simp_all add: ticking_def timer_ok_def)
  show ?thesis
    using t timer_cancel_ok [of t acm_task]
    by (auto simp: ticking_def scheduled_def timer_cancel_def withp_def seqp_def bindp_def modify_def ret_def om.lookup_erase wf
      split: option.splits if_splits)
qed

lemma ticking_other:
  assumes t: "ticking t" and o: "other_task c"
  shows "ticking (timer_after c t) \<and> (scheduled (timer_after c t) \<longleftrightarrow> scheduled t)"
proof -
  have wf: "om_wf (tmTokens t)" "om_wf (tmTasks t)" and ok: "timer_ok t" using t by (simp_all add: ticking_def timer_ok_def)
  have s: "ticking (snd (schedule_token now delay repeat k t)) \<and> (scheduled (snd (schedule_token now delay repeat k t)) \<longleftrightarrow> scheduled t)"
    if "k \<noteq> acm_task" for now delay repeat k
    using t that schedule_token_ok [OF ok, of now delay repeat k]
    by (auto simp: ticking_def scheduled_def schedule_token_def withp_def throw_def modify_def Let_def om.lookup_add wf)
  show ?thesis
  proof (cases c)
    case (Cancel k)
    with o t timer_cancel_ok [OF ok, of k] show ?thesis
      by (auto simp: ticking_def scheduled_def timer_cancel_def withp_def seqp_def bindp_def modify_def ret_def om.lookup_erase wf
        split: option.splits)
  qed (use s o in \<open>simp_all add: timer_schedule_def timer_scheduleRepeated_def\<close>)
qed

lemma next_token_ticking:
  assumes t: "om_wf (tmTokens t)" "om_wf (tmTasks t)" "\<forall>time d. map_of (tmTokens t) (time, acm_task) = Some d \<longrightarrow> d \<noteq> 0"
  shows "(\<forall>time d. map_of (tmTokens (next_token now t)) (time, acm_task) = Some d \<longrightarrow> d \<noteq> 0)
    \<and> (scheduled (next_token now t) \<longleftrightarrow> scheduled t) \<and> tmDestroyed (next_token now t) = tmDestroyed t"
proof (cases "tmTokens t")
  case Nil
  then show ?thesis by (auto simp: next_token_def scheduled_def)
next
  case (Cons e rest)
  obtain time k d where e: "e = ((time, k), d)" by (cases e) auto
  have wf: "om_wf rest" "\<forall>e \<in> set rest. (time, k) < fst e" using t(1) by (simp_all add: Cons e om_wf_Cons)
  have first: "map_of rest (time, k) = None" by (rule map_of_greater [OF wf(2)])
  have rest: "d' \<noteq> 0" if "map_of rest (time', acm_task) = Some d'" for time' d'
  proof -
    have "(time', acm_task) \<noteq> (time, k)" using that first by auto
    with that t(3) [rule_format, of time' d'] show ?thesis by (auto simp: Cons e)
  qed
  have "d \<noteq> 0" if "k = acm_task" using t(3) [rule_format, of time d] that by (auto simp: Cons e)
  with rest t show ?thesis by (auto simp: next_token_def Cons e scheduled_def om.lookup_erase)
qed

lemma ticking_turn:
  assumes t: "ticking t"
  shows "ticking (timer_turn now t) \<and> (scheduled (timer_turn now t) \<longleftrightarrow> scheduled t)"
proof -
  have ok: "timer_ok t" "timer_ok (timer_turn now t)" using t timer_turn_ok by (simp_all add: ticking_def)
  then have wf: "om_wf (tmTokens t)" "om_wf (tmTasks t)" by (simp_all add: timer_ok_def)
  have delays: "\<forall>time d. map_of (tmTokens t) (time, acm_task) = Some d \<longrightarrow> d \<noteq> 0" and alive: "\<not> tmDestroyed t"
    using t by (simp_all add: ticking_def)
  let ?r = "(reschedule now (t\<lparr>tmNotified := False\<rparr>))\<lparr>tmToken := no_token\<rparr>"
  have r: "om_wf (tmTokens ?r)" "om_wf (tmTasks ?r)" "\<forall>time d. map_of (tmTokens ?r) (time, acm_task) = Some d \<longrightarrow> d \<noteq> 0"
      "scheduled ?r \<longleftrightarrow> scheduled t"
    using delays wf by (auto simp: reschedule_def Let_def om.lookup_add om.lookup_assign scheduled_def split: option.splits)
  show ?thesis
  proof (cases "tmAt t")
    case AtTop
    with alive have "timer_turn now t = (if tmTokens ?r = [] then ?r\<lparr>tmWakeUp := 0, tmAt := InWait\<rparr> else next_token now ?r)"
      by (simp add: timer_turn_def timer_top_def Let_def)
    then show ?thesis using next_token_ticking [OF r(1-3), of now] ok(2) r alive
      by (auto simp: ticking_def scheduled_def split: if_splits)
  next
    case InTask
    with t ok show ?thesis by (simp add: timer_turn_def ticking_def scheduled_def)
  next
    case Ended
    with t show ?thesis by (simp add: timer_turn_def)
  qed (use next_token_ticking [of "t\<lparr>tmNotified := False\<rparr>" now] ok delays alive wf in
      \<open>simp_all add: timer_turn_def ticking_def scheduled_def\<close>)
qed


subsection \<open>The invariant\<close>

definition acm_ok :: "acm \<Rightarrow> bool" where
  "acm_ok s \<longleftrightarrow> om_wf (aConnections s) \<and> (acmTimeout (aConfig s) = 0 \<or> 2 \<le> acmTimeout (aConfig s))
     \<and> (aConnections s = [] \<longrightarrow> aChanges s = []) \<and> (acmTimeout (aConfig s) = 0 \<longrightarrow> aConnections s = [])
     \<and> (\<not> aInstance s \<longrightarrow> aChanges s = []) \<and> (aInstance s \<longrightarrow> ticking (aTimer s) \<and> (scheduled (aTimer s) \<longleftrightarrow> aConnections s \<noteq> []))"

lemma apply_change_wf: "om_wf cs \<Longrightarrow> om_wf (apply_change cs ch)"
  by (simp add: apply_change_def)

lemma apply_changes_wf: "om_wf cs \<Longrightarrow> om_wf (foldl apply_change cs chs)"
  by (induction chs arbitrary: cs) (simp_all add: apply_change_wf)

lemma dom_om_insert: "om_wf cs \<Longrightarrow> fst ` set (om_insert c () cs) = insert c (fst ` set cs)"
  using om.lookup_add [of cs c "()"] by (auto simp: dom_map_of_conv_image_fst [symmetric] dom_def split: if_splits)

lemma dom_om_erase: "om_wf cs \<Longrightarrow> fst ` set (om_erase c cs) = fst ` set cs - {c}"
  by (auto simp: om_erase_def)

lemma active_add: "om_wf (aConnections s) \<Longrightarrow> aInstance s \<Longrightarrow> acmTimeout (aConfig s) \<noteq> 0 \<Longrightarrow> (aConnections s = [] \<longrightarrow> aChanges s = []) \<Longrightarrow>
    active (snd (acm_add now c s)) = insert c (active s)"
  using apply_changes_wf [of "aConnections s" "aChanges s"]
  by (auto simp: acm_add_def active_def withp_def seqp_def bindp_def modify_def on_timer_def lift_def apply_change_def dom_om_insert
    split: prod.splits sum.splits)

lemma active_remove: "om_wf (aConnections s) \<Longrightarrow> aInstance s \<Longrightarrow> acmTimeout (aConfig s) \<noteq> 0 \<Longrightarrow>
    active (snd (acm_remove c s)) = active s - {c}"
  using apply_changes_wf [of "aConnections s" "aChanges s"]
  by (auto simp: acm_remove_def active_def withp_def seqp_def bindp_def modify_def assertp_def apply_change_def dom_om_erase)

lemma acm_add_ok:
  assumes ok: "acm_ok s" and a: "acm_allowed (AAdd now c) s"
  shows "fst (acm_add now c s) = Inr () \<and> acm_ok (snd (acm_add now c s))"
proof (cases "acmTimeout (aConfig s) = 0 \<or> aConnections s \<noteq> []")
  case True
  with ok a show ?thesis by (auto simp: acm_add_def withp_def ret_def modify_def acm_ok_def)
next
  case False
  let ?d = "int (acmTimeout (aConfig s) div 2)"
  have d: "0 < ?d" "0 \<le> now" "now + ?d < 2 ^ 63" using ok a False by (auto simp: acm_ok_def)
  have t: "ticking (aTimer s)" "\<not> scheduled (aTimer s)" using ok a False by (simp_all add: acm_ok_def)
  from ticking_start [OF t d] ok a False show ?thesis
    by (cases "timer_scheduleRepeated now acm_task ?d (aTimer s)")
      (auto simp: acm_add_def withp_def seqp_def bindp_def modify_def on_timer_def lift_def acm_ok_def om_wf_Cons)
qed

lemma acm_run_ok:
  assumes ok: "acm_ok s" and live: "aInstance s"
  shows "acm_ok (snd (acm_runTimerTask s)) \<and> active (snd (acm_runTimerTask s)) = active s
    \<and> (\<exists>cs. fst (acm_runTimerTask s) = Inr cs \<and> set cs = active s \<and> distinct cs)"
proof -
  let ?cs = "foldl apply_change (aConnections s) (aChanges s)"
  have wf: "om_wf ?cs" using ok by (intro apply_changes_wf) (simp add: acm_ok_def)
  then have d: "distinct (map fst ?cs)" by (rule om_wf_distinct)
  have t: "ticking (aTimer s)" using ok live by (simp add: acm_ok_def)
  have zero: "acmTimeout (aConfig s) = 0 \<longrightarrow> ?cs = []" using ok by (auto simp: acm_ok_def)
  have was: "?cs \<noteq> [] \<longrightarrow> scheduled (aTimer s)" using ok live by (auto simp: acm_ok_def)
  show ?thesis
  proof (cases "?cs = []")
    case True
    with ticking_cancel [OF t] live ok show ?thesis
      by (cases "timer_cancel acm_task (aTimer s)")
        (auto simp: acm_runTimerTask_def withp_def seqp_def bindp_def modify_def on_timer_def lift_def ret_def acm_ok_def active_def)
  next
    case False
    with live ok wf d zero was t show ?thesis
      by (auto simp: acm_runTimerTask_def withp_def seqp_def bindp_def modify_def ret_def acm_ok_def active_def)
  qed
qed

lemma acm_destroy_ok:
  assumes ok: "acm_ok s"
  shows "fst (acm_destroy now s) = Inr () \<and> acm_ok (snd (acm_destroy now s)) \<and> \<not> aInstance (snd (acm_destroy now s))"
proof (cases "aInstance s \<and> aConnections s \<noteq> []")
  case False
  with ok show ?thesis by (auto simp: acm_destroy_def withp_def ret_def seqp_def bindp_def modify_def acm_ok_def)
next
  case True
  then have t: "ticking (aTimer s)" using ok by (simp add: acm_ok_def)
  obtain t1 where c: "timer_cancel acm_task (aTimer s) = (Inr (scheduled (aTimer s)), t1)" "ticking t1" "\<not> scheduled t1"
    using ticking_cancel [OF t] by (cases "timer_cancel acm_task (aTimer s)") auto
  obtain t2 where "timer_schedule now acm_task 0 t1 = (Inr (), t2)"
    using schedule_token_run [of t1 acm_task 0 now 0] c by (auto simp: timer_schedule_def ticking_def scheduled_def)
  with c True ok show ?thesis
    by (auto simp: acm_destroy_def withp_def ret_def seqp_def bindp_def modify_def on_timer_def lift_def acm_ok_def)
qed

lemma acm_after_ok:
  assumes ok: "acm_ok s" and a: "acm_allowed c s"
  shows "acm_ok (acm_after c s)"
proof (cases c)
  case (AAdd now k)
  with acm_add_ok [OF ok, of now k] a show ?thesis by simp
next
  case (ARemove k)
  with ok a show ?thesis by (auto simp: acm_remove_def withp_def ret_def seqp_def bindp_def modify_def assertp_def acm_ok_def active_def)
next
  case (AReap k)
  with ok show ?thesis by (simp add: acm_reap_def modify_def acm_ok_def)
next
  case (ADestroy now)
  with acm_destroy_ok [OF ok] show ?thesis by simp
next
  case ARun
  have "acm_ok (snd (acm_runTimerTask s))"
  proof (cases "aInstance s")
    case False
    with ok show ?thesis by (auto simp: acm_runTimerTask_def withp_def seqp_def bindp_def modify_def ret_def acm_ok_def)
  qed (use acm_run_ok [OF ok] in simp)
  then have "acm_ok ((snd (acm_runTimerTask s))\<lparr>aEntered := True\<rparr>)" by (simp add: acm_ok_def)
  with ok ARun show ?thesis by simp
next
  case (ATimer now)
  with ok ticking_turn [of "aTimer s" now] show ?thesis by (simp add: acm_ok_def)
next
  case (AOther k)
  with ok ticking_other [of "aTimer s" k] show ?thesis by (simp add: acm_ok_def)
qed


lemma acm_runs_ok: "acm_ok s \<Longrightarrow> allowed_run cs s \<Longrightarrow> acm_ok (acm_run cs s)"
  by (induction cs arbitrary: s) (simp_all add: acm_after_ok)

lemma acm_new_ok: "ticking t \<Longrightarrow> \<not> scheduled t \<Longrightarrow> acmTimeout config = 0 \<or> 2 \<le> acmTimeout config \<Longrightarrow> acm_ok (acm_new config t)"
  by (simp add: acm_ok_def acm_new_def)


lemma timer_new_ticking: "ticking timer_new" "\<not> scheduled timer_new"
  using timer_new_ok by (simp_all add: ticking_def scheduled_def) (simp_all add: timer_new_def)

subsection \<open>The properties\<close>

text \<open>
  C13: the monitor of a factory monitors exactly the connections that have been added and not removed.  After any calls of
  the factory's connections, of the timer's thread and of the other users of the timer, the next run of the timer task
  calls \<open>monitor\<close> on each of these connections once and on no other, although additions and removals are only queued
  while the set is in use; adding and removing change this set at once; and as long as it is not empty the task is
  scheduled in the timer, with a token or in its run.
\<close>

theorem acm_monitors_active:
  assumes "acmTimeout config = 0 \<or> 2 \<le> acmTimeout config" "allowed_run cs (acm_new config timer_new)"
    and "s = acm_run cs (acm_new config timer_new)" "aInstance s"
  shows "(\<exists>ms. fst (acm_runTimerTask s) = Inr ms \<and> set ms = active s \<and> distinct ms)
    \<and> active (snd (acm_runTimerTask s)) = active s
    \<and> (acmTimeout (aConfig s) \<noteq> 0 \<longrightarrow>
         active (snd (acm_add now c s)) = insert c (active s) \<and> active (snd (acm_remove c s)) = active s - {c})
    \<and> (active s \<noteq> {} \<longrightarrow> (\<exists>time. map_of (tmTasks (aTimer s)) acm_task = Some time
         \<and> (map_of (tmTokens (aTimer s)) (time, acm_task) \<noteq> None \<or> repeating (aTimer s) acm_task)))"
proof -
  have ok: "acm_ok s" unfolding assms(3) by (rule acm_runs_ok [OF acm_new_ok [OF timer_new_ticking assms(1)] assms(2)])
  have "\<exists>time. map_of (tmTasks (aTimer s)) acm_task = Some time
      \<and> (map_of (tmTokens (aTimer s)) (time, acm_task) \<noteq> None \<or> repeating (aTimer s) acm_task)" if "active s \<noteq> {}"
  proof -
    have "aConnections s \<noteq> []" using that ok by (auto simp: active_def acm_ok_def)
    then have "scheduled (aTimer s)" "timer_ok (aTimer s)" using ok assms(4) by (simp_all add: acm_ok_def ticking_def)
    then show ?thesis by (auto simp: scheduled_def timer_ok_def tasks_pending_def)
  qed
  with acm_run_ok [OF ok assms(4)] active_add [of s now c] active_remove [of s c] ok assms(4) show ?thesis
    by (auto simp: acm_ok_def)
qed

text \<open>A connection comes and goes, two others come; times are kept small.\<close>

definition demo_acm :: acm_config where
  "demo_acm = \<lparr>acmTimeout = 4, acmHeartbeat = HeartbeatOnDispatch, acmClose = CloseOnInvocation\<rparr>"

theorem acm_monitors_active_witness:
  "let s = acm_run [AAdd 0 1, ATimer 0, AAdd 1 2, AAdd 1 3, ARemove 1] (acm_new demo_acm timer_new) in
     fst (acm_runTimerTask s) = Inr [2, 3] \<and> active s = {2, 3}"
proof -
  let ?cs = "[AAdd 0 1, ATimer 0, AAdd 1 2, AAdd 1 3, ARemove 1]"
  have "allowed_run ?cs (acm_new demo_acm timer_new)" by code_simp
  moreover have "aInstance (acm_run ?cs (acm_new demo_acm timer_new))" by code_simp
  moreover have "2 \<le> acmTimeout demo_acm" by (simp add: demo_acm_def)
  ultimately obtain ms where m: "fst (acm_runTimerTask (acm_run ?cs (acm_new demo_acm timer_new))) = Inr ms"
      "set ms = active (acm_run ?cs (acm_new demo_acm timer_new))"
    using acm_monitors_active [of demo_acm ?cs] by blast
  have "fst (acm_runTimerTask (acm_run ?cs (acm_new demo_acm timer_new))) = Inr [2, 3]" by code_simp
  with m show ?thesis by (auto simp: Let_def)
qed

text \<open>
  A monitor may tick twice as often as it should.  When the last connection goes away, the task cancels itself; a
  connection that is added before the timer's thread has come back from the task schedules it anew, and the timer, which
  finds the task, schedules it once more: there are two repeated tokens for the one task.
\<close>

theorem acm_ticks_twice:
  "let s0 = acm_new demo_acm timer_new;
       cs = [AAdd 0 1, ATimer 0, ATimer 2, ARun, ATimer 2, ATimer 2, ARemove 1, ATimer 4, ARun, AAdd 5 2, ATimer 6, ATimer 6];
       s = acm_run cs s0
   in allowed_run cs s0 \<and> active s = {2}
      \<and> map_of (tmTokens (aTimer s)) (7, acm_task) = Some 2 \<and> map_of (tmTokens (aTimer s)) (8, acm_task) = Some 2"
  by code_simp

end
