(* ===== verification/Spec2Isabelle.thy ===== *)
theory Spec2Isabelle
  imports StreamProps OptionalProps OEncoder CoreProps StringUtilProps Identity PropertiesProps ServantProps
    BatchProps Base64 RoutingTable ConnProps WSWrite ACM
begin

text \<open>
  \<^bold>\<open>A model of the C++ runtime of Ice.\<close>

  Ice is an object-oriented remote procedure call framework.  This development models the core of its
  C++ runtime (cpp/src/Ice, cpp/src/IceUtil and their headers) and parts of the services built on it
  (cpp/src/Glacier2): how values are laid out in messages and read back, how configuration and identities
  are parsed, how requests find their servants, how batches of requests are collected, how a connection runs its
  protocol, and how messages travel over web sockets.

  \<^bold>\<open>Conventions.\<close>  A class is a record of its fields and each of its methods a function from the state to
  the new state; a method that throws gives \<open>Inl\<close> with the exception (\<open>ice_error\<close> in Prelude), and so does a
  failed \<open>assert\<close> (\<open>AssertFailed\<close>) and an access outside an object, which C++ leaves undefined
  (\<open>MemoryError\<close>).  Ice's integers are words of their width.  A \<open>std::map\<close> is an association list in key
  order (OrderedMap), an iterator the key it stands on.  A mutex that is held for a whole method makes the
  method one step; where several threads interleave, the interleavings are a step relation.  Code outside the
  repository is an argument of the definitions that reach it: the memory allocator, string converters,
  generated marshaling code, application callbacks, files and the environment.

  \<^bold>\<open>Layers and theories.\<close>
  \<^item> Prelude: words, errors, sequencing of fallible operations, little-endian layout.  OrderedMap: ordered
    maps and the interface \<open>table\<close>, interpreted on them as \<open>om\<close>.
  \<^item> Container (Buffer.h, Buffer.cpp): the growable byte buffer; the interface \<open>growable_bytes\<close> states what the
    stream writers need of it and is interpreted on the container as \<open>cb\<close>.  Protocol (Protocol.h, Protocol.cpp):
    message headers, flags, versions.  CoreProps: the buffer as a list, its memory policy, version text and
    negotiation.
  \<^item> OStream and OEncoder (OutputStream.h, OutputStream.cpp): primitive writers, encapsulations, optional
    members and the 1.0 and 1.1 encoders of class instances.  IStream (InputStream.h, InputStream.cpp): the
    readers.  Codec: the interfaces \<open>codec\<close> and \<open>fixed_width\<close> that pair a writer with its reader, interpreted on
    every type of the streams, and what each writer lays out.  StreamProps: round trips of message bodies and
    encapsulations, string conversion, the bounds of sequence readers, and two faults.  OptionalProps: a reader
    finds the optional members it knows and skips the others.
  \<^item> StringUtil (IceUtil/StringUtil.cpp): escapes, quotes, wild cards; StringUtilProps: escapes are undone,
    quoted lists are split again, wild cards meet their specification.  Identity (Ice/Initialize.cpp): the text
    form of identities and its round trip.
  \<^item> Properties (PropertiesI.cpp): the property table, the configuration line parser, command lines and files;
    PropertiesProps: escaped lines, the table as a map, three departures from the documentation.
  \<^item> ServantManager (ServantManager.cpp): active servant maps with cached iterators; ServantProps: the
    invariant over all histories and the refinement to a partial map.
  \<^item> BatchQueue (BatchRequestQueue.cpp): the batch queue with its interceptor and automatic flush; BatchProps:
    histories of all interleavings, in which every accepted request is sent once, whole and in order.
  \<^item> Effects: programs with state and exceptions and their weakest preconditions.  ConnState and Connection
    (ConnectionI.h, ConnectionI.cpp): the state of a connection and its operations over an environment that
    stands for the transceiver, bzip2 and the requests' methods.  ConnSteps: histories of calls.  ConnInv: the
    invariant.  ConnSafe, ConnEvents, ConnIO, ConnTurns: what each operation keeps, up to every call of every
    history.  ConnProps: what follows (no assertion fails, no request is lost, closing completes everything, loops end,
    headers are checked, ids cycle, the cached iterator is an optimisation only).
  \<^item> Timer (IceUtil/Timer.h, Timer.cpp): the token queue and the timer's thread; no task is forgotten or late, cancelled
    tasks are not started unless they were scheduled again during their run.  ACM (ACM.h, ACM.cpp): the monitors of
    connections over the timer, which monitor exactly the connections added and not removed.
  \<^item> HttpParser (HttpParser.cpp): the parser of the upgrade messages; HttpProps: its invariant and what it does
    on each part of a message; HttpMessages: whole requests and responses are parsed back.  WSHandshake
    (WSTransceiver.cpp): the upgrade request and response and their checks; client and server agree.
  \<^item> StreamSocket (StreamSocket.cpp): the loops around \<open>recv\<close> and \<open>send\<close> over the answers of the kernel.  WebSocket
    (WSTransceiver.cpp): the transceiver over such a socket, frames in both directions, control frames, closing and
    initialization.  WSRead: the frame reader hands over the payload of the frames (\<open>payload_of\<close>), however the stream is
    cut.  WSWrite: the frame writer puts the frame of the message on the wire (\<open>unsent\<close>); what one side writes the other
    reads; a ping in the middle of a message cuts it off.
  \<^item> Base64 (Base64.cpp): encoder and decoder.  RoutingTable (Glacier2/RoutingTable.cpp): the router's table
    of proxies, a least-recently-used cache.

  \<^bold>\<open>How the parts meet.\<close>  The streams write into the buffer through \<open>growable_bytes\<close>; encapsulations carry the
  versions of Protocol; a batch queue is an output stream that starts with the batch header of Protocol;
  servants are registered under identities, whose text form is escaped with the string utilities, which also
  split the list properties.  The web socket transceiver runs the HTTP parser for its handshake, encodes keys with
  Base64 and moves its bytes through the stream socket.  The model of the connection takes a transceiver whose \<open>write\<close>
  is complete when it returns \<open>SocketOperationNone\<close>; C9 shows this for the web socket while no control frame is due, C12
  that a ping at the wrong moment breaks it.

  \<^bold>\<open>Bounds and fuel.\<close>  The functions that follow the input stream (\<open>readOptImpl\<close>, \<open>skipOptionals\<close>,
  \<open>iendEncapsulation\<close>) take fuel and give \<open>None\<close> without it; C27 shows that one unit per member is enough.
  The loops of a connection take fuel as well; C17 shows that two rounds are enough to read and one for every message
  to write.  The loops of the web socket transceiver are bounded by what lies ahead: \<open>preRead\<close> takes a frame header of two
  bytes per round, \<open>read_fuel\<close> counts the bytes in the socket and in \<open>_readBuffer\<close>, \<open>write_fuel\<close> the bytes of the
  message, and \<open>receive_upgrade\<close> the bytes that arrive; running out of fuel is \<open>MemoryError\<close>, which C8 and C9 exclude for
  reading and writing.  Positions in a message are below 2 GB where the code casts them to \<open>int\<close>; the theorems state it.

  \<^bold>\<open>Not modelled.\<close>  The decoders of class instances in InputStream (an argument of the readers that reach
  them), the connection factories, the threads of the pool, the system calls of the network layer, its proxies and datagrams, the
  asynchronous sockets of Windows and tracing in the transceivers, SHA-1 and the random source (arguments of the
  handshake and the masks), references and endpoints, the Slice compilers,
  IceGrid, IceStorm, IceSSL and the other services; wide strings and proxies in the streams; operating system
  messages, the Windows registry.
\<close>

end
